(* ===== verification/Rmm_Prelude.thy ===== *)
theory Rmm_Prelude
  imports Main "HOL-Library.Word" "HOL-Library.Monad_Syntax"
begin

text \<open>
  Shared vocabulary of the development: the C integer types, the treatment of
  \<^verbatim>\<open>assert\<close>, the register-field and alignment macros of
  \<^verbatim>\<open>src/lib/common/include/utils_def.h\<close>, and the word lemmas the components share.

  Unsigned C integers are words of their width, so that every addition, subtraction
  and shift wraps as the compiled code does. An \<^verbatim>\<open>assert\<close> that fails stops the RMM;
  a function that can fail one returns an \<open>option\<close>, with \<open>None\<close> for the failed
  assertion. Pointers to objects that the callee only reads or updates are passed as
  values, so \<^verbatim>\<open>ptr != NULL\<close> assertions hold by construction and are not repeated.
\<close>

unbundle bit_operations_syntax

subsection \<open>C integer types\<close>

type_synonym u8 = "8 word"
type_synonym u16 = "16 word"
type_synonym u32 = "32 word"
type_synonym u64 = "64 word"

text \<open>\<^verbatim>\<open>~0UL\<close>, the largest 64-bit value.\<close>

abbreviation (input) UINT64_MAX :: u64 where "UINT64_MAX \<equiv> - 1"

text \<open>Error numbers of the C library the RMM is built with; functions return them negated.\<close>

abbreviation (input) EPERM :: int where "EPERM \<equiv> 1"
abbreviation (input) ENOENT :: int where "ENOENT \<equiv> 2"
abbreviation (input) EAGAIN :: int where "EAGAIN \<equiv> 11"
abbreviation (input) EEXIST :: int where "EEXIST \<equiv> 17"
abbreviation (input) EINVAL :: int where "EINVAL \<equiv> 22"
abbreviation (input) ENOSPC :: int where "ENOSPC \<equiv> 28"
abbreviation (input) ERANGE :: int where "ERANGE \<equiv> 34"
abbreviation (input) EOVERFLOW :: int where "EOVERFLOW \<equiv> 139"

subsection \<open>Assertions\<close>

definition c_assert :: "bool \<Rightarrow> unit option" where
  "c_assert b = (if b then Some () else None)"

named_theorems c_defs \<open>unfolding rules for the models of C functions\<close>
named_theorems bit_defs \<open>the bits of the C constants\<close>

lemma c_assert_True [simp]: "c_assert True = Some ()"
  by (simp add: c_assert_def)

lemma c_assert_bind [simp]: "Option.bind (c_assert b) f = (if b then f () else None)"
  by (simp add: c_assert_def)

lemma c_assert_eq_Some [simp]: "c_assert b = Some u \<longleftrightarrow> b"
  by (simp add: c_assert_def)

lemma bind_eq_SomeE:
  assumes "Option.bind m f = Some y"
  obtains x where "m = Some x" "f x = Some y"
  using assms by (cases m) auto

subsection \<open>Register fields (utils_def.h)\<close>

text \<open>
  A register field is the pair of its \<^verbatim>\<open>_SHIFT\<close> and \<^verbatim>\<open>_WIDTH\<close> macros.
\<close>

type_synonym regfield = "nat \<times> nat"

definition INPLACE :: "regfield \<Rightarrow> u64 \<Rightarrow> u64" where
  "INPLACE f val = push_bit (fst f) val"

definition MASK :: "regfield \<Rightarrow> u64" where
  "MASK f = push_bit (fst f) (drop_bit (64 - snd f) (- 1))"

definition EXTRACT :: "regfield \<Rightarrow> u64 \<Rightarrow> u64" where
  "EXTRACT f reg = drop_bit (fst f) (reg AND MASK f)"

definition COMPOSE :: "regfield \<Rightarrow> u64 \<Rightarrow> u64" where
  "COMPOSE f val = push_bit (fst f) (val AND drop_bit (64 - snd f) (- 1))"

definition EXTRACT_BIT :: "regfield \<Rightarrow> u64 \<Rightarrow> u64" where
  "EXTRACT_BIT f reg = drop_bit (fst f) reg AND 1"

definition BIT :: "nat \<Rightarrow> u64" where
  "BIT pos = push_bit pos 1"

definition BIT_MASK_ULL :: "nat \<Rightarrow> nat \<Rightarrow> u64" where
  "BIT_MASK_ULL msb lsb = drop_bit (63 - msb) (- 1) AND push_bit lsb (- 1)"

subsection \<open>Alignment and rounding (utils_def.h)\<close>

definition IS_POWER_OF_TWO :: "u64 \<Rightarrow> bool" where
  "IS_POWER_OF_TWO x \<longleftrightarrow> x \<noteq> 0 \<and> x AND (x - 1) = 0"

definition ALIGNED :: "u64 \<Rightarrow> u64 \<Rightarrow> bool" where
  "ALIGNED sz alignment \<longleftrightarrow> sz mod alignment = 0"

definition round_down :: "u64 \<Rightarrow> u64 \<Rightarrow> u64" where
  "round_down v boundary = v AND NOT (boundary - 1)"

definition round_up :: "u64 \<Rightarrow> u64 \<Rightarrow> u64" where
  "round_up v boundary = ((v - 1) OR (boundary - 1)) + 1"

text \<open>Only 4KB granules are supported (\<^verbatim>\<open>cmake/CommonConfigs.cmake\<close>).\<close>

abbreviation (input) GRANULE_SHIFT :: nat where "GRANULE_SHIFT \<equiv> 12"

definition GRANULE_SIZE :: u64 where
  "GRANULE_SIZE = push_bit GRANULE_SHIFT 1"

definition GRANULE_MASK :: u64 where
  "GRANULE_MASK = NOT (GRANULE_SIZE - 1)"

definition GRANULE_ALIGNED :: "u64 \<Rightarrow> bool" where
  "GRANULE_ALIGNED addr = ALIGNED addr GRANULE_SIZE"

subsection \<open>Bits of the macros\<close>

lemma bit_pow2_word: "bit (push_bit k (1 :: 'a::len word)) n \<longleftrightarrow> n = k \<and> k < LENGTH('a)"
  by (auto simp: bit_exp_iff)

lemma bit_INPLACE [bit_defs]:
  "bit (INPLACE f v) n \<longleftrightarrow> fst f \<le> n \<and> n < 64 \<and> bit v (n - fst f)"
  by (auto simp: INPLACE_def bit_simps)

lemma bit_MASK [bit_defs]:
  "bit (MASK f) n \<longleftrightarrow> fst f \<le> n \<and> n < 64 \<and> n < fst f + snd f"
  by (auto simp: MASK_def bit_simps)

lemma bit_EXTRACT [bit_defs]:
  "bit (EXTRACT f v) n \<longleftrightarrow> n < snd f \<and> n + fst f < 64 \<and> bit v (n + fst f)"
  by (auto simp: EXTRACT_def bit_simps bit_MASK add.commute)

lemma bit_COMPOSE [bit_defs]:
  "bit (COMPOSE f v) n \<longleftrightarrow>
     fst f \<le> n \<and> n < 64 \<and> n < fst f + snd f \<and> bit v (n - fst f)"
  by (auto simp: COMPOSE_def bit_simps)

lemma bit_EXTRACT_BIT [bit_defs]:
  "bit (EXTRACT_BIT f v) n \<longleftrightarrow> n = 0 \<and> bit v (fst f)"
  by (auto simp: EXTRACT_BIT_def bit_simps bit_1_iff)

lemma bit_BIT [bit_defs]: "bit (BIT k) n \<longleftrightarrow> n = k \<and> k < 64"
  unfolding BIT_def by (subst bit_pow2_word) simp

lemma bit_BIT_MASK_ULL [bit_defs]:
  "msb < 64 \<Longrightarrow> bit (BIT_MASK_ULL msb lsb) n \<longleftrightarrow> lsb \<le> n \<and> n \<le> msb"
  by (auto simp: BIT_MASK_ULL_def bit_simps)

text \<open>The small numerals that the field values use.\<close>

lemma bit_small_int [simp]:
  "bit (2 :: int) n \<longleftrightarrow> n = 1"
  "bit (3 :: int) n \<longleftrightarrow> n = 0 \<or> n = 1"
  by (cases n; simp add: bit_Suc bit_1_iff)+

lemma bit_small_numerals [bit_defs]:
  "bit (1 :: u64) n \<longleftrightarrow> n = 0"
  "bit (2 :: u64) n \<longleftrightarrow> n = 1"
  "bit (3 :: u64) n \<longleftrightarrow> n = 0 \<or> n = 1"
  by (auto simp: bit_1_iff)

text \<open>Field extraction and insertion.\<close>

lemma EXTRACT_take_bit: "EXTRACT f v = take_bit (snd f) (drop_bit (fst f) v)"
  by (rule bit_eqI) (auto simp: bit_EXTRACT bit_simps add.commute dest: bit_imp_le_length)

lemma EXTRACT_or: "EXTRACT f (a OR b) = EXTRACT f a OR EXTRACT f b"
  by (rule bit_eqI) (auto simp: bit_defs bit_simps)

lemma EXTRACT_zero [simp]: "EXTRACT f 0 = 0"
  by (rule bit_eqI) (simp add: bit_defs)

lemma unat_ucast_up:
  "LENGTH('a) \<le> LENGTH('b) \<Longrightarrow> unat (ucast (x :: 'a::len word) :: 'b::len word) = unat x"
  by (simp add: unsigned_ucast_eq take_bit_nat_eq_self_iff)
    (rule less_le_trans [OF unsigned_less], simp)

lemma bit_imp_exp_le_unat: "bit v n \<Longrightarrow> 2 ^ n \<le> unat v"
  for v :: "'a::len word"
proof -
  assume "bit v n"
  then have "odd (unat v div 2 ^ n)"
    by (simp add: bit_unsigned_iff flip: bit_iff_odd)
  then have "unat v div 2 ^ n \<noteq> 0" by (metis dvd_0_right)
  then show ?thesis by (simp add: div_eq_0_iff not_less)
qed

lemma bit_unat_less: "unat v < 2 ^ w \<Longrightarrow> bit v n \<Longrightarrow> n < w"
  for v :: "'a::len word"
  using bit_imp_exp_le_unat [of v n]
  by (meson le_less_trans not_less power_increasing one_le_numeral linorder_not_le)

lemma unat_less_if_bits:
  fixes v :: "'a::len word"
  assumes "\<And>n. bit v n \<Longrightarrow> n < w"
  shows "unat v < 2 ^ w"
proof -
  have "take_bit w v = v"
    using assms by (intro bit_eqI) (auto simp: bit_simps)
  then have "unat v = take_bit w (unat v)"
    by (metis unsigned_take_bit_eq)
  then show ?thesis
    by (metis take_bit_nat_less_exp)
qed

lemma unat_less_exp_iff: "unat v < 2 ^ w \<longleftrightarrow> (\<forall>n. bit v n \<longrightarrow> n < w)"
  for v :: "'a::len word"
  using bit_unat_less unat_less_if_bits by blast

lemma EXTRACT_INPLACE_same:
  assumes "unat v < 2 ^ w" and "sh + w \<le> 64"
  shows "EXTRACT (sh, w) (INPLACE (sh, w) v) = v"
  using assms(2) bit_unat_less [OF assms(1)]
  by (intro bit_eqI) (fastforce simp: bit_defs)

lemma EXTRACT_INPLACE_other:
  assumes "unat v < 2 ^ w" and "sh + w \<le> sh' \<or> sh' + w' \<le> sh"
  shows "EXTRACT (sh', w') (INPLACE (sh, w) v) = 0"
  using assms(2) bit_unat_less [OF assms(1)]
  by (intro bit_eqI) (force simp: bit_defs)

text \<open>Comparing a masked word with a constant is a condition on the mask's bits.\<close>

lemma and_eq_bits:
  fixes x m v :: "'a::len word"
  assumes "\<And>n. bit m n \<longleftrightarrow> n \<in> set ns" and "\<And>n. bit v n \<Longrightarrow> n \<in> set ns"
  shows "x AND m = v \<longleftrightarrow> (\<forall>n \<in> set ns. bit x n = bit v n)"
proof -
  have "n < LENGTH('a)" if "n \<in> set ns" for n
    using that assms(1) bit_imp_le_length by blast
  then show ?thesis
    using assms by (auto simp: bit_eq_iff bit_simps)
qed

lemma and_0_iff: "x AND m = 0 \<longleftrightarrow> (\<forall>n. bit m n \<longrightarrow> \<not> bit x n)"
  for x m :: "'a::len word"
  by (auto simp: bit_eq_iff bit_simps dest: bit_imp_le_length)

lemma eq_and_mask_bits: "x = (x AND m) \<longleftrightarrow> (\<forall>n. bit x n \<longrightarrow> bit m n)"
  for x m :: "'a::len word"
  by (metis bit_and_iff bit_word_eqI)

lemma EXTRACT_2_eq_iff:
  assumes "sh + 2 \<le> 64"
  shows "EXTRACT (sh, 2) t = v \<longleftrightarrow>
    (\<forall>n. bit v n \<longrightarrow> n < 2) \<and> bit v 0 = bit t sh \<and> bit v 1 = bit t (Suc sh)"
proof
  assume "EXTRACT (sh, 2) t = v"
  then show "(\<forall>n. bit v n \<longrightarrow> n < 2) \<and> bit v 0 = bit t sh \<and> bit v 1 = bit t (Suc sh)"
    using assms by (auto simp: bit_EXTRACT)
next
  assume v: "(\<forall>n. bit v n \<longrightarrow> n < 2) \<and> bit v 0 = bit t sh \<and> bit v 1 = bit t (Suc sh)"
  show "EXTRACT (sh, 2) t = v"
  proof (rule bit_word_eqI)
    fix n :: nat
    consider "n = 0" | "n = 1" | "2 \<le> n" by linarith
    then show "bit (EXTRACT (sh, 2) t) n = bit v n"
      using v assms by cases (auto simp: bit_EXTRACT not_less [symmetric])
  qed
qed

lemma EXTRACT_3_eq_iff:
  assumes "sh + 3 \<le> 64"
  shows "EXTRACT (sh, 3) t = v \<longleftrightarrow>
    (\<forall>n. bit v n \<longrightarrow> n < 3) \<and> bit v 0 = bit t sh \<and> bit v 1 = bit t (Suc sh) \<and> bit v 2 = bit t (sh + 2)"
proof
  assume "EXTRACT (sh, 3) t = v"
  then show "(\<forall>n. bit v n \<longrightarrow> n < 3) \<and> bit v 0 = bit t sh \<and> bit v 1 = bit t (Suc sh) \<and> bit v 2 = bit t (sh + 2)"
    using assms by (auto simp: bit_EXTRACT)
next
  assume v: "(\<forall>n. bit v n \<longrightarrow> n < 3) \<and> bit v 0 = bit t sh \<and> bit v 1 = bit t (Suc sh) \<and> bit v 2 = bit t (sh + 2)"
  show "EXTRACT (sh, 3) t = v"
  proof (rule bit_word_eqI)
    fix n :: nat
    consider "n = 0" | "n = 1" | "n = 2" | "3 \<le> n" by linarith
    then show "bit (EXTRACT (sh, 3) t) n = bit v n"
      using v assms by cases (auto simp: bit_EXTRACT not_less [symmetric])
  qed
qed

lemma EXTRACT_2_le_2: "sh + 2 \<le> 64 \<Longrightarrow> EXTRACT (sh, 2) t \<le> 2 \<longleftrightarrow> \<not> (bit t sh \<and> bit t (Suc sh))"
proof -
  assume a: "sh + 2 \<le> 64"
  have "unat (EXTRACT (sh, 2) t) < 2 ^ 2"
    by (rule unat_less_if_bits) (simp add: bit_EXTRACT)
  then have "EXTRACT (sh, 2) t \<le> 2 \<longleftrightarrow> EXTRACT (sh, 2) t \<noteq> 3"
    by (auto simp: word_le_nat_alt word_unat_eq_iff)
  then show ?thesis by (auto simp: EXTRACT_2_eq_iff [OF a])
qed

lemma EXTRACT_3_le_3: "sh + 3 \<le> 64 \<Longrightarrow> EXTRACT (sh, 3) t \<le> 3 \<longleftrightarrow> \<not> bit t (sh + 2)"
proof -
  assume a: "sh + 3 \<le> 64"
  have "EXTRACT (sh, 3) t \<le> 3 \<longleftrightarrow> unat (EXTRACT (sh, 3) t) < 2 ^ 2"
    by (auto simp: word_le_nat_alt)
  also have "\<dots> \<longleftrightarrow> (\<forall>n. n < 3 \<and> bit t (n + sh) \<longrightarrow> n < 2)"
    unfolding unat_less_exp_iff using a by (auto simp: bit_EXTRACT)
  also have "\<dots> \<longleftrightarrow> \<not> bit t (sh + 2)"
  proof
    assume "\<forall>n. n < 3 \<and> bit t (n + sh) \<longrightarrow> n < 2"
    from this [rule_format, of 2] show "\<not> bit t (sh + 2)" by (auto simp: add.commute)
  next
    assume "\<not> bit t (sh + 2)"
    then have "n \<noteq> 2" if "bit t (n + sh)" for n using that by (auto simp: add.commute)
    then show "\<forall>n. n < 3 \<and> bit t (n + sh) \<longrightarrow> n < 2" by (metis less_antisym numeral_3_eq_3 numeral_2_eq_2)
  qed
  finally show ?thesis .
qed

subsection \<open>Alignment to powers of two\<close>

lemma take_bit_eq_0_bits: "take_bit k v = 0 \<longleftrightarrow> (\<forall>n < k. \<not> bit v n)"
  for v :: "'a::len word"
  by (auto simp: bit_eq_iff bit_simps dest: bit_imp_le_length)

lemma drop_bit_eq_0_bits: "drop_bit k x = 0 \<longleftrightarrow> (\<forall>n. bit x n \<longrightarrow> n < k)" for x :: "'a::len word"
proof -
  have "drop_bit k x = 0 \<longleftrightarrow> (\<forall>n. \<not> bit x (k + n))"
    by (auto simp: bit_eq_iff bit_simps) (use bit_imp_le_length in fastforce)
  then show ?thesis
    by (metis le_add_diff_inverse not_le add.commute not_add_less1)
qed

lemma ALIGNED_exp: "ALIGNED v (2 ^ k) \<longleftrightarrow> (\<forall>n < k. \<not> bit v n)"
  by (simp add: ALIGNED_def take_bit_eq_0_bits flip: take_bit_eq_mod)

lemma GRANULE_SIZE_eq: "GRANULE_SIZE = 2 ^ 12"
  by (simp add: GRANULE_SIZE_def)

lemma GRANULE_SIZE_4096 [simp]: "GRANULE_SIZE = 4096"
  by (simp add: GRANULE_SIZE_def)

lemma GRANULE_ALIGNED_bits: "GRANULE_ALIGNED v \<longleftrightarrow> (\<forall>n < 12. \<not> bit v n)"
  unfolding GRANULE_ALIGNED_def GRANULE_SIZE_eq by (rule ALIGNED_exp)

lemma ALIGNED_unat: "ALIGNED v (2 ^ k) \<longleftrightarrow> 2 ^ k dvd unat v"
proof -
  have "unat (take_bit k v) = unat v mod 2 ^ k"
    unfolding unsigned_take_bit_eq by (rule take_bit_eq_mod)
  then show ?thesis
    by (simp add: ALIGNED_def dvd_eq_mod_eq_0 unat_eq_0 [symmetric] flip: take_bit_eq_mod)
qed

lemma push_drop_aligned:
  fixes a :: "'a::len word"
  assumes "\<forall>n < k. \<not> bit a n"
  shows "push_bit k (drop_bit k a) = a"
proof (rule bit_word_eqI)
  fix n assume "n < LENGTH('a)"
  moreover have "bit a n \<longrightarrow> k \<le> n" using assms by (auto simp: not_less [symmetric])
  ultimately show "bit (push_bit k (drop_bit k a)) n = bit a n"
    by (cases "k \<le> n") (auto simp: bit_push_bit_iff bit_drop_bit_eq)
qed

lemma exp_minus_1_eq_mask: "(2 :: 'a::len word) ^ k - 1 = mask k"
  by (simp add: mask_eq_exp_minus_1)

lemma round_down_exp: "round_down v (2 ^ k) = push_bit k (drop_bit k v)"
  unfolding round_down_def exp_minus_1_eq_mask
  by (rule bit_eqI) (auto simp: bit_simps)

lemma unat_round_down_exp: "unat (round_down v (2 ^ k)) = unat v div 2 ^ k * 2 ^ k"
proof -
  have "unat (push_bit k (drop_bit k v)) = take_bit 64 (push_bit k (drop_bit k (unat v)))"
    by (simp add: unsigned_push_bit_eq unat_drop_bit_eq)
  also have "\<dots> = unat v div 2 ^ k * 2 ^ k"
    using unsigned_less [of v, where 'a = nat]
    by (simp add: push_bit_eq_mult drop_bit_eq_div take_bit_nat_eq_self_iff)
      (meson div_times_less_eq_dividend le_less_trans)
  finally show ?thesis by (simp add: round_down_exp)
qed

lemma EXTRACT_COMPOSE_same:
  "unat v < 2 ^ w \<Longrightarrow> sh + w \<le> 64 \<Longrightarrow> EXTRACT (sh, w) (COMPOSE (sh, w) v) = v"
  using bit_unat_less [of v w] by (intro bit_eqI) (fastforce simp: bit_defs)

lemma EXTRACT_COMPOSE_other:
  assumes "sh + w \<le> sh' \<or> sh' + w' \<le> sh"
  shows "EXTRACT (sh, w) (COMPOSE (sh', w') v) = 0"
  using assms by (intro bit_eqI) (auto simp: bit_defs)

lemma unat_lt2p_64: "unat v < 2 ^ 64" for v :: u64
  using unsigned_less [of v, where 'a = nat] by simp

lemma unat_drop_12: "unat (drop_bit 12 v) = unat v div 4096" for v :: u64
  unfolding unat_drop_bit_eq unfolding drop_bit_eq_div by simp

lemma unat_push_bit_nat:
  "unat v * 2 ^ k < 2 ^ 64 \<Longrightarrow> unat (push_bit k v) = unat v * 2 ^ k" for v :: u64
  unfolding unsigned_push_bit_eq unfolding push_bit_eq_mult by (simp add: take_bit_eq_mod)

lemma unat_min_word: "unat (min a b) = min (unat a) (unat b)" for a b :: u64
  by (simp add: min_def word_le_nat_alt)

subsection \<open>Arithmetic on the low field of a word\<close>

lemma low_field_add:
  fixes d v :: "'a::len word"
  assumes "unat (take_bit r d) + unat v < 2 ^ r" "r < LENGTH('a)"
  shows "take_bit r (d + v) = take_bit r d + v" "drop_bit r (d + v) = drop_bit r d"
proof -
  let ?q = "unat d div 2 ^ r"
  let ?m = "unat d mod 2 ^ r"
  have m: "unat (take_bit r d) = ?m"
    unfolding unsigned_take_bit_eq unfolding take_bit_eq_mod ..
  have split: "unat d = ?q * 2 ^ r + ?m" by (rule div_mult_mod_eq [symmetric])
  have lt: "unat d < 2 ^ LENGTH('a)" by (rule unsigned_less)
  have p: "(2::nat) ^ LENGTH('a) = 2 ^ (LENGTH('a) - r) * 2 ^ r"
    using assms(2) by (simp flip: power_add)
  then have "?q < 2 ^ (LENGTH('a) - r)" using lt by (simp add: less_mult_imp_div_less)
  then have "Suc ?q * 2 ^ r \<le> 2 ^ LENGTH('a)" unfolding p by (intro mult_le_mono1) simp
  then have nov: "unat d + unat v < 2 ^ LENGTH('a)"
    using assms(1) m split by (simp add: mult_Suc)
  then have u: "unat (d + v) = ?q * 2 ^ r + (?m + unat v)"
    using split by (simp add: unat_word_ariths)
  have "unat (drop_bit r (d + v)) = unat (drop_bit r d)"
    unfolding unat_drop_bit_eq unfolding drop_bit_eq_div u using assms(1) m by simp
  then show "drop_bit r (d + v) = drop_bit r d" by (simp only: word_unat_eq_iff)
  have "unat (take_bit r (d + v)) = (?m + unat v)"
    unfolding unsigned_take_bit_eq unfolding take_bit_eq_mod u using assms(1) m by simp
  moreover have "unat (take_bit r d + v) = ?m + unat v"
    using nov m split by (simp add: unat_word_ariths)
  ultimately show "take_bit r (d + v) = take_bit r d + v" by (simp only: word_unat_eq_iff)
qed

lemma low_field_sub:
  fixes d v :: "'a::len word"
  assumes "v \<le> take_bit r d"
  shows "take_bit r (d + (- v)) = take_bit r d - v" "drop_bit r (d + (- v)) = drop_bit r d"
proof -
  let ?q = "unat d div 2 ^ r"
  let ?m = "unat d mod 2 ^ r"
  have m: "unat (take_bit r d) = ?m"
    unfolding unsigned_take_bit_eq unfolding take_bit_eq_mod ..
  have v: "unat v \<le> ?m" using assms by (simp only: word_le_nat_alt m)
  have split: "unat d = ?q * 2 ^ r + ?m" by (rule div_mult_mod_eq [symmetric])
  have "unat v \<le> unat d" using v split by linarith
  then have u: "unat (d + (- v)) = ?q * 2 ^ r + (?m - unat v)"
    using v split by (simp add: unat_sub word_le_nat_alt)
  have lt: "?m - unat v < 2 ^ r" by (simp add: less_imp_diff_less)
  have "unat (drop_bit r (d + (- v))) = unat (drop_bit r d)"
    unfolding unat_drop_bit_eq unfolding drop_bit_eq_div u using lt by simp
  then show "drop_bit r (d + (- v)) = drop_bit r d" by (simp only: word_unat_eq_iff)
  have "unat (take_bit r (d + (- v))) = ?m - unat v"
    unfolding unsigned_take_bit_eq unfolding take_bit_eq_mod u using lt by simp
  moreover have "unat (take_bit r d - v) = ?m - unat v"
    using assms m by (simp add: unat_sub)
  ultimately show "take_bit r (d + (- v)) = take_bit r d - v" by (simp only: word_unat_eq_iff)
qed

lemma unat_exp: "k < LENGTH('a) \<Longrightarrow> unat ((2 :: 'a::len word) ^ k) = 2 ^ k"
  using unsigned_of_nat [where 'a = nat and 'b = 'a, of "2 ^ k"] by (simp add: take_bit_eq_mod)

lemma take_bit_add_take_bit:
  fixes a b :: "'a::len word"
  assumes "k \<le> LENGTH('a)"
  shows "take_bit k (take_bit k a + b) = take_bit k (a + b)"
proof -
  have d: "(2::nat) ^ k dvd 2 ^ LENGTH('a)" using assms by (rule le_imp_power_dvd)
  have "unat (take_bit k (take_bit k a + b)) = unat (take_bit k (a + b))"
    unfolding unsigned_take_bit_eq unat_word_ariths unfolding take_bit_eq_mod
    unfolding mod_mod_cancel [OF d] by (simp add: mod_simps unsigned_take_bit_eq take_bit_eq_mod)
  then show ?thesis by (simp only: word_unat_eq_iff)
qed

subsection \<open>Arrays\<close>

text \<open>An access outside an array is \<open>None\<close>.\<close>

definition arr_get :: "'a list \<Rightarrow> nat \<Rightarrow> 'a option" where
  "arr_get xs i = (if i < length xs then Some (xs ! i) else None)"

definition arr_set :: "'a list \<Rightarrow> nat \<Rightarrow> 'a \<Rightarrow> 'a list option" where
  "arr_set xs i v = (if i < length xs then Some (xs[i := v]) else None)"

lemma arr_get_in [simp]: "i < length xs \<Longrightarrow> arr_get xs i = Some (xs ! i)"
  by (simp add: arr_get_def)

lemma arr_set_in [simp]: "i < length xs \<Longrightarrow> arr_set xs i v = Some (xs[i := v])"
  by (simp add: arr_set_def)

end
