(* ===== verification/Rmi_Status.thy ===== *)
theory Rmi_Status
  imports Rmm_Prelude
begin

text \<open>
  The RMI result word: \<^verbatim>\<open>src/lib/common/include/status.h\<close> over the status codes and
  field layout of \<^verbatim>\<open>src/lib/smc/include/smc-rmi.h\<close>. The logical representation
  \<^verbatim>\<open>return_code_t\<close> is packed into the 64-bit value handed back in \<^verbatim>\<open>x0\<close> and
  unpacked from it; the two directions are shown to be inverse to each other.
\<close>

subsection \<open>Status codes and fields (smc-rmi.h)\<close>

abbreviation (input) RMI_SUCCESS :: "'a::len word" where "RMI_SUCCESS \<equiv> 0"
abbreviation (input) RMI_ERROR_INPUT :: "'a::len word" where "RMI_ERROR_INPUT \<equiv> 1"
abbreviation (input) RMI_ERROR_REALM :: "'a::len word" where "RMI_ERROR_REALM \<equiv> 2"
abbreviation (input) RMI_ERROR_REC :: "'a::len word" where "RMI_ERROR_REC \<equiv> 3"
abbreviation (input) RMI_ERROR_RTT :: "'a::len word" where "RMI_ERROR_RTT \<equiv> 4"
abbreviation (input) RMI_ERROR_NOT_SUPPORTED :: "'a::len word" where "RMI_ERROR_NOT_SUPPORTED \<equiv> 5"
abbreviation (input) RMI_ERROR_DEVICE :: "'a::len word" where "RMI_ERROR_DEVICE \<equiv> 6"
abbreviation (input) RMI_ERROR_RTT_AUX :: "'a::len word" where "RMI_ERROR_RTT_AUX \<equiv> 7"
abbreviation (input) RMI_ERROR_PSMMU_ST :: "'a::len word" where "RMI_ERROR_PSMMU_ST \<equiv> 8"
abbreviation (input) RMI_ERROR_DPT :: "'a::len word" where "RMI_ERROR_DPT \<equiv> 9"
abbreviation (input) RMI_BUSY :: "'a::len word" where "RMI_BUSY \<equiv> 10"
abbreviation (input) RMI_ERROR_GLOBAL :: "'a::len word" where "RMI_ERROR_GLOBAL \<equiv> 11"
abbreviation (input) RMI_ERROR_TRACKING :: "'a::len word" where "RMI_ERROR_TRACKING \<equiv> 12"
abbreviation (input) RMI_INCOMPLETE :: "'a::len word" where "RMI_INCOMPLETE \<equiv> 13"
abbreviation (input) RMI_BLOCKED :: "'a::len word" where "RMI_BLOCKED \<equiv> 14"
abbreviation (input) RMI_ERROR_GPT :: "'a::len word" where "RMI_ERROR_GPT \<equiv> 15"
abbreviation (input) RMI_ERROR_GRANULE :: "'a::len word" where "RMI_ERROR_GRANULE \<equiv> 16"
abbreviation (input) RMI_ERROR_COUNT_MAX :: "'a::len word" where "RMI_ERROR_COUNT_MAX \<equiv> 17"

abbreviation RMI_RESULT_STATUS :: regfield where "RMI_RESULT_STATUS \<equiv> (0, 8)"
abbreviation RMI_RESULT_LEVEL :: regfield where "RMI_RESULT_LEVEL \<equiv> (8, 8)"
abbreviation RMI_RESULT_ADDR :: regfield where "RMI_RESULT_ADDR \<equiv> (16, 40)"
abbreviation RMI_OP_MEM_REQ :: regfield where "RMI_OP_MEM_REQ \<equiv> (8, 2)"
abbreviation RMI_OP_CAN_CANCEL_BIT :: regfield where "RMI_OP_CAN_CANCEL_BIT \<equiv> (10, 1)"

abbreviation (input) RMI_OP_MEM_REQ_NONE :: "'a::len word" where "RMI_OP_MEM_REQ_NONE \<equiv> 0"
abbreviation (input) RMI_OP_MEM_REQ_DONATE :: "'a::len word" where "RMI_OP_MEM_REQ_DONATE \<equiv> 1"
abbreviation (input) RMI_OP_MEM_REQ_RECLAIM :: "'a::len word" where "RMI_OP_MEM_REQ_RECLAIM \<equiv> 2"
abbreviation (input) RMI_OP_CANNOT_CANCEL :: "'a::len word" where "RMI_OP_CANNOT_CANCEL \<equiv> 0"
abbreviation (input) RMI_OP_CAN_CANCEL :: "'a::len word" where "RMI_OP_CAN_CANCEL \<equiv> 1"

subsection \<open>The logical result\<close>

text \<open>
  The union member last written. All three structs start with one \<^verbatim>\<open>unsigned char\<close>, so
  that byte can be read through any of them; a read of bytes the active member does not
  hold has no specified value and is \<open>None\<close>.
\<close>

datatype rmi_result_data =
    Data_incomplete (mem: u8) (cancel: u8)
  | Data_level u8
  | Data_level_addr u8 u64

record return_code_t =
  status :: u8
  data :: rmi_result_data

fun data_first_byte :: "rmi_result_data \<Rightarrow> u8" where
  "data_first_byte (Data_incomplete m c) = m"
| "data_first_byte (Data_level l) = l"
| "data_first_byte (Data_level_addr l a) = l"

fun data_cancel :: "rmi_result_data \<Rightarrow> u8 option" where
  "data_cancel (Data_incomplete m c) = Some c"
| "data_cancel _ = None"

fun data_addr :: "rmi_result_data \<Rightarrow> u64 option" where
  "data_addr (Data_level_addr l a) = Some a"
| "data_addr _ = None"

definition make_return_code :: "u32 \<Rightarrow> return_code_t" where
  "make_return_code st = \<lparr>status = ucast st, data = Data_incomplete 0 0\<rparr>"

definition make_return_code_level :: "u32 \<Rightarrow> u8 \<Rightarrow> return_code_t option" where
  "make_return_code_level st level = do {
     c_assert (st = RMI_ERROR_RTT \<or> st = RMI_ERROR_RTT_AUX \<or> st = RMI_ERROR_PSMMU_ST);
     Some ((make_return_code st)\<lparr>data := Data_level level\<rparr>)
   }"

definition make_return_code_level_addr :: "u32 \<Rightarrow> u8 \<Rightarrow> u64 \<Rightarrow> return_code_t option" where
  "make_return_code_level_addr st level addr = do {
     c_assert (st = RMI_ERROR_DPT \<or> st = RMI_ERROR_GPT \<or> st = RMI_ERROR_TRACKING);
     c_assert (ALIGNED addr GRANULE_SIZE);
     c_assert (drop_bit GRANULE_SHIFT addr < push_bit (snd RMI_RESULT_ADDR) 1);
     Some ((make_return_code st)\<lparr>data := Data_level_addr level addr\<rparr>)
   }"

definition make_return_code_incomplete :: "u64 \<Rightarrow> u64 \<Rightarrow> return_code_t option" where
  "make_return_code_incomplete m c = do {
     c_assert (m \<le> RMI_OP_MEM_REQ_RECLAIM);
     c_assert (c \<le> RMI_OP_CAN_CANCEL);
     Some ((make_return_code RMI_INCOMPLETE)\<lparr>data := Data_incomplete (ucast m) (ucast c)\<rparr>)
   }"

subsection \<open>The wire format\<close>

definition pack_struct_return_code :: "return_code_t \<Rightarrow> u64 option" where
  "pack_struct_return_code return_code = (
     let st = status return_code; d = data return_code;
         result = INPLACE RMI_RESULT_STATUS (ucast st) in do {
       c_assert (st < RMI_ERROR_COUNT_MAX);
       if st = RMI_INCOMPLETE then do {
         c \<leftarrow> data_cancel d;
         c_assert (data_first_byte d \<le> RMI_OP_MEM_REQ_RECLAIM);
         c_assert (c \<le> RMI_OP_CAN_CANCEL);
         Some (result OR INPLACE RMI_OP_MEM_REQ (ucast (data_first_byte d))
                      OR INPLACE RMI_OP_CAN_CANCEL_BIT (ucast c))
       } else if st = RMI_ERROR_RTT \<or> st = RMI_ERROR_RTT_AUX \<or> st = RMI_ERROR_PSMMU_ST then
         Some (result OR INPLACE RMI_RESULT_LEVEL (ucast (data_first_byte d)))
       else if st = RMI_ERROR_DPT \<or> st = RMI_ERROR_GPT \<or> st = RMI_ERROR_TRACKING then do {
         addr \<leftarrow> data_addr d;
         c_assert (ALIGNED addr GRANULE_SIZE);
         c_assert (drop_bit GRANULE_SHIFT addr < push_bit (snd RMI_RESULT_ADDR) 1);
         Some (result OR INPLACE RMI_RESULT_LEVEL (ucast (data_first_byte d))
                      OR INPLACE RMI_RESULT_ADDR (drop_bit GRANULE_SHIFT addr))
       } else Some result
     })"

definition pack_return_code_level :: "u32 \<Rightarrow> u8 \<Rightarrow> u64 option" where
  "pack_return_code_level st level =
     Option.bind (make_return_code_level st level) pack_struct_return_code"

definition pack_return_code_level_addr :: "u32 \<Rightarrow> u8 \<Rightarrow> u64 \<Rightarrow> u64 option" where
  "pack_return_code_level_addr st level addr =
     Option.bind (make_return_code_level_addr st level addr) pack_struct_return_code"

definition pack_return_code_incomplete :: "u64 \<Rightarrow> u64 \<Rightarrow> u64 option" where
  "pack_return_code_incomplete m c =
     Option.bind (make_return_code_incomplete m c) pack_struct_return_code"

definition unpack_return_code :: "u64 \<Rightarrow> return_code_t" where
  "unpack_return_code error_code = (
     let st = ucast (EXTRACT RMI_RESULT_STATUS error_code) :: u32;
         return_code = make_return_code st in
     if st = RMI_INCOMPLETE then
       return_code\<lparr>data := Data_incomplete
          (ucast (EXTRACT RMI_OP_MEM_REQ error_code))
          (ucast (EXTRACT RMI_OP_CAN_CANCEL_BIT error_code))\<rparr>
     else if st = RMI_ERROR_RTT \<or> st = RMI_ERROR_RTT_AUX \<or> st = RMI_ERROR_PSMMU_ST then
       return_code\<lparr>data := Data_level (ucast (EXTRACT RMI_RESULT_LEVEL error_code))\<rparr>
     else if st = RMI_ERROR_DPT \<or> st = RMI_ERROR_GPT \<or> st = RMI_ERROR_TRACKING then
       return_code\<lparr>data := Data_level_addr
          (ucast (EXTRACT RMI_RESULT_LEVEL error_code))
          (push_bit GRANULE_SHIFT (EXTRACT RMI_RESULT_ADDR error_code))\<rparr>
     else return_code)"

subsection \<open>Well-formed results\<close>

text \<open>
  The member selected by the status is the active one and its values fit their fields;
  this is what the constructors above produce.
\<close>

fun wf_data :: "u8 \<Rightarrow> rmi_result_data \<Rightarrow> bool" where
  "wf_data st (Data_incomplete m c) \<longleftrightarrow>
     (if st = RMI_INCOMPLETE then m \<le> RMI_OP_MEM_REQ_RECLAIM \<and> c \<le> RMI_OP_CAN_CANCEL
      else m = 0 \<and> c = 0 \<and> st \<notin> {RMI_ERROR_RTT, RMI_ERROR_RTT_AUX, RMI_ERROR_PSMMU_ST,
             RMI_ERROR_DPT, RMI_ERROR_GPT, RMI_ERROR_TRACKING})"
| "wf_data st (Data_level l) \<longleftrightarrow> st \<in> {RMI_ERROR_RTT, RMI_ERROR_RTT_AUX, RMI_ERROR_PSMMU_ST}"
| "wf_data st (Data_level_addr l a) \<longleftrightarrow>
     st \<in> {RMI_ERROR_DPT, RMI_ERROR_GPT, RMI_ERROR_TRACKING} \<and>
     GRANULE_ALIGNED a \<and> unat a < 2 ^ 52"

definition wf_return_code :: "return_code_t \<Rightarrow> bool" where
  "wf_return_code rc \<longleftrightarrow> status rc < RMI_ERROR_COUNT_MAX \<and> wf_data (status rc) (data rc)"

lemma drop_bit_12_less: "drop_bit 12 a < (push_bit 40 1 :: u64) \<longleftrightarrow> unat a < 2 ^ 52"
proof -
  have "drop_bit 12 a < (push_bit 40 1 :: u64) \<longleftrightarrow> unat (drop_bit 12 a) < 2 ^ 40"
    by (simp add: word_less_nat_alt)
  also have "\<dots> \<longleftrightarrow> unat a div 2 ^ 12 < 2 ^ 40"
    by (metis unat_drop_bit_eq drop_bit_eq_div)
  also have "\<dots> \<longleftrightarrow> unat a < 2 ^ 52" by (auto simp: div_less_iff_less_mult)
  finally show ?thesis .
qed

lemma le_2_bits: "x \<le> 2 \<Longrightarrow> bit x n \<Longrightarrow> n < 2" for x :: u8
  by (rule bit_unat_less [of x 2]) (auto simp: word_le_nat_alt)

lemma le_1_bits: "x \<le> 1 \<Longrightarrow> bit x n \<Longrightarrow> n < 1" for x :: u8
  by (rule bit_unat_less [of x 1]) (auto simp: word_le_nat_alt)

lemmas status_bit_simps = bit_defs bit_simps bit_ucast_iff

text \<open>The status field of a packed word, whatever the data above bit 8.\<close>

lemma status_field:
  assumes "\<And>n. bit d n \<Longrightarrow> 8 \<le> n"
  shows "EXTRACT RMI_RESULT_STATUS (INPLACE RMI_RESULT_STATUS (ucast (st :: u8)) OR d) = ucast st"
  using assms by (intro bit_eqI) (fastforce simp: status_bit_simps dest: bit_imp_le_length)

lemma ucast_u8_u32_eq [simp]:
  "ucast (ucast (st :: u8) :: u64) = (ucast st :: u32)"
  "ucast (ucast (st :: u8) :: u32) = st"
  "ucast (ucast (st :: u8) :: u64) = st"
  by (rule bit_eqI; auto simp: bit_simps bit_ucast_iff dest: bit_imp_le_length)+

lemma ucast_u8_eq_iff: "(ucast (st :: u8) :: u32) = ucast k \<longleftrightarrow> st = k"
  by (metis ucast_u8_u32_eq(2))

lemma ucast_u8_u64_eq_iff: "(ucast (st :: u8) :: u64) = ucast k \<longleftrightarrow> st = k"
  by (metis ucast_u8_u32_eq(3))

lemma ucast_u8_u64_less_iff: "(ucast (st :: u8) :: u64) < ucast (k :: u8) \<longleftrightarrow> st < k"
  by (simp add: word_less_nat_alt unat_ucast_up)

lemma ucast_status_eq [simp]:
  "(ucast (st :: u8) :: u32) = 4 \<longleftrightarrow> st = 4"
  "(ucast st :: u32) = 7 \<longleftrightarrow> st = 7"
  "(ucast st :: u32) = 8 \<longleftrightarrow> st = 8"
  "(ucast st :: u32) = 9 \<longleftrightarrow> st = 9"
  "(ucast st :: u32) = 12 \<longleftrightarrow> st = 12"
  "(ucast st :: u32) = 13 \<longleftrightarrow> st = 13"
  "(ucast st :: u32) = 15 \<longleftrightarrow> st = 15"
  using ucast_u8_eq_iff [of st 4] ucast_u8_eq_iff [of st 7] ucast_u8_eq_iff [of st 8]
    ucast_u8_eq_iff [of st 9] ucast_u8_eq_iff [of st 12] ucast_u8_eq_iff [of st 13]
    ucast_u8_eq_iff [of st 15]
  by simp_all

text \<open>The data fields of a packed word.\<close>

lemma incomplete_fields:
  fixes st m c :: u8
  assumes "m \<le> 2" and "c \<le> 1"
  defines "w \<equiv> INPLACE RMI_RESULT_STATUS (ucast st) OR INPLACE RMI_OP_MEM_REQ (ucast m)
                 OR INPLACE RMI_OP_CAN_CANCEL_BIT (ucast c)"
  shows "EXTRACT RMI_RESULT_STATUS w = ucast st"
    and "EXTRACT RMI_OP_MEM_REQ w = ucast m"
    and "EXTRACT RMI_OP_CAN_CANCEL_BIT w = ucast c"
  unfolding w_def
  by (rule bit_eqI; use le_2_bits [OF assms(1)] le_1_bits [OF assms(2)] in
      \<open>fastforce simp: status_bit_simps dest: bit_imp_le_length\<close>)+

lemma level_fields:
  fixes st l :: u8
  defines "w \<equiv> INPLACE RMI_RESULT_STATUS (ucast st) OR INPLACE RMI_RESULT_LEVEL (ucast l)"
  shows "EXTRACT RMI_RESULT_STATUS w = ucast st"
    and "EXTRACT RMI_RESULT_LEVEL w = ucast l"
  unfolding w_def
  by (rule bit_eqI; fastforce simp: status_bit_simps dest: bit_imp_le_length)+

lemma level_addr_fields:
  fixes st l :: u8
  assumes "GRANULE_ALIGNED a" and "unat a < 2 ^ 52"
  defines "w \<equiv> INPLACE RMI_RESULT_STATUS (ucast st) OR INPLACE RMI_RESULT_LEVEL (ucast l)
                 OR INPLACE RMI_RESULT_ADDR (drop_bit GRANULE_SHIFT a)"
  shows "EXTRACT RMI_RESULT_STATUS w = ucast st"
    and "EXTRACT RMI_RESULT_LEVEL w = ucast l"
    and "push_bit GRANULE_SHIFT (EXTRACT RMI_RESULT_ADDR w) = a"
proof -
  show "EXTRACT RMI_RESULT_STATUS w = ucast st" "EXTRACT RMI_RESULT_LEVEL w = ucast l"
    unfolding w_def
    by (rule bit_eqI; fastforce simp: status_bit_simps dest: bit_imp_le_length)+
  have "EXTRACT RMI_RESULT_ADDR w = drop_bit GRANULE_SHIFT a"
    unfolding w_def using bit_unat_less [OF assms(2)]
    by (intro bit_eqI) (fastforce simp: status_bit_simps dest: bit_imp_le_length)
  then show "push_bit GRANULE_SHIFT (EXTRACT RMI_RESULT_ADDR w) = a"
    using assms(1) by (simp add: push_drop_aligned GRANULE_ALIGNED_bits)
qed

lemma unpack_by_status:
  assumes "EXTRACT RMI_RESULT_STATUS x = ucast (st :: u8)"
  shows "unpack_return_code x = \<lparr>status = st, data =
    (if st = RMI_INCOMPLETE then Data_incomplete (ucast (EXTRACT RMI_OP_MEM_REQ x))
       (ucast (EXTRACT RMI_OP_CAN_CANCEL_BIT x))
     else if st \<in> {RMI_ERROR_RTT, RMI_ERROR_RTT_AUX, RMI_ERROR_PSMMU_ST} then
       Data_level (ucast (EXTRACT RMI_RESULT_LEVEL x))
     else if st \<in> {RMI_ERROR_DPT, RMI_ERROR_GPT, RMI_ERROR_TRACKING} then
       Data_level_addr (ucast (EXTRACT RMI_RESULT_LEVEL x))
         (push_bit GRANULE_SHIFT (EXTRACT RMI_RESULT_ADDR x))
     else Data_incomplete 0 0)\<rparr>"
  by (simp add: unpack_return_code_def assms make_return_code_def)

lemma pack_wf:
  assumes "wf_return_code rc"
  shows "pack_struct_return_code rc = Some (INPLACE RMI_RESULT_STATUS (ucast (status rc)) OR
    (case data rc of
       Data_incomplete m c \<Rightarrow> INPLACE RMI_OP_MEM_REQ (ucast m) OR INPLACE RMI_OP_CAN_CANCEL_BIT (ucast c)
     | Data_level l \<Rightarrow> INPLACE RMI_RESULT_LEVEL (ucast l)
     | Data_level_addr l a \<Rightarrow> INPLACE RMI_RESULT_LEVEL (ucast l)
         OR INPLACE RMI_RESULT_ADDR (drop_bit GRANULE_SHIFT a)))"
  using assms
  by (cases "data rc"; cases "status rc = RMI_INCOMPLETE")
    (auto simp: pack_struct_return_code_def wf_return_code_def or.assoc drop_bit_12_less [simplified]
      GRANULE_ALIGNED_def INPLACE_def)

lemma wf_unpack_pack:
  assumes "wf_return_code rc"
  shows "\<exists>x. pack_struct_return_code rc = Some x \<and> unpack_return_code x = rc"
proof (cases "data rc")
  case (Data_incomplete m c)
  then have "m \<le> 2" "c \<le> 1"
    using assms by (auto simp: wf_return_code_def split: if_splits)
  from incomplete_fields [OF this, of "status rc"] show ?thesis
    using assms Data_incomplete
    by (auto simp: pack_wf unpack_by_status wf_return_code_def or.assoc)
next
  case (Data_level l)
  then show ?thesis
    using assms level_fields [of "status rc" l]
    by (auto simp: pack_wf unpack_by_status wf_return_code_def)
next
  case (Data_level_addr l a)
  then have "GRANULE_ALIGNED a" "unat a < 2 ^ 52"
    using assms by (simp_all add: wf_return_code_def)
  from level_addr_fields [OF this, of "status rc" l] show ?thesis
    using assms Data_level_addr
    by (auto simp: pack_wf unpack_by_status wf_return_code_def or.assoc)
qed

text \<open>
  The words that are an \<^verbatim>\<open>RmiResult\<close>: a known status, the fields its data type defines, and
  zeroes in every other bit.
\<close>

definition is_rmi_result :: "u64 \<Rightarrow> bool" where
  "is_rmi_result x \<longleftrightarrow> (let st = EXTRACT RMI_RESULT_STATUS x in
     st < RMI_ERROR_COUNT_MAX \<and>
     (if st = RMI_INCOMPLETE then
        EXTRACT RMI_OP_MEM_REQ x \<le> RMI_OP_MEM_REQ_RECLAIM \<and> drop_bit 11 x = 0
      else if st \<in> {RMI_ERROR_RTT, RMI_ERROR_RTT_AUX, RMI_ERROR_PSMMU_ST} then drop_bit 16 x = 0
      else if st \<in> {RMI_ERROR_DPT, RMI_ERROR_GPT, RMI_ERROR_TRACKING} then drop_bit 56 x = 0
      else drop_bit 8 x = 0))"

lemma obtain_status:
  obtains st :: u8 where "EXTRACT RMI_RESULT_STATUS x = ucast st"
proof
  show "EXTRACT RMI_RESULT_STATUS x = ucast (ucast (EXTRACT RMI_RESULT_STATUS x) :: u8)"
    by (rule bit_word_eqI) (auto simp: status_bit_simps)
qed

lemma is_rmi_result_status:
  assumes "EXTRACT RMI_RESULT_STATUS x = ucast (st :: u8)"
  shows "is_rmi_result x \<longleftrightarrow> st < RMI_ERROR_COUNT_MAX \<and>
     (if st = RMI_INCOMPLETE then
        EXTRACT RMI_OP_MEM_REQ x \<le> RMI_OP_MEM_REQ_RECLAIM \<and> drop_bit 11 x = 0
      else if st \<in> {RMI_ERROR_RTT, RMI_ERROR_RTT_AUX, RMI_ERROR_PSMMU_ST} then drop_bit 16 x = 0
      else if st \<in> {RMI_ERROR_DPT, RMI_ERROR_GPT, RMI_ERROR_TRACKING} then drop_bit 56 x = 0
      else drop_bit 8 x = 0)"
  using ucast_u8_u64_less_iff [of st 17] ucast_u8_u64_eq_iff [of st 4]
    ucast_u8_u64_eq_iff [of st 7] ucast_u8_u64_eq_iff [of st 8] ucast_u8_u64_eq_iff [of st 9]
    ucast_u8_u64_eq_iff [of st 12] ucast_u8_u64_eq_iff [of st 13] ucast_u8_u64_eq_iff [of st 15]
  by (simp add: is_rmi_result_def assms)

lemma unpack_wf:
  assumes "is_rmi_result x"
  shows "wf_return_code (unpack_return_code x)"
proof -
  obtain st :: u8 where st: "EXTRACT RMI_RESULT_STATUS x = ucast st" by (rule obtain_status)
  let ?m = "EXTRACT RMI_OP_MEM_REQ x" and ?c = "EXTRACT RMI_OP_CAN_CANCEL_BIT x"
  let ?a = "push_bit GRANULE_SHIFT (EXTRACT RMI_RESULT_ADDR x)"
  have "(ucast ?m :: u8) \<le> 2" if "?m \<le> 2"
    using that by (auto simp: word_le_nat_alt unsigned_ucast_eq intro: order_trans [OF take_bit_nat_less_eq_self])
  moreover have "unat (ucast ?c :: u8) < 2 ^ 1"
    by (rule unat_less_if_bits) (simp add: status_bit_simps)
  then have "(ucast ?c :: u8) \<le> 1" by (simp add: word_le_nat_alt)
  moreover have "GRANULE_ALIGNED ?a"
    by (simp add: GRANULE_ALIGNED_bits bit_push_bit_iff)
  moreover have "unat ?a < 2 ^ 52"
    by (rule unat_less_if_bits) (auto simp: status_bit_simps)
  ultimately show ?thesis
    using assms by (auto simp: wf_return_code_def is_rmi_result_status [OF st]
        unpack_by_status [OF st] split: if_splits)
qed

lemma pack_is_rmi_result:
  assumes wf: "wf_return_code rc" and pack: "pack_struct_return_code rc = Some x"
  shows "is_rmi_result x"
proof (cases "data rc")
  case (Data_incomplete m c)
  then have mc: "m \<le> 2" "c \<le> 1"
    using wf by (auto simp: wf_return_code_def split: if_splits)
  have x: "x = INPLACE RMI_RESULT_STATUS (ucast (status rc)) OR
      INPLACE RMI_OP_MEM_REQ (ucast m) OR INPLACE RMI_OP_CAN_CANCEL_BIT (ucast c)"
    using pack Data_incomplete by (simp add: pack_wf [OF wf] or.assoc)
  note fields = incomplete_fields [OF mc, of "status rc", folded x]
  have "drop_bit 11 x = 0"
    using le_2_bits [OF mc(1)] le_1_bits [OF mc(2)] unfolding x drop_bit_eq_0_bits
    by (fastforce simp: status_bit_simps dest: bit_imp_le_length)
  moreover have "drop_bit 8 x = 0" if "m = 0" "c = 0"
    using that unfolding x drop_bit_eq_0_bits
    by (fastforce simp: status_bit_simps dest: bit_imp_le_length)
  moreover have "ucast m \<le> (2 :: u64)"
    using mc(1) by (simp add: word_le_nat_alt unat_ucast_up)
  ultimately show ?thesis
    using wf Data_incomplete
    by (auto simp: is_rmi_result_status [OF fields(1)] fields wf_return_code_def)
next
  case (Data_level l)
  have x: "x = INPLACE RMI_RESULT_STATUS (ucast (status rc)) OR INPLACE RMI_RESULT_LEVEL (ucast l)"
    using pack Data_level by (simp add: pack_wf [OF wf])
  have "drop_bit 16 x = 0"
    unfolding x drop_bit_eq_0_bits by (fastforce simp: status_bit_simps dest: bit_imp_le_length)
  then show ?thesis
    using wf Data_level is_rmi_result_status [OF level_fields(1) [of "status rc" l, folded x]]
    by (auto simp: wf_return_code_def)
next
  case (Data_level_addr l a)
  then have a: "GRANULE_ALIGNED a" "unat a < 2 ^ 52"
    using wf by (simp_all add: wf_return_code_def)
  have x: "x = INPLACE RMI_RESULT_STATUS (ucast (status rc)) OR INPLACE RMI_RESULT_LEVEL (ucast l)
      OR INPLACE RMI_RESULT_ADDR (drop_bit GRANULE_SHIFT a)"
    using pack Data_level_addr by (simp add: pack_wf [OF wf] or.assoc)
  have "drop_bit 56 x = 0"
    using bit_unat_less [OF a(2)] unfolding x drop_bit_eq_0_bits
    by (fastforce simp: status_bit_simps dest: bit_imp_le_length)
  then show ?thesis
    using wf Data_level_addr is_rmi_result_status [OF level_addr_fields(1) [OF a, of "status rc" l, folded x]]
    by (auto simp: wf_return_code_def)
qed

text \<open>A result word is the disjunction of its fields.\<close>

lemma ucast_EXTRACT_u8:
  assumes "w \<le> 8"
  shows "ucast (ucast (EXTRACT (sh, w) x) :: u8) = EXTRACT (sh, w) x"
  using assms by (intro bit_word_eqI) (auto simp: bit_EXTRACT bit_ucast_iff)

lemma INPLACE_EXTRACT_bit:
  "bit (INPLACE (sh, w) (EXTRACT (sh, w) x)) n \<longleftrightarrow> sh \<le> n \<and> n < sh + w \<and> bit x n"
  by (auto simp: bit_INPLACE bit_EXTRACT dest: bit_imp_le_length)

lemma join_incomplete:
  assumes "drop_bit 11 x = 0"
  shows "INPLACE RMI_RESULT_STATUS (EXTRACT RMI_RESULT_STATUS x) OR
    INPLACE RMI_OP_MEM_REQ (EXTRACT RMI_OP_MEM_REQ x) OR
    INPLACE RMI_OP_CAN_CANCEL_BIT (EXTRACT RMI_OP_CAN_CANCEL_BIT x) = x"
  using assms unfolding drop_bit_eq_0_bits
  by (intro bit_word_eqI) (auto simp: bit_or_iff INPLACE_EXTRACT_bit)

lemma join_level:
  assumes "drop_bit 16 x = 0"
  shows "INPLACE RMI_RESULT_STATUS (EXTRACT RMI_RESULT_STATUS x) OR
    INPLACE RMI_RESULT_LEVEL (EXTRACT RMI_RESULT_LEVEL x) = x"
  using assms unfolding drop_bit_eq_0_bits
  by (intro bit_word_eqI) (auto simp: bit_or_iff INPLACE_EXTRACT_bit)

lemma join_level_addr:
  assumes "drop_bit 56 x = 0"
  shows "INPLACE RMI_RESULT_STATUS (EXTRACT RMI_RESULT_STATUS x) OR
    INPLACE RMI_RESULT_LEVEL (EXTRACT RMI_RESULT_LEVEL x) OR
    INPLACE RMI_RESULT_ADDR (EXTRACT RMI_RESULT_ADDR x) = x"
  using assms unfolding drop_bit_eq_0_bits
  by (intro bit_word_eqI) (auto simp: bit_or_iff INPLACE_EXTRACT_bit)

lemma join_null:
  assumes "drop_bit 8 x = 0"
  shows "INPLACE RMI_RESULT_STATUS (EXTRACT RMI_RESULT_STATUS x) = x"
  using assms unfolding drop_bit_eq_0_bits
  by (intro bit_word_eqI) (auto simp: INPLACE_EXTRACT_bit)

lemma drop_push_EXTRACT_ADDR:
  "drop_bit GRANULE_SHIFT (push_bit GRANULE_SHIFT (EXTRACT RMI_RESULT_ADDR x)) = EXTRACT RMI_RESULT_ADDR x"
  by (rule bit_word_eqI) (auto simp: bit_drop_bit_eq bit_push_bit_iff bit_EXTRACT)

lemma pack_unpack:
  assumes "is_rmi_result x"
  shows "pack_struct_return_code (unpack_return_code x) = Some x"
proof -
  obtain st :: u8 where st: "EXTRACT RMI_RESULT_STATUS x = ucast st" by (rule obtain_status)
  from is_rmi_result_status [OF st] show ?thesis
    using assms join_incomplete [of x] join_level [of x] join_level_addr [of x] join_null [of x]
    by (subst pack_wf [OF unpack_wf [OF assms]])
      (auto simp: unpack_by_status [OF st] ucast_EXTRACT_u8 drop_push_EXTRACT_ADDR
        st [symmetric] or.assoc INPLACE_def split: if_splits)
qed

text \<open>
  C13. Packing and unpacking are inverse bijections between the well-formed logical results and
  the words of the wire format: a \<^verbatim>\<open>return_code_t\<close> is well formed exactly when it packs,
  without failing an assertion, into an \<^verbatim>\<open>RmiResult\<close> word that unpacks to it, and a word is
  an \<^verbatim>\<open>RmiResult\<close> exactly when unpacking and packing it again gives it back.
\<close>

theorem pack_unpack_inverse:
  "(wf_return_code rc \<longleftrightarrow>
     (\<exists>x. pack_struct_return_code rc = Some x \<and> is_rmi_result x \<and> unpack_return_code x = rc)) \<and>
   (is_rmi_result x \<longleftrightarrow>
     wf_return_code (unpack_return_code x) \<and>
     pack_struct_return_code (unpack_return_code x) = Some x)"
  using wf_unpack_pack [of rc] pack_is_rmi_result pack_unpack unpack_wf by auto

end
