(* ===== verification/S2tt_Defs.thy ===== *)
theory S2tt_Defs
  imports Rmm_Prelude
begin

text \<open>
  The stage 2 configuration of a Realm and the layout of stage 2 translation table entries:
  \<^verbatim>\<open>src/lib/s2tt/include/s2tt.h\<close>, \<^verbatim>\<open>s2tt_ap.h\<close>, \<^verbatim>\<open>s2tt_pvt_defs.h\<close>, and the identification
  registers (\<^verbatim>\<open>src/lib/arch/include/arch_features.h\<close>) on which FEAT_LPA2 depends. Every
  constant of the entry layout comes with the set of its bits, collected in
  \<^verbatim>\<open>bit_defs\<close>.
\<close>

subsection \<open>Identification registers\<close>

record cached_idregs =
  id_aa64mmfr0_el1 :: u64
  id_aa64mmfr3_el1 :: u64

abbreviation ID_AA64MMFR0_EL1_TGRAN4 :: regfield where "ID_AA64MMFR0_EL1_TGRAN4 \<equiv> (28, 4)"
abbreviation ID_AA64MMFR0_EL1_TGRAN4_2 :: regfield where "ID_AA64MMFR0_EL1_TGRAN4_2 \<equiv> (40, 4)"
abbreviation ID_AA64MMFR3_EL1_S2PIE :: regfield where "ID_AA64MMFR3_EL1_S2PIE \<equiv> (12, 4)"
abbreviation ID_AA64MMFR3_EL1_S2POE :: regfield where "ID_AA64MMFR3_EL1_S2POE \<equiv> (20, 4)"

definition is_feat_lpa2_4k_present :: "cached_idregs \<Rightarrow> bool" where
  "is_feat_lpa2_4k_present hw \<longleftrightarrow> EXTRACT ID_AA64MMFR0_EL1_TGRAN4 (id_aa64mmfr0_el1 hw) = 1"

definition is_feat_lpa2_4k_2_present :: "cached_idregs \<Rightarrow> bool" where
  "is_feat_lpa2_4k_2_present hw \<longleftrightarrow>
     EXTRACT ID_AA64MMFR0_EL1_TGRAN4_2 (id_aa64mmfr0_el1 hw) = 3 \<or>
     EXTRACT ID_AA64MMFR0_EL1_TGRAN4_2 (id_aa64mmfr0_el1 hw) = 0 \<and> is_feat_lpa2_4k_present hw"

definition are_feat_s2pie_and_s2poe_present :: "cached_idregs \<Rightarrow> bool" where
  "are_feat_s2pie_and_s2poe_present hw \<longleftrightarrow>
     EXTRACT ID_AA64MMFR3_EL1_S2PIE (id_aa64mmfr3_el1 hw) \<noteq> 0 \<and>
     EXTRACT ID_AA64MMFR3_EL1_S2POE (id_aa64mmfr3_el1 hw) \<noteq> 0"

subsection \<open>Stage 2 context\<close>

text \<open>
  \<^verbatim>\<open>struct s2tt_context\<close>; a pointer to a \<^verbatim>\<open>struct granule\<close> is a value of the type
  parameter.
\<close>

record 'g s2tt_context =
  ipa_bits :: u32
  s2_starting_level :: int
  num_root_rtts :: u32
  g_rtt :: 'g
  vmid :: u32
  indirect_s2ap :: bool
  overlay_perm :: u64
  mecid :: u32
  s2oa_limit :: u64

abbreviation (input) S2TT_MIN_IPA_BITS :: u32 where "S2TT_MIN_IPA_BITS \<equiv> 32"
abbreviation (input) S2TT_MAX_IPA_BITS :: u32 where "S2TT_MAX_IPA_BITS \<equiv> 48"
abbreviation (input) S2TT_MAX_PA_BITS :: nat where "S2TT_MAX_PA_BITS \<equiv> 48"

abbreviation (input) S2TT_MIN_STARTING_LEVEL :: int where "S2TT_MIN_STARTING_LEVEL \<equiv> 0"
abbreviation (input) S2TT_MIN_STARTING_LEVEL_LPA2 :: int where "S2TT_MIN_STARTING_LEVEL_LPA2 \<equiv> - 1"
abbreviation (input) S2TT_PAGE_LEVEL :: int where "S2TT_PAGE_LEVEL \<equiv> 3"
abbreviation (input) S2TT_MIN_DEV_BLOCK_LEVEL :: int where "S2TT_MIN_DEV_BLOCK_LEVEL \<equiv> 1"
abbreviation (input) S2TT_MIN_BLOCK_LEVEL :: int where "S2TT_MIN_BLOCK_LEVEL \<equiv> 1"

abbreviation (input) S2TTE_STRIDE :: nat where "S2TTE_STRIDE \<equiv> 9"
abbreviation (input) S2TTE_STRIDE_LM1 :: nat where "S2TTE_STRIDE_LM1 \<equiv> 4"
abbreviation (input) S2TTES_PER_S2TT :: nat where "S2TTES_PER_S2TT \<equiv> 512"

abbreviation (input) S2TTE_OA_BITS :: nat where "S2TTE_OA_BITS \<equiv> 48"
abbreviation (input) S2TTE_OA_BITS_LPA2 :: nat where "S2TTE_OA_BITS_LPA2 \<equiv> 52"

definition s2tt_lpa2_required :: "u32 \<Rightarrow> u64 \<Rightarrow> bool" where
  "s2tt_lpa2_required bits oa_limit \<longleftrightarrow>
     bits > S2TT_MAX_IPA_BITS \<or> oa_limit > BIT S2TT_MAX_PA_BITS"

definition s2tt_lpa2_enabled :: "cached_idregs \<Rightarrow> 'g s2tt_context \<Rightarrow> bool option" where
  "s2tt_lpa2_enabled hw s2_ctx = (
     let enable_lpa2 = s2tt_lpa2_required (ipa_bits s2_ctx) (s2oa_limit s2_ctx) in do {
       c_assert (\<not> enable_lpa2 \<or> is_feat_lpa2_4k_present hw \<and> is_feat_lpa2_4k_2_present hw);
       Some enable_lpa2
     })"

text \<open>
  A context that uses LPA2 only where the hardware has it, which Realm creation
  guarantees; the format it selects.
\<close>

definition s2tt_ctx_ok :: "cached_idregs \<Rightarrow> 'g s2tt_context \<Rightarrow> bool" where
  "s2tt_ctx_ok hw s2_ctx \<longleftrightarrow> s2tt_lpa2_enabled hw s2_ctx \<noteq> None"

definition ctx_lpa2 :: "'g s2tt_context \<Rightarrow> bool" where
  "ctx_lpa2 s2_ctx = s2tt_lpa2_required (ipa_bits s2_ctx) (s2oa_limit s2_ctx)"

lemma s2tt_lpa2_enabled_ok [simp]:
  "s2tt_ctx_ok hw s2_ctx \<Longrightarrow> s2tt_lpa2_enabled hw s2_ctx = Some (ctx_lpa2 s2_ctx)"
  by (auto simp: s2tt_ctx_ok_def s2tt_lpa2_enabled_def ctx_lpa2_def Let_def split: if_splits)

text \<open>The number of output address bits and the first level of the format.\<close>

definition ctx_oa_bits :: "'g s2tt_context \<Rightarrow> nat" where
  "ctx_oa_bits s2_ctx = (if ctx_lpa2 s2_ctx then S2TTE_OA_BITS_LPA2 else S2TTE_OA_BITS)"

definition first_level :: "'g s2tt_context \<Rightarrow> int" where
  "first_level s2_ctx = (if ctx_lpa2 s2_ctx then S2TT_MIN_STARTING_LEVEL_LPA2 else S2TT_MIN_STARTING_LEVEL)"

text \<open>The least significant address bit resolved at a level.\<close>

definition lvl_lsb :: "int \<Rightarrow> nat" where
  "lvl_lsb level = nat (S2TT_PAGE_LEVEL - level) * S2TTE_STRIDE + GRANULE_SHIFT"

lemma lvl_lsb_simps [simp]:
  "lvl_lsb 3 = 12" "lvl_lsb 2 = 21" "lvl_lsb 1 = 30" "lvl_lsb 0 = 39" "lvl_lsb (- 1) = 48"
  by (simp_all add: lvl_lsb_def)

lemma lvl_lsb_ge: "12 \<le> lvl_lsb level"
  by (simp add: lvl_lsb_def)

lemma lvl_lsb_le: "- 1 \<le> level \<Longrightarrow> lvl_lsb level \<le> 48"
  by (simp add: lvl_lsb_def)

lemma lvl_lsb_pred: "level \<le> 3 \<Longrightarrow> lvl_lsb (level - 1) = lvl_lsb level + 9"
proof -
  assume "level \<le> 3"
  then have "nat (3 - (level - 1)) = Suc (nat (3 - level))" by linarith
  then show ?thesis by (simp add: lvl_lsb_def)
qed

definition s2tte_map_size :: "int \<Rightarrow> u64" where
  "s2tte_map_size level = push_bit (nat ((S2TT_PAGE_LEVEL - level) * int S2TTE_STRIDE + int GRANULE_SHIFT)) 1"

lemma s2tte_map_size_lsb: "level \<le> 3 \<Longrightarrow> s2tte_map_size level = 2 ^ lvl_lsb level"
proof -
  assume "level \<le> 3"
  then have "nat ((3 - level) * 9 + 12) = lvl_lsb level"
    by (simp add: lvl_lsb_def)
  then show ?thesis by (simp add: s2tte_map_size_def)
qed

subsection \<open>Fields of an entry\<close>

abbreviation (input) S2TTE_INVALID_HIPAS :: regfield where "S2TTE_INVALID_HIPAS \<equiv> (3, 3)"
abbreviation (input) S2TTE_INVALID_RIPAS :: regfield where "S2TTE_INVALID_RIPAS \<equiv> (1, 2)"
abbreviation (input) S2TTE_MEMATTR :: regfield where "S2TTE_MEMATTR \<equiv> (2, 3)"
abbreviation (input) S2TTE_PERM_R :: regfield where "S2TTE_PERM_R \<equiv> (6, 1)"
abbreviation (input) S2TTE_PERM_W :: regfield where "S2TTE_PERM_W \<equiv> (7, 1)"
abbreviation (input) S2TTE_PERM_XN :: regfield where "S2TTE_PERM_XN \<equiv> (53, 2)"
abbreviation (input) S2TTE_PO_INDEX :: regfield where "S2TTE_PO_INDEX \<equiv> (59, 4)"
abbreviation (input) S2TTE_SW_HANDLE :: regfield where "S2TTE_SW_HANDLE \<equiv> (16, 16)"
abbreviation (input) LPA2_OA_51_50 :: regfield where "LPA2_OA_51_50 \<equiv> (50, 2)"
abbreviation (input) LPA2_OA_49_48 :: regfield where "LPA2_OA_49_48 \<equiv> (48, 2)"
abbreviation (input) LPA2_S2TTE_51_50 :: regfield where "LPA2_S2TTE_51_50 \<equiv> (8, 2)"

text \<open>Host and Realm IPA states (\<^verbatim>\<open>smc-rmi.h\<close>).\<close>

abbreviation (input) RMI_UNASSIGNED :: u64 where "RMI_UNASSIGNED \<equiv> 0"
abbreviation (input) RMI_ASSIGNED :: u64 where "RMI_ASSIGNED \<equiv> 1"
abbreviation (input) RMI_TABLE :: u64 where "RMI_TABLE \<equiv> 2"
abbreviation (input) RMI_ASSIGNED_DEV :: u64 where "RMI_ASSIGNED_DEV \<equiv> 3"
abbreviation (input) RMI_EMPTY :: u64 where "RMI_EMPTY \<equiv> 0"
abbreviation (input) RMI_RAM :: u64 where "RMI_RAM \<equiv> 1"
abbreviation (input) RMI_DESTROYED :: u64 where "RMI_DESTROYED \<equiv> 2"
abbreviation (input) RMI_DEV :: u64 where "RMI_DEV \<equiv> 3"

definition S2TTE_INVALID_HIPAS_MASK :: u64 where
  "S2TTE_INVALID_HIPAS_MASK = MASK S2TTE_INVALID_HIPAS"
definition S2TTE_INVALID_HIPAS_UNASSIGNED :: u64 where
  "S2TTE_INVALID_HIPAS_UNASSIGNED = INPLACE S2TTE_INVALID_HIPAS RMI_UNASSIGNED"
definition S2TTE_INVALID_HIPAS_ASSIGNED :: u64 where
  "S2TTE_INVALID_HIPAS_ASSIGNED = INPLACE S2TTE_INVALID_HIPAS RMI_ASSIGNED"
definition S2TTE_INVALID_HIPAS_ASSIGNED_DEV :: u64 where
  "S2TTE_INVALID_HIPAS_ASSIGNED_DEV = INPLACE S2TTE_INVALID_HIPAS RMI_ASSIGNED_DEV"

definition S2TTE_INVALID_RIPAS_MASK :: u64 where
  "S2TTE_INVALID_RIPAS_MASK = MASK S2TTE_INVALID_RIPAS"
definition S2TTE_INVALID_RIPAS_EMPTY :: u64 where
  "S2TTE_INVALID_RIPAS_EMPTY = INPLACE S2TTE_INVALID_RIPAS RMI_EMPTY"
definition S2TTE_INVALID_RIPAS_RAM :: u64 where
  "S2TTE_INVALID_RIPAS_RAM = INPLACE S2TTE_INVALID_RIPAS RMI_RAM"
definition S2TTE_INVALID_RIPAS_DESTROYED :: u64 where
  "S2TTE_INVALID_RIPAS_DESTROYED = INPLACE S2TTE_INVALID_RIPAS RMI_DESTROYED"
definition S2TTE_INVALID_RIPAS_DEV :: u64 where
  "S2TTE_INVALID_RIPAS_DEV = INPLACE S2TTE_INVALID_RIPAS RMI_DEV"

definition S2TTE_NS :: u64 where "S2TTE_NS = BIT 55"
definition S2TTE_AF :: u64 where "S2TTE_AF = BIT 10"

definition S2TT_DESC_TYPE_MASK :: u64 where "S2TT_DESC_TYPE_MASK = 3"
definition S2TT_DESC_VALID_MASK :: u64 where "S2TT_DESC_VALID_MASK = 1"
definition S2TTE_INVALID :: u64 where "S2TTE_INVALID = 0"
definition S2TTE_VALID :: u64 where "S2TTE_VALID = 1"
definition S2TTE_L012_BLOCK :: u64 where "S2TTE_L012_BLOCK = 1"
definition S2TTE_L012_TABLE :: u64 where "S2TTE_L012_TABLE = 3"
definition S2TTE_L3_PAGE :: u64 where "S2TTE_L3_PAGE = 3"

definition S2TTE_MEMATTR_MASK :: u64 where "S2TTE_MEMATTR_MASK = MASK S2TTE_MEMATTR"
definition S2TTE_MEMATTR_FWB_NC :: u64 where
  "S2TTE_MEMATTR_FWB_NC = push_bit 4 1 OR push_bit 2 1"
definition S2TTE_MEMATTR_FWB_NORMAL_WB :: u64 where
  "S2TTE_MEMATTR_FWB_NORMAL_WB = push_bit 4 1 OR push_bit 2 2"
definition S2TTE_MEMATTR_DEV_COH :: u64 where
  "S2TTE_MEMATTR_DEV_COH = push_bit 4 1 OR push_bit 2 3"
definition S2TTE_MEMATTR_FWB_RESERVED :: u64 where
  "S2TTE_MEMATTR_FWB_RESERVED = push_bit 4 1 OR push_bit 2 0"

definition S2TTE_SH_MASK :: u64 where "S2TTE_SH_MASK = push_bit 8 3"
definition S2TTE_SH_OS :: u64 where "S2TTE_SH_OS = push_bit 8 2"
definition S2TTE_SH_IS :: u64 where "S2TTE_SH_IS = push_bit 8 3"

definition S2TTE_ATTRS_LPA2 :: u64 where
  "S2TTE_ATTRS_LPA2 = S2TTE_MEMATTR_FWB_NORMAL_WB OR S2TTE_AF"
definition S2TTE_ATTRS :: u64 where "S2TTE_ATTRS = S2TTE_ATTRS_LPA2 OR S2TTE_SH_IS"
definition S2TTE_DEV_ATTRS :: u64 where "S2TTE_DEV_ATTRS = S2TTE_AF"
definition S2TTE_DEV_ATTRS_MASK :: u64 where "S2TTE_DEV_ATTRS_MASK = S2TTE_NS OR S2TTE_AF"
definition S2TTE_DEV_COH_ATTRS :: u64 where
  "S2TTE_DEV_COH_ATTRS = S2TTE_DEV_ATTRS OR S2TTE_MEMATTR_DEV_COH"
definition S2TTE_DEV_NCOH_ATTRS :: u64 where
  "S2TTE_DEV_NCOH_ATTRS = S2TTE_DEV_ATTRS OR S2TTE_MEMATTR_FWB_NC"
definition S2TTE_NS_ATTR_MASK :: u64 where "S2TTE_NS_ATTR_MASK = MASK S2TTE_MEMATTR"
definition S2TTE_NS_ATTR_RMM :: u64 where "S2TTE_NS_ATTR_RMM = S2TTE_AF OR S2TTE_NS"

definition S2TTE_TABLE :: u64 where "S2TTE_TABLE = S2TTE_L012_TABLE"
definition S2TTE_BLOCK :: u64 where "S2TTE_BLOCK = S2TTE_ATTRS OR S2TTE_L012_BLOCK"
definition S2TTE_BLOCK_LPA2 :: u64 where "S2TTE_BLOCK_LPA2 = S2TTE_ATTRS_LPA2 OR S2TTE_L012_BLOCK"
definition S2TTE_PAGE :: u64 where "S2TTE_PAGE = S2TTE_ATTRS OR S2TTE_L3_PAGE"
definition S2TTE_PAGE_LPA2 :: u64 where "S2TTE_PAGE_LPA2 = S2TTE_ATTRS_LPA2 OR S2TTE_L3_PAGE"
definition S2TTE_BLOCK_NS :: u64 where "S2TTE_BLOCK_NS = S2TTE_NS_ATTR_RMM OR S2TTE_L012_BLOCK"
definition S2TTE_PAGE_NS :: u64 where "S2TTE_PAGE_NS = S2TTE_NS_ATTR_RMM OR S2TTE_L3_PAGE"

definition S2TTE_DIRTY_BIT :: u64 where "S2TTE_DIRTY_BIT = BIT 7"
definition S2TTE_RW_AP_MASK :: u64 where "S2TTE_RW_AP_MASK = MASK S2TTE_PERM_R OR MASK S2TTE_PERM_W"
definition S2TTE_PERM_MASK :: u64 where "S2TTE_PERM_MASK = S2TTE_RW_AP_MASK OR MASK S2TTE_PERM_XN"

definition S2TTE_PERM_XU_XP :: u64 where "S2TTE_PERM_XU_XP = INPLACE S2TTE_PERM_XN 0"
definition S2TTE_PERM_XU_XNP :: u64 where "S2TTE_PERM_XU_XNP = INPLACE S2TTE_PERM_XN 1"
definition S2TTE_PERM_XNU_XNP :: u64 where "S2TTE_PERM_XNU_XNP = INPLACE S2TTE_PERM_XN 2"
definition S2TTE_PERM_XNU_XP :: u64 where "S2TTE_PERM_XNU_XP = INPLACE S2TTE_PERM_XN 3"

definition S2TTE_PI_INDEX_MASK :: u64 where
  "S2TTE_PI_INDEX_MASK = BIT 6 OR BIT 51 OR BIT 53 OR BIT 54"

definition S2TTE_SW_DRAIN_PENDING_BIT :: u64 where "S2TTE_SW_DRAIN_PENDING_BIT = BIT 32"
definition S2TTE_SW_TLBI_PENDING_BIT :: u64 where "S2TTE_SW_TLBI_PENDING_BIT = BIT 33"
definition S2TTE_SW_HANDLE_MASK :: u64 where "S2TTE_SW_HANDLE_MASK = MASK S2TTE_SW_HANDLE"
definition S2TTE_SW_DRAIN_MASK :: u64 where
  "S2TTE_SW_DRAIN_MASK =
     S2TTE_SW_DRAIN_PENDING_BIT OR S2TTE_SW_TLBI_PENDING_BIT OR S2TTE_SW_HANDLE_MASK"

subsection \<open>Bits of the constants\<close>

lemma INPLACE_0 [simp]: "INPLACE f 0 = 0"
  by (simp add: INPLACE_def)

lemma hipas_bits [bit_defs]:
  "bit S2TTE_INVALID_HIPAS_MASK n \<longleftrightarrow> n \<in> {3, 4, 5}"
  "bit S2TTE_INVALID_HIPAS_UNASSIGNED n \<longleftrightarrow> False"
  "bit S2TTE_INVALID_HIPAS_ASSIGNED n \<longleftrightarrow> n = 3"
  "bit S2TTE_INVALID_HIPAS_ASSIGNED_DEV n \<longleftrightarrow> n \<in> {3, 4}"
  unfolding S2TTE_INVALID_HIPAS_MASK_def S2TTE_INVALID_HIPAS_UNASSIGNED_def
    S2TTE_INVALID_HIPAS_ASSIGNED_def S2TTE_INVALID_HIPAS_ASSIGNED_DEV_def
  by (auto simp: bit_defs)

lemma ripas_bits [bit_defs]:
  "bit S2TTE_INVALID_RIPAS_MASK n \<longleftrightarrow> n \<in> {1, 2}"
  "bit S2TTE_INVALID_RIPAS_EMPTY n \<longleftrightarrow> False"
  "bit S2TTE_INVALID_RIPAS_RAM n \<longleftrightarrow> n = 1"
  "bit S2TTE_INVALID_RIPAS_DESTROYED n \<longleftrightarrow> n = 2"
  "bit S2TTE_INVALID_RIPAS_DEV n \<longleftrightarrow> n \<in> {1, 2}"
  unfolding S2TTE_INVALID_RIPAS_MASK_def S2TTE_INVALID_RIPAS_EMPTY_def
    S2TTE_INVALID_RIPAS_RAM_def S2TTE_INVALID_RIPAS_DESTROYED_def S2TTE_INVALID_RIPAS_DEV_def
  by (auto simp: bit_defs)

lemma desc_bits [bit_defs]:
  "bit S2TT_DESC_TYPE_MASK n \<longleftrightarrow> n \<in> {0, 1}"
  "bit S2TT_DESC_VALID_MASK n \<longleftrightarrow> n = 0"
  "bit S2TTE_INVALID n \<longleftrightarrow> False"
  "bit S2TTE_VALID n \<longleftrightarrow> n = 0"
  "bit S2TTE_L012_BLOCK n \<longleftrightarrow> n = 0"
  "bit S2TTE_L012_TABLE n \<longleftrightarrow> n \<in> {0, 1}"
  "bit S2TTE_L3_PAGE n \<longleftrightarrow> n \<in> {0, 1}"
  "bit S2TTE_TABLE n \<longleftrightarrow> n \<in> {0, 1}"
  unfolding S2TTE_TABLE_def S2TT_DESC_TYPE_MASK_def S2TT_DESC_VALID_MASK_def S2TTE_INVALID_def
    S2TTE_VALID_def S2TTE_L012_BLOCK_def S2TTE_L012_TABLE_def S2TTE_L3_PAGE_def
  by (auto simp: bit_small_numerals)

lemma attr_bits [bit_defs]:
  "bit S2TTE_NS n \<longleftrightarrow> n = 55"
  "bit S2TTE_AF n \<longleftrightarrow> n = 10"
  "bit S2TTE_MEMATTR_MASK n \<longleftrightarrow> n \<in> {2, 3, 4}"
  "bit S2TTE_NS_ATTR_MASK n \<longleftrightarrow> n \<in> {2, 3, 4}"
  "bit S2TTE_MEMATTR_FWB_NC n \<longleftrightarrow> n \<in> {2, 4}"
  "bit S2TTE_MEMATTR_FWB_NORMAL_WB n \<longleftrightarrow> n \<in> {3, 4}"
  "bit S2TTE_MEMATTR_DEV_COH n \<longleftrightarrow> n \<in> {2, 3, 4}"
  "bit S2TTE_MEMATTR_FWB_RESERVED n \<longleftrightarrow> n = 4"
  "bit S2TTE_SH_MASK n \<longleftrightarrow> n \<in> {8, 9}"
  "bit S2TTE_SH_OS n \<longleftrightarrow> n = 9"
  "bit S2TTE_SH_IS n \<longleftrightarrow> n \<in> {8, 9}"
  unfolding S2TTE_NS_def S2TTE_AF_def S2TTE_MEMATTR_MASK_def S2TTE_NS_ATTR_MASK_def
    S2TTE_MEMATTR_FWB_NC_def S2TTE_MEMATTR_FWB_NORMAL_WB_def S2TTE_MEMATTR_DEV_COH_def
    S2TTE_MEMATTR_FWB_RESERVED_def S2TTE_SH_MASK_def S2TTE_SH_OS_def S2TTE_SH_IS_def
    bit_or_iff bit_push_bit_iff bit_small_numerals
  by (auto simp: bit_defs)

lemmas template_defs =
  S2TTE_ATTRS_LPA2_def S2TTE_ATTRS_def S2TTE_DEV_ATTRS_def S2TTE_DEV_ATTRS_MASK_def
  S2TTE_DEV_COH_ATTRS_def S2TTE_DEV_NCOH_ATTRS_def S2TTE_NS_ATTR_RMM_def S2TTE_BLOCK_def
  S2TTE_BLOCK_LPA2_def S2TTE_PAGE_def S2TTE_PAGE_LPA2_def S2TTE_BLOCK_NS_def S2TTE_PAGE_NS_def

lemma template_bits [bit_defs]:
  "bit S2TTE_DEV_ATTRS_MASK n \<longleftrightarrow> n \<in> {10, 55}"
  "bit S2TTE_DEV_COH_ATTRS n \<longleftrightarrow> n \<in> {2, 3, 4, 10}"
  "bit S2TTE_DEV_NCOH_ATTRS n \<longleftrightarrow> n \<in> {2, 4, 10}"
  "bit S2TTE_NS_ATTR_RMM n \<longleftrightarrow> n \<in> {10, 55}"
  "bit S2TTE_BLOCK n \<longleftrightarrow> n \<in> {0, 3, 4, 8, 9, 10}"
  "bit S2TTE_BLOCK_LPA2 n \<longleftrightarrow> n \<in> {0, 3, 4, 10}"
  "bit S2TTE_PAGE n \<longleftrightarrow> n \<in> {0, 1, 3, 4, 8, 9, 10}"
  "bit S2TTE_PAGE_LPA2 n \<longleftrightarrow> n \<in> {0, 1, 3, 4, 10}"
  "bit S2TTE_BLOCK_NS n \<longleftrightarrow> n \<in> {0, 10, 55}"
  "bit S2TTE_PAGE_NS n \<longleftrightarrow> n \<in> {0, 1, 10, 55}"
  unfolding template_defs bit_or_iff desc_bits attr_bits by auto

lemma ap_bits [bit_defs]:
  "bit S2TTE_DIRTY_BIT n \<longleftrightarrow> n = 7"
  "bit S2TTE_RW_AP_MASK n \<longleftrightarrow> n \<in> {6, 7}"
  "bit S2TTE_PERM_MASK n \<longleftrightarrow> n \<in> {6, 7, 53, 54}"
  "bit S2TTE_PERM_XU_XP n \<longleftrightarrow> False"
  "bit S2TTE_PERM_XU_XNP n \<longleftrightarrow> n = 53"
  "bit S2TTE_PERM_XNU_XNP n \<longleftrightarrow> n = 54"
  "bit S2TTE_PERM_XNU_XP n \<longleftrightarrow> n \<in> {53, 54}"
  "bit S2TTE_PI_INDEX_MASK n \<longleftrightarrow> n \<in> {6, 51, 53, 54}"
  unfolding S2TTE_DIRTY_BIT_def S2TTE_RW_AP_MASK_def S2TTE_PERM_MASK_def S2TTE_PERM_XU_XP_def
    S2TTE_PERM_XU_XNP_def S2TTE_PERM_XNU_XNP_def S2TTE_PERM_XNU_XP_def S2TTE_PI_INDEX_MASK_def
    bit_or_iff
  by (auto simp: bit_defs)

lemma sw_bits [bit_defs]:
  "bit S2TTE_SW_DRAIN_PENDING_BIT n \<longleftrightarrow> n = 32"
  "bit S2TTE_SW_TLBI_PENDING_BIT n \<longleftrightarrow> n = 33"
  "bit S2TTE_SW_HANDLE_MASK n \<longleftrightarrow> 16 \<le> n \<and> n < 32"
  "bit S2TTE_SW_DRAIN_MASK n \<longleftrightarrow> 16 \<le> n \<and> n < 34"
  unfolding S2TTE_SW_DRAIN_PENDING_BIT_def S2TTE_SW_TLBI_PENDING_BIT_def
    S2TTE_SW_HANDLE_MASK_def S2TTE_SW_DRAIN_MASK_def bit_or_iff
  by (auto simp: bit_defs)

end
