(* ===== verification/S2ap.thy ===== *)
theory S2ap
  imports S2tt_Defs
begin

text \<open>
  Stage 2 access permissions: \<^verbatim>\<open>src/lib/s2tt/include/s2ap_ind.h\<close>, \<^verbatim>\<open>s2tt_ap.h\<close> and the
  permission part of \<^verbatim>\<open>src/lib/s2tt/src/s2tt.c\<close>. With FEAT_S2PIE and FEAT_S2POE an entry
  holds a base and an overlay index; without them the two are flattened into the
  direct permission bits, which is shown to be the intersection of both permissions.
\<close>

subsection \<open>Overlay permission register (s2ap_ind.h)\<close>

abbreviation (input) S2AP_IND_BASE_PERM_IDX_NO_ACCESS :: "'a::len word" where
  "S2AP_IND_BASE_PERM_IDX_NO_ACCESS \<equiv> 0"
abbreviation (input) S2AP_IND_BASE_PERM_IDX_RO :: "'a::len word" where
  "S2AP_IND_BASE_PERM_IDX_RO \<equiv> 1"
abbreviation (input) S2AP_IND_BASE_PERM_IDX_WO :: "'a::len word" where
  "S2AP_IND_BASE_PERM_IDX_WO \<equiv> 2"
abbreviation (input) S2AP_IND_BASE_PERM_IDX_RW :: "'a::len word" where
  "S2AP_IND_BASE_PERM_IDX_RW \<equiv> 3"
abbreviation (input) S2AP_IND_BASE_PERM_IDX_RW_upX :: "'a::len word" where
  "S2AP_IND_BASE_PERM_IDX_RW_upX \<equiv> 4"
abbreviation (input) S2AP_IND_BASE_PERM_IDX_COUNT :: "'a::len word" where
  "S2AP_IND_BASE_PERM_IDX_COUNT \<equiv> 5"
abbreviation (input) S2AP_IND_PERM_COUNT :: "'a::len word" where "S2AP_IND_PERM_COUNT \<equiv> 16"
abbreviation (input) S2AP_IND_PERM_IDX_COUNT :: "'a::len word" where "S2AP_IND_PERM_IDX_COUNT \<equiv> 16"
abbreviation (input) S2AP_NUM_PERM_OVERLAY_INDICES :: "'a::len word" where
  "S2AP_NUM_PERM_OVERLAY_INDICES \<equiv> 15"
abbreviation (input) S2AP_PII_WIDTH :: nat where "S2AP_PII_WIDTH \<equiv> 4"

definition S2AP_PII_MASK :: u64 where
  "S2AP_PII_MASK = push_bit S2AP_PII_WIDTH 1 - 1"

definition S2AP_IND_GET_PERM_VALUE :: "u64 \<Rightarrow> u32 \<Rightarrow> u64" where
  "S2AP_IND_GET_PERM_VALUE reg index = drop_bit (unat index * S2AP_PII_WIDTH) reg AND S2AP_PII_MASK"

definition s2ap_is_base_perm_index_valid :: "u64 \<Rightarrow> bool" where
  "s2ap_is_base_perm_index_valid index \<longleftrightarrow> index < S2AP_IND_BASE_PERM_IDX_COUNT"

definition s2ap_is_ovrl_perm_index_valid :: "u64 \<Rightarrow> bool" where
  "s2ap_is_ovrl_perm_index_valid index \<longleftrightarrow> index < S2AP_NUM_PERM_OVERLAY_INDICES"

definition s2ap_is_perm_value_valid :: "u64 \<Rightarrow> bool" where
  "s2ap_is_perm_value_valid perm \<longleftrightarrow> perm < S2AP_IND_PERM_COUNT"

definition s2ap_set_overlay_perm :: "u64 \<Rightarrow> u32 \<Rightarrow> u64 \<Rightarrow> u64 option" where
  "s2ap_set_overlay_perm reg index perm = do {
     c_assert (index < S2AP_IND_PERM_IDX_COUNT);
     c_assert (s2ap_is_perm_value_valid perm);
     Some ((reg AND NOT (push_bit (S2AP_PII_WIDTH * unat index) S2AP_PII_MASK)) OR
           push_bit (S2AP_PII_WIDTH * unat index) perm)
   }"

text \<open>The value written to \<^verbatim>\<open>s2pir_el2\<close> at start-up, if any.\<close>

definition s2ap_ind_perm_init :: "cached_idregs \<Rightarrow> u64 option" where
  "s2ap_ind_perm_init hw = (
     let base_perms = push_bit (0 * S2AP_PII_WIDTH) 0 OR push_bit (1 * S2AP_PII_WIDTH) 8 OR
           push_bit (2 * S2AP_PII_WIDTH) 4 OR push_bit (3 * S2AP_PII_WIDTH) 12 OR
           push_bit (4 * S2AP_PII_WIDTH) 15 in
     if are_feat_s2pie_and_s2poe_present hw then Some base_perms else None)"

definition s2tt_init :: "cached_idregs \<Rightarrow> u64 option" where
  "s2tt_init hw = s2ap_ind_perm_init hw"

definition s2tt_indirect_ap_supported :: "cached_idregs \<Rightarrow> bool" where
  "s2tt_indirect_ap_supported hw = are_feat_s2pie_and_s2poe_present hw"

subsection \<open>Permission indices of an entry (s2tt_ap.h)\<close>

abbreviation (input) S2TTE_PI_INDEX_0 :: regfield where "S2TTE_PI_INDEX_0 \<equiv> (6, 1)"
abbreviation (input) S2TTE_PI_INDEX_1 :: regfield where "S2TTE_PI_INDEX_1 \<equiv> (51, 1)"
abbreviation (input) S2TTE_PI_INDEX_2 :: regfield where "S2TTE_PI_INDEX_2 \<equiv> (53, 1)"
abbreviation (input) S2TTE_PI_INDEX_3 :: regfield where "S2TTE_PI_INDEX_3 \<equiv> (54, 1)"
abbreviation (input) S2TTE_DEF_BASE_PERM_IDX :: u64 where "S2TTE_DEF_BASE_PERM_IDX \<equiv> 4"
abbreviation (input) S2TTE_DEV_DEF_BASE_PERM_IDX :: u64 where "S2TTE_DEV_DEF_BASE_PERM_IDX \<equiv> 3"
abbreviation (input) S2TTE_DEF_UNPROT_OVERLAY_IDX :: u64 where "S2TTE_DEF_UNPROT_OVERLAY_IDX \<equiv> 15"

definition s2tte_get_pi_index :: "u64 \<Rightarrow> u64" where
  "s2tte_get_pi_index s2tte =
     EXTRACT_BIT S2TTE_PI_INDEX_0 s2tte OR
     push_bit 1 (EXTRACT_BIT S2TTE_PI_INDEX_1 s2tte) OR
     push_bit 2 (EXTRACT_BIT S2TTE_PI_INDEX_2 s2tte) OR
     push_bit 3 (EXTRACT_BIT S2TTE_PI_INDEX_3 s2tte)"

definition s2tte_set_pi_index :: "u64 \<Rightarrow> u64 \<Rightarrow> u64" where
  "s2tte_set_pi_index s2tte pi_index =
     (s2tte AND NOT S2TTE_PI_INDEX_MASK) OR
     (INPLACE S2TTE_PI_INDEX_0 (pi_index AND 1) OR
      INPLACE S2TTE_PI_INDEX_1 (drop_bit 1 pi_index AND 1) OR
      INPLACE S2TTE_PI_INDEX_2 (drop_bit 2 pi_index AND 1) OR
      INPLACE S2TTE_PI_INDEX_3 (drop_bit 3 pi_index AND 1))"

definition s2tte_set_po_index :: "u64 \<Rightarrow> u64 \<Rightarrow> u64" where
  "s2tte_set_po_index s2tte po_index =
     (s2tte AND NOT (MASK S2TTE_PO_INDEX)) OR INPLACE S2TTE_PO_INDEX po_index"

definition s2tte_get_ap :: "'g s2tt_context \<Rightarrow> u64 \<Rightarrow> bool \<Rightarrow> u64" where
  "s2tte_get_ap s2_ctx s2tte dev =
     (if \<not> indirect_s2ap s2_ctx then
        let s2tte_ap = s2tte AND S2TTE_RW_AP_MASK in
        if dev then s2tte_ap OR S2TTE_PERM_XNU_XNP
        else s2tte_ap OR (s2tte AND MASK S2TTE_PERM_XN)
      else
        let s2tte_ap = (s2tte AND MASK S2TTE_PO_INDEX) OR S2TTE_DIRTY_BIT in
        s2tte_set_pi_index s2tte_ap
          (if dev then S2TTE_DEV_DEF_BASE_PERM_IDX else S2TTE_DEF_BASE_PERM_IDX))"

subsection \<open>Flattened permissions (s2tt.c)\<close>

definition S2TTE_AP_LABEL_ENCODE :: "u64 \<Rightarrow> u64 \<Rightarrow> u64 \<Rightarrow> u64" where
  "S2TTE_AP_LABEL_ENCODE r w xn = xn OR INPLACE S2TTE_PERM_R r OR INPLACE S2TTE_PERM_W w"

definition ovr_encodings :: "u64 list" where
  "ovr_encodings = [
     S2TTE_AP_LABEL_ENCODE 0 0 S2TTE_PERM_XNU_XNP, S2TTE_AP_LABEL_ENCODE 0 0 S2TTE_PERM_XNU_XNP,
     S2TTE_AP_LABEL_ENCODE 0 0 S2TTE_PERM_XNU_XNP, S2TTE_AP_LABEL_ENCODE 0 0 S2TTE_PERM_XNU_XNP,
     S2TTE_AP_LABEL_ENCODE 0 1 S2TTE_PERM_XNU_XNP, S2TTE_AP_LABEL_ENCODE 0 0 S2TTE_PERM_XNU_XNP,
     S2TTE_AP_LABEL_ENCODE 0 0 S2TTE_PERM_XNU_XNP, S2TTE_AP_LABEL_ENCODE 0 0 S2TTE_PERM_XNU_XNP,
     S2TTE_AP_LABEL_ENCODE 1 0 S2TTE_PERM_XNU_XNP, S2TTE_AP_LABEL_ENCODE 1 0 S2TTE_PERM_XU_XNP,
     S2TTE_AP_LABEL_ENCODE 1 0 S2TTE_PERM_XNU_XP, S2TTE_AP_LABEL_ENCODE 1 0 S2TTE_PERM_XU_XP,
     S2TTE_AP_LABEL_ENCODE 1 1 S2TTE_PERM_XNU_XNP, S2TTE_AP_LABEL_ENCODE 1 1 S2TTE_PERM_XU_XNP,
     S2TTE_AP_LABEL_ENCODE 1 1 S2TTE_PERM_XNU_XP, S2TTE_AP_LABEL_ENCODE 1 1 S2TTE_PERM_XU_XP]"

definition base_encodings :: "u64 list" where
  "base_encodings = [
     S2TTE_AP_LABEL_ENCODE 0 0 (MASK S2TTE_PERM_XN), S2TTE_AP_LABEL_ENCODE 1 0 (MASK S2TTE_PERM_XN),
     S2TTE_AP_LABEL_ENCODE 0 1 (MASK S2TTE_PERM_XN), S2TTE_AP_LABEL_ENCODE 1 1 (MASK S2TTE_PERM_XN),
     S2TTE_AP_LABEL_ENCODE 1 1 (MASK S2TTE_PERM_XN)]"

text \<open>Array reads outside the tables are undefined, hence \<open>None\<close>.\<close>

definition s2tte_get_flattened_ap :: "u64 \<Rightarrow> u32 \<Rightarrow> u32 \<Rightarrow> u64 option" where
  "s2tte_get_flattened_ap s2por_el2 base_idx ovr_idx = (
     let ovr_label_idx = unat (ucast (S2AP_IND_GET_PERM_VALUE s2por_el2 ovr_idx) :: u32) in do {
       c_assert (unat base_idx < length base_encodings);
       c_assert (ovr_label_idx < length ovr_encodings);
       let flattened_ap = base_encodings ! unat base_idx AND ovr_encodings ! ovr_label_idx;
       Some (if base_idx \<noteq> S2AP_IND_BASE_PERM_IDX_RW_upX
             then (flattened_ap AND NOT (MASK S2TTE_PERM_XN)) OR S2TTE_PERM_XNU_XNP
             else flattened_ap)
     })"

definition s2tte_update_prot_ap :: "'g s2tt_context \<Rightarrow> u64 \<Rightarrow> u32 \<Rightarrow> u32 \<Rightarrow> u64 option" where
  "s2tte_update_prot_ap s2_ctx s2tte base_index overlay_index = do {
     c_assert (s2ap_is_ovrl_perm_index_valid (ucast overlay_index));
     c_assert (s2ap_is_base_perm_index_valid (ucast base_index));
     if indirect_s2ap s2_ctx then
       Some (s2tte_set_po_index (s2tte_set_pi_index s2tte (ucast base_index)) (ucast overlay_index))
     else do {
       let permissions = overlay_perm s2_ctx;
       ap \<leftarrow> s2tte_get_flattened_ap permissions base_index overlay_index;
       Some ((s2tte AND NOT S2TTE_PERM_MASK) OR ap)
     }
   }"

subsection \<open>Bits of the permission fields\<close>

lemma bit_S2AP_PII_MASK [bit_defs]: "bit S2AP_PII_MASK n \<longleftrightarrow> n < 4"
proof -
  have "S2AP_PII_MASK = mask 4" by (simp add: S2AP_PII_MASK_def mask_eq_exp_minus_1)
  then have "bit S2AP_PII_MASK n \<longleftrightarrow> bit (mask 4 :: u64) n" by simp
  then show ?thesis unfolding bit_mask_iff by auto
qed

lemma bit_get_pi_index [bit_defs]:
  "bit (s2tte_get_pi_index t) n \<longleftrightarrow>
     n = 0 \<and> bit t 6 \<or> n = 1 \<and> bit t 51 \<or> n = 2 \<and> bit t 53 \<or> n = 3 \<and> bit t 54"
  unfolding s2tte_get_pi_index_def bit_or_iff bit_push_bit_iff by (auto simp: bit_defs)

lemma bit_set_pi_index [bit_defs]:
  "bit (s2tte_set_pi_index t i) n \<longleftrightarrow>
     (if n \<in> {6, 51, 53, 54}
      then n = 6 \<and> bit i 0 \<or> n = 51 \<and> bit i 1 \<or> n = 53 \<and> bit i 2 \<or> n = 54 \<and> bit i 3
      else bit t n)"
  by (auto simp: s2tte_set_pi_index_def bit_or_iff bit_and_iff bit_not_iff bit_drop_bit_eq bit_defs
      simp flip: numeral_2_eq_2 dest: bit_imp_le_length)

lemma bit_set_po_index [bit_defs]:
  assumes "unat i < 16"
  shows "bit (s2tte_set_po_index t i) n \<longleftrightarrow> (if 59 \<le> n \<and> n < 63 then bit i (n - 59) else bit t n)"
proof -
  have "n - 59 < 4" if "bit i (n - 59)"
    using bit_unat_less [of i 4, OF _ that] assms by simp
  then show ?thesis
    by (auto simp: s2tte_set_po_index_def bit_or_iff bit_and_iff bit_not_iff bit_defs
        dest: bit_imp_le_length)
qed

text \<open>The permission bits an entry takes from a source of permissions.\<close>

lemma bit_get_ap [bit_defs]:
  "bit (s2tte_get_ap s2_ctx t dev) n \<longleftrightarrow>
     (if indirect_s2ap s2_ctx
      then n = 7 \<or> dev \<and> n \<in> {6, 51} \<or> \<not> dev \<and> n = 53 \<or> 59 \<le> n \<and> n < 63 \<and> bit t n
      else n \<in> {6, 7} \<and> bit t n \<or> (if dev then n = 54 else n \<in> {53, 54} \<and> bit t n))"
  by (auto simp: s2tte_get_ap_def Let_def bit_or_iff bit_and_iff bit_set_pi_index bit_MASK ap_bits)

lemma get_ap_idem [simp]:
  "s2tte_get_ap s2_ctx (s2tte_get_ap s2_ctx t dev) dev = s2tte_get_ap s2_ctx t dev"
  by (rule bit_word_eqI) (auto simp: bit_get_ap)

lemma get_ap_cong:
  assumes "\<And>n. n \<in> {6, 7, 53, 54, 59, 60, 61, 62} \<Longrightarrow> bit t n = bit t' n"
  shows "s2tte_get_ap s2_ctx t dev = s2tte_get_ap s2_ctx t' dev"
proof (rule bit_word_eqI)
  fix n :: nat
  have "59 \<le> n \<and> n < 63 \<longleftrightarrow> n \<in> {59, 60, 61, 62}" by auto
  then show "bit (s2tte_get_ap s2_ctx t dev) n = bit (s2tte_get_ap s2_ctx t' dev) n"
    using assms by (auto simp: bit_get_ap)
qed

subsection \<open>Indices round trip\<close>

lemma get_set_pi_index:
  assumes "unat i < 16"
  shows "s2tte_get_pi_index (s2tte_set_pi_index t i) = i"
proof (rule bit_word_eqI)
  fix n :: nat
  have "n < 4" if "bit i n" using bit_unat_less [of i 4, OF _ that] assms by simp
  moreover have "n < 4 \<longleftrightarrow> n = 0 \<or> n = 1 \<or> n = 2 \<or> n = 3" by auto
  ultimately show "bit (s2tte_get_pi_index (s2tte_set_pi_index t i)) n = bit i n"
    by (auto simp: bit_get_pi_index bit_set_pi_index)
qed

lemma get_set_po_index:
  assumes "unat i < 16"
  shows "EXTRACT S2TTE_PO_INDEX (s2tte_set_po_index t i) = i"
proof (rule bit_word_eqI)
  fix n :: nat
  have "n < 4" if "bit i n" using bit_unat_less [of i 4, OF _ that] assms by simp
  then show "bit (EXTRACT S2TTE_PO_INDEX (s2tte_set_po_index t i)) n = bit i n"
    by (auto simp: bit_EXTRACT bit_set_po_index assms)
qed

text \<open>Permission fields of the overlay register.\<close>

lemma get_overlay_perm_bit:
  "bit (S2AP_IND_GET_PERM_VALUE reg i) n \<longleftrightarrow> n < 4 \<and> bit reg (unat i * 4 + n)"
  by (auto simp: S2AP_IND_GET_PERM_VALUE_def bit_and_iff bit_drop_bit_eq bit_S2AP_PII_MASK)

lemma get_overlay_perm_less: "unat (S2AP_IND_GET_PERM_VALUE reg i) < 16"
  using unat_less_if_bits [of "S2AP_IND_GET_PERM_VALUE reg i" 4] by (simp add: get_overlay_perm_bit)

lemma overlay_slot_disjoint:
  fixes i j n :: nat
  assumes "i \<noteq> j" and "n < 4"
  shows "\<not> (j * 4 \<le> i * 4 + n \<and> i * 4 + n - j * 4 < 4)"
  using assms by presburger

text \<open>
  C18. Setting the permission of one overlay index changes exactly that index: reading it
  back gives the new value, and every other index keeps its permission.
\<close>

theorem overlay_perm_get_set:
  assumes "index < S2AP_IND_PERM_IDX_COUNT" and "s2ap_is_perm_value_valid perm"
    and "j < S2AP_IND_PERM_IDX_COUNT"
  shows "\<exists>reg'. s2ap_set_overlay_perm reg index perm = Some reg' \<and>
    S2AP_IND_GET_PERM_VALUE reg' j = (if j = index then perm else S2AP_IND_GET_PERM_VALUE reg j)"
proof -
  let ?reg' = "(reg AND NOT (push_bit (4 * unat index) S2AP_PII_MASK)) OR push_bit (4 * unat index) perm"
  have i: "unat index < 16" "unat j < 16" and p: "unat perm < 2 ^ 4"
    using assms by (simp_all add: word_less_nat_alt s2ap_is_perm_value_valid_def)
  have "bit ?reg' (unat j * 4 + n) \<longleftrightarrow> bit (if j = index then perm else drop_bit (unat j * 4) reg) n"
    if "n < 4" for n
  proof (cases "j = index")
    case True
    then show ?thesis
      using that i by (auto simp: bit_or_iff bit_and_iff bit_not_iff bit_push_bit_iff bit_S2AP_PII_MASK)
  next
    case False
    then have ne: "unat j \<noteq> unat index" by (simp add: word_unat_eq_iff)
    have "\<not> (unat index * 4 \<le> unat j * 4 + n \<and> unat j * 4 + n - unat index * 4 < 4)"
      using overlay_slot_disjoint [OF ne that] .
    moreover have "k < 4" if "bit perm k" for k using bit_unat_less [OF p that] .
    ultimately show ?thesis
      using False that i bit_imp_le_length [of reg "unat j * 4 + n"]
      by (auto simp: bit_or_iff bit_and_iff bit_not_iff bit_push_bit_iff bit_S2AP_PII_MASK
          bit_drop_bit_eq mult.commute)
  qed
  then have "S2AP_IND_GET_PERM_VALUE ?reg' j = (if j = index then perm else S2AP_IND_GET_PERM_VALUE reg j)"
    using bit_unat_less [OF p]
    by (intro bit_word_eqI) (auto simp: get_overlay_perm_bit bit_drop_bit_eq)
  then show ?thesis
    using assms by (simp add: s2ap_set_overlay_perm_def)
qed

theorem overlay_perm_get_set_witness:
  "\<exists>reg'. s2ap_set_overlay_perm 0x123 1 15 = Some reg' \<and>
    S2AP_IND_GET_PERM_VALUE reg' 1 = 15 \<and> S2AP_IND_GET_PERM_VALUE reg' 2 = 1"
proof -
  have "S2AP_IND_GET_PERM_VALUE 0x123 2 = 1" by code_simp
  then show ?thesis
    using overlay_perm_get_set [of 1 15 1 "0x123"] overlay_perm_get_set [of 1 15 2 "0x123"]
    by (auto simp: s2ap_is_perm_value_valid_def)
qed

subsection \<open>What a permission allows\<close>

text \<open>
  Reads, writes, unprivileged and privileged execution. The direct encoding follows
  FEAT_XNX; the labels of the overlay and base permissions are those of the architecture
  (\<^verbatim>\<open>s2ap_ind.h\<close>).
\<close>

record s2_perm =
  perm_r :: bool
  perm_w :: bool
  perm_uX :: bool
  perm_pX :: bool

definition direct_perm :: "u64 \<Rightarrow> s2_perm" where
  "direct_perm t = \<lparr>perm_r = bit t 6, perm_w = bit t 7,
     perm_uX = (\<not> bit t 54), perm_pX = (bit t 53 = bit t 54)\<rparr>"

definition label_perm :: "nat \<Rightarrow> s2_perm" where
  "label_perm l = \<lparr>perm_r = (8 \<le> l), perm_w = (l = 4 \<or> 12 \<le> l),
     perm_uX = (l \<in> {9, 11, 13, 15}), perm_pX = (l \<in> {10, 11, 14, 15})\<rparr>"

definition base_perm :: "nat \<Rightarrow> s2_perm" where
  "base_perm b = \<lparr>perm_r = (b \<in> {1, 3, 4}), perm_w = (b \<in> {2, 3, 4}),
     perm_uX = (b = 4), perm_pX = (b = 4)\<rparr>"

definition meet_perm :: "s2_perm \<Rightarrow> s2_perm \<Rightarrow> s2_perm" where
  "meet_perm p q = \<lparr>perm_r = (perm_r p \<and> perm_r q), perm_w = (perm_w p \<and> perm_w q),
     perm_uX = (perm_uX p \<and> perm_uX q), perm_pX = (perm_pX p \<and> perm_pX q)\<rparr>"

lemma bit_label_encode [bit_defs]:
  "r \<in> {0, 1} \<Longrightarrow> w \<in> {0, 1} \<Longrightarrow> bit (S2TTE_AP_LABEL_ENCODE r w xn) n \<longleftrightarrow>
     bit xn n \<or> n = 6 \<and> r = 1 \<or> n = 7 \<and> w = 1"
  by (auto simp: S2TTE_AP_LABEL_ENCODE_def bit_or_iff bit_defs)

lemma less_16_cases:
  "l < 16 \<Longrightarrow> l \<in> {0, 1, 2, 3, 4, 5, 6, 7, 8, 9, 10, 11, 12, 13, 14, 15 :: nat}"
  unfolding insert_iff empty_iff by presburger

lemma ovr_encoding_perm:
  assumes "l < 16"
  shows "direct_perm (ovr_encodings ! l) = label_perm l"
  using less_16_cases [OF assms]
  by (auto simp: ovr_encodings_def direct_perm_def label_perm_def bit_label_encode ap_bits)

lemma ovr_encoding_bits:
  assumes "l < 16" and "bit (ovr_encodings ! l) n"
  shows "n \<in> {6, 7, 53, 54}"
  using less_16_cases [OF assms(1)] assms(2)
  by (auto simp: ovr_encodings_def bit_label_encode ap_bits)

lemma base_encoding_bits:
  assumes "b < 5"
  shows "bit (base_encodings ! b) n \<longleftrightarrow>
     n = 6 \<and> perm_r (base_perm b) \<or> n = 7 \<and> perm_w (base_perm b) \<or> n \<in> {53, 54}"
proof -
  have "b \<in> {0, 1, 2, 3, 4}" using assms by auto
  then show ?thesis
    by (auto simp: base_encodings_def base_perm_def bit_label_encode bit_MASK)
qed

lemma flattened_ap:
  assumes "base_idx < S2AP_IND_BASE_PERM_IDX_COUNT"
  shows "\<exists>ap. s2tte_get_flattened_ap por base_idx ovr_idx = Some ap \<and>
    direct_perm ap = meet_perm (base_perm (unat base_idx))
      (label_perm (unat (S2AP_IND_GET_PERM_VALUE por ovr_idx))) \<and>
    (\<forall>n. bit ap n \<longrightarrow> n \<in> {6, 7, 53, 54})"
proof -
  let ?b = "unat base_idx" and ?l = "unat (S2AP_IND_GET_PERM_VALUE por ovr_idx)"
  have b: "?b < 5" using assms by (simp add: word_less_nat_alt)
  have l: "?l < 16" by (rule get_overlay_perm_less)
  have idx: "unat (ucast (S2AP_IND_GET_PERM_VALUE por ovr_idx) :: u32) = ?l"
    using l by (simp add: unsigned_ucast_eq take_bit_nat_eq_self_iff)
  have four: "base_idx = 4 \<longleftrightarrow> ?b = 4"
    by (simp add: word_unat_eq_iff)
  define B where "B = base_encodings ! ?b"
  have B: "bit B n \<longleftrightarrow> n = 6 \<and> perm_r (base_perm ?b) \<or> n = 7 \<and> perm_w (base_perm ?b) \<or> n \<in> {53, 54}" for n
    unfolding B_def by (rule base_encoding_bits [OF b])
  let ?f = "B AND ovr_encodings ! ?l"
  let ?ap = "if base_idx \<noteq> 4 then (?f AND NOT (MASK S2TTE_PERM_XN)) OR S2TTE_PERM_XNU_XNP else ?f"
  have some: "s2tte_get_flattened_ap por base_idx ovr_idx = Some ?ap"
    using b l idx
    by (simp add: s2tte_get_flattened_ap_def Let_def B_def base_encodings_def ovr_encodings_def)
  have bits: "bit ?ap n \<longleftrightarrow> bit (ovr_encodings ! ?l) n \<and>
      (n = 6 \<and> perm_r (base_perm ?b) \<or> n = 7 \<and> perm_w (base_perm ?b) \<or> ?b = 4 \<and> n \<in> {53, 54}) \<or>
      ?b \<noteq> 4 \<and> n = 54" for n
    using four by (auto simp: bit_or_iff bit_and_iff bit_not_iff bit_MASK ap_bits B)
  have "direct_perm ?ap = meet_perm (base_perm ?b) (direct_perm (ovr_encodings ! ?l))"
    unfolding direct_perm_def bits by (auto simp: meet_perm_def base_perm_def)
  then show ?thesis
    using some ovr_encoding_perm [OF l] ovr_encoding_bits [OF l] bits by auto
qed

text \<open>
  C17. Updating the access permissions of an entry of a protected IPA succeeds for every valid
  pair of indices and touches only permission bits. With indirect permissions the entry then
  holds the base and the overlay index; otherwise its direct permissions allow exactly what
  both the base permission and the overlay permission selected by the index allow.
\<close>

theorem update_prot_ap_correct:
  assumes "base_index < S2AP_IND_BASE_PERM_IDX_COUNT"
    and "overlay_index < S2AP_NUM_PERM_OVERLAY_INDICES"
  shows "\<exists>t'. s2tte_update_prot_ap s2_ctx t base_index overlay_index = Some t' \<and>
    (if indirect_s2ap s2_ctx then
       s2tte_get_pi_index t' = ucast base_index \<and>
       EXTRACT S2TTE_PO_INDEX t' = ucast overlay_index \<and>
       (\<forall>n. n \<notin> {6, 51, 53, 54, 59, 60, 61, 62} \<longrightarrow> bit t' n = bit t n)
     else
       direct_perm t' = meet_perm (base_perm (unat base_index))
         (label_perm (unat (S2AP_IND_GET_PERM_VALUE (overlay_perm s2_ctx) overlay_index))) \<and>
       (\<forall>n. n \<notin> {6, 7, 53, 54} \<longrightarrow> bit t' n = bit t n))"
proof -
  have b: "unat (ucast base_index :: u64) < 5" and o: "unat (ucast overlay_index :: u64) < 15"
    using assms by (simp_all add: unat_ucast_up word_less_nat_alt)
  then have valid: "s2ap_is_base_perm_index_valid (ucast base_index)"
      "s2ap_is_ovrl_perm_index_valid (ucast overlay_index)"
    by (simp_all add: s2ap_is_base_perm_index_valid_def s2ap_is_ovrl_perm_index_valid_def
        word_less_nat_alt)
  show ?thesis
  proof (cases "indirect_s2ap s2_ctx")
    case True
    let ?t = "s2tte_set_po_index (s2tte_set_pi_index t (ucast base_index)) (ucast overlay_index)"
    have o16: "unat (ucast overlay_index :: u64) < 16" using o by simp
    have "s2tte_get_pi_index ?t = s2tte_get_pi_index (s2tte_set_pi_index t (ucast base_index))"
      by (rule bit_word_eqI) (auto simp: bit_get_pi_index bit_set_po_index [OF o16])
    moreover have "bit ?t n = bit t n" if "n \<notin> {6, 51, 53, 54, 59, 60, 61, 62}" for n
    proof -
      have "\<not> (59 \<le> n \<and> n < 63)" using that by auto
      then have "bit ?t n = bit (s2tte_set_pi_index t (ucast base_index)) n"
        unfolding bit_set_po_index [OF o16] by (rule if_not_P)
      also have "\<dots> = bit t n" using that unfolding bit_set_pi_index by simp
      finally show ?thesis .
    qed
    ultimately show ?thesis
      using True valid b get_set_pi_index [of "ucast base_index" t] get_set_po_index [OF o16]
      by (simp add: s2tte_update_prot_ap_def)
  next
    case False
    obtain ap where ap: "s2tte_get_flattened_ap (overlay_perm s2_ctx) base_index overlay_index = Some ap"
      "direct_perm ap = meet_perm (base_perm (unat base_index))
         (label_perm (unat (S2AP_IND_GET_PERM_VALUE (overlay_perm s2_ctx) overlay_index)))"
      "\<And>n. bit ap n \<Longrightarrow> n \<in> {6, 7, 53, 54}"
      using flattened_ap [OF assms(1)] by metis
    have bits: "bit ((t AND NOT S2TTE_PERM_MASK) OR ap) n =
        (if n \<in> {6, 7, 53, 54} then bit ap n else bit t n)" for n
      using ap(3) [of n] by (auto simp: bit_or_iff bit_and_iff bit_not_iff ap_bits dest: bit_imp_le_length)
    have "direct_perm ((t AND NOT S2TTE_PERM_MASK) OR ap) = direct_perm ap"
      unfolding direct_perm_def bits by simp
    then show ?thesis
      using False valid ap bits by (simp add: s2tte_update_prot_ap_def)
  qed
qed

theorem update_prot_ap_correct_witness:
  "\<exists>t'. s2tte_update_prot_ap \<lparr>ipa_bits = 48, s2_starting_level = 0, num_root_rtts = 1, g_rtt = (),
      vmid = 1, indirect_s2ap = False, overlay_perm = 0xF80, mecid = 0, s2oa_limit = 2 ^ 48\<rparr> 0 4 2
      = Some t' \<and> direct_perm t' = \<lparr>perm_r = True, perm_w = True, perm_uX = True, perm_pX = True\<rparr>"
proof -
  have "unat (S2AP_IND_GET_PERM_VALUE 0xF80 2) = 15" by code_simp
  then show ?thesis
    using update_prot_ap_correct [of 4 2 "\<lparr>ipa_bits = 48, s2_starting_level = 0, num_root_rtts = 1,
      g_rtt = (), vmid = 1, indirect_s2ap = False, overlay_perm = 0xF80, mecid = 0,
      s2oa_limit = 2 ^ 48\<rparr>" 0]
    by (auto simp: meet_perm_def base_perm_def label_perm_def)
qed

end
