(* ===== verification/S2tte.thy ===== *)
theory S2tte
  imports S2ap
begin

text \<open>
  Stage 2 translation table entries: the constructors, classifiers and accessors of
  \<^verbatim>\<open>src/lib/s2tt/src/s2tt.c\<close>. The lemmas characterise every classifier by the bits it
  reads, so that what a constructor builds is recognised by its own classifier only and
  the physical address, RIPAS and permissions read back are the ones it was given.
\<close>

subsection \<open>Address masks\<close>

definition s2tte_lvl_mask :: "int \<Rightarrow> bool \<Rightarrow> u64 option" where
  "s2tte_lvl_mask level lpa2 = do {
     c_assert (level \<le> S2TT_PAGE_LEVEL);
     c_assert (level \<ge> S2TT_MIN_STARTING_LEVEL_LPA2);
     let lsb = nat (S2TT_PAGE_LEVEL - level) * S2TTE_STRIDE + GRANULE_SHIFT;
     let m = BIT_MASK_ULL (S2TTE_OA_BITS - 1) lsb;
     Some (if lpa2 then m OR (MASK LPA2_S2TTE_51_50 OR MASK LPA2_OA_49_48) else m)
   }"

definition s2tte_ipa_lvl_mask :: "int \<Rightarrow> bool \<Rightarrow> u64 option" where
  "s2tte_ipa_lvl_mask level lpa2 = do {
     c_assert (level \<le> S2TT_PAGE_LEVEL);
     c_assert (level \<ge> S2TT_MIN_STARTING_LEVEL_LPA2);
     let lsb = nat (S2TT_PAGE_LEVEL - level) * S2TTE_STRIDE + GRANULE_SHIFT;
     let oa_bits = (if lpa2 then S2TTE_OA_BITS_LPA2 else S2TTE_OA_BITS);
     Some (BIT_MASK_ULL (oa_bits - 1) lsb)
   }"

definition s2tte_to_pa :: "cached_idregs \<Rightarrow> 'g s2tt_context \<Rightarrow> u64 \<Rightarrow> int \<Rightarrow> u64 option" where
  "s2tte_to_pa hw s2_ctx s2tte level = do {
     lpa2 \<leftarrow> s2tt_lpa2_enabled hw s2_ctx;
     m \<leftarrow> s2tte_lvl_mask level lpa2;
     let pa = s2tte AND m;
     Some (if lpa2
           then (pa AND NOT (MASK LPA2_S2TTE_51_50)) OR
                INPLACE LPA2_OA_51_50 (EXTRACT LPA2_S2TTE_51_50 s2tte)
           else pa)
   }"

definition pa_to_s2tte :: "cached_idregs \<Rightarrow> 'g s2tt_context \<Rightarrow> u64 \<Rightarrow> u64 option" where
  "pa_to_s2tte hw s2_ctx pa = do {
     let tte = pa;
     lpa2 \<leftarrow> s2tt_lpa2_enabled hw s2_ctx;
     m \<leftarrow> s2tte_ipa_lvl_mask S2TT_PAGE_LEVEL lpa2;
     let pa = pa AND m;
     lpa2 \<leftarrow> s2tt_lpa2_enabled hw s2_ctx;
     Some (if lpa2
           then (tte AND NOT (MASK LPA2_OA_51_50)) OR
                INPLACE LPA2_S2TTE_51_50 (EXTRACT LPA2_OA_51_50 pa)
           else tte)
   }"

definition s2tte_is_addr_lvl_aligned ::
  "cached_idregs \<Rightarrow> 'g s2tt_context \<Rightarrow> u64 \<Rightarrow> int \<Rightarrow> bool option" where
  "s2tte_is_addr_lvl_aligned hw s2_ctx addr level = do {
     lpa2 \<leftarrow> s2tt_lpa2_enabled hw s2_ctx;
     let min_starting_level =
       (if lpa2 then S2TT_MIN_STARTING_LEVEL_LPA2 else S2TT_MIN_STARTING_LEVEL);
     c_assert (level \<le> S2TT_PAGE_LEVEL);
     c_assert (level \<ge> min_starting_level);
     let lsb = nat (S2TT_PAGE_LEVEL - level) * S2TTE_STRIDE + GRANULE_SHIFT;
     lpa2 \<leftarrow> s2tt_lpa2_enabled hw s2_ctx;
     let s2tte_oa_bits = (if lpa2 then S2TTE_OA_BITS_LPA2 else S2TTE_OA_BITS);
     Some (addr = (addr AND BIT_MASK_ULL (s2tte_oa_bits - 1) lsb))
   }"

subsection \<open>Descriptor states\<close>

definition s2tte_has_hipas :: "u64 \<Rightarrow> u64 \<Rightarrow> bool" where
  "s2tte_has_hipas s2tte hipas \<longleftrightarrow>
     (s2tte AND S2TT_DESC_VALID_MASK) = S2TTE_INVALID \<and>
     (s2tte AND S2TTE_INVALID_HIPAS_MASK) = hipas"

definition s2tte_has_pa :: "u64 \<Rightarrow> int \<Rightarrow> bool" where
  "s2tte_has_pa s2tte level \<longleftrightarrow>
     (s2tte AND S2TT_DESC_VALID_MASK) = S2TTE_VALID \<or>
     s2tte_has_hipas s2tte S2TTE_INVALID_HIPAS_ASSIGNED \<or>
     s2tte_has_hipas s2tte S2TTE_INVALID_HIPAS_ASSIGNED_DEV"

subsection \<open>Constructors\<close>

definition s2tte_create_unassigned_empty :: "'g s2tt_context \<Rightarrow> u64 \<Rightarrow> u64" where
  "s2tte_create_unassigned_empty s2_ctx s2tte_ap =
     s2tte_get_ap s2_ctx s2tte_ap False OR
     (S2TTE_INVALID_HIPAS_UNASSIGNED OR S2TTE_INVALID_RIPAS_EMPTY)"

definition s2tte_create_unassigned_ram :: "'g s2tt_context \<Rightarrow> u64 \<Rightarrow> u64" where
  "s2tte_create_unassigned_ram s2_ctx s2tte_ap =
     (S2TTE_INVALID_HIPAS_UNASSIGNED OR S2TTE_INVALID_RIPAS_RAM) OR
     s2tte_get_ap s2_ctx s2tte_ap False"

definition s2tte_create_unassigned_destroyed :: "'g s2tt_context \<Rightarrow> u64 \<Rightarrow> u64" where
  "s2tte_create_unassigned_destroyed s2_ctx s2tte_ap =
     s2tte_get_ap s2_ctx s2tte_ap False OR
     (S2TTE_INVALID_HIPAS_UNASSIGNED OR S2TTE_INVALID_RIPAS_DESTROYED)"

definition s2tte_create_unassigned_ns :: "'g s2tt_context \<Rightarrow> u64 \<Rightarrow> u64" where
  "s2tte_create_unassigned_ns s2_ctx s2tte_ap = S2TTE_NS OR S2TTE_INVALID_HIPAS_UNASSIGNED"

definition s2tte_create_assigned ::
  "cached_idregs \<Rightarrow> 'g s2tt_context \<Rightarrow> u64 \<Rightarrow> int \<Rightarrow> u64 \<Rightarrow> u64 option" where
  "s2tte_create_assigned hw s2_ctx pa level s2tte_ripas = do {
     c_assert (level \<ge> S2TT_MIN_BLOCK_LEVEL);
     c_assert (level \<le> S2TT_PAGE_LEVEL);
     c_assert (s2tte_ripas \<le> S2TTE_INVALID_RIPAS_DESTROYED);
     aligned \<leftarrow> s2tte_is_addr_lvl_aligned hw s2_ctx pa level;
     c_assert aligned;
     tte \<leftarrow> pa_to_s2tte hw s2_ctx pa;
     if s2tte_ripas = S2TTE_INVALID_RIPAS_RAM then do {
       lpa2 \<leftarrow> s2tt_lpa2_enabled hw s2_ctx;
       let s2tte_page = (if lpa2 then S2TTE_PAGE_LPA2 else S2TTE_PAGE);
       let s2tte_block = (if lpa2 then S2TTE_BLOCK_LPA2 else S2TTE_BLOCK);
       Some (if level = S2TT_PAGE_LEVEL then tte OR s2tte_page else tte OR s2tte_block)
     } else Some (tte OR S2TTE_INVALID_HIPAS_ASSIGNED OR s2tte_ripas)
   }"

type_synonym 'g create_assigned_fn =
  "cached_idregs \<Rightarrow> 'g s2tt_context \<Rightarrow> u64 \<Rightarrow> int \<Rightarrow> u64 \<Rightarrow> u64 option"

definition s2tte_create_assigned_destroyed :: "'g create_assigned_fn" where
  "s2tte_create_assigned_destroyed hw s2_ctx pa level s2tte_ap = do {
     tte \<leftarrow> s2tte_create_assigned hw s2_ctx pa level S2TTE_INVALID_RIPAS_DESTROYED;
     Some (s2tte_get_ap s2_ctx s2tte_ap False OR tte)
   }"

definition s2tte_create_assigned_empty :: "'g create_assigned_fn" where
  "s2tte_create_assigned_empty hw s2_ctx pa level s2tte_ap = do {
     tte \<leftarrow> s2tte_create_assigned hw s2_ctx pa level S2TTE_INVALID_RIPAS_EMPTY;
     Some (s2tte_get_ap s2_ctx s2tte_ap False OR tte)
   }"

definition s2tte_create_assigned_ram :: "'g create_assigned_fn" where
  "s2tte_create_assigned_ram hw s2_ctx pa level s2tte_ap = do {
     tte \<leftarrow> s2tte_create_assigned hw s2_ctx pa level S2TTE_INVALID_RIPAS_RAM;
     Some (tte OR s2tte_get_ap s2_ctx s2tte_ap False)
   }"

definition s2tte_create_assigned_unchanged ::
  "cached_idregs \<Rightarrow> 'g s2tt_context \<Rightarrow> u64 \<Rightarrow> u64 \<Rightarrow> int \<Rightarrow> u64 option" where
  "s2tte_create_assigned_unchanged hw s2_ctx s2tte pa level = do {
     let current_ripas = s2tte AND S2TTE_INVALID_RIPAS_MASK;
     c_assert ((s2tte AND S2TT_DESC_VALID_MASK) = S2TTE_INVALID);
     tte \<leftarrow> s2tte_create_assigned hw s2_ctx pa level current_ripas;
     Some (tte OR s2tte_get_ap s2_ctx s2tte False)
   }"

definition s2tte_create_assigned_dev ::
  "cached_idregs \<Rightarrow> 'g s2tt_context \<Rightarrow> u64 \<Rightarrow> int \<Rightarrow> u64 \<Rightarrow> u64 option" where
  "s2tte_create_assigned_dev hw s2_ctx pa level s2tte_ripas = do {
     c_assert (level \<ge> S2TT_MIN_DEV_BLOCK_LEVEL);
     aligned \<leftarrow> s2tte_is_addr_lvl_aligned hw s2_ctx pa level;
     c_assert aligned;
     c_assert (s2tte_ripas = S2TTE_INVALID_RIPAS_EMPTY \<or>
               s2tte_ripas = S2TTE_INVALID_RIPAS_DESTROYED);
     tte \<leftarrow> pa_to_s2tte hw s2_ctx pa;
     Some (tte OR S2TTE_INVALID_HIPAS_ASSIGNED_DEV OR s2tte_ripas)
   }"

definition s2tte_create_assigned_dev_empty :: "'g create_assigned_fn" where
  "s2tte_create_assigned_dev_empty hw s2_ctx pa level s2tte_ap = do {
     tte \<leftarrow> s2tte_create_assigned_dev hw s2_ctx pa level S2TTE_INVALID_RIPAS_EMPTY;
     Some (s2tte_get_ap s2_ctx s2tte_ap True OR tte)
   }"

definition s2tte_create_assigned_dev_destroyed :: "'g create_assigned_fn" where
  "s2tte_create_assigned_dev_destroyed hw s2_ctx pa level s2tte_ap = do {
     tte \<leftarrow> s2tte_create_assigned_dev hw s2_ctx pa level S2TTE_INVALID_RIPAS_DESTROYED;
     Some (s2tte_get_ap s2_ctx s2tte_ap True OR tte)
   }"

definition s2tte_create_assigned_dev_unchanged ::
  "cached_idregs \<Rightarrow> 'g s2tt_context \<Rightarrow> u64 \<Rightarrow> u64 \<Rightarrow> int \<Rightarrow> u64 option" where
  "s2tte_create_assigned_dev_unchanged hw s2_ctx s2tte pa level = do {
     let current_ripas = s2tte AND S2TTE_INVALID_RIPAS_MASK;
     c_assert ((s2tte AND S2TT_DESC_VALID_MASK) = S2TTE_INVALID);
     tte \<leftarrow> s2tte_create_assigned_dev hw s2_ctx pa level current_ripas;
     Some (tte OR s2tte_get_ap s2_ctx s2tte True)
   }"

definition create_assigned_dev_dev_attr ::
  "cached_idregs \<Rightarrow> 'g s2tt_context \<Rightarrow> u64 \<Rightarrow> u64 \<Rightarrow> int \<Rightarrow> u64 \<Rightarrow> u64 option" where
  "create_assigned_dev_dev_attr hw s2_ctx pa attr level s2tte_ap = do {
     c_assert (level \<ge> S2TT_MIN_DEV_BLOCK_LEVEL);
     c_assert (level \<le> S2TT_PAGE_LEVEL);
     aligned \<leftarrow> s2tte_is_addr_lvl_aligned hw s2_ctx pa level;
     c_assert aligned;
     tte \<leftarrow> pa_to_s2tte hw s2_ctx pa;
     let new_s2tte = attr OR tte OR s2tte_get_ap s2_ctx s2tte_ap True;
     Some (if level = S2TT_PAGE_LEVEL then new_s2tte OR S2TTE_L3_PAGE
           else new_s2tte OR S2TTE_L012_BLOCK)
   }"

definition s2tte_create_assigned_dev_dev_from_pa ::
  "cached_idregs \<Rightarrow> 'g s2tt_context \<Rightarrow> u64 \<Rightarrow> u64 \<Rightarrow> int \<Rightarrow> u64 \<Rightarrow> u64 option" where
  "s2tte_create_assigned_dev_dev_from_pa hw s2_ctx pa source level s2tte_ap = do {
     let s2tte_mask = S2TTE_DEV_ATTRS_MASK OR S2TTE_MEMATTR_MASK;
     lpa2 \<leftarrow> s2tt_lpa2_enabled hw s2_ctx;
     let s2tte_mask = (if \<not> lpa2 then s2tte_mask OR S2TTE_SH_MASK else s2tte_mask);
     let attr = source AND s2tte_mask;
     create_assigned_dev_dev_attr hw s2_ctx pa attr level s2tte_ap
   }"

datatype dev_coh_type = DEV_MEM_COHERENT | DEV_MEM_NON_COHERENT | DEV_MEM_MAX

definition s2tte_create_assigned_dev_dev_coh_type ::
  "cached_idregs \<Rightarrow> 'g s2tt_context \<Rightarrow> u64 \<Rightarrow> int \<Rightarrow> dev_coh_type \<Rightarrow> u64 \<Rightarrow> u64 option" where
  "s2tte_create_assigned_dev_dev_coh_type hw s2_ctx pa level type s2tte_ap = do {
     c_assert (type \<noteq> DEV_MEM_MAX);
     lpa2 \<leftarrow> s2tt_lpa2_enabled hw s2_ctx;
     let attr = (if type = DEV_MEM_COHERENT
       then if \<not> lpa2 then S2TTE_DEV_COH_ATTRS OR S2TTE_SH_IS else S2TTE_DEV_COH_ATTRS
       else if \<not> lpa2 then S2TTE_DEV_NCOH_ATTRS OR S2TTE_SH_OS else S2TTE_DEV_NCOH_ATTRS);
     create_assigned_dev_dev_attr hw s2_ctx pa attr level s2tte_ap
   }"

definition s2tte_create_assigned_ns :: "'g create_assigned_fn" where
  "s2tte_create_assigned_ns hw s2_ctx s2tte level s2tte_ap = do {
     let new_s2tte = s2tte AND NOT S2TT_DESC_TYPE_MASK;
     c_assert (level \<ge> S2TT_MIN_BLOCK_LEVEL);
     c_assert (level \<le> S2TT_PAGE_LEVEL);
     lpa2 \<leftarrow> s2tt_lpa2_enabled hw s2_ctx;
     let new_s2tte = (if \<not> lpa2 then new_s2tte OR S2TTE_SH_IS else new_s2tte);
     new_s2tte \<leftarrow> (if indirect_s2ap s2_ctx then do {
         c_assert (s2tte_get_pi_index s2tte \<le> S2AP_IND_BASE_PERM_IDX_RW);
         Some (s2tte_set_po_index (new_s2tte OR S2TTE_DIRTY_BIT) S2TTE_DEF_UNPROT_OVERLAY_IDX)
       } else Some ((new_s2tte AND NOT (MASK S2TTE_PERM_XN)) OR S2TTE_PERM_XNU_XNP));
     Some (if level = S2TT_PAGE_LEVEL then new_s2tte OR S2TTE_PAGE_NS
           else new_s2tte OR S2TTE_BLOCK_NS)
   }"

definition host_ns_s2tte_is_valid ::
  "cached_idregs \<Rightarrow> 'g s2tt_context \<Rightarrow> u64 \<Rightarrow> int \<Rightarrow> bool option" where
  "host_ns_s2tte_is_valid hw s2_ctx s2tte level = do {
     c_assert (level \<ge> S2TT_MIN_BLOCK_LEVEL);
     lpa2 \<leftarrow> s2tt_lpa2_enabled hw s2_ctx;
     m \<leftarrow> s2tte_lvl_mask level lpa2;
     let m = m OR S2TTE_NS_ATTR_MASK;
     let m = (if indirect_s2ap s2_ctx then m OR S2TTE_PI_INDEX_MASK else m OR S2TTE_RW_AP_MASK);
     Some (if (s2tte AND NOT m) \<noteq> 0 then False
           else if indirect_s2ap s2_ctx \<and>
                   \<not> s2ap_is_base_perm_index_valid (s2tte_get_pi_index s2tte) then False
           else if (s2tte AND S2TTE_MEMATTR_MASK) = S2TTE_MEMATTR_FWB_RESERVED then False
           else True)
   }"

definition host_ns_s2tte :: "cached_idregs \<Rightarrow> 'g s2tt_context \<Rightarrow> u64 \<Rightarrow> int \<Rightarrow> u64 option" where
  "host_ns_s2tte hw s2_ctx s2tte level = do {
     lpa2 \<leftarrow> s2tt_lpa2_enabled hw s2_ctx;
     m \<leftarrow> s2tte_lvl_mask level lpa2;
     let m = m OR S2TTE_NS_ATTR_MASK;
     c_assert (level \<ge> S2TT_MIN_BLOCK_LEVEL);
     let m = (if indirect_s2ap s2_ctx then m OR S2TTE_PI_INDEX_MASK else m OR S2TTE_RW_AP_MASK);
     Some (s2tte AND m)
   }"

definition s2tte_create_table :: "cached_idregs \<Rightarrow> 'g s2tt_context \<Rightarrow> u64 \<Rightarrow> int \<Rightarrow> u64 option" where
  "s2tte_create_table hw s2_ctx pa level = do {
     lpa2 \<leftarrow> s2tt_lpa2_enabled hw s2_ctx;
     let min_starting_level =
       (if lpa2 then S2TT_MIN_STARTING_LEVEL_LPA2 else S2TT_MIN_STARTING_LEVEL);
     c_assert (level < S2TT_PAGE_LEVEL);
     c_assert (level \<ge> min_starting_level);
     c_assert (GRANULE_ALIGNED pa);
     tte \<leftarrow> pa_to_s2tte hw s2_ctx pa;
     Some (tte OR S2TTE_TABLE)
   }"

subsection \<open>Classifiers\<close>

definition s2tte_is_table :: "u64 \<Rightarrow> int \<Rightarrow> bool" where
  "s2tte_is_table s2tte level \<longleftrightarrow>
     level < S2TT_PAGE_LEVEL \<and> (s2tte AND S2TT_DESC_TYPE_MASK) = S2TTE_L012_TABLE"

definition s2tte_has_ripas :: "u64 \<Rightarrow> int \<Rightarrow> bool" where
  "s2tte_has_ripas s2tte level \<longleftrightarrow> (s2tte AND S2TTE_NS) = 0 \<and> \<not> s2tte_is_table s2tte level"

definition s2tte_has_unassigned_ripas :: "u64 \<Rightarrow> u64 \<Rightarrow> bool" where
  "s2tte_has_unassigned_ripas s2tte ripas \<longleftrightarrow>
     (s2tte AND S2TTE_INVALID_RIPAS_MASK) = ripas \<and>
     s2tte_has_hipas s2tte S2TTE_INVALID_HIPAS_UNASSIGNED"

definition s2tte_has_assigned_ripas :: "u64 \<Rightarrow> u64 \<Rightarrow> bool option" where
  "s2tte_has_assigned_ripas s2tte ripas = do {
     c_assert ((s2tte AND S2TT_DESC_VALID_MASK) = S2TTE_INVALID);
     c_assert (ripas \<noteq> S2TTE_INVALID_RIPAS_RAM);
     Some ((s2tte AND S2TTE_INVALID_RIPAS_MASK) = ripas \<and>
           s2tte_has_hipas s2tte S2TTE_INVALID_HIPAS_ASSIGNED)
   }"

definition s2tte_has_assigned_dev_ripas :: "u64 \<Rightarrow> u64 \<Rightarrow> bool option" where
  "s2tte_has_assigned_dev_ripas s2tte ripas = do {
     c_assert ((s2tte AND S2TT_DESC_VALID_MASK) = S2TTE_INVALID);
     c_assert (ripas \<noteq> S2TTE_INVALID_RIPAS_DEV);
     Some ((s2tte AND S2TTE_INVALID_RIPAS_MASK) = ripas \<and>
           s2tte_has_hipas s2tte S2TTE_INVALID_HIPAS_ASSIGNED_DEV)
   }"

definition s2tte_is_assigned_dev :: "u64 \<Rightarrow> bool" where
  "s2tte_is_assigned_dev s2tte = s2tte_has_hipas s2tte S2TTE_INVALID_HIPAS_ASSIGNED_DEV"

definition s2tte_is_unassigned :: "u64 \<Rightarrow> bool" where
  "s2tte_is_unassigned s2tte = s2tte_has_hipas s2tte S2TTE_INVALID_HIPAS_UNASSIGNED"

definition s2tte_is_unassigned_empty :: "u64 \<Rightarrow> bool" where
  "s2tte_is_unassigned_empty s2tte \<longleftrightarrow>
     (s2tte AND S2TTE_NS) = 0 \<and> s2tte_has_unassigned_ripas s2tte S2TTE_INVALID_RIPAS_EMPTY"

definition s2tte_is_unassigned_ram :: "u64 \<Rightarrow> bool" where
  "s2tte_is_unassigned_ram s2tte = s2tte_has_unassigned_ripas s2tte S2TTE_INVALID_RIPAS_RAM"

definition s2tte_is_unassigned_ns :: "u64 \<Rightarrow> bool" where
  "s2tte_is_unassigned_ns s2tte \<longleftrightarrow>
     (s2tte AND S2TTE_NS) \<noteq> 0 \<and> s2tte_has_hipas s2tte S2TTE_INVALID_HIPAS_UNASSIGNED"

definition s2tte_is_unassigned_destroyed :: "u64 \<Rightarrow> bool" where
  "s2tte_is_unassigned_destroyed s2tte =
     s2tte_has_unassigned_ripas s2tte S2TTE_INVALID_RIPAS_DESTROYED"

text \<open>Checkers that depend on the level, in the shape of \<^verbatim>\<open>s2tte_type_level_checker\<close>.\<close>

type_synonym 'g s2tte_type_level_checker =
  "cached_idregs \<Rightarrow> 'g s2tt_context \<Rightarrow> u64 \<Rightarrow> int \<Rightarrow> bool option"

definition s2tte_is_assigned_destroyed :: "'g s2tte_type_level_checker" where
  "s2tte_is_assigned_destroyed hw s2_ctx s2tte level =
     (if (s2tte AND S2TT_DESC_VALID_MASK) \<noteq> S2TTE_INVALID then Some False
      else s2tte_has_assigned_ripas s2tte S2TTE_INVALID_RIPAS_DESTROYED)"

definition s2tte_is_assigned_empty :: "'g s2tte_type_level_checker" where
  "s2tte_is_assigned_empty hw s2_ctx s2tte level =
     (if (s2tte AND S2TT_DESC_VALID_MASK) \<noteq> S2TTE_INVALID then Some False
      else s2tte_has_assigned_ripas s2tte S2TTE_INVALID_RIPAS_EMPTY)"

definition s2tte_check_assigned_ram_or_ns :: "u64 \<Rightarrow> int \<Rightarrow> u64 \<Rightarrow> bool" where
  "s2tte_check_assigned_ram_or_ns s2tte level ns =
     (let attr = s2tte AND (S2TTE_DEV_ATTRS_MASK OR S2TTE_MEMATTR_MASK);
          desc_type = s2tte AND S2TT_DESC_TYPE_MASK in
      if (s2tte AND S2TTE_NS) \<noteq> ns then False
      else if attr = S2TTE_DEV_COH_ATTRS \<or> attr = S2TTE_DEV_NCOH_ATTRS then False
      else if level = S2TT_PAGE_LEVEL then desc_type = S2TTE_L3_PAGE
      else if level \<ge> S2TT_MIN_BLOCK_LEVEL \<and> desc_type = S2TTE_L012_BLOCK then True
      else False)"

definition s2tte_is_assigned_ram :: "'g s2tte_type_level_checker" where
  "s2tte_is_assigned_ram hw s2_ctx s2tte level =
     Some (s2tte_check_assigned_ram_or_ns s2tte level 0)"

definition s2tte_is_assigned_ns :: "'g s2tte_type_level_checker" where
  "s2tte_is_assigned_ns hw s2_ctx s2tte level =
     Some (s2tte_check_assigned_ram_or_ns s2tte level S2TTE_NS)"

definition s2tte_is_assigned_dev_dev :: "'g s2tte_type_level_checker" where
  "s2tte_is_assigned_dev_dev hw s2_ctx s2tte level = (
     let desc_type = s2tte AND S2TT_DESC_TYPE_MASK in
     if \<not> (level = S2TT_PAGE_LEVEL \<and> desc_type = S2TTE_L3_PAGE \<or>
           level \<ge> S2TT_MIN_DEV_BLOCK_LEVEL \<and> level < S2TT_PAGE_LEVEL \<and>
           desc_type = S2TTE_L012_BLOCK)
     then Some False
     else do {
       let attr = s2tte AND (S2TTE_DEV_ATTRS_MASK OR S2TTE_MEMATTR_MASK);
       lpa2 \<leftarrow> s2tt_lpa2_enabled hw s2_ctx;
       if attr = S2TTE_DEV_COH_ATTRS then do {
         c_assert (lpa2 \<or> (s2tte AND S2TTE_SH_MASK) = S2TTE_SH_IS);
         Some True
       } else if attr = S2TTE_DEV_NCOH_ATTRS then do {
         c_assert (lpa2 \<or> (s2tte AND S2TTE_SH_MASK) = S2TTE_SH_OS);
         Some True
       } else Some False
     })"

definition s2tte_is_assigned_dev_empty :: "'g s2tte_type_level_checker" where
  "s2tte_is_assigned_dev_empty hw s2_ctx s2tte level =
     (if (s2tte AND S2TT_DESC_VALID_MASK) \<noteq> S2TTE_INVALID then Some False
      else s2tte_has_assigned_dev_ripas s2tte S2TTE_INVALID_RIPAS_EMPTY)"

definition s2tte_is_assigned_dev_destroyed :: "'g s2tte_type_level_checker" where
  "s2tte_is_assigned_dev_destroyed hw s2_ctx s2tte level =
     (if (s2tte AND S2TT_DESC_VALID_MASK) \<noteq> S2TTE_INVALID then Some False
      else s2tte_has_assigned_dev_ripas s2tte S2TTE_INVALID_RIPAS_DESTROYED)"

subsection \<open>Accessors\<close>

datatype ripas = RIPAS_EMPTY | RIPAS_RAM | RIPAS_DESTROYED | RIPAS_DEV

definition s2tte_get_ripas :: "u64 \<Rightarrow> ripas option" where
  "s2tte_get_ripas s2tte =
     (if (s2tte AND S2TT_DESC_VALID_MASK) = S2TTE_VALID then do {
        let desc_type = s2tte AND S2TT_DESC_TYPE_MASK;
        let attr = s2tte AND (S2TTE_DEV_ATTRS_MASK OR S2TTE_MEMATTR_MASK);
        c_assert (desc_type = S2TTE_L012_BLOCK \<or> desc_type = S2TTE_L3_PAGE);
        Some (if attr = S2TTE_DEV_COH_ATTRS \<or> attr = S2TTE_DEV_NCOH_ATTRS
              then RIPAS_DEV else RIPAS_RAM)
      } else do {
        let desc_hipas = EXTRACT S2TTE_INVALID_HIPAS s2tte;
        c_assert (desc_hipas \<le> RMI_ASSIGNED_DEV \<and> desc_hipas \<noteq> RMI_TABLE);
        let desc_ripas = EXTRACT S2TTE_INVALID_RIPAS s2tte;
        c_assert (desc_ripas \<le> RMI_DESTROYED);
        Some (if desc_ripas = RMI_EMPTY then RIPAS_EMPTY
              else if desc_ripas = RMI_RAM then RIPAS_RAM else RIPAS_DESTROYED)
      })"

definition s2tte_is_live :: "u64 \<Rightarrow> int \<Rightarrow> bool" where
  "s2tte_is_live s2tte level = s2tte_has_pa s2tte level"

definition s2tte_pa :: "cached_idregs \<Rightarrow> 'g s2tt_context \<Rightarrow> u64 \<Rightarrow> int \<Rightarrow> u64 option" where
  "s2tte_pa hw s2_ctx s2tte level = do {
     lpa2 \<leftarrow> s2tt_lpa2_enabled hw s2_ctx;
     let min_starting_level =
       (if lpa2 then S2TT_MIN_STARTING_LEVEL_LPA2 else S2TT_MIN_STARTING_LEVEL);
     c_assert (level \<ge> min_starting_level);
     c_assert (level \<le> S2TT_PAGE_LEVEL);
     c_assert (s2tte_has_pa s2tte level);
     if s2tte_is_table s2tte level then s2tte_to_pa hw s2_ctx s2tte S2TT_PAGE_LEVEL
     else s2tte_to_pa hw s2_ctx s2tte level
   }"

subsection \<open>Deferred maintenance marks\<close>

definition s2tte_set_drain_pending :: "u64 \<Rightarrow> u32 \<Rightarrow> u64 option" where
  "s2tte_set_drain_pending s2tte sro_handle = do {
     let handle = (ucast sro_handle :: u64);
     c_assert ((handle AND NOT (drop_bit (fst S2TTE_SW_HANDLE) S2TTE_SW_HANDLE_MASK)) = 0);
     c_assert ((s2tte AND S2TTE_SW_DRAIN_PENDING_BIT) = 0);
     c_assert (((s2tte AND NOT S2TTE_SW_DRAIN_MASK) AND
                BIT_MASK_ULL (S2TTE_OA_BITS_LPA2 - 1) GRANULE_SHIFT) = 0);
     Some ((s2tte AND NOT S2TTE_SW_DRAIN_MASK) OR S2TTE_SW_DRAIN_PENDING_BIT OR
           INPLACE S2TTE_SW_HANDLE handle)
   }"

definition s2tte_clear_drain_pending :: "u64 \<Rightarrow> u64" where
  "s2tte_clear_drain_pending s2tte = s2tte AND NOT S2TTE_SW_DRAIN_MASK"

definition s2tte_drain_pending :: "u64 \<Rightarrow> bool" where
  "s2tte_drain_pending s2tte \<longleftrightarrow>
     s2tte_has_hipas s2tte S2TTE_INVALID_HIPAS_UNASSIGNED \<and>
     (s2tte AND S2TTE_SW_DRAIN_PENDING_BIT) \<noteq> 0"

definition s2tte_set_tlbi_pending :: "u64 \<Rightarrow> u64 option" where
  "s2tte_set_tlbi_pending s2tte = do {
     c_assert ((s2tte AND S2TTE_SW_DRAIN_PENDING_BIT) \<noteq> 0);
     Some (s2tte OR S2TTE_SW_TLBI_PENDING_BIT)
   }"

definition s2tte_clear_tlbi_pending :: "u64 \<Rightarrow> u64" where
  "s2tte_clear_tlbi_pending s2tte = s2tte AND NOT S2TTE_SW_TLBI_PENDING_BIT"

definition s2tte_tlbi_pending :: "u64 \<Rightarrow> bool" where
  "s2tte_tlbi_pending s2tte \<longleftrightarrow>
     s2tte_has_hipas s2tte S2TTE_INVALID_HIPAS_UNASSIGNED \<and>
     (s2tte AND S2TTE_SW_TLBI_PENDING_BIT) \<noteq> 0"

definition s2tte_drain_handle :: "u64 \<Rightarrow> u32 option" where
  "s2tte_drain_handle s2tte = do {
     c_assert (s2tte_has_hipas s2tte S2TTE_INVALID_HIPAS_UNASSIGNED);
     Some (ucast (EXTRACT S2TTE_SW_HANDLE s2tte))
   }"

subsection \<open>The bits that the classifiers read\<close>

lemma valid_bit:
  "(t AND S2TT_DESC_VALID_MASK) = S2TTE_INVALID \<longleftrightarrow> \<not> bit t 0"
  "(t AND S2TT_DESC_VALID_MASK) = S2TTE_VALID \<longleftrightarrow> bit t 0"
  by (subst and_eq_bits [where ns = "[0]"]; auto simp: desc_bits)+

lemma desc_type_bits:
  "(t AND S2TT_DESC_TYPE_MASK) = S2TTE_L3_PAGE \<longleftrightarrow> bit t 0 \<and> bit t 1"
  "(t AND S2TT_DESC_TYPE_MASK) = S2TTE_L012_TABLE \<longleftrightarrow> bit t 0 \<and> bit t 1"
  "(t AND S2TT_DESC_TYPE_MASK) = S2TTE_L012_BLOCK \<longleftrightarrow> bit t 0 \<and> \<not> bit t 1"
  by (subst and_eq_bits [where ns = "[0, 1]"]; auto simp: desc_bits)+

lemma hipas_mask_bits:
  "(t AND S2TTE_INVALID_HIPAS_MASK) = S2TTE_INVALID_HIPAS_UNASSIGNED \<longleftrightarrow> \<not> bit t 3 \<and> \<not> bit t 4 \<and> \<not> bit t 5"
  "(t AND S2TTE_INVALID_HIPAS_MASK) = S2TTE_INVALID_HIPAS_ASSIGNED \<longleftrightarrow> bit t 3 \<and> \<not> bit t 4 \<and> \<not> bit t 5"
  "(t AND S2TTE_INVALID_HIPAS_MASK) = S2TTE_INVALID_HIPAS_ASSIGNED_DEV \<longleftrightarrow> bit t 3 \<and> bit t 4 \<and> \<not> bit t 5"
  by (subst and_eq_bits [where ns = "[3, 4, 5]"]; auto simp: hipas_bits)+

lemma ripas_mask_bits:
  "(t AND S2TTE_INVALID_RIPAS_MASK) = S2TTE_INVALID_RIPAS_EMPTY \<longleftrightarrow> \<not> bit t 1 \<and> \<not> bit t 2"
  "(t AND S2TTE_INVALID_RIPAS_MASK) = S2TTE_INVALID_RIPAS_RAM \<longleftrightarrow> bit t 1 \<and> \<not> bit t 2"
  "(t AND S2TTE_INVALID_RIPAS_MASK) = S2TTE_INVALID_RIPAS_DESTROYED \<longleftrightarrow> \<not> bit t 1 \<and> bit t 2"
  by (subst and_eq_bits [where ns = "[1, 2]"]; auto simp: ripas_bits)+

lemma ns_bit:
  "(t AND S2TTE_NS) = 0 \<longleftrightarrow> \<not> bit t 55"
  "(t AND S2TTE_NS) = S2TTE_NS \<longleftrightarrow> bit t 55"
  by (subst and_eq_bits [where ns = "[55]"]; auto simp: attr_bits)+

lemma dev_attr_bits:
  "(t AND (S2TTE_DEV_ATTRS_MASK OR S2TTE_MEMATTR_MASK)) = S2TTE_DEV_COH_ATTRS \<longleftrightarrow>
     bit t 2 \<and> bit t 3 \<and> bit t 4 \<and> bit t 10 \<and> \<not> bit t 55"
  "(t AND (S2TTE_DEV_ATTRS_MASK OR S2TTE_MEMATTR_MASK)) = S2TTE_DEV_NCOH_ATTRS \<longleftrightarrow>
     bit t 2 \<and> \<not> bit t 3 \<and> bit t 4 \<and> bit t 10 \<and> \<not> bit t 55"
  by (subst and_eq_bits [where ns = "[2, 3, 4, 10, 55]"];
      auto simp: template_bits attr_bits bit_or_iff)+

lemma sh_bits:
  "(t AND S2TTE_SH_MASK) = S2TTE_SH_IS \<longleftrightarrow> bit t 8 \<and> bit t 9"
  "(t AND S2TTE_SH_MASK) = S2TTE_SH_OS \<longleftrightarrow> \<not> bit t 8 \<and> bit t 9"
  by (subst and_eq_bits [where ns = "[8, 9]"]; auto simp: attr_bits)+

lemma pending_bits:
  "(t AND S2TTE_SW_DRAIN_PENDING_BIT) = 0 \<longleftrightarrow> \<not> bit t 32"
  "(t AND S2TTE_SW_TLBI_PENDING_BIT) = 0 \<longleftrightarrow> \<not> bit t 33"
  by (simp_all add: and_0_iff sw_bits)

lemma S2TTE_RIPAS_distinct [simp]:
  "S2TTE_INVALID_RIPAS_EMPTY \<noteq> S2TTE_INVALID_RIPAS_RAM"
  "S2TTE_INVALID_RIPAS_DESTROYED \<noteq> S2TTE_INVALID_RIPAS_RAM"
  "S2TTE_INVALID_RIPAS_EMPTY \<noteq> S2TTE_INVALID_RIPAS_DEV"
  "S2TTE_INVALID_RIPAS_DESTROYED \<noteq> S2TTE_INVALID_RIPAS_DEV"
  by (simp_all add: S2TTE_INVALID_RIPAS_EMPTY_def S2TTE_INVALID_RIPAS_RAM_def
      S2TTE_INVALID_RIPAS_DESTROYED_def S2TTE_INVALID_RIPAS_DEV_def INPLACE_def)

lemma S2TTE_RIPAS_le [simp]:
  "S2TTE_INVALID_RIPAS_EMPTY \<le> S2TTE_INVALID_RIPAS_DESTROYED"
  "S2TTE_INVALID_RIPAS_RAM \<le> S2TTE_INVALID_RIPAS_DESTROYED"
  by (simp_all add: S2TTE_INVALID_RIPAS_EMPTY_def S2TTE_INVALID_RIPAS_RAM_def
      S2TTE_INVALID_RIPAS_DESTROYED_def INPLACE_def)

text \<open>Every classifier as a condition on bits of the entry.\<close>

lemma has_hipas_bits:
  "s2tte_has_hipas t S2TTE_INVALID_HIPAS_UNASSIGNED \<longleftrightarrow> \<not> bit t 0 \<and> \<not> bit t 3 \<and> \<not> bit t 4 \<and> \<not> bit t 5"
  "s2tte_has_hipas t S2TTE_INVALID_HIPAS_ASSIGNED \<longleftrightarrow> \<not> bit t 0 \<and> bit t 3 \<and> \<not> bit t 4 \<and> \<not> bit t 5"
  "s2tte_has_hipas t S2TTE_INVALID_HIPAS_ASSIGNED_DEV \<longleftrightarrow> \<not> bit t 0 \<and> bit t 3 \<and> bit t 4 \<and> \<not> bit t 5"
  by (simp_all add: s2tte_has_hipas_def valid_bit hipas_mask_bits)

lemma has_pa_bits: "s2tte_has_pa t level \<longleftrightarrow> bit t 0 \<or> bit t 3 \<and> \<not> bit t 5"
  by (auto simp: s2tte_has_pa_def valid_bit has_hipas_bits)

lemma is_table_bits: "s2tte_is_table t level \<longleftrightarrow> level < 3 \<and> bit t 0 \<and> bit t 1"
  by (simp add: s2tte_is_table_def desc_type_bits)

lemma unassigned_class_bits:
  "s2tte_is_unassigned t \<longleftrightarrow> \<not> bit t 0 \<and> \<not> bit t 3 \<and> \<not> bit t 4 \<and> \<not> bit t 5"
  "s2tte_is_unassigned_empty t \<longleftrightarrow> \<not> bit t 0 \<and> \<not> bit t 1 \<and> \<not> bit t 2 \<and> \<not> bit t 3 \<and> \<not> bit t 4 \<and> \<not> bit t 5 \<and> \<not> bit t 55"
  "s2tte_is_unassigned_ram t \<longleftrightarrow> \<not> bit t 0 \<and> bit t 1 \<and> \<not> bit t 2 \<and> \<not> bit t 3 \<and> \<not> bit t 4 \<and> \<not> bit t 5"
  "s2tte_is_unassigned_destroyed t \<longleftrightarrow> \<not> bit t 0 \<and> \<not> bit t 1 \<and> bit t 2 \<and> \<not> bit t 3 \<and> \<not> bit t 4 \<and> \<not> bit t 5"
  "s2tte_is_unassigned_ns t \<longleftrightarrow> \<not> bit t 0 \<and> \<not> bit t 3 \<and> \<not> bit t 4 \<and> \<not> bit t 5 \<and> bit t 55"
  by (auto simp: s2tte_is_unassigned_def s2tte_is_unassigned_empty_def s2tte_is_unassigned_ram_def
      s2tte_is_unassigned_destroyed_def s2tte_is_unassigned_ns_def s2tte_has_unassigned_ripas_def
      has_hipas_bits ripas_mask_bits ns_bit)

lemma assigned_class_bits:
  "s2tte_is_assigned_empty hw s2_ctx t level =
     Some (\<not> bit t 0 \<and> \<not> bit t 1 \<and> \<not> bit t 2 \<and> bit t 3 \<and> \<not> bit t 4 \<and> \<not> bit t 5)"
  "s2tte_is_assigned_destroyed hw s2_ctx t level =
     Some (\<not> bit t 0 \<and> \<not> bit t 1 \<and> bit t 2 \<and> bit t 3 \<and> \<not> bit t 4 \<and> \<not> bit t 5)"
  "s2tte_is_assigned_dev_empty hw s2_ctx t level =
     Some (\<not> bit t 0 \<and> \<not> bit t 1 \<and> \<not> bit t 2 \<and> bit t 3 \<and> bit t 4 \<and> \<not> bit t 5)"
  "s2tte_is_assigned_dev_destroyed hw s2_ctx t level =
     Some (\<not> bit t 0 \<and> \<not> bit t 1 \<and> bit t 2 \<and> bit t 3 \<and> bit t 4 \<and> \<not> bit t 5)"
  by (auto simp: s2tte_is_assigned_empty_def s2tte_is_assigned_destroyed_def
      s2tte_is_assigned_dev_empty_def s2tte_is_assigned_dev_destroyed_def
      s2tte_has_assigned_ripas_def s2tte_has_assigned_dev_ripas_def valid_bit has_hipas_bits
      ripas_mask_bits)

text \<open>The descriptor type of a mapping at a level: page at level 3, block above.\<close>

definition leaf_type :: "u64 \<Rightarrow> int \<Rightarrow> bool" where
  "leaf_type t level \<longleftrightarrow> bit t 0 \<and> (if level = 3 then bit t 1 else 1 \<le> level \<and> \<not> bit t 1)"

text \<open>Device memory attributes.\<close>

definition dev_attr :: "u64 \<Rightarrow> bool" where
  "dev_attr t \<longleftrightarrow> bit t 2 \<and> bit t 4 \<and> bit t 10 \<and> \<not> bit t 55"

lemma mapped_class_bits:
  "s2tte_is_assigned_ram hw s2_ctx t level = Some (leaf_type t level \<and> \<not> dev_attr t \<and> \<not> bit t 55)"
  "s2tte_is_assigned_ns hw s2_ctx t level = Some (leaf_type t level \<and> bit t 55)"
  by (auto simp: s2tte_is_assigned_ram_def s2tte_is_assigned_ns_def leaf_type_def dev_attr_def
      s2tte_check_assigned_ram_or_ns_def Let_def ns_bit dev_attr_bits desc_type_bits)

lemma dev_dev_class_bits:
  assumes "s2tt_ctx_ok hw s2_ctx" and "level \<le> 3"
  shows "s2tte_is_assigned_dev_dev hw s2_ctx t level =
    (if leaf_type t level \<and> dev_attr t
     then if ctx_lpa2 s2_ctx \<or> bit t 9 \<and> bit t 8 = bit t 3 then Some True else None
     else Some False)"
proof -
  have leaf: "(level = S2TT_PAGE_LEVEL \<and> (t AND S2TT_DESC_TYPE_MASK) = S2TTE_L3_PAGE \<or>
      level \<ge> S2TT_MIN_DEV_BLOCK_LEVEL \<and> level < S2TT_PAGE_LEVEL \<and>
      (t AND S2TT_DESC_TYPE_MASK) = S2TTE_L012_BLOCK) = leaf_type t level"
    using assms(2) by (auto simp: leaf_type_def desc_type_bits)
  show ?thesis
    using assms(1)
    unfolding s2tte_is_assigned_dev_dev_def Let_def leaf dev_attr_bits sh_bits dev_attr_def
    by (cases "leaf_type t level") auto
qed

lemmas class_bits =
  has_pa_bits is_table_bits unassigned_class_bits assigned_class_bits mapped_class_bits
  dev_dev_class_bits

lemma get_ripas_bits:
  "s2tte_get_ripas t =
     (if bit t 0 then Some (if dev_attr t then RIPAS_DEV else RIPAS_RAM)
      else if bit t 5 \<or> bit t 4 \<and> \<not> bit t 3 \<or> bit t 1 \<and> bit t 2 then None
      else Some (if bit t 1 then RIPAS_RAM else if bit t 2 then RIPAS_DESTROYED else RIPAS_EMPTY))"
proof (cases "bit t 0")
  case True
  then show ?thesis
    by (auto simp: s2tte_get_ripas_def valid_bit desc_type_bits dev_attr_bits dev_attr_def Let_def)
next
  case False
  have h: "EXTRACT S2TTE_INVALID_HIPAS t \<le> RMI_ASSIGNED_DEV \<longleftrightarrow> \<not> bit t 5"
      "EXTRACT S2TTE_INVALID_HIPAS t = RMI_TABLE \<longleftrightarrow> \<not> bit t 3 \<and> bit t 4 \<and> \<not> bit t 5"
    by (auto simp: EXTRACT_3_le_3 EXTRACT_3_eq_iff)
  have r: "EXTRACT S2TTE_INVALID_RIPAS t \<le> RMI_DESTROYED \<longleftrightarrow> \<not> (bit t 1 \<and> bit t 2)"
      "EXTRACT S2TTE_INVALID_RIPAS t = RMI_EMPTY \<longleftrightarrow> \<not> bit t 1 \<and> \<not> bit t 2"
      "EXTRACT S2TTE_INVALID_RIPAS t = RMI_RAM \<longleftrightarrow> bit t 1 \<and> \<not> bit t 2"
    by (auto simp: EXTRACT_2_le_2 EXTRACT_2_eq_iff bit_1_iff simp flip: numeral_2_eq_2)
  show ?thesis
    using False by (auto simp: s2tte_get_ripas_def valid_bit h r [unfolded One_nat_def] Let_def)
qed

subsection \<open>Output addresses\<close>

definition aligned_pa :: "'g s2tt_context \<Rightarrow> u64 \<Rightarrow> int \<Rightarrow> bool" where
  "aligned_pa s2_ctx pa level \<longleftrightarrow>
     (\<forall>n. bit pa n \<longrightarrow> lvl_lsb level \<le> n \<and> n < ctx_oa_bits s2_ctx)"

lemma is_addr_lvl_aligned:
  assumes "s2tt_ctx_ok hw s2_ctx"
  shows "s2tte_is_addr_lvl_aligned hw s2_ctx pa level =
    (if first_level s2_ctx \<le> level \<and> level \<le> 3 then Some (aligned_pa s2_ctx pa level) else None)"
proof -
  have "pa = (pa AND BIT_MASK_ULL (ctx_oa_bits s2_ctx - 1) (lvl_lsb level)) \<longleftrightarrow> aligned_pa s2_ctx pa level"
    unfolding eq_and_mask_bits aligned_pa_def by (auto simp: bit_BIT_MASK_ULL ctx_oa_bits_def)
  then show ?thesis
    using assms
    by (auto simp: s2tte_is_addr_lvl_aligned_def first_level_def ctx_oa_bits_def lvl_lsb_def)
qed

text \<open>The address field of an entry for a physical address.\<close>

definition oa_field :: "'g s2tt_context \<Rightarrow> u64 \<Rightarrow> u64" where
  "oa_field s2_ctx pa =
     (if ctx_lpa2 s2_ctx
      then (pa AND NOT (MASK LPA2_OA_51_50)) OR
           INPLACE LPA2_S2TTE_51_50
             (EXTRACT LPA2_OA_51_50 (pa AND BIT_MASK_ULL 51 12))
      else pa)"

lemma pa_to_s2tte_eq: "s2tt_ctx_ok hw s2_ctx \<Longrightarrow> pa_to_s2tte hw s2_ctx pa = Some (oa_field s2_ctx pa)"
  by (simp add: pa_to_s2tte_def s2tte_ipa_lvl_mask_def oa_field_def)

lemma bit_oa_field:
  assumes "aligned_pa s2_ctx pa level"
  shows "bit (oa_field s2_ctx pa) n \<longleftrightarrow>
    (if ctx_lpa2 s2_ctx then n \<in> {8, 9} \<and> bit pa (n + 42) \<or> n < 50 \<and> bit pa n else bit pa n)"
proof -
  have "n < 52" if "ctx_lpa2 s2_ctx" "bit pa n" for n
    using assms that by (auto simp: aligned_pa_def ctx_oa_bits_def)
  then show ?thesis
    by (auto simp: oa_field_def bit_or_iff bit_and_iff bit_not_iff bit_MASK bit_INPLACE bit_EXTRACT
        bit_BIT_MASK_ULL add.commute dest: bit_imp_le_length)
qed

lemma oa_field_bits:
  assumes "aligned_pa s2_ctx pa level" and "bit (oa_field s2_ctx pa) n"
  shows "12 \<le> n \<and> n < 50 \<or> ctx_lpa2 s2_ctx \<and> n \<in> {8, 9}"
  using assms(2) assms(1) lvl_lsb_ge [of level]
  unfolding bit_oa_field [OF assms(1)] aligned_pa_def ctx_oa_bits_def
  by (fastforce split: if_splits)

lemma bit_to_pa:
  assumes "s2tt_ctx_ok hw s2_ctx" and "- 1 \<le> level" and "level \<le> 3"
  obtains pa where "s2tte_to_pa hw s2_ctx t level = Some pa"
    "\<And>n. bit pa n \<longleftrightarrow> lvl_lsb level \<le> n \<and> n < 48 \<and> bit t n \<or>
       ctx_lpa2 s2_ctx \<and> (n \<in> {48, 49} \<and> bit t n \<or> n \<in> {50, 51} \<and> bit t (n - 42))"
proof -
  let ?m = "BIT_MASK_ULL 47 (lvl_lsb level)"
  let ?pa = "if ctx_lpa2 s2_ctx
    then ((t AND (?m OR (MASK LPA2_S2TTE_51_50 OR MASK LPA2_OA_49_48))) AND NOT (MASK LPA2_S2TTE_51_50))
      OR INPLACE LPA2_OA_51_50 (EXTRACT LPA2_S2TTE_51_50 t)
    else t AND ?m"
  have "s2tte_to_pa hw s2_ctx t level = Some ?pa"
    using assms by (simp add: s2tte_to_pa_def s2tte_lvl_mask_def lvl_lsb_def)
  moreover have "bit ?pa n \<longleftrightarrow> lvl_lsb level \<le> n \<and> n < 48 \<and> bit t n \<or>
       ctx_lpa2 s2_ctx \<and> (n \<in> {48, 49} \<and> bit t n \<or> n \<in> {50, 51} \<and> bit t (n - 42))" for n
    using lvl_lsb_ge [of level]
    by (auto simp: bit_or_iff bit_and_iff bit_not_iff bit_MASK bit_INPLACE bit_EXTRACT
        bit_BIT_MASK_ULL)
  ultimately show thesis by (rule that)
qed

text \<open>An address round-trips through the address field, whatever other fields are added.\<close>

lemma to_pa_oa_field:
  assumes "s2tt_ctx_ok hw s2_ctx" and "- 1 \<le> level" and "level \<le> 3"
    and pa: "aligned_pa s2_ctx pa level"
    and x: "\<And>n. bit x n \<Longrightarrow> \<not> (lvl_lsb level \<le> n \<and> n < 50) \<and> (ctx_lpa2 s2_ctx \<longrightarrow> n \<notin> {8, 9})"
  shows "s2tte_to_pa hw s2_ctx (oa_field s2_ctx pa OR x) level = Some pa"
proof -
  obtain p where p: "s2tte_to_pa hw s2_ctx (oa_field s2_ctx pa OR x) level = Some p"
    "\<And>n. bit p n \<longleftrightarrow> lvl_lsb level \<le> n \<and> n < 48 \<and> bit (oa_field s2_ctx pa OR x) n \<or>
       ctx_lpa2 s2_ctx \<and> (n \<in> {48, 49} \<and> bit (oa_field s2_ctx pa OR x) n \<or>
         n \<in> {50, 51} \<and> bit (oa_field s2_ctx pa OR x) (n - 42))"
    by (rule bit_to_pa [OF assms(1-3), of "oa_field s2_ctx pa OR x"], rule that, assumption, blast)
  have "p = pa"
  proof (rule bit_word_eqI)
    fix n :: nat
    have pa_n: "lvl_lsb level \<le> n \<and> n < ctx_oa_bits s2_ctx" if "bit pa n"
      using pa that by (auto simp: aligned_pa_def)
    have x_n: "\<not> bit x n" if "lvl_lsb level \<le> n" "n < 50" using x [of n] that by blast
    have x_m: "\<not> bit x (n - 42)" if "ctx_lpa2 s2_ctx" "n \<in> {50, 51}" using x [of "n - 42"] that by auto
    have lo: "\<not> bit pa 8" "\<not> bit pa 9"
      using pa lvl_lsb_ge [of level] by (auto simp: aligned_pa_def)
    show "bit p n = bit pa n"
    proof (cases "n < 50")
      case True
      then show ?thesis
        using pa_n x_n lvl_lsb_le [OF assms(2)] lvl_lsb_ge [of level]
        unfolding p(2) bit_or_iff bit_oa_field [OF pa] ctx_oa_bits_def
        by (cases "ctx_lpa2 s2_ctx") auto
    next
      case False
      then show ?thesis
        using pa_n x_m lo
        unfolding p(2) bit_or_iff bit_oa_field [OF pa] ctx_oa_bits_def
        by (cases "ctx_lpa2 s2_ctx"; cases "n \<in> {50, 51}") auto
    qed
  qed
  then show ?thesis using p(1) by simp
qed

end
