(* ===== verification/S2tte_Create.thy ===== *)
theory S2tte_Create
  imports S2tte
begin

text \<open>
  What the constructors of stage 2 translation table entries build. An entry is an output
  address field, permission bits and a template; from these three every classifier and
  accessor of the entry is computed.
\<close>

subsection \<open>Entries made of an address, permissions and a template\<close>

definition built_tte :: "'g s2tt_context \<Rightarrow> u64 \<Rightarrow> u64 \<Rightarrow> bool \<Rightarrow> u64 \<Rightarrow> u64" where
  "built_tte s2_ctx pa ap dev tmpl = oa_field s2_ctx pa OR (s2tte_get_ap s2_ctx ap dev OR tmpl)"

text \<open>The bits that classify an entry, and templates made of such bits.\<close>

definition class_bit :: "'g s2tt_context \<Rightarrow> nat \<Rightarrow> bool" where
  "class_bit s2_ctx n \<longleftrightarrow> n \<in> {0, 1, 2, 3, 4, 5, 10, 55} \<or> \<not> ctx_lpa2 s2_ctx \<and> n \<in> {8, 9}"

definition class_template :: "'g s2tt_context \<Rightarrow> u64 \<Rightarrow> bool" where
  "class_template s2_ctx tmpl \<longleftrightarrow> (\<forall>n. bit tmpl n \<longrightarrow> class_bit s2_ctx n)"

lemma get_ap_bit_cases:
  "bit (s2tte_get_ap s2_ctx ap dev) n \<Longrightarrow> n \<in> {6, 7, 53, 54} \<or> n = 51 \<or> 59 \<le> n \<and> n < 63"
  by (auto simp: bit_get_ap split: if_splits)

lemma bit_built_class:
  assumes "aligned_pa s2_ctx pa level" and "class_bit s2_ctx n"
  shows "bit (built_tte s2_ctx pa ap dev tmpl) n \<longleftrightarrow> bit tmpl n"
  using assms(2) oa_field_bits [OF assms(1), of n] get_ap_bit_cases [of s2_ctx ap dev n]
  unfolding built_tte_def bit_or_iff class_bit_def by fastforce

lemma built_class_bits:
  fixes ap tmpl :: u64 and dev :: bool
  assumes "aligned_pa s2_ctx pa level"
  defines "t \<equiv> built_tte s2_ctx pa ap dev tmpl"
  shows "bit t 0 = bit tmpl 0" "bit t 1 = bit tmpl 1" "bit t (Suc 0) = bit tmpl 1"
    "bit t 2 = bit tmpl 2" "bit t 3 = bit tmpl 3"
    "bit t 4 = bit tmpl 4" "bit t 5 = bit tmpl 5" "bit t 10 = bit tmpl 10" "bit t 55 = bit tmpl 55"
    "\<not> ctx_lpa2 s2_ctx \<Longrightarrow> bit t 8 = bit tmpl 8" "\<not> ctx_lpa2 s2_ctx \<Longrightarrow> bit t 9 = bit tmpl 9"
  unfolding t_def by (simp_all add: bit_built_class [OF assms(1)] class_bit_def)

lemma built_pa:
  assumes "s2tt_ctx_ok hw s2_ctx" and "1 \<le> level" and "level \<le> 3"
    and pa: "aligned_pa s2_ctx pa level" and tmpl: "class_template s2_ctx tmpl"
    and "bit tmpl 0 \<and> (level < 3 \<longrightarrow> \<not> bit tmpl 1) \<or> \<not> bit tmpl 0 \<and> bit tmpl 3 \<and> \<not> bit tmpl 5"
  shows "s2tte_pa hw s2_ctx (built_tte s2_ctx pa ap dev tmpl) level = Some pa"
proof -
  have "s2tte_to_pa hw s2_ctx (built_tte s2_ctx pa ap dev tmpl) level = Some pa"
    unfolding built_tte_def
  proof (rule to_pa_oa_field [OF assms(1) _ assms(3) pa])
    show "- 1 \<le> level" using assms(2) by simp
    fix n assume "bit (s2tte_get_ap s2_ctx ap dev OR tmpl) n"
    then consider "bit (s2tte_get_ap s2_ctx ap dev) n" | "bit tmpl n" by (auto simp: bit_or_iff)
    then show "\<not> (lvl_lsb level \<le> n \<and> n < 50) \<and> (ctx_lpa2 s2_ctx \<longrightarrow> n \<notin> {8, 9})"
      using get_ap_bit_cases [of s2_ctx ap dev n] tmpl lvl_lsb_ge [of level]
      by cases (fastforce simp: class_template_def class_bit_def)+
  qed
  then show ?thesis
    using assms by (auto simp: s2tte_pa_def has_pa_bits is_table_bits built_class_bits [OF pa])
qed

lemma built_ap:
  assumes pa: "aligned_pa s2_ctx pa level" and tmpl: "class_template s2_ctx tmpl"
  shows "s2tte_get_ap s2_ctx (built_tte s2_ctx pa ap dev tmpl) dev = s2tte_get_ap s2_ctx ap dev"
proof -
  have "bit (built_tte s2_ctx pa ap dev tmpl) n = bit (s2tte_get_ap s2_ctx ap dev) n"
    if "n \<in> {6, 7, 53, 54, 59, 60, 61, 62}" for n
    using that oa_field_bits [OF pa, of n] tmpl
    by (auto simp: built_tte_def bit_or_iff class_template_def class_bit_def)
  then show ?thesis
    using get_ap_cong [of "built_tte s2_ctx pa ap dev tmpl" "s2tte_get_ap s2_ctx ap dev" s2_ctx dev]
    by simp
qed

text \<open>The memory attributes and permissions that a contiguous block must share.\<close>

definition s2tt_attr_mask :: "'g s2tt_context \<Rightarrow> u64" where
  "s2tt_attr_mask s2_ctx =
     S2TTE_MEMATTR_MASK OR (if indirect_s2ap s2_ctx then S2TTE_PI_INDEX_MASK else S2TTE_RW_AP_MASK)"

lemma built_attrs:
  assumes pa: "aligned_pa s2_ctx pa level"
  shows "built_tte s2_ctx pa ap dev tmpl AND s2tt_attr_mask s2_ctx =
    (s2tte_get_ap s2_ctx ap dev OR tmpl) AND s2tt_attr_mask s2_ctx"
proof (rule bit_word_eqI)
  fix n :: nat
  have "\<not> bit (oa_field s2_ctx pa) n" if "bit (s2tt_attr_mask s2_ctx) n"
    using oa_field_bits [OF pa, of n] that
    by (auto simp: s2tt_attr_mask_def bit_or_iff attr_bits ap_bits split: if_splits)
  then show "bit (built_tte s2_ctx pa ap dev tmpl AND s2tt_attr_mask s2_ctx) n =
      bit ((s2tte_get_ap s2_ctx ap dev OR tmpl) AND s2tt_attr_mask s2_ctx) n"
    by (auto simp: built_tte_def bit_and_iff bit_or_iff)
qed

subsection \<open>The templates of the constructors\<close>

definition ram_template :: "'g s2tt_context \<Rightarrow> int \<Rightarrow> u64" where
  "ram_template s2_ctx level =
     (if ctx_lpa2 s2_ctx then if level = 3 then S2TTE_PAGE_LPA2 else S2TTE_BLOCK_LPA2
      else if level = 3 then S2TTE_PAGE else S2TTE_BLOCK)"

lemma create_assigned_eq:
  assumes "s2tt_ctx_ok hw s2_ctx" and "1 \<le> level" and "level \<le> 3" and "aligned_pa s2_ctx pa level"
    and "ripas \<le> S2TTE_INVALID_RIPAS_DESTROYED"
  shows "s2tte_create_assigned hw s2_ctx pa level ripas = Some (oa_field s2_ctx pa OR
    (if ripas = S2TTE_INVALID_RIPAS_RAM then ram_template s2_ctx level
     else S2TTE_INVALID_HIPAS_ASSIGNED OR ripas))"
proof -
  have "first_level s2_ctx \<le> level" using assms(2) by (simp add: first_level_def)
  then show ?thesis
    using assms
    by (simp add: s2tte_create_assigned_def is_addr_lvl_aligned pa_to_s2tte_eq ram_template_def or.assoc)
qed

lemma create_assigned_dev_eq:
  assumes "s2tt_ctx_ok hw s2_ctx" and "1 \<le> level" and "level \<le> 3" and "aligned_pa s2_ctx pa level"
    and "ripas \<in> {S2TTE_INVALID_RIPAS_EMPTY, S2TTE_INVALID_RIPAS_DESTROYED}"
  shows "s2tte_create_assigned_dev hw s2_ctx pa level ripas =
    Some (oa_field s2_ctx pa OR (S2TTE_INVALID_HIPAS_ASSIGNED_DEV OR ripas))"
proof -
  have "first_level s2_ctx \<le> level" using assms(2) by (simp add: first_level_def)
  then show ?thesis
    using assms
    by (auto simp: s2tte_create_assigned_dev_def is_addr_lvl_aligned pa_to_s2tte_eq or.assoc)
qed

lemma create_dev_dev_attr_eq:
  assumes "s2tt_ctx_ok hw s2_ctx" and "1 \<le> level" and "level \<le> 3" and "aligned_pa s2_ctx pa level"
  shows "create_assigned_dev_dev_attr hw s2_ctx pa attr level ap = Some (built_tte s2_ctx pa ap True
    (attr OR (if level = 3 then S2TTE_L3_PAGE else S2TTE_L012_BLOCK)))"
proof -
  have "first_level s2_ctx \<le> level" using assms(2) by (simp add: first_level_def)
  then show ?thesis
    using assms
    by (simp add: create_assigned_dev_dev_attr_def is_addr_lvl_aligned pa_to_s2tte_eq
        built_tte_def or.assoc or.commute or.left_commute)
qed

lemma create_eqs:
  assumes "s2tt_ctx_ok hw s2_ctx" and "1 \<le> level" and "level \<le> 3" and "aligned_pa s2_ctx pa level"
  shows "s2tte_create_assigned_empty hw s2_ctx pa level ap = Some (built_tte s2_ctx pa ap False
      (S2TTE_INVALID_HIPAS_ASSIGNED OR S2TTE_INVALID_RIPAS_EMPTY))"
    and "s2tte_create_assigned_destroyed hw s2_ctx pa level ap = Some (built_tte s2_ctx pa ap False
      (S2TTE_INVALID_HIPAS_ASSIGNED OR S2TTE_INVALID_RIPAS_DESTROYED))"
    and "s2tte_create_assigned_ram hw s2_ctx pa level ap = Some (built_tte s2_ctx pa ap False
      (ram_template s2_ctx level))"
    and "s2tte_create_assigned_dev_empty hw s2_ctx pa level ap = Some (built_tte s2_ctx pa ap True
      (S2TTE_INVALID_HIPAS_ASSIGNED_DEV OR S2TTE_INVALID_RIPAS_EMPTY))"
    and "s2tte_create_assigned_dev_destroyed hw s2_ctx pa level ap = Some (built_tte s2_ctx pa ap True
      (S2TTE_INVALID_HIPAS_ASSIGNED_DEV OR S2TTE_INVALID_RIPAS_DESTROYED))"
  by (simp_all add: s2tte_create_assigned_empty_def s2tte_create_assigned_destroyed_def
      s2tte_create_assigned_ram_def s2tte_create_assigned_dev_empty_def
      s2tte_create_assigned_dev_destroyed_def create_assigned_eq [OF assms]
      create_assigned_dev_eq [OF assms] built_tte_def or.assoc or.commute or.left_commute)

text \<open>Device attributes for a coherency type.\<close>

definition coh_attr :: "'g s2tt_context \<Rightarrow> dev_coh_type \<Rightarrow> u64" where
  "coh_attr s2_ctx type = (if type = DEV_MEM_COHERENT
     then if \<not> ctx_lpa2 s2_ctx then S2TTE_DEV_COH_ATTRS OR S2TTE_SH_IS else S2TTE_DEV_COH_ATTRS
     else if \<not> ctx_lpa2 s2_ctx then S2TTE_DEV_NCOH_ATTRS OR S2TTE_SH_OS else S2TTE_DEV_NCOH_ATTRS)"

definition dev_template :: "'g s2tt_context \<Rightarrow> dev_coh_type \<Rightarrow> int \<Rightarrow> u64" where
  "dev_template s2_ctx type level =
     coh_attr s2_ctx type OR (if level = 3 then S2TTE_L3_PAGE else S2TTE_L012_BLOCK)"

lemma create_dev_dev_eq:
  assumes "s2tt_ctx_ok hw s2_ctx" and "1 \<le> level" and "level \<le> 3" and "aligned_pa s2_ctx pa level"
    and "type \<noteq> DEV_MEM_MAX"
  shows "s2tte_create_assigned_dev_dev_coh_type hw s2_ctx pa level type ap =
    Some (built_tte s2_ctx pa ap True (dev_template s2_ctx type level))"
  using assms(1,5)
  by (simp add: s2tte_create_assigned_dev_dev_coh_type_def create_dev_dev_attr_eq [OF assms(1-4)]
      coh_attr_def dev_template_def)

subsection \<open>Entry states\<close>

text \<open>
  The states of the table in \<^verbatim>\<open>s2tt_pvt_defs.h\<close>: which classifier recognises a state, and
  which constructor builds it. Entries that map Non-secure memory are made from a host
  descriptor and are treated separately.
\<close>

datatype s2_state =
    St_unassigned ripas
  | St_unassigned_ns
  | St_assigned ripas
  | St_assigned_dev ripas
  | St_assigned_ns
  | St_table

fun s2tte_check :: "cached_idregs \<Rightarrow> 'g s2tt_context \<Rightarrow> u64 \<Rightarrow> int \<Rightarrow> s2_state \<Rightarrow> bool option" where
  "s2tte_check hw s2_ctx t level (St_unassigned RIPAS_EMPTY) = Some (s2tte_is_unassigned_empty t)"
| "s2tte_check hw s2_ctx t level (St_unassigned RIPAS_RAM) = Some (s2tte_is_unassigned_ram t)"
| "s2tte_check hw s2_ctx t level (St_unassigned RIPAS_DESTROYED) = Some (s2tte_is_unassigned_destroyed t)"
| "s2tte_check hw s2_ctx t level (St_unassigned RIPAS_DEV) = Some False"
| "s2tte_check hw s2_ctx t level St_unassigned_ns = Some (s2tte_is_unassigned_ns t)"
| "s2tte_check hw s2_ctx t level (St_assigned RIPAS_EMPTY) = s2tte_is_assigned_empty hw s2_ctx t level"
| "s2tte_check hw s2_ctx t level (St_assigned RIPAS_RAM) = s2tte_is_assigned_ram hw s2_ctx t level"
| "s2tte_check hw s2_ctx t level (St_assigned RIPAS_DESTROYED) = s2tte_is_assigned_destroyed hw s2_ctx t level"
| "s2tte_check hw s2_ctx t level (St_assigned RIPAS_DEV) = Some False"
| "s2tte_check hw s2_ctx t level (St_assigned_dev RIPAS_EMPTY) = s2tte_is_assigned_dev_empty hw s2_ctx t level"
| "s2tte_check hw s2_ctx t level (St_assigned_dev RIPAS_RAM) = Some False"
| "s2tte_check hw s2_ctx t level (St_assigned_dev RIPAS_DESTROYED) = s2tte_is_assigned_dev_destroyed hw s2_ctx t level"
| "s2tte_check hw s2_ctx t level (St_assigned_dev RIPAS_DEV) = s2tte_is_assigned_dev_dev hw s2_ctx t level"
| "s2tte_check hw s2_ctx t level St_assigned_ns = s2tte_is_assigned_ns hw s2_ctx t level"
| "s2tte_check hw s2_ctx t level St_table = Some (s2tte_is_table t level)"

fun s2tte_create ::
  "cached_idregs \<Rightarrow> 'g s2tt_context \<Rightarrow> dev_coh_type \<Rightarrow> u64 \<Rightarrow> int \<Rightarrow> u64 \<Rightarrow> s2_state \<Rightarrow> u64 option" where
  "s2tte_create hw s2_ctx coh pa level ap (St_unassigned RIPAS_EMPTY) = Some (s2tte_create_unassigned_empty s2_ctx ap)"
| "s2tte_create hw s2_ctx coh pa level ap (St_unassigned RIPAS_RAM) = Some (s2tte_create_unassigned_ram s2_ctx ap)"
| "s2tte_create hw s2_ctx coh pa level ap (St_unassigned RIPAS_DESTROYED) = Some (s2tte_create_unassigned_destroyed s2_ctx ap)"
| "s2tte_create hw s2_ctx coh pa level ap St_unassigned_ns = Some (s2tte_create_unassigned_ns s2_ctx ap)"
| "s2tte_create hw s2_ctx coh pa level ap (St_assigned RIPAS_EMPTY) = s2tte_create_assigned_empty hw s2_ctx pa level ap"
| "s2tte_create hw s2_ctx coh pa level ap (St_assigned RIPAS_RAM) = s2tte_create_assigned_ram hw s2_ctx pa level ap"
| "s2tte_create hw s2_ctx coh pa level ap (St_assigned RIPAS_DESTROYED) = s2tte_create_assigned_destroyed hw s2_ctx pa level ap"
| "s2tte_create hw s2_ctx coh pa level ap (St_assigned_dev RIPAS_EMPTY) = s2tte_create_assigned_dev_empty hw s2_ctx pa level ap"
| "s2tte_create hw s2_ctx coh pa level ap (St_assigned_dev RIPAS_DESTROYED) = s2tte_create_assigned_dev_destroyed hw s2_ctx pa level ap"
| "s2tte_create hw s2_ctx coh pa level ap (St_assigned_dev RIPAS_DEV) = s2tte_create_assigned_dev_dev_coh_type hw s2_ctx pa level coh ap"
| "s2tte_create hw s2_ctx coh pa level ap St_table = s2tte_create_table hw s2_ctx pa level"
| "s2tte_create hw s2_ctx coh pa level ap _ = None"

text \<open>When a state can be created, and what it holds.\<close>

fun s2_creatable :: "'g s2tt_context \<Rightarrow> dev_coh_type \<Rightarrow> u64 \<Rightarrow> int \<Rightarrow> s2_state \<Rightarrow> bool" where
  "s2_creatable s2_ctx coh pa level (St_unassigned r) \<longleftrightarrow> r \<noteq> RIPAS_DEV \<and> level \<le> 3"
| "s2_creatable s2_ctx coh pa level St_unassigned_ns \<longleftrightarrow> level \<le> 3"
| "s2_creatable s2_ctx coh pa level (St_assigned r) \<longleftrightarrow>
     r \<noteq> RIPAS_DEV \<and> 1 \<le> level \<and> level \<le> 3 \<and> aligned_pa s2_ctx pa level"
| "s2_creatable s2_ctx coh pa level (St_assigned_dev r) \<longleftrightarrow>
     r \<noteq> RIPAS_RAM \<and> coh \<noteq> DEV_MEM_MAX \<and> 1 \<le> level \<and> level \<le> 3 \<and> aligned_pa s2_ctx pa level"
| "s2_creatable s2_ctx coh pa level St_assigned_ns \<longleftrightarrow> False"
| "s2_creatable s2_ctx coh pa level St_table \<longleftrightarrow>
     first_level s2_ctx \<le> level \<and> level < 3 \<and> aligned_pa s2_ctx pa 3"

fun state_live :: "s2_state \<Rightarrow> bool" where
  "state_live (St_unassigned r) = False"
| "state_live St_unassigned_ns = False"
| "state_live _ = True"

fun state_ripas :: "s2_state \<Rightarrow> ripas option" where
  "state_ripas (St_unassigned r) = Some r"
| "state_ripas (St_assigned r) = Some r"
| "state_ripas (St_assigned_dev r) = Some r"
| "state_ripas _ = None"

text \<open>The classifiers of an entry at a level depend on eight bits, and two more without LPA2.\<close>

definition state_bits :: "'g s2tt_context \<Rightarrow> u64 \<Rightarrow> int \<Rightarrow> s2_state \<Rightarrow> bool" where
  "state_bits s2_ctx t level st = (case st of
     St_unassigned r \<Rightarrow> \<not> bit t 0 \<and> \<not> bit t 3 \<and> \<not> bit t 4 \<and> \<not> bit t 5 \<and> \<not> bit t 55 \<and> r \<noteq> RIPAS_DEV \<and>
       bit t 1 = (r = RIPAS_RAM) \<and> bit t 2 = (r = RIPAS_DESTROYED)
   | St_unassigned_ns \<Rightarrow> \<not> bit t 0 \<and> \<not> bit t 1 \<and> \<not> bit t 2 \<and> \<not> bit t 3 \<and> \<not> bit t 4 \<and> \<not> bit t 5 \<and> bit t 55
   | St_assigned r \<Rightarrow> \<not> bit t 55 \<and>
       (if r = RIPAS_RAM then leaf_type t level \<and> \<not> dev_attr t
        else \<not> bit t 0 \<and> \<not> bit t 1 \<and> bit t 3 \<and> \<not> bit t 4 \<and> \<not> bit t 5 \<and> r \<noteq> RIPAS_DEV \<and> bit t 2 = (r = RIPAS_DESTROYED))
   | St_assigned_dev r \<Rightarrow> \<not> bit t 55 \<and>
       (if r = RIPAS_DEV then leaf_type t level \<and> dev_attr t \<and> (ctx_lpa2 s2_ctx \<or> bit t 9 \<and> bit t 8 = bit t 3)
        else \<not> bit t 0 \<and> \<not> bit t 1 \<and> bit t 3 \<and> bit t 4 \<and> \<not> bit t 5 \<and> r \<noteq> RIPAS_RAM \<and> bit t 2 = (r = RIPAS_DESTROYED))
   | St_assigned_ns \<Rightarrow> leaf_type t level \<and> bit t 55
   | St_table \<Rightarrow> level < 3 \<and> bit t 0 \<and> bit t 1)"

lemma ripas_EMPTY_I:
  "r \<noteq> RIPAS_RAM \<Longrightarrow> r \<noteq> RIPAS_DESTROYED \<Longrightarrow> r \<noteq> RIPAS_DEV \<Longrightarrow> RIPAS_EMPTY = r"
  by (cases r) simp_all

lemma state_bits_check:
  assumes "s2tt_ctx_ok hw s2_ctx" and "level \<le> 3" and "state_bits s2_ctx t level st"
  shows "s2tte_check hw s2_ctx t level s = Some (s = st)"
  using assms(3) leaf_type_def [of t level] dev_attr_def [of t]
  by (cases "(hw, s2_ctx, t, level, s)" rule: s2tte_check.cases)
    (auto simp: state_bits_def class_bits dev_dev_class_bits [OF assms(1,2)]
      split: s2_state.splits if_splits intro: ripas_EMPTY_I)

lemma state_bits_live:
  "state_bits s2_ctx t level st \<Longrightarrow> s2tte_is_live t level = state_live st"
  using leaf_type_def [of t level]
  by (auto simp: state_bits_def s2tte_is_live_def has_pa_bits split: s2_state.splits if_splits)

lemma state_bits_ripas:
  "state_bits s2_ctx t level st \<Longrightarrow> state_ripas st = Some r \<Longrightarrow> s2tte_get_ripas t = Some r"
  using leaf_type_def [of t level]
  by (auto simp: state_bits_def get_ripas_bits dev_attr_def split: s2_state.splits if_splits
      intro: ripas_EMPTY_I)

text \<open>Templates of the states with an address.\<close>

fun state_template :: "'g s2tt_context \<Rightarrow> dev_coh_type \<Rightarrow> int \<Rightarrow> s2_state \<Rightarrow> u64" where
  "state_template s2_ctx coh level (St_unassigned r) =
     (case r of RIPAS_RAM \<Rightarrow> S2TTE_INVALID_RIPAS_RAM | RIPAS_DESTROYED \<Rightarrow> S2TTE_INVALID_RIPAS_DESTROYED | _ \<Rightarrow> 0)"
| "state_template s2_ctx coh level (St_assigned r) =
     (if r = RIPAS_RAM then ram_template s2_ctx level
      else S2TTE_INVALID_HIPAS_ASSIGNED OR
        (if r = RIPAS_DESTROYED then S2TTE_INVALID_RIPAS_DESTROYED else S2TTE_INVALID_RIPAS_EMPTY))"
| "state_template s2_ctx coh level (St_assigned_dev r) =
     (if r = RIPAS_DEV then dev_template s2_ctx coh level
      else S2TTE_INVALID_HIPAS_ASSIGNED_DEV OR
        (if r = RIPAS_DESTROYED then S2TTE_INVALID_RIPAS_DESTROYED else S2TTE_INVALID_RIPAS_EMPTY))"
| "state_template s2_ctx coh level _ = 0"

fun state_dev :: "s2_state \<Rightarrow> bool" where
  "state_dev (St_assigned_dev r) = True"
| "state_dev _ = False"

lemma dev_template_bits:
  "bit (dev_template s2_ctx coh level) n \<longleftrightarrow>
     n \<in> {0, 2, 4, 10} \<or> n = 3 \<and> coh = DEV_MEM_COHERENT \<or> n = 1 \<and> level = 3 \<or>
     \<not> ctx_lpa2 s2_ctx \<and> (n = 9 \<or> n = 8 \<and> coh = DEV_MEM_COHERENT)"
  by (auto simp: dev_template_def coh_attr_def bit_or_iff template_bits attr_bits desc_bits)

lemma ram_template_bits:
  "bit (ram_template s2_ctx level) n \<longleftrightarrow>
     n \<in> {0, 3, 4, 10} \<or> n = 1 \<and> level = 3 \<or> \<not> ctx_lpa2 s2_ctx \<and> n \<in> {8, 9}"
  by (auto simp: ram_template_def template_bits)

lemma state_template_class:
  assumes "state_ripas st \<noteq> None"
  shows "class_template s2_ctx (state_template s2_ctx coh level st)"
  using assms
  by (cases st)
    (auto simp: class_template_def class_bit_def bit_or_iff dev_template_bits ram_template_bits
      hipas_bits ripas_bits split: if_splits ripas.splits)

lemma state_template_state:
  assumes "s2_creatable s2_ctx coh pa level st" and "state_ripas st \<noteq> None"
  shows "state_bits s2_ctx (state_template s2_ctx coh level st) level st"
  using assms
  by (cases st)
    (auto simp: state_bits_def leaf_type_def dev_attr_def bit_or_iff dev_template_bits
      ram_template_bits hipas_bits ripas_bits split: if_splits ripas.splits)

lemma state_bits_built:
  assumes "aligned_pa s2_ctx pa l"
  shows "state_bits s2_ctx (built_tte s2_ctx pa ap dev tmpl) level st = state_bits s2_ctx tmpl level st"
  by (cases "ctx_lpa2 s2_ctx")
    (simp_all add: state_bits_def leaf_type_def dev_attr_def built_class_bits [OF assms]
      split: s2_state.split)

lemma aligned_pa_0 [simp]: "aligned_pa s2_ctx 0 level"
  by (simp add: aligned_pa_def)

lemma oa_field_0 [simp]: "oa_field s2_ctx 0 = 0"
  by (simp add: oa_field_def)

lemma create_eq_built:
  assumes "s2tt_ctx_ok hw s2_ctx" and "s2_creatable s2_ctx coh pa level st" and "state_ripas st \<noteq> None"
  shows "s2tte_create hw s2_ctx coh pa level ap st =
    Some (built_tte s2_ctx (if state_live st then pa else 0) ap (state_dev st) (state_template s2_ctx coh level st))"
proof (cases st)
  case (St_unassigned r)
  then show ?thesis
    using assms
    by (cases r) (simp_all add: built_tte_def s2tte_create_unassigned_empty_def
        s2tte_create_unassigned_ram_def s2tte_create_unassigned_destroyed_def
        S2TTE_INVALID_HIPAS_UNASSIGNED_def S2TTE_INVALID_RIPAS_EMPTY_def or.commute)
next
  case (St_assigned r)
  then show ?thesis
    using assms by (cases r) (simp_all add: create_eqs)
next
  case (St_assigned_dev r)
  then show ?thesis
    using assms by (cases r) (simp_all add: create_eqs create_dev_dev_eq)
qed (use assms in simp_all)

lemma created_entry:
  assumes "s2tt_ctx_ok hw s2_ctx" and "s2_creatable s2_ctx coh pa level st"
    and "state_ripas st = Some r"
  shows "\<exists>t. s2tte_create hw s2_ctx coh pa level ap st = Some t \<and>
    (\<forall>s. s2tte_check hw s2_ctx t level s = Some (s = st)) \<and>
    s2tte_get_ripas t = Some r \<and>
    s2tte_get_ap s2_ctx t (state_dev st) = s2tte_get_ap s2_ctx ap (state_dev st) \<and>
    s2tte_is_live t level = state_live st \<and>
    (if state_live st then s2tte_pa hw s2_ctx t level = Some pa else True)"
proof -
  let ?pa = "if state_live st then pa else 0" and ?tmpl = "state_template s2_ctx coh level st"
  let ?t = "built_tte s2_ctx ?pa ap (state_dev st) ?tmpl"
  have level: "level \<le> 3" "state_live st \<Longrightarrow> 1 \<le> level"
    and al: "aligned_pa s2_ctx ?pa level"
    using assms(2,3) by (cases st; simp)+
  have tmpl: "class_template s2_ctx ?tmpl" "state_bits s2_ctx ?tmpl level st"
    using assms state_template_class [of st] state_template_state [of s2_ctx coh pa level st] by auto
  have st: "state_bits s2_ctx ?t level st"
    using tmpl(2) by (simp only: state_bits_built [OF al])
  have "s2tte_pa hw s2_ctx ?t level = Some pa" if live: "state_live st"
  proof -
    have "bit ?tmpl 0 \<and> (level < 3 \<longrightarrow> \<not> bit ?tmpl 1) \<or> \<not> bit ?tmpl 0 \<and> bit ?tmpl 3 \<and> \<not> bit ?tmpl 5"
      using tmpl(2) live assms(3) unfolding state_bits_def leaf_type_def
      by (cases st) (auto split: if_splits)
    then show ?thesis
      using built_pa [OF assms(1) level(2) level(1) al tmpl(1), of ap "state_dev st"] live by simp
  qed
  then show ?thesis
    using create_eq_built [OF assms(1,2)] state_bits_check [OF assms(1) level(1) st]
      state_bits_ripas [OF st assms(3)] state_bits_live [OF st] built_ap [OF al tmpl(1)] assms(3)
    by simp
qed

text \<open>A Realm with 48-bit addresses, and the registers of a platform without LPA2.\<close>

definition ctx_48 :: "unit s2tt_context" where
  "ctx_48 = \<lparr>ipa_bits = 48, s2_starting_level = 0, num_root_rtts = 1, g_rtt = (), vmid = 1,
     indirect_s2ap = False, overlay_perm = 0, mecid = 0, s2oa_limit = 2 ^ 48\<rparr>"

definition hw_plain :: cached_idregs where
  "hw_plain = \<lparr>id_aa64mmfr0_el1 = 0, id_aa64mmfr3_el1 = 0\<rparr>"

lemma ctx_48_simps [simp]: "s2tt_ctx_ok hw_plain ctx_48" "ctx_lpa2 ctx_48 = False" "ctx_oa_bits ctx_48 = 48"
  by (simp_all add: s2tt_ctx_ok_def s2tt_lpa2_enabled_def s2tt_lpa2_required_def ctx_48_def
      ctx_lpa2_def ctx_oa_bits_def BIT_def)

lemma aligned_2MB: "aligned_pa ctx_48 (BIT 31) 2"
  by (auto simp: aligned_pa_def bit_BIT)

end
