(* ===== verification/S2tte_Marks.thy ===== *)
theory S2tte_Marks
  imports S2tte_Create
begin

text \<open>
  Table entries, and the software marks that record a deferred cache or TLB maintenance
  obligation on an unassigned entry (\<^verbatim>\<open>s2tte_set_drain_pending\<close> and its relatives).
\<close>

subsection \<open>Table entries\<close>

lemma create_table_eq:
  assumes "s2tt_ctx_ok hw s2_ctx" and "first_level s2_ctx \<le> level" and "level < 3"
    and "GRANULE_ALIGNED pa"
  shows "s2tte_create_table hw s2_ctx pa level = Some (oa_field s2_ctx pa OR S2TTE_TABLE)"
  using assms by (auto simp: s2tte_create_table_def pa_to_s2tte_eq first_level_def)

lemma aligned_pa_granule: "aligned_pa s2_ctx pa 3 \<Longrightarrow> GRANULE_ALIGNED pa"
  by (auto simp: aligned_pa_def GRANULE_ALIGNED_bits)

lemma created_table:
  assumes "s2tt_ctx_ok hw s2_ctx" and "s2_creatable s2_ctx coh pa level St_table"
  shows "\<exists>t. s2tte_create_table hw s2_ctx pa level = Some t \<and>
    (\<forall>s. s2tte_check hw s2_ctx t level s = Some (s = St_table)) \<and>
    s2tte_is_live t level \<and> \<not> s2tte_has_ripas t level \<and>
    s2tte_pa hw s2_ctx t level = Some pa"
proof -
  let ?t = "oa_field s2_ctx pa OR S2TTE_TABLE"
  have level: "first_level s2_ctx \<le> level" "level < 3" and al: "aligned_pa s2_ctx pa 3"
    using assms(2) by simp_all
  have bits: "bit ?t 0" "bit ?t 1" "bit ?t (Suc 0)"
    by (simp_all add: bit_or_iff desc_bits)
  have st: "state_bits s2_ctx ?t level St_table"
    using bits level by (simp add: state_bits_def)
  have "s2tte_to_pa hw s2_ctx ?t 3 = Some pa"
    by (rule to_pa_oa_field [OF assms(1) _ _ al]) (auto simp: desc_bits)
  then have "s2tte_pa hw s2_ctx ?t level = Some pa"
    using assms(1) level bits by (simp add: s2tte_pa_def has_pa_bits is_table_bits first_level_def)
  moreover have "\<forall>s. s2tte_check hw s2_ctx ?t level s = Some (s = St_table)"
    using state_bits_check [OF assms(1) _ st] level by simp
  moreover have "s2tte_is_live ?t level" "\<not> s2tte_has_ripas ?t level"
    using bits level by (simp_all add: s2tte_is_live_def has_pa_bits s2tte_has_ripas_def is_table_bits)
  ultimately show ?thesis
    using create_table_eq [OF assms(1) level aligned_pa_granule [OF al]] by blast
qed



subsection \<open>Deferred maintenance marks\<close>

lemma marks_bits:
  assumes "unat h < 2 ^ 16" and "\<And>n. 12 \<le> n \<Longrightarrow> n < 52 \<Longrightarrow> \<not> bit t n"
  shows "\<exists>t'. s2tte_set_drain_pending t h = Some t' \<and>
    (\<forall>n. bit t' n \<longleftrightarrow> bit t n \<or> n = 32 \<or> 16 \<le> n \<and> n < 32 \<and> bit h (n - 16))"
proof -
  let ?h = "ucast h :: u64"
  have h: "n < 16" if "bit h n" for n using bit_unat_less [OF assms(1) that] .
  let ?t = "(t AND NOT S2TTE_SW_DRAIN_MASK) OR S2TTE_SW_DRAIN_PENDING_BIT OR INPLACE S2TTE_SW_HANDLE ?h"
  have "(?h AND NOT (drop_bit 16 S2TTE_SW_HANDLE_MASK)) = 0"
    using h by (auto simp: and_0_iff bit_not_iff bit_drop_bit_eq sw_bits bit_ucast_iff)
  moreover have "(t AND S2TTE_SW_DRAIN_PENDING_BIT) = 0"
    using assms(2) by (simp add: pending_bits)
  moreover have "((t AND NOT S2TTE_SW_DRAIN_MASK) AND BIT_MASK_ULL 51 12) = 0"
    using assms(2) by (auto simp: and_0_iff bit_and_iff bit_BIT_MASK_ULL)
  ultimately have "s2tte_set_drain_pending t h = Some ?t"
    by (simp add: s2tte_set_drain_pending_def)
  moreover have "bit ?t n \<longleftrightarrow> bit t n \<or> n = 32 \<or> 16 \<le> n \<and> n < 32 \<and> bit h (n - 16)" for n
    using assms(2) [of n] h [of "n - 16"] bit_imp_le_length [of t n]
    by (auto simp: bit_or_iff bit_and_iff bit_not_iff sw_bits bit_INPLACE bit_ucast_iff)
  ultimately show ?thesis by blast
qed

text \<open>Unassigned entries carry no address bits.\<close>

definition unassigned_state :: "s2_state \<Rightarrow> bool" where
  "unassigned_state st \<longleftrightarrow> st \<in> {St_unassigned RIPAS_EMPTY, St_unassigned RIPAS_RAM,
     St_unassigned RIPAS_DESTROYED, St_unassigned_ns}"

lemmas unassigned_create_defs =
  s2tte_create_unassigned_empty_def s2tte_create_unassigned_ram_def
  s2tte_create_unassigned_destroyed_def s2tte_create_unassigned_ns_def

lemma unassigned_no_address:
  assumes "unassigned_state st" and "s2tte_create hw s2_ctx coh pa level ap st = Some t"
    and "12 \<le> n" and "n < 52"
  shows "\<not> bit t n"
  using assms
  by (auto simp: unassigned_state_def unassigned_create_defs bit_or_iff bit_get_ap hipas_bits
      ripas_bits attr_bits split: if_splits)

lemma unassigned_low_bits:
  assumes "unassigned_state st" and "s2tte_create hw s2_ctx coh pa level ap st = Some t"
  shows "\<not> bit t 0 \<and> \<not> bit t 3 \<and> \<not> bit t 4 \<and> \<not> bit t 5"
  using assms
  by (auto simp: unassigned_state_def unassigned_create_defs bit_or_iff bit_get_ap hipas_bits
      ripas_bits attr_bits split: if_splits)

lemma check_cong:
  assumes "\<And>n. n \<in> {0, 1, 2, 3, 4, 5, 8, 9, 10, 55} \<Longrightarrow> bit t n = bit t' n"
  shows "s2tte_check hw s2_ctx t level s = s2tte_check hw s2_ctx t' level s"
proof -
  have "bit t 0 = bit t' 0" "bit t 1 = bit t' 1" "bit t 2 = bit t' 2" "bit t 3 = bit t' 3"
    "bit t 4 = bit t' 4" "bit t 5 = bit t' 5" "bit t 8 = bit t' 8" "bit t 9 = bit t' 9"
    "bit t 10 = bit t' 10" "bit t 55 = bit t' 55"
    using assms by auto
  then show ?thesis
    by (cases "(hw, s2_ctx, t, level, s)" rule: s2tte_check.cases)
      (simp_all add: class_bits(1-13) s2tte_is_assigned_dev_dev_def desc_type_bits dev_attr_bits
        sh_bits Let_def leaf_type_def dev_attr_def cong: if_cong)
qed

text \<open>
  C20. An unassigned entry, as any of its constructors makes it, can be marked with an operation
  handle: the mark does not fail an assertion, is read back with the handle, leaves every
  classifier and the permissions as they were, and can be upgraded to owe a TLB
  invalidation. Clearing the TLB mark or the whole mark gives exactly the earlier entry.
\<close>

theorem drain_marks_roundtrip:
  assumes "unassigned_state st" and "s2tte_create hw s2_ctx coh pa level ap st = Some t"
    and "unat h < 2 ^ 16"
  shows "\<exists>t' t''. s2tte_set_drain_pending t h = Some t' \<and> s2tte_set_tlbi_pending t' = Some t'' \<and>
    \<not> s2tte_drain_pending t \<and>
    s2tte_drain_pending t' \<and> \<not> s2tte_tlbi_pending t' \<and> s2tte_drain_handle t' = Some h \<and>
    s2tte_drain_pending t'' \<and> s2tte_tlbi_pending t'' \<and> s2tte_drain_handle t'' = Some h \<and>
    (\<forall>s. s2tte_check hw s2_ctx t'' level s = s2tte_check hw s2_ctx t level s) \<and>
    s2tte_get_ap s2_ctx t'' False = s2tte_get_ap s2_ctx t False \<and>
    s2tte_clear_tlbi_pending t'' = t' \<and> s2tte_clear_drain_pending t'' = t \<and>
    s2tte_clear_drain_pending t' = t"
proof -
  note addr = unassigned_no_address [OF assms(1,2)] and low = unassigned_low_bits [OF assms(1,2)]
  obtain t' where t': "s2tte_set_drain_pending t h = Some t'"
    and b': "\<And>n. bit t' n \<longleftrightarrow> bit t n \<or> n = 32 \<or> 16 \<le> n \<and> n < 32 \<and> bit h (n - 16)"
    using marks_bits [OF assms(3) addr] by blast
  let ?t'' = "t' OR S2TTE_SW_TLBI_PENDING_BIT"
  have b'': "bit ?t'' n \<longleftrightarrow> bit t' n \<or> n = 33" for n by (auto simp: bit_or_iff sw_bits)
  have h: "n < 16" if "bit h n" for n using bit_unat_less [OF assms(3) that] .
  have marked: "\<not> bit t 32" "\<not> bit t 33" "bit t' 32" "\<not> bit t' 33" using addr by (auto simp: b')
  have handle: "ucast (EXTRACT S2TTE_SW_HANDLE t') = h" "ucast (EXTRACT S2TTE_SW_HANDLE ?t'') = h"
    using addr h
    by (intro bit_word_eqI; auto simp: bit_ucast_iff bit_EXTRACT b'' b')+
  have "s2tte_clear_tlbi_pending ?t'' = t'" "s2tte_clear_drain_pending ?t'' = t"
      "s2tte_clear_drain_pending t' = t"
    using marked addr h
    by (intro bit_word_eqI; auto simp: s2tte_clear_tlbi_pending_def s2tte_clear_drain_pending_def
        bit_and_iff bit_not_iff sw_bits b'' b')+
  moreover have same: "bit ?t'' n = bit t n" if "n < 12 \<or> 52 \<le> n" for n
    using that by (auto simp: b'' b')
  have "s2tte_get_ap s2_ctx ?t'' False = s2tte_get_ap s2_ctx t False"
    by (rule get_ap_cong) (auto simp: same)
  moreover have "s2tte_check hw s2_ctx ?t'' level s = s2tte_check hw s2_ctx t level s" for s
    by (rule check_cong) (auto simp: same)
  ultimately show ?thesis
    using t' marked low handle
    by (simp add: s2tte_set_tlbi_pending_def pending_bits s2tte_drain_pending_def
        s2tte_tlbi_pending_def s2tte_drain_handle_def has_hipas_bits b'' b')
qed

theorem drain_marks_roundtrip_witness:
  "\<exists>t'. s2tte_set_drain_pending (s2tte_create_unassigned_ram ctx_48 0xC0) 7 = Some t' \<and>
    s2tte_drain_handle t' = Some 7 \<and>
    s2tte_clear_drain_pending t' = s2tte_create_unassigned_ram ctx_48 0xC0"
  using drain_marks_roundtrip [where st = "St_unassigned RIPAS_RAM" and hw = hw_plain
      and s2_ctx = ctx_48 and coh = DEV_MEM_COHERENT and pa = 0 and level = 3 and ap = "0xC0"
      and t = "s2tte_create_unassigned_ram ctx_48 0xC0" and h = 7]
  by (auto simp: unassigned_state_def)

end
