(* ===== verification/S2tt.thy ===== *)
theory S2tt
  imports S2tte_Marks
begin

text \<open>
  Stage 2 translation tables: the functions of \<^verbatim>\<open>src/lib/s2tt/src/s2tt.c\<close> that populate a
  table when a block is unfolded, recognise a table that can be folded back into a block,
  and scan a table. A table is the list of its 512 entries.
\<close>

type_synonym s2tt = "u64 list"

definition s2tte_read :: "s2tt \<Rightarrow> nat \<Rightarrow> u64 option" where
  "s2tte_read table i = (if i < length table then Some (table ! i) else None)"

subsection \<open>Populating a table\<close>

definition s2tt_init_unassigned_empty :: "'g s2tt_context \<Rightarrow> u64 \<Rightarrow> s2tt" where
  "s2tt_init_unassigned_empty s2_ctx s2tte_ap =
     replicate S2TTES_PER_S2TT (s2tte_create_unassigned_empty s2_ctx s2tte_ap)"

definition s2tt_init_unassigned_ram :: "'g s2tt_context \<Rightarrow> u64 \<Rightarrow> s2tt" where
  "s2tt_init_unassigned_ram s2_ctx s2tte_ap =
     replicate S2TTES_PER_S2TT (s2tte_create_unassigned_ram s2_ctx s2tte_ap)"

definition s2tt_init_unassigned_ns :: "'g s2tt_context \<Rightarrow> u64 \<Rightarrow> s2tt" where
  "s2tt_init_unassigned_ns s2_ctx s2tte_ap =
     replicate S2TTES_PER_S2TT (s2tte_create_unassigned_ns s2_ctx s2tte_ap)"

definition s2tt_init_unassigned_destroyed :: "'g s2tt_context \<Rightarrow> u64 \<Rightarrow> s2tt" where
  "s2tt_init_unassigned_destroyed s2_ctx s2tte_ap =
     replicate S2TTES_PER_S2TT (s2tte_create_unassigned_destroyed s2_ctx s2tte_ap)"

text \<open>The loop of the \<^verbatim>\<open>init\<close> functions: the entries still to write, from address \<open>pa\<close> on.\<close>

fun init_loop :: "nat \<Rightarrow> (u64 \<Rightarrow> u64 option) \<Rightarrow> u64 \<Rightarrow> u64 \<Rightarrow> s2tt option" where
  "init_loop 0 func pa map_size = Some []"
| "init_loop (Suc k) func pa map_size = do {
     s2tte \<leftarrow> func pa;
     rest \<leftarrow> init_loop k func (pa + map_size) map_size;
     Some (s2tte # rest)
   }"

definition init_assigned ::
  "cached_idregs \<Rightarrow> 'g s2tt_context \<Rightarrow> u64 \<Rightarrow> int \<Rightarrow> int \<Rightarrow> u64 \<Rightarrow> 'g create_assigned_fn \<Rightarrow> s2tt option" where
  "init_assigned hw s2_ctx pa level min_level s2tte_ap func = do {
     c_assert (level \<ge> min_level);
     c_assert (level \<le> S2TT_PAGE_LEVEL);
     aligned \<leftarrow> s2tte_is_addr_lvl_aligned hw s2_ctx pa level;
     c_assert aligned;
     let map_size = s2tte_map_size level;
     init_loop S2TTES_PER_S2TT (\<lambda>pa. func hw s2_ctx pa level s2tte_ap) pa map_size
   }"

definition s2tt_init_assigned_destroyed ::
  "cached_idregs \<Rightarrow> 'g s2tt_context \<Rightarrow> u64 \<Rightarrow> int \<Rightarrow> u64 \<Rightarrow> s2tt option" where
  "s2tt_init_assigned_destroyed hw s2_ctx pa level s2tte_ap =
     init_assigned hw s2_ctx pa level S2TT_MIN_BLOCK_LEVEL s2tte_ap s2tte_create_assigned_destroyed"

definition s2tt_init_assigned_empty ::
  "cached_idregs \<Rightarrow> 'g s2tt_context \<Rightarrow> u64 \<Rightarrow> int \<Rightarrow> u64 \<Rightarrow> s2tt option" where
  "s2tt_init_assigned_empty hw s2_ctx pa level s2tte_ap =
     init_assigned hw s2_ctx pa level S2TT_MIN_BLOCK_LEVEL s2tte_ap s2tte_create_assigned_empty"

definition s2tt_init_assigned_ram ::
  "cached_idregs \<Rightarrow> 'g s2tt_context \<Rightarrow> u64 \<Rightarrow> int \<Rightarrow> u64 \<Rightarrow> s2tt option" where
  "s2tt_init_assigned_ram hw s2_ctx pa level s2tte_ap =
     init_assigned hw s2_ctx pa level S2TT_MIN_BLOCK_LEVEL s2tte_ap s2tte_create_assigned_ram"

definition s2tt_init_assigned_dev_empty ::
  "cached_idregs \<Rightarrow> 'g s2tt_context \<Rightarrow> u64 \<Rightarrow> int \<Rightarrow> u64 \<Rightarrow> s2tt option" where
  "s2tt_init_assigned_dev_empty hw s2_ctx pa level s2tte_ap =
     init_assigned hw s2_ctx pa level S2TT_MIN_DEV_BLOCK_LEVEL s2tte_ap s2tte_create_assigned_dev_empty"

definition s2tt_init_assigned_dev_destroyed ::
  "cached_idregs \<Rightarrow> 'g s2tt_context \<Rightarrow> u64 \<Rightarrow> int \<Rightarrow> u64 \<Rightarrow> s2tt option" where
  "s2tt_init_assigned_dev_destroyed hw s2_ctx pa level s2tte_ap =
     init_assigned hw s2_ctx pa level S2TT_MIN_DEV_BLOCK_LEVEL s2tte_ap s2tte_create_assigned_dev_destroyed"

definition s2tt_init_assigned_ns ::
  "cached_idregs \<Rightarrow> 'g s2tt_context \<Rightarrow> u64 \<Rightarrow> u64 \<Rightarrow> int \<Rightarrow> u64 \<Rightarrow> s2tt option" where
  "s2tt_init_assigned_ns hw s2_ctx attrs pa level s2tte_ap = do {
     c_assert (level \<ge> S2TT_MIN_BLOCK_LEVEL);
     c_assert (level \<le> S2TT_PAGE_LEVEL);
     aligned \<leftarrow> s2tte_is_addr_lvl_aligned hw s2_ctx pa level;
     c_assert aligned;
     let map_size = s2tte_map_size level;
     let m = S2TTE_NS_ATTR_MASK OR
       (if indirect_s2ap s2_ctx then S2TTE_PI_INDEX_MASK else S2TTE_RW_AP_MASK);
     let attrs = attrs AND m;
     init_loop S2TTES_PER_S2TT
       (\<lambda>pa. do {
          tte \<leftarrow> pa_to_s2tte hw s2_ctx pa;
          s2tte_create_assigned_ns hw s2_ctx (attrs OR tte) level s2tte_ap
        }) pa map_size
   }"

definition s2tt_init_assigned_dev_dev ::
  "cached_idregs \<Rightarrow> 'g s2tt_context \<Rightarrow> u64 \<Rightarrow> u64 \<Rightarrow> int \<Rightarrow> u64 \<Rightarrow> s2tt option" where
  "s2tt_init_assigned_dev_dev hw s2_ctx s2tte pa level s2tte_ap = do {
     c_assert (level \<ge> S2TT_MIN_DEV_BLOCK_LEVEL);
     c_assert (level \<le> S2TT_PAGE_LEVEL);
     aligned \<leftarrow> s2tte_is_addr_lvl_aligned hw s2_ctx pa level;
     c_assert aligned;
     let map_size = s2tte_map_size level;
     init_loop S2TTES_PER_S2TT
       (\<lambda>pa. s2tte_create_assigned_dev_dev_from_pa hw s2_ctx pa s2tte level s2tte_ap) pa map_size
   }"

subsection \<open>Recognising a uniform table\<close>

fun uniform_loop ::
  "nat \<Rightarrow> nat \<Rightarrow> 'g s2tt_context \<Rightarrow> s2tt \<Rightarrow> (u64 \<Rightarrow> bool) \<Rightarrow> u64 option \<Rightarrow> bool option" where
  "uniform_loop 0 i s2_ctx table s2tte_is_x ap = Some True"
| "uniform_loop (Suc k) i s2_ctx table s2tte_is_x ap = do {
     s2tte \<leftarrow> s2tte_read table i;
     if \<not> s2tte_is_x s2tte then Some False
     else if ap \<noteq> None \<and> ap \<noteq> Some (s2tte_get_ap s2_ctx s2tte False) then Some False
     else uniform_loop k (i + 1) s2_ctx table s2tte_is_x ap
   }"

definition table_is_uniform_unassigned_block ::
  "'g s2tt_context \<Rightarrow> s2tt \<Rightarrow> (u64 \<Rightarrow> bool) \<Rightarrow> u64 option \<Rightarrow> bool option" where
  "table_is_uniform_unassigned_block s2_ctx table s2tte_is_x s2tte_ap = do {
     s2tte \<leftarrow> s2tte_read table 0;
     if \<not> s2tte_is_x s2tte then Some False
     else do {
       let ap = map_option (\<lambda>a. s2tte_get_ap s2_ctx a False) s2tte_ap;
       if ap \<noteq> None \<and> ap \<noteq> Some (s2tte_get_ap s2_ctx s2tte False) then Some False
       else uniform_loop (S2TTES_PER_S2TT - 1) 1 s2_ctx table s2tte_is_x ap
     }
   }"

definition s2tt_is_unassigned_empty_block :: "'g s2tt_context \<Rightarrow> s2tt \<Rightarrow> u64 \<Rightarrow> bool option" where
  "s2tt_is_unassigned_empty_block s2_ctx table s2tte_ap =
     table_is_uniform_unassigned_block s2_ctx table s2tte_is_unassigned_empty (Some s2tte_ap)"

definition s2tt_is_unassigned_ram_block :: "'g s2tt_context \<Rightarrow> s2tt \<Rightarrow> u64 \<Rightarrow> bool option" where
  "s2tt_is_unassigned_ram_block s2_ctx table s2tte_ap =
     table_is_uniform_unassigned_block s2_ctx table s2tte_is_unassigned_ram (Some s2tte_ap)"

definition s2tt_is_unassigned_ns_block :: "'g s2tt_context \<Rightarrow> s2tt \<Rightarrow> u64 \<Rightarrow> bool option" where
  "s2tt_is_unassigned_ns_block s2_ctx table s2tte_ap =
     table_is_uniform_unassigned_block s2_ctx table s2tte_is_unassigned_ns None"

definition s2tt_is_unassigned_destroyed_block :: "'g s2tt_context \<Rightarrow> s2tt \<Rightarrow> u64 \<Rightarrow> bool option" where
  "s2tt_is_unassigned_destroyed_block s2_ctx table s2tte_ap =
     table_is_uniform_unassigned_block s2_ctx table s2tte_is_unassigned_destroyed (Some s2tte_ap)"

subsection \<open>Recognising a table that maps a block\<close>

fun maps_loop ::
  "nat \<Rightarrow> nat \<Rightarrow> cached_idregs \<Rightarrow> 'g s2tt_context \<Rightarrow> s2tt \<Rightarrow> int \<Rightarrow> 'g s2tte_type_level_checker \<Rightarrow>
   bool \<Rightarrow> bool \<Rightarrow> u64 \<Rightarrow> u64 \<Rightarrow> u64 \<Rightarrow> u64 \<Rightarrow> bool option" where
  "maps_loop 0 i hw s2_ctx table level s2tte_is_x check_attrs dev base_pa expected_ap attr_mask s2tt_attrs = Some True"
| "maps_loop (Suc k) i hw s2_ctx table level s2tte_is_x check_attrs dev base_pa expected_ap attr_mask s2tt_attrs = do {
     let expected_pa = base_pa + of_nat i * s2tte_map_size level;
     s2tte \<leftarrow> s2tte_read table i;
     is_x \<leftarrow> s2tte_is_x hw s2_ctx s2tte level;
     if \<not> is_x then Some False
     else do {
       pa \<leftarrow> s2tte_pa hw s2_ctx s2tte level;
       if pa \<noteq> expected_pa then Some False
       else if (\<not> check_attrs \<or> dev) \<and> expected_ap \<noteq> s2tte_get_ap s2_ctx s2tte dev then Some False
       else if check_attrs \<and> s2tt_attrs \<noteq> (s2tte AND attr_mask) then Some False
       else maps_loop k (i + 1) hw s2_ctx table level s2tte_is_x check_attrs dev base_pa expected_ap
              attr_mask s2tt_attrs
     }
   }"

definition table_maps_block ::
  "cached_idregs \<Rightarrow> 'g s2tt_context \<Rightarrow> s2tt \<Rightarrow> int \<Rightarrow> 'g s2tte_type_level_checker \<Rightarrow> bool \<Rightarrow> u64 \<Rightarrow> bool \<Rightarrow> bool option" where
  "table_maps_block hw s2_ctx table level s2tte_is_x check_attrs s2tte_ap dev = do {
     lpa2 \<leftarrow> s2tt_lpa2_enabled hw s2_ctx;
     c_assert (if lpa2 then level \<ge> S2TT_MIN_STARTING_LEVEL_LPA2 else level \<ge> S2TT_MIN_STARTING_LEVEL);
     c_assert (level \<le> S2TT_PAGE_LEVEL);
     s2tte \<leftarrow> s2tte_read table 0;
     is_x \<leftarrow> s2tte_is_x hw s2_ctx s2tte level;
     if \<not> is_x then Some False
     else do {
       let expected_ap = s2tte_get_ap s2_ctx s2tte_ap dev;
       if s2tte_get_ap s2_ctx s2tte dev \<noteq> expected_ap then Some False
       else do {
         base_pa \<leftarrow> s2tte_pa hw s2_ctx s2tte level;
         aligned \<leftarrow> s2tte_is_addr_lvl_aligned hw s2_ctx base_pa (level - 1);
         if \<not> aligned then Some False
         else do {
           let attr_mask = S2TTE_MEMATTR_MASK OR
             (if indirect_s2ap s2_ctx then S2TTE_PI_INDEX_MASK else S2TTE_RW_AP_MASK);
           let s2tt_attrs = s2tte AND attr_mask;
           maps_loop (S2TTES_PER_S2TT - 1) 1 hw s2_ctx table level s2tte_is_x check_attrs dev
             base_pa expected_ap attr_mask s2tt_attrs
         }
       }
     }
   }"

definition s2tt_maps_assigned_empty_block ::
  "cached_idregs \<Rightarrow> 'g s2tt_context \<Rightarrow> s2tt \<Rightarrow> int \<Rightarrow> u64 \<Rightarrow> bool option" where
  "s2tt_maps_assigned_empty_block hw s2_ctx table level s2tte_ap =
     table_maps_block hw s2_ctx table level s2tte_is_assigned_empty False s2tte_ap False"

definition s2tt_maps_assigned_ram_block ::
  "cached_idregs \<Rightarrow> 'g s2tt_context \<Rightarrow> s2tt \<Rightarrow> int \<Rightarrow> u64 \<Rightarrow> bool option" where
  "s2tt_maps_assigned_ram_block hw s2_ctx table level s2tte_ap =
     table_maps_block hw s2_ctx table level s2tte_is_assigned_ram False s2tte_ap False"

definition s2tt_maps_assigned_ns_block ::
  "cached_idregs \<Rightarrow> 'g s2tt_context \<Rightarrow> s2tt \<Rightarrow> int \<Rightarrow> u64 \<Rightarrow> bool option" where
  "s2tt_maps_assigned_ns_block hw s2_ctx table level s2tte_ap =
     table_maps_block hw s2_ctx table level s2tte_is_assigned_ns True s2tte_ap False"

definition s2tt_maps_assigned_destroyed_block ::
  "cached_idregs \<Rightarrow> 'g s2tt_context \<Rightarrow> s2tt \<Rightarrow> int \<Rightarrow> u64 \<Rightarrow> bool option" where
  "s2tt_maps_assigned_destroyed_block hw s2_ctx table level s2tte_ap =
     table_maps_block hw s2_ctx table level s2tte_is_assigned_destroyed False s2tte_ap False"

definition s2tt_maps_assigned_dev_empty_block ::
  "cached_idregs \<Rightarrow> 'g s2tt_context \<Rightarrow> s2tt \<Rightarrow> int \<Rightarrow> u64 \<Rightarrow> bool option" where
  "s2tt_maps_assigned_dev_empty_block hw s2_ctx table level s2tte_ap =
     table_maps_block hw s2_ctx table level s2tte_is_assigned_dev_empty False s2tte_ap True"

definition s2tt_maps_assigned_dev_destroyed_block ::
  "cached_idregs \<Rightarrow> 'g s2tt_context \<Rightarrow> s2tt \<Rightarrow> int \<Rightarrow> u64 \<Rightarrow> bool option" where
  "s2tt_maps_assigned_dev_destroyed_block hw s2_ctx table level s2tte_ap =
     table_maps_block hw s2_ctx table level s2tte_is_assigned_dev_destroyed False s2tte_ap True"

definition s2tt_maps_assigned_dev_dev_block ::
  "cached_idregs \<Rightarrow> 'g s2tt_context \<Rightarrow> s2tt \<Rightarrow> int \<Rightarrow> u64 \<Rightarrow> bool option" where
  "s2tt_maps_assigned_dev_dev_block hw s2_ctx table level s2tte_ap =
     table_maps_block hw s2_ctx table level s2tte_is_assigned_dev_dev True s2tte_ap True"

subsection \<open>Scanning a table\<close>

record 'g s2tt_walk =
  g_llt :: 'g
  index :: u64
  last_level :: int

text \<open>The loop index after skipping the entries that are not live, from \<open>i\<close> on.\<close>

fun skip_loop :: "nat \<Rightarrow> nat \<Rightarrow> s2tt \<Rightarrow> int \<Rightarrow> nat option" where
  "skip_loop 0 i table level = Some i"
| "skip_loop (Suc k) i table level = do {
     s2tte \<leftarrow> s2tte_read table i;
     if s2tte_is_live s2tte level then Some i else skip_loop k (i + 1) table level
   }"

definition s2tt_skip_non_live_entries ::
  "cached_idregs \<Rightarrow> 'g s2tt_context \<Rightarrow> u64 \<Rightarrow> s2tt \<Rightarrow> 'g s2tt_walk \<Rightarrow> u64 option" where
  "s2tt_skip_non_live_entries hw s2_ctx addr table wi = do {
     c_assert (unat (index wi) \<le> S2TTES_PER_S2TT);
     c_assert (last_level wi \<le> S2TT_PAGE_LEVEL);
     let idx = unat (index wi);
     let level = last_level wi;
     lpa2 \<leftarrow> s2tt_lpa2_enabled hw s2_ctx;
     let min_starting_level =
       (if lpa2 then S2TT_MIN_STARTING_LEVEL_LPA2 else S2TT_MIN_STARTING_LEVEL);
     c_assert (last_level wi \<ge> min_starting_level);
     s2tte \<leftarrow> s2tte_read table idx;
     if s2tte_is_live s2tte level then Some addr
     else do {
       let map_size = s2tte_map_size level;
       let addr = addr AND NOT (map_size - 1);
       i \<leftarrow> skip_loop (S2TTES_PER_S2TT - (idx + 1)) (idx + 1) table level;
       Some (addr + (of_nat i - of_nat idx) * map_size)
     }
   }"

end
