(* ===== verification/S2tt_Fold.thy ===== *)
theory S2tt_Fold
  imports S2tt
begin

text \<open>
  Unfolding and folding of blocks. The contract between an entry constructor and its
  classifier is the locale \<^verbatim>\<open>assigned_kind\<close>; the table functions are verified once
  against it and instantiated for every kind of assigned entry.
\<close>

subsection \<open>The loops\<close>

lemma all_range_Suc:
  "(\<forall>j. i \<le> j \<and> j < i + Suc k \<longrightarrow> P j) \<longleftrightarrow> P i \<and> (\<forall>j. Suc i \<le> j \<and> j < Suc i + k \<longrightarrow> P j)"
proof -
  have "i \<le> j \<and> j < i + Suc k \<longleftrightarrow> j = i \<or> Suc i \<le> j \<and> j < Suc i + k" for j by auto
  then show ?thesis by metis
qed

lemma init_loop_eq:
  assumes "\<And>i. i < k \<Longrightarrow> f (pa + of_nat i * ms) = Some (g i)"
  shows "init_loop k f pa ms = Some (map g [0..<k])"
  using assms
proof (induction k arbitrary: pa g)
  case (Suc k)
  have "f pa = Some (g 0)" using Suc.prems [of 0] by simp
  moreover have "init_loop k f (pa + ms) ms = Some (map (g \<circ> Suc) [0..<k])"
  proof (rule Suc.IH)
    fix i assume "i < k"
    then show "f (pa + ms + of_nat i * ms) = Some ((g \<circ> Suc) i)"
      using Suc.prems [of "Suc i"] by (simp add: algebra_simps)
  qed
  moreover have "map g [0..<Suc k] = g 0 # map (g \<circ> Suc) [0..<k]"
    by (simp only: upt_conv_Cons map_Suc_upt [symmetric]) (simp add: upt_conv_Cons flip: map_Suc_upt)
  ultimately show ?case by simp
qed simp

text \<open>What the loop of \<^verbatim>\<open>table_maps_block\<close> requires of the entry with index \<open>j\<close>.\<close>

definition maps_entry ::
  "cached_idregs \<Rightarrow> 'g s2tt_context \<Rightarrow> s2tt \<Rightarrow> int \<Rightarrow> 'g s2tte_type_level_checker \<Rightarrow>
   bool \<Rightarrow> bool \<Rightarrow> u64 \<Rightarrow> u64 \<Rightarrow> u64 \<Rightarrow> u64 \<Rightarrow> nat \<Rightarrow> bool" where
  "maps_entry hw s2_ctx table level is_x check_attrs dev base ap m attrs j \<longleftrightarrow>
     j < length table \<and> is_x hw s2_ctx (table ! j) level = Some True \<and>
     s2tte_pa hw s2_ctx (table ! j) level = Some (base + of_nat j * s2tte_map_size level) \<and>
     (\<not> check_attrs \<or> dev \<longrightarrow> s2tte_get_ap s2_ctx (table ! j) dev = ap) \<and>
     (check_attrs \<longrightarrow> (table ! j) AND m = attrs)"

lemma maps_loop_iff:
  "maps_loop k i hw s2_ctx table level is_x check_attrs dev base ap m attrs = Some True \<longleftrightarrow>
     (\<forall>j. i \<le> j \<and> j < i + k \<longrightarrow> maps_entry hw s2_ctx table level is_x check_attrs dev base ap m attrs j)"
proof (induction k arbitrary: i)
  case (Suc k)
  have "maps_loop (Suc k) i hw s2_ctx table level is_x check_attrs dev base ap m attrs = Some True \<longleftrightarrow>
      maps_entry hw s2_ctx table level is_x check_attrs dev base ap m attrs i \<and>
      maps_loop k (i + 1) hw s2_ctx table level is_x check_attrs dev base ap m attrs = Some True"
    by (auto simp: maps_entry_def s2tte_read_def bind_eq_Some_conv split: if_splits)
  also have "\<dots> \<longleftrightarrow> (\<forall>j. i \<le> j \<and> j < i + Suc k \<longrightarrow>
      maps_entry hw s2_ctx table level is_x check_attrs dev base ap m attrs j)"
    unfolding Suc.IH all_range_Suc by simp
  finally show ?case .
qed auto

lemma uniform_loop_iff:
  "uniform_loop k i s2_ctx table is_x ap = Some True \<longleftrightarrow>
     (\<forall>j. i \<le> j \<and> j < i + k \<longrightarrow> j < length table \<and> is_x (table ! j) \<and>
        (\<forall>a. ap = Some a \<longrightarrow> s2tte_get_ap s2_ctx (table ! j) False = a))"
proof (induction k arbitrary: i)
  case (Suc k)
  have "uniform_loop (Suc k) i s2_ctx table is_x ap = Some True \<longleftrightarrow>
      (i < length table \<and> is_x (table ! i) \<and> (\<forall>a. ap = Some a \<longrightarrow> s2tte_get_ap s2_ctx (table ! i) False = a)) \<and>
      uniform_loop k (i + 1) s2_ctx table is_x ap = Some True"
    by (auto simp: s2tte_read_def)
  also have "\<dots> \<longleftrightarrow> (\<forall>j. i \<le> j \<and> j < i + Suc k \<longrightarrow> j < length table \<and> is_x (table ! j) \<and>
        (\<forall>a. ap = Some a \<longrightarrow> s2tte_get_ap s2_ctx (table ! j) False = a))"
    unfolding Suc.IH all_range_Suc by simp
  finally show ?case .
qed auto

lemma skip_loop_total:
  assumes "i + k \<le> length table"
  obtains j where "skip_loop k i table level = Some j" "i \<le> j" "j \<le> i + k"
    "\<And>n. i \<le> n \<Longrightarrow> n < j \<Longrightarrow> \<not> s2tte_is_live (table ! n) level"
    "j < i + k \<Longrightarrow> s2tte_is_live (table ! j) level"
  using assms
proof (induction k arbitrary: i thesis)
  case (Suc k)
  show ?case
  proof (cases "s2tte_is_live (table ! i) level")
    case True
    then show ?thesis using Suc.prems by (auto simp: s2tte_read_def)
  next
    case False
    obtain j where "skip_loop k (i + 1) table level = Some j" "i + 1 \<le> j" "j \<le> i + 1 + k"
        "\<And>n. i + 1 \<le> n \<Longrightarrow> n < j \<Longrightarrow> \<not> s2tte_is_live (table ! n) level"
        "j < i + 1 + k \<Longrightarrow> s2tte_is_live (table ! j) level"
      using Suc.IH [of "i + 1"] Suc.prems(2) by auto
    then show ?thesis
      using Suc.prems False
      by (intro Suc.prems(1) [of j]) (auto simp: s2tte_read_def, metis Suc_leI le_neq_implies_less)
  qed
qed simp

subsection \<open>Contiguous addresses\<close>

lemma bit_offset:
  assumes "i < 512"
  shows "bit (push_bit l (of_nat i :: u64)) n \<Longrightarrow> l \<le> n \<and> n < l + 9"
proof -
  assume b: "bit (push_bit l (of_nat i :: u64)) n"
  then have "bit (of_nat i :: u64) (n - l)" "l \<le> n" by (auto simp: bit_push_bit_iff)
  moreover have "unat (of_nat i :: u64) < 2 ^ 9" using assms by (simp add: unat_of_nat)
  ultimately show ?thesis using bit_unat_less [of "of_nat i :: u64" 9 "n - l"] by auto
qed

lemma block_address:
  assumes "level \<le> 3" and "1 \<le> level" and "aligned_pa s2_ctx pa (level - 1)" and "i < 512"
  shows "aligned_pa s2_ctx (pa + of_nat i * s2tte_map_size level) level"
proof -
  let ?l = "lvl_lsb level" and ?o = "push_bit (lvl_lsb level) (of_nat i :: u64)"
  have l: "?l \<le> 30" using assms(2) by (simp add: lvl_lsb_def)
  have "of_nat i * s2tte_map_size level = ?o"
    using assms(1) by (simp add: s2tte_map_size_lsb push_bit_eq_mult)
  moreover have "pa AND ?o = 0"
    using assms(1,3) bit_offset [OF assms(4)]
    by (fastforce simp: and_0_iff aligned_pa_def lvl_lsb_pred)
  then have "pa + ?o = pa OR ?o"
    by (simp add: disjunctive_add_eq_or)
  moreover have "?l \<le> n \<and> n < ctx_oa_bits s2_ctx" if "bit (pa OR ?o) n" for n
  proof -
    from that consider "bit pa n" | "bit ?o n" by (auto simp: bit_or_iff)
    then show ?thesis
    proof cases
      case 1
      then show ?thesis using assms(1,3) by (auto simp: aligned_pa_def lvl_lsb_pred)
    next
      case 2
      from bit_offset [OF assms(4) this] l show ?thesis by (simp add: ctx_oa_bits_def)
    qed
  qed
  ultimately show ?thesis by (simp add: aligned_pa_def)
qed

lemma all_less_Suc_0: "(\<forall>j < 512. P j) \<longleftrightarrow> P 0 \<and> (\<forall>j. 1 \<le> j \<and> j < 1 + 511 \<longrightarrow> P j)"
  for P :: "nat \<Rightarrow> bool"
  using all_range_Suc [of 0 511 P] by simp

lemma table_maps_block_iff:
  assumes "s2tt_ctx_ok hw s2_ctx" and "1 \<le> level" and "level \<le> 3"
  shows "table_maps_block hw s2_ctx table level is_x check_attrs ap dev = Some True \<longleftrightarrow>
    (\<exists>base. aligned_pa s2_ctx base (level - 1) \<and>
       s2tte_get_ap s2_ctx (table ! 0) dev = s2tte_get_ap s2_ctx ap dev \<and>
       (\<forall>j < 512. maps_entry hw s2_ctx table level is_x check_attrs dev base
          (s2tte_get_ap s2_ctx ap dev) (s2tt_attr_mask s2_ctx)
          ((table ! 0) AND s2tt_attr_mask s2_ctx) j))"
proof -
  have fl: "first_level s2_ctx \<le> level - 1" and lv: "level - 1 \<le> 3" using assms by (auto simp: first_level_def)
  have "table_maps_block hw s2_ctx table level is_x check_attrs ap dev = Some True \<longleftrightarrow>
     (\<exists>base. aligned_pa s2_ctx base (level - 1) \<and>
       s2tte_get_ap s2_ctx (table ! 0) dev = s2tte_get_ap s2_ctx ap dev \<and>
       maps_entry hw s2_ctx table level is_x check_attrs dev base (s2tte_get_ap s2_ctx ap dev)
         (s2tt_attr_mask s2_ctx) ((table ! 0) AND s2tt_attr_mask s2_ctx) 0 \<and>
       maps_loop 511 1 hw s2_ctx table level is_x check_attrs dev base (s2tte_get_ap s2_ctx ap dev)
         (s2tt_attr_mask s2_ctx) ((table ! 0) AND s2tt_attr_mask s2_ctx) = Some True)"
    using assms is_addr_lvl_aligned [OF assms(1), of _ "level - 1"] fl lv
    by (auto simp: table_maps_block_def s2tte_read_def maps_entry_def bind_eq_Some_conv
        Let_def s2tt_attr_mask_def split: if_splits)
  then show ?thesis
    unfolding all_less_Suc_0 maps_loop_iff .
qed

subsection \<open>The contract of a kind of assigned entry\<close>

locale assigned_kind =
  fixes create :: "'g create_assigned_fn"
    and is_x :: "'g s2tte_type_level_checker"
    and dev :: bool
    and okc :: "'g s2tt_context \<Rightarrow> int \<Rightarrow> u64 \<Rightarrow> bool"
  assumes create_ok:
    "\<lbrakk>s2tt_ctx_ok hw s2_ctx; okc s2_ctx level ap; 1 \<le> level; level \<le> 3; aligned_pa s2_ctx pa level\<rbrakk> \<Longrightarrow>
      \<exists>t. create hw s2_ctx pa level ap = Some t \<and> is_x hw s2_ctx t level = Some True \<and>
        s2tte_pa hw s2_ctx t level = Some pa \<and>
        s2tte_get_ap s2_ctx t dev = s2tte_get_ap s2_ctx ap dev"
    and create_attrs:
    "\<lbrakk>s2tt_ctx_ok hw s2_ctx; okc s2_ctx level ap; 1 \<le> level; level \<le> 3; aligned_pa s2_ctx pa level;
      aligned_pa s2_ctx pa' level; create hw s2_ctx pa level ap = Some t;
      create hw s2_ctx pa' level ap = Some t'\<rbrakk> \<Longrightarrow>
      t AND s2tt_attr_mask s2_ctx = t' AND s2tt_attr_mask s2_ctx"
begin

lemma init_maps_block:
  assumes "s2tt_ctx_ok hw s2_ctx" and "okc s2_ctx level ap" and "1 \<le> level" and "level \<le> 3"
    and pa: "aligned_pa s2_ctx pa (level - 1)"
  shows "\<exists>table. init_loop 512 (\<lambda>pa. create hw s2_ctx pa level ap) pa (s2tte_map_size level) = Some table \<and>
    length table = 512 \<and>
    (\<forall>i < 512. create hw s2_ctx (pa + of_nat i * s2tte_map_size level) level ap = Some (table ! i)) \<and>
    table_maps_block hw s2_ctx table level is_x check_attrs ap dev = Some True"
proof -
  define a where "a i = pa + of_nat i * s2tte_map_size level" for i :: nat
  have al: "aligned_pa s2_ctx (a i) level" if "i < 512" for i
    unfolding a_def using block_address [OF assms(4,3) pa that] .
  define g where "g i = the (create hw s2_ctx (a i) level ap)" for i
  have g: "create hw s2_ctx (a i) level ap = Some (g i)" "is_x hw s2_ctx (g i) level = Some True"
      "s2tte_pa hw s2_ctx (g i) level = Some (a i)"
      "s2tte_get_ap s2_ctx (g i) dev = s2tte_get_ap s2_ctx ap dev" if "i < 512" for i
    using create_ok [OF assms(1-4) al [OF that]] by (auto simp: g_def)
  let ?table = "map g [0..<512]"
  have nth: "?table ! i = g i" if "i < 512" for i using that by simp
  have len: "length ?table = 512" by simp
  have "init_loop 512 (\<lambda>pa. create hw s2_ctx pa level ap) pa (s2tte_map_size level) = Some ?table"
    by (rule init_loop_eq) (use g(1) in \<open>simp add: a_def\<close>)
  moreover have "table_maps_block hw s2_ctx ?table level is_x check_attrs ap dev = Some True"
  proof -
    have "maps_entry hw s2_ctx ?table level is_x check_attrs dev pa (s2tte_get_ap s2_ctx ap dev)
        (s2tt_attr_mask s2_ctx) ((?table ! 0) AND s2tt_attr_mask s2_ctx) j" if j: "j < 512" for j
      using g [OF j] create_attrs [OF assms(1-4) al [OF j] al g(1) [OF j] g(1), of 0]
      unfolding maps_entry_def nth [OF j] nth [of 0, simplified] len using j by (simp add: a_def)
    then show ?thesis
      unfolding table_maps_block_iff [OF assms(1,3,4)] nth [of 0, simplified]
      using pa g(4) [of 0] by auto
  qed
  ultimately show ?thesis using g(1) nth len unfolding a_def by metis
qed

end

end
