(* ===== verification/S2tt_Kinds.thy ===== *)
theory S2tt_Kinds
  imports S2tt_Fold
begin

text \<open>
  The kinds of assigned entries as instances of the contract of \<^verbatim>\<open>S2tt_Fold\<close>, and what
  follows for the tables: unfolding a block and folding the result is recognised, and a
  table recognised as foldable maps exactly the addresses of the block.
\<close>

subsection \<open>Entries for Realm memory and for devices\<close>

lemma kind_of_created:
  assumes "s2tt_ctx_ok hw s2_ctx" and "s2_creatable s2_ctx coh pa level st" and "state_ripas st \<noteq> None"
    and "state_live st"
  shows "\<exists>t. s2tte_create hw s2_ctx coh pa level ap st = Some t \<and>
    s2tte_check hw s2_ctx t level st = Some True \<and> s2tte_pa hw s2_ctx t level = Some pa \<and>
    s2tte_get_ap s2_ctx t (state_dev st) = s2tte_get_ap s2_ctx ap (state_dev st)"
proof -
  obtain r where "state_ripas st = Some r" using assms(3) by blast
  from created_entry [OF assms(1,2) this, of ap] assms(4) show ?thesis by auto
qed

lemma created_attrs:
  assumes "s2tt_ctx_ok hw s2_ctx" and "s2_creatable s2_ctx coh pa level st"
    and "s2_creatable s2_ctx coh pa' level st" and "state_ripas st \<noteq> None" and "state_live st"
    and "s2tte_create hw s2_ctx coh pa level ap st = Some t"
    and "s2tte_create hw s2_ctx coh pa' level ap st = Some t'"
  shows "t AND s2tt_attr_mask s2_ctx = t' AND s2tt_attr_mask s2_ctx"
proof -
  have "aligned_pa s2_ctx pa level" "aligned_pa s2_ctx pa' level"
    using assms(2-5) by (cases st; simp)+
  then show ?thesis
    using assms by (auto simp: create_eq_built built_attrs)
qed

lemma assigned_kindI:
  fixes create :: "'g create_assigned_fn" and is_x :: "'g s2tte_type_level_checker"
  assumes "state_live st" and "state_ripas st \<noteq> None" and "dev = state_dev st"
    and create: "\<And>hw s2_ctx pa level ap. create hw s2_ctx pa level ap = s2tte_create hw s2_ctx coh pa level ap st"
    and is_x: "\<And>hw s2_ctx t level. is_x hw s2_ctx t level = s2tte_check hw s2_ctx t level st"
    and creatable: "\<And>(s2_ctx :: 'g s2tt_context) pa level. 1 \<le> level \<Longrightarrow> level \<le> 3 \<Longrightarrow>
      aligned_pa s2_ctx pa level \<Longrightarrow> s2_creatable s2_ctx coh pa level st"
  shows "assigned_kind create is_x dev (\<lambda>_ _ _. True)"
proof
  fix hw :: cached_idregs and s2_ctx :: "'g s2tt_context" and level ap pa pa' t t'
  assume a: "s2tt_ctx_ok hw s2_ctx" "1 \<le> level" "level \<le> 3" "aligned_pa s2_ctx pa level"
  note c = creatable [OF a(2-4)]
  show "\<exists>t. create hw s2_ctx pa level ap = Some t \<and> is_x hw s2_ctx t level = Some True \<and>
      s2tte_pa hw s2_ctx t level = Some pa \<and> s2tte_get_ap s2_ctx t dev = s2tte_get_ap s2_ctx ap dev"
    using kind_of_created [OF a(1) c assms(2,1)] assms(3) by (simp add: create is_x)
  assume "aligned_pa s2_ctx pa' level" "create hw s2_ctx pa level ap = Some t"
    "create hw s2_ctx pa' level ap = Some t'"
  then show "t AND s2tt_attr_mask s2_ctx = t' AND s2tt_attr_mask s2_ctx"
    using created_attrs [OF a(1) c creatable [OF a(2,3)] assms(2,1)] by (simp add: create)
qed

interpretation ram: assigned_kind s2tte_create_assigned_ram s2tte_is_assigned_ram False "\<lambda>_ _ _. True"
  by (rule assigned_kindI [where st = "St_assigned RIPAS_RAM" and coh = DEV_MEM_COHERENT]) simp_all

interpretation empt: assigned_kind s2tte_create_assigned_empty s2tte_is_assigned_empty False "\<lambda>_ _ _. True"
  by (rule assigned_kindI [where st = "St_assigned RIPAS_EMPTY" and coh = DEV_MEM_COHERENT]) simp_all

interpretation destr: assigned_kind s2tte_create_assigned_destroyed s2tte_is_assigned_destroyed False "\<lambda>_ _ _. True"
  by (rule assigned_kindI [where st = "St_assigned RIPAS_DESTROYED" and coh = DEV_MEM_COHERENT]) simp_all

interpretation dev_empt: assigned_kind s2tte_create_assigned_dev_empty s2tte_is_assigned_dev_empty True "\<lambda>_ _ _. True"
  by (rule assigned_kindI [where st = "St_assigned_dev RIPAS_EMPTY" and coh = DEV_MEM_COHERENT]) simp_all

interpretation dev_destr: assigned_kind s2tte_create_assigned_dev_destroyed s2tte_is_assigned_dev_destroyed True "\<lambda>_ _ _. True"
  by (rule assigned_kindI [where st = "St_assigned_dev RIPAS_DESTROYED" and coh = DEV_MEM_COHERENT]) simp_all

text \<open>
  A mapped device block takes its memory attributes from a source entry, which must hold
  those of a coherency type.
\<close>

definition dev_attr_mask :: "'g s2tt_context \<Rightarrow> u64" where
  "dev_attr_mask s2_ctx = (if \<not> ctx_lpa2 s2_ctx
     then (S2TTE_DEV_ATTRS_MASK OR S2TTE_MEMATTR_MASK) OR S2TTE_SH_MASK
     else S2TTE_DEV_ATTRS_MASK OR S2TTE_MEMATTR_MASK)"

definition dev_source :: "'g s2tt_context \<Rightarrow> u64 \<Rightarrow> bool" where
  "dev_source s2_ctx source \<longleftrightarrow>
     source AND dev_attr_mask s2_ctx = coh_attr s2_ctx DEV_MEM_COHERENT \<or>
     source AND dev_attr_mask s2_ctx = coh_attr s2_ctx DEV_MEM_NON_COHERENT"

lemma from_pa_eq:
  assumes "s2tt_ctx_ok hw s2_ctx" and "1 \<le> level" and "level \<le> 3" and "aligned_pa s2_ctx pa level"
    and "coh \<noteq> DEV_MEM_MAX" and "source AND dev_attr_mask s2_ctx = coh_attr s2_ctx coh"
  shows "s2tte_create_assigned_dev_dev_from_pa hw s2_ctx pa source level ap =
    s2tte_create hw s2_ctx coh pa level ap (St_assigned_dev RIPAS_DEV)"
  using assms(1,5,6)
  by (simp add: s2tte_create_assigned_dev_dev_from_pa_def create_dev_dev_eq [OF assms(1-4)]
      create_dev_dev_attr_eq [OF assms(1-4)] dev_template_def dev_attr_mask_def)

interpretation dev_dev: assigned_kind
  "\<lambda>hw s2_ctx pa level ap. s2tte_create_assigned_dev_dev_from_pa hw s2_ctx pa source level ap"
  s2tte_is_assigned_dev_dev True "\<lambda>s2_ctx level ap. dev_source s2_ctx source" for source
proof
  fix hw :: cached_idregs and s2_ctx :: "'g s2tt_context" and level ap pa pa' t t'
  assume a: "s2tt_ctx_ok hw s2_ctx" "dev_source s2_ctx source" "1 \<le> level" "level \<le> 3"
    "aligned_pa s2_ctx pa level"
  obtain coh where coh: "coh \<noteq> DEV_MEM_MAX" "source AND dev_attr_mask s2_ctx = coh_attr s2_ctx coh"
    using a(2) unfolding dev_source_def by blast
  have eq: "s2tte_create_assigned_dev_dev_from_pa hw s2_ctx p source level ap =
      s2tte_create hw s2_ctx coh p level ap (St_assigned_dev RIPAS_DEV)"
    and c: "s2_creatable s2_ctx coh p level (St_assigned_dev RIPAS_DEV)"
    if "aligned_pa s2_ctx p level" for p
    using from_pa_eq [OF a(1,3,4) that coh] that coh a by simp_all
  show "\<exists>t. s2tte_create_assigned_dev_dev_from_pa hw s2_ctx pa source level ap = Some t \<and>
      s2tte_is_assigned_dev_dev hw s2_ctx t level = Some True \<and>
      s2tte_pa hw s2_ctx t level = Some pa \<and> s2tte_get_ap s2_ctx t True = s2tte_get_ap s2_ctx ap True"
    using kind_of_created [OF a(1) c [OF a(5)], of ap] unfolding eq [OF a(5)] by simp
  assume "aligned_pa s2_ctx pa' level"
    "s2tte_create_assigned_dev_dev_from_pa hw s2_ctx pa source level ap = Some t"
    "s2tte_create_assigned_dev_dev_from_pa hw s2_ctx pa' source level ap = Some t'"
  then show "t AND s2tt_attr_mask s2_ctx = t' AND s2tt_attr_mask s2_ctx"
    using created_attrs [OF a(1) c [OF a(5)] c] eq a(5) by simp
qed

subsection \<open>Entries for Non-secure memory\<close>

text \<open>
  The fields of an assigned NS entry other than its address, for host attributes \<open>attrs\<close>.
\<close>

definition ns_attr_mask :: "'g s2tt_context \<Rightarrow> u64" where
  "ns_attr_mask s2_ctx = S2TTE_NS_ATTR_MASK OR
     (if indirect_s2ap s2_ctx then S2TTE_PI_INDEX_MASK else S2TTE_RW_AP_MASK)"

definition ns_fields :: "'g s2tt_context \<Rightarrow> u64 \<Rightarrow> int \<Rightarrow> u64" where
  "ns_fields s2_ctx attrs level =
     (attrs AND ns_attr_mask s2_ctx) OR
     (if \<not> ctx_lpa2 s2_ctx then S2TTE_SH_IS else 0) OR
     (if indirect_s2ap s2_ctx then S2TTE_DIRTY_BIT OR MASK S2TTE_PO_INDEX else S2TTE_PERM_XNU_XNP) OR
     (if level = 3 then S2TTE_PAGE_NS else S2TTE_BLOCK_NS)"

lemma bit_ns_attr_mask:
  "bit (ns_attr_mask s2_ctx) n \<longleftrightarrow>
     n \<in> {2, 3, 4, 6} \<or> (if indirect_s2ap s2_ctx then n \<in> {51, 53, 54} else n = 7)"
  by (auto simp: ns_attr_mask_def bit_or_iff attr_bits ap_bits)

lemma bit_ns_fields:
  "bit (ns_fields s2_ctx attrs level) n \<longleftrightarrow>
     bit attrs n \<and> bit (ns_attr_mask s2_ctx) n \<or> \<not> ctx_lpa2 s2_ctx \<and> n \<in> {8, 9} \<or>
     (if indirect_s2ap s2_ctx then n = 7 \<or> 59 \<le> n \<and> n < 63 else n = 54) \<or>
     n \<in> {0, 10, 55} \<or> n = 1 \<and> level = 3"
  by (auto simp: ns_fields_def bit_or_iff bit_and_iff bit_MASK attr_bits ap_bits template_bits)

lemma bit_15: "bit (15 :: u64) n \<longleftrightarrow> n < 4"
proof -
  have "(15 :: u64) = mask 4" by (simp add: mask_eq_exp_minus_1)
  then have "bit (15 :: u64) n \<longleftrightarrow> bit (mask 4 :: u64) n" by simp
  then show ?thesis unfolding bit_mask_iff by auto
qed

lemma create_ns_eq:
  assumes ok: "s2tt_ctx_ok hw s2_ctx" and level: "1 \<le> level" "level \<le> 3"
    and pa: "aligned_pa s2_ctx pa level"
    and pii: "indirect_s2ap s2_ctx \<longrightarrow> s2tte_get_pi_index attrs \<le> S2AP_IND_BASE_PERM_IDX_RW"
  shows "s2tte_create_assigned_ns hw s2_ctx ((attrs AND ns_attr_mask s2_ctx) OR oa_field s2_ctx pa) level ap =
    Some (oa_field s2_ctx pa OR ns_fields s2_ctx attrs level)"
proof -
  let ?h = "(attrs AND ns_attr_mask s2_ctx) OR oa_field s2_ctx pa"
  have o: "\<not> bit (oa_field s2_ctx pa) n" if "n \<in> {0, 1, 6, 7, 51, 53, 54} \<or> 59 \<le> n" for n
    using oa_field_bits [OF pa, of n] that by auto
  have h: "bit ?h n \<longleftrightarrow> bit attrs n \<and> bit (ns_attr_mask s2_ctx) n \<or> bit (oa_field s2_ctx pa) n" for n
    by (simp add: bit_or_iff bit_and_iff)
  have idx: "s2tte_get_pi_index ?h = s2tte_get_pi_index attrs" if "indirect_s2ap s2_ctx"
    using that by (intro bit_word_eqI) (auto simp: bit_get_pi_index h bit_ns_attr_mask o)
  define n1 where "n1 = (if \<not> ctx_lpa2 s2_ctx then (?h AND NOT S2TT_DESC_TYPE_MASK) OR S2TTE_SH_IS
     else ?h AND NOT S2TT_DESC_TYPE_MASK)"
  have n1: "bit n1 n \<longleftrightarrow> bit ?h n \<and> n \<notin> {0, 1} \<or> \<not> ctx_lpa2 s2_ctx \<and> n \<in> {8, 9}" for n
    by (auto simp: n1_def bit_or_iff bit_and_iff bit_not_iff desc_bits attr_bits dest: bit_imp_le_length)
  define n2 where "n2 = (if indirect_s2ap s2_ctx then s2tte_set_po_index (n1 OR S2TTE_DIRTY_BIT) 15
     else (n1 AND NOT (MASK S2TTE_PERM_XN)) OR S2TTE_PERM_XNU_XNP)"
  have "s2tte_create_assigned_ns hw s2_ctx ?h level ap =
      Some (if level = 3 then n2 OR S2TTE_PAGE_NS else n2 OR S2TTE_BLOCK_NS)"
    using ok level pii idx by (simp add: s2tte_create_assigned_ns_def n1_def n2_def Let_def)
  moreover have "bit n2 n \<longleftrightarrow> bit (oa_field s2_ctx pa) n \<or> bit attrs n \<and> bit (ns_attr_mask s2_ctx) n \<or>
      \<not> ctx_lpa2 s2_ctx \<and> n \<in> {8, 9} \<or> (if indirect_s2ap s2_ctx then n = 7 \<or> 59 \<le> n \<and> n < 63 else n = 54)" for n
  proof (cases "indirect_s2ap s2_ctx")
    case True
    have "unat (15 :: u64) < 16" by simp
    note po = bit_set_po_index [OF this]
    have "bit n2 n \<longleftrightarrow> 59 \<le> n \<and> n < 63 \<or> bit n1 n \<or> n = 7"
      using True by (cases "59 \<le> n \<and> n < 63") (auto simp: n2_def po bit_15 bit_or_iff ap_bits simp del: bit_numeral_word_iff)
    then show ?thesis
      using True o [of n] unfolding n1 h bit_ns_attr_mask by auto
  next
    case False
    then have "bit n2 n \<longleftrightarrow> bit n1 n \<and> n \<notin> {53, 54} \<or> n = 54"
      by (auto simp: n2_def bit_or_iff bit_and_iff bit_not_iff bit_MASK ap_bits dest: bit_imp_le_length)
    then show ?thesis
      using False o [of n] unfolding n1 h bit_ns_attr_mask by auto
  qed
  then have "(if level = 3 then n2 OR S2TTE_PAGE_NS else n2 OR S2TTE_BLOCK_NS) =
      oa_field s2_ctx pa OR ns_fields s2_ctx attrs level"
    by (intro bit_word_eqI) (auto simp: bit_or_iff bit_ns_fields template_bits)
  ultimately show ?thesis by simp
qed

text \<open>
  The permissions expected of an NS block are those of its own fields.
\<close>

definition ns_okc :: "u64 \<Rightarrow> 'g s2tt_context \<Rightarrow> int \<Rightarrow> u64 \<Rightarrow> bool" where
  "ns_okc attrs s2_ctx level ap \<longleftrightarrow>
     (indirect_s2ap s2_ctx \<longrightarrow> s2tte_get_pi_index attrs \<le> S2AP_IND_BASE_PERM_IDX_RW) \<and>
     s2tte_get_ap s2_ctx ap False = s2tte_get_ap s2_ctx (ns_fields s2_ctx attrs level) False"

definition create_ns_block :: "u64 \<Rightarrow> 'g create_assigned_fn" where
  "create_ns_block attrs hw s2_ctx pa level ap = do {
     tte \<leftarrow> pa_to_s2tte hw s2_ctx pa;
     s2tte_create_assigned_ns hw s2_ctx ((attrs AND ns_attr_mask s2_ctx) OR tte) level ap
   }"

lemma create_ns_block_eq:
  assumes "s2tt_ctx_ok hw s2_ctx" and "1 \<le> level" and "level \<le> 3" and "aligned_pa s2_ctx pa level"
    and "ns_okc attrs s2_ctx level ap"
  shows "create_ns_block attrs hw s2_ctx pa level ap =
    Some (oa_field s2_ctx pa OR ns_fields s2_ctx attrs level)"
  using assms by (simp add: create_ns_block_def pa_to_s2tte_eq create_ns_eq ns_okc_def)

interpretation ns: assigned_kind "create_ns_block attrs" s2tte_is_assigned_ns False "ns_okc attrs" for attrs
proof
  fix hw :: cached_idregs and s2_ctx :: "'g s2tt_context" and level ap pa pa' t t'
  assume a: "s2tt_ctx_ok hw s2_ctx" "ns_okc attrs s2_ctx level ap" "1 \<le> level" "level \<le> 3"
    "aligned_pa s2_ctx pa level"
  let ?f = "ns_fields s2_ctx attrs level"
  have o: "\<not> bit (oa_field s2_ctx p) n" if "aligned_pa s2_ctx p level" "n \<in> {0, 1, 2, 3, 4, 6, 7, 51, 53, 54} \<or> 55 \<le> n" for n p
    using oa_field_bits [OF that(1), of n] that(2) by auto
  have "s2tte_to_pa hw s2_ctx (oa_field s2_ctx pa OR ?f) level = Some pa"
    using lvl_lsb_ge [of level] a(3)
    by (intro to_pa_oa_field [OF a(1) _ a(4,5)])
      (auto simp: bit_ns_fields bit_ns_attr_mask split: if_splits)
  moreover have "bit (oa_field s2_ctx pa OR ?f) 0" "bit (oa_field s2_ctx pa OR ?f) 55"
      "bit (oa_field s2_ctx pa OR ?f) 1 = (level = 3)"
    using o [OF a(5), of 1] by (simp_all add: bit_or_iff bit_ns_fields bit_ns_attr_mask)
  then have "s2tte_is_assigned_ns hw s2_ctx (oa_field s2_ctx pa OR ?f) level = Some True"
      "s2tte_has_pa (oa_field s2_ctx pa OR ?f) level" "\<not> s2tte_is_table (oa_field s2_ctx pa OR ?f) level"
    using a(3) by (simp_all only: mapped_class_bits leaf_type_def has_pa_bits is_table_bits) auto
  moreover have "s2tte_get_ap s2_ctx (oa_field s2_ctx pa OR ?f) False = s2tte_get_ap s2_ctx ?f False"
  proof (rule get_ap_cong)
    fix n :: nat
    assume "n \<in> {6, 7, 53, 54, 59, 60, 61, 62}"
    then have "\<not> bit (oa_field s2_ctx pa) n" by (intro o [OF a(5)]) auto
    then show "bit (oa_field s2_ctx pa OR ?f) n = bit ?f n" by (simp add: bit_or_iff)
  qed
  ultimately show "\<exists>t. create_ns_block attrs hw s2_ctx pa level ap = Some t \<and>
      s2tte_is_assigned_ns hw s2_ctx t level = Some True \<and> s2tte_pa hw s2_ctx t level = Some pa \<and>
      s2tte_get_ap s2_ctx t False = s2tte_get_ap s2_ctx ap False"
    using a create_ns_block_eq [OF a(1,3,4,5,2)] by (simp add: s2tte_pa_def ns_okc_def)
  assume p': "aligned_pa s2_ctx pa' level" and "create_ns_block attrs hw s2_ctx pa level ap = Some t"
    "create_ns_block attrs hw s2_ctx pa' level ap = Some t'"
  then have t: "t = oa_field s2_ctx pa OR ?f" "t' = oa_field s2_ctx pa' OR ?f"
    using create_ns_block_eq [OF a(1,3,4) _ a(2)] a(5) by simp_all
  have m: "n \<in> {2, 3, 4, 6, 7, 51, 53, 54}" if "bit (s2tt_attr_mask s2_ctx) n" for n
    using that by (auto simp: s2tt_attr_mask_def bit_or_iff attr_bits ap_bits split: if_splits)
  show "t AND s2tt_attr_mask s2_ctx = t' AND s2tt_attr_mask s2_ctx"
  proof (rule bit_word_eqI)
    fix n :: nat
    show "bit (t AND s2tt_attr_mask s2_ctx) n = bit (t' AND s2tt_attr_mask s2_ctx) n"
      using m [of n] o [OF a(5), of n] o [OF p', of n] unfolding t bit_and_iff bit_or_iff by blast
  qed
qed

end
