(* ===== verification/S2tt_Props.thy ===== *)
theory S2tt_Props
  imports S2tt_Kinds
begin

text \<open>
  The tables as a whole: populating a table for a state and recognising it again, what a
  recognised table maps, and the scan for live entries.
\<close>

subsection \<open>Populating and recognising, by state\<close>

fun s2tt_init_state ::
  "cached_idregs \<Rightarrow> 'g s2tt_context \<Rightarrow> u64 \<Rightarrow> u64 \<Rightarrow> int \<Rightarrow> u64 \<Rightarrow> s2_state \<Rightarrow> s2tt option" where
  "s2tt_init_state hw s2_ctx src pa level ap (St_unassigned RIPAS_EMPTY) = Some (s2tt_init_unassigned_empty s2_ctx ap)"
| "s2tt_init_state hw s2_ctx src pa level ap (St_unassigned RIPAS_RAM) = Some (s2tt_init_unassigned_ram s2_ctx ap)"
| "s2tt_init_state hw s2_ctx src pa level ap (St_unassigned RIPAS_DESTROYED) = Some (s2tt_init_unassigned_destroyed s2_ctx ap)"
| "s2tt_init_state hw s2_ctx src pa level ap St_unassigned_ns = Some (s2tt_init_unassigned_ns s2_ctx ap)"
| "s2tt_init_state hw s2_ctx src pa level ap (St_assigned RIPAS_EMPTY) = s2tt_init_assigned_empty hw s2_ctx pa level ap"
| "s2tt_init_state hw s2_ctx src pa level ap (St_assigned RIPAS_RAM) = s2tt_init_assigned_ram hw s2_ctx pa level ap"
| "s2tt_init_state hw s2_ctx src pa level ap (St_assigned RIPAS_DESTROYED) = s2tt_init_assigned_destroyed hw s2_ctx pa level ap"
| "s2tt_init_state hw s2_ctx src pa level ap (St_assigned_dev RIPAS_EMPTY) = s2tt_init_assigned_dev_empty hw s2_ctx pa level ap"
| "s2tt_init_state hw s2_ctx src pa level ap (St_assigned_dev RIPAS_DESTROYED) = s2tt_init_assigned_dev_destroyed hw s2_ctx pa level ap"
| "s2tt_init_state hw s2_ctx src pa level ap (St_assigned_dev RIPAS_DEV) = s2tt_init_assigned_dev_dev hw s2_ctx src pa level ap"
| "s2tt_init_state hw s2_ctx src pa level ap St_assigned_ns = s2tt_init_assigned_ns hw s2_ctx src pa level ap"
| "s2tt_init_state hw s2_ctx src pa level ap _ = None"

fun s2tt_is_block ::
  "cached_idregs \<Rightarrow> 'g s2tt_context \<Rightarrow> s2tt \<Rightarrow> int \<Rightarrow> u64 \<Rightarrow> s2_state \<Rightarrow> bool option" where
  "s2tt_is_block hw s2_ctx table level ap (St_unassigned RIPAS_EMPTY) = s2tt_is_unassigned_empty_block s2_ctx table ap"
| "s2tt_is_block hw s2_ctx table level ap (St_unassigned RIPAS_RAM) = s2tt_is_unassigned_ram_block s2_ctx table ap"
| "s2tt_is_block hw s2_ctx table level ap (St_unassigned RIPAS_DESTROYED) = s2tt_is_unassigned_destroyed_block s2_ctx table ap"
| "s2tt_is_block hw s2_ctx table level ap St_unassigned_ns = s2tt_is_unassigned_ns_block s2_ctx table ap"
| "s2tt_is_block hw s2_ctx table level ap (St_assigned RIPAS_EMPTY) = s2tt_maps_assigned_empty_block hw s2_ctx table level ap"
| "s2tt_is_block hw s2_ctx table level ap (St_assigned RIPAS_RAM) = s2tt_maps_assigned_ram_block hw s2_ctx table level ap"
| "s2tt_is_block hw s2_ctx table level ap (St_assigned RIPAS_DESTROYED) = s2tt_maps_assigned_destroyed_block hw s2_ctx table level ap"
| "s2tt_is_block hw s2_ctx table level ap (St_assigned_dev RIPAS_EMPTY) = s2tt_maps_assigned_dev_empty_block hw s2_ctx table level ap"
| "s2tt_is_block hw s2_ctx table level ap (St_assigned_dev RIPAS_DESTROYED) = s2tt_maps_assigned_dev_destroyed_block hw s2_ctx table level ap"
| "s2tt_is_block hw s2_ctx table level ap (St_assigned_dev RIPAS_DEV) = s2tt_maps_assigned_dev_dev_block hw s2_ctx table level ap"
| "s2tt_is_block hw s2_ctx table level ap St_assigned_ns = s2tt_maps_assigned_ns_block hw s2_ctx table level ap"
| "s2tt_is_block hw s2_ctx table level ap _ = Some False"

text \<open>When a block in a state can be unfolded into a table.\<close>

fun s2_unfoldable :: "'g s2tt_context \<Rightarrow> u64 \<Rightarrow> u64 \<Rightarrow> int \<Rightarrow> u64 \<Rightarrow> s2_state \<Rightarrow> bool" where
  "s2_unfoldable s2_ctx src pa level ap (St_unassigned r) \<longleftrightarrow> r \<noteq> RIPAS_DEV"
| "s2_unfoldable s2_ctx src pa level ap St_unassigned_ns \<longleftrightarrow> True"
| "s2_unfoldable s2_ctx src pa level ap (St_assigned r) \<longleftrightarrow> r \<noteq> RIPAS_DEV \<and> aligned_pa s2_ctx pa (level - 1)"
| "s2_unfoldable s2_ctx src pa level ap (St_assigned_dev r) \<longleftrightarrow>
     r \<noteq> RIPAS_RAM \<and> aligned_pa s2_ctx pa (level - 1) \<and> (r = RIPAS_DEV \<longrightarrow> dev_source s2_ctx src)"
| "s2_unfoldable s2_ctx src pa level ap St_assigned_ns \<longleftrightarrow>
     aligned_pa s2_ctx pa (level - 1) \<and> ns_okc src s2_ctx level ap"
| "s2_unfoldable s2_ctx src pa level ap St_table \<longleftrightarrow> False"

lemmas is_block_defs =
  s2tt_is_unassigned_empty_block_def s2tt_is_unassigned_ram_block_def
  s2tt_is_unassigned_destroyed_block_def s2tt_is_unassigned_ns_block_def
  s2tt_maps_assigned_empty_block_def s2tt_maps_assigned_ram_block_def
  s2tt_maps_assigned_destroyed_block_def s2tt_maps_assigned_dev_empty_block_def
  s2tt_maps_assigned_dev_destroyed_block_def s2tt_maps_assigned_dev_dev_block_def
  s2tt_maps_assigned_ns_block_def

lemmas init_defs =
  s2tt_init_assigned_empty_def s2tt_init_assigned_ram_def s2tt_init_assigned_destroyed_def
  s2tt_init_assigned_dev_empty_def s2tt_init_assigned_dev_destroyed_def

lemma aligned_pa_pred: "level \<le> 3 \<Longrightarrow> aligned_pa s2_ctx pa (level - 1) \<Longrightarrow> aligned_pa s2_ctx pa level"
  by (auto simp: aligned_pa_def lvl_lsb_pred)

lemma init_assigned_eq:
  assumes "s2tt_ctx_ok hw s2_ctx" and "1 \<le> level" and "level \<le> 3" and "aligned_pa s2_ctx pa level"
  shows "init_assigned hw s2_ctx pa level 1 ap func =
    init_loop 512 (\<lambda>pa. func hw s2_ctx pa level ap) pa (s2tte_map_size level)"
proof -
  have "first_level s2_ctx \<le> level" using assms(2) by (simp add: first_level_def)
  then show ?thesis using assms by (simp add: init_assigned_def is_addr_lvl_aligned)
qed

lemma init_dev_dev_eq:
  assumes "s2tt_ctx_ok hw s2_ctx" and "1 \<le> level" and "level \<le> 3" and "aligned_pa s2_ctx pa level"
  shows "s2tt_init_assigned_dev_dev hw s2_ctx src pa level ap = init_loop 512
    (\<lambda>pa. s2tte_create_assigned_dev_dev_from_pa hw s2_ctx pa src level ap) pa (s2tte_map_size level)"
proof -
  have "first_level s2_ctx \<le> level" using assms(2) by (simp add: first_level_def)
  then show ?thesis using assms by (simp add: s2tt_init_assigned_dev_dev_def is_addr_lvl_aligned)
qed

lemma init_ns_eq:
  assumes "s2tt_ctx_ok hw s2_ctx" and "1 \<le> level" and "level \<le> 3" and "aligned_pa s2_ctx pa level"
  shows "s2tt_init_assigned_ns hw s2_ctx src pa level ap =
    init_loop 512 (\<lambda>pa. create_ns_block src hw s2_ctx pa level ap) pa (s2tte_map_size level)"
proof -
  have "first_level s2_ctx \<le> level" using assms(2) by (simp add: first_level_def)
  then show ?thesis
    using assms
    by (simp add: s2tt_init_assigned_ns_def is_addr_lvl_aligned create_ns_block_def ns_attr_mask_def)
qed

text \<open>A table whose first entry has another state is not recognised.\<close>

lemma is_block_first:
  assumes "s2tt_ctx_ok hw s2_ctx" and "1 \<le> level" and "level \<le> 3" and "length table = 512"
    and "s2tte_check hw s2_ctx (table ! 0) level s = Some False"
  shows "s2tt_is_block hw s2_ctx table level ap s = Some False"
  using assms
  by (cases "(hw, s2_ctx, table, level, ap, s)" rule: s2tt_is_block.cases)
    (auto simp: is_block_defs table_is_uniform_unassigned_block_def table_maps_block_def s2tte_read_def)

lemma uniform_replicate:
  assumes "is_x t" and "\<And>a. ap = Some a \<Longrightarrow> s2tte_get_ap s2_ctx a False = s2tte_get_ap s2_ctx t False"
  shows "table_is_uniform_unassigned_block s2_ctx (replicate 512 t) is_x ap = Some True"
proof -
  have "uniform_loop 511 1 s2_ctx (replicate 512 t) is_x (map_option (\<lambda>a. s2tte_get_ap s2_ctx a False) ap) = Some True"
    unfolding uniform_loop_iff using assms by auto
  then show ?thesis
    using assms by (auto simp: table_is_uniform_unassigned_block_def s2tte_read_def)
qed

definition unfolded ::
  "cached_idregs \<Rightarrow> 'g s2tt_context \<Rightarrow> u64 \<Rightarrow> u64 \<Rightarrow> int \<Rightarrow> u64 \<Rightarrow> s2_state \<Rightarrow> s2tt \<Rightarrow> bool" where
  "unfolded hw s2_ctx src pa level ap st table \<longleftrightarrow>
     s2tt_init_state hw s2_ctx src pa level ap st = Some table \<and> length table = 512 \<and>
     (\<forall>s. s2tte_check hw s2_ctx (table ! 0) level s = Some (s = st)) \<and>
     s2tt_is_block hw s2_ctx table level ap st = Some True"

lemma unfolded_unassigned:
  assumes "s2tt_ctx_ok hw s2_ctx" and "level \<le> 3" and "r \<noteq> RIPAS_DEV"
  shows "\<exists>table. unfolded hw s2_ctx src pa level ap (St_unassigned r) table"
proof -
  from created_entry [OF assms(1), of DEV_MEM_COHERENT 0 level "St_unassigned r" r ap] assms
  obtain t where t: "s2tte_create hw s2_ctx DEV_MEM_COHERENT 0 level ap (St_unassigned r) = Some t"
    and check: "\<And>s. s2tte_check hw s2_ctx t level s = Some (s = St_unassigned r)"
    and ap: "s2tte_get_ap s2_ctx t False = s2tte_get_ap s2_ctx ap False" by auto
  have "unfolded hw s2_ctx src pa level ap (St_unassigned r) (replicate 512 t)"
    using t check [of "St_unassigned r"] ap assms(3) check unfolding unfolded_def
    by (cases r) (auto simp: is_block_defs s2tt_init_unassigned_empty_def
        s2tt_init_unassigned_ram_def s2tt_init_unassigned_destroyed_def intro!: uniform_replicate)
  then show ?thesis ..
qed

lemma unfolded_unassigned_ns:
  assumes "s2tt_ctx_ok hw s2_ctx" and "level \<le> 3"
  shows "\<exists>table. unfolded hw s2_ctx src pa level ap St_unassigned_ns table"
proof -
  let ?t = "s2tte_create_unassigned_ns s2_ctx ap"
  have "state_bits s2_ctx ?t level St_unassigned_ns"
    by (simp add: state_bits_def s2tte_create_unassigned_ns_def bit_or_iff attr_bits hipas_bits)
  note check = state_bits_check [OF assms this]
  have "unfolded hw s2_ctx src pa level ap St_unassigned_ns (replicate 512 ?t)"
    using check check [of St_unassigned_ns] unfolding unfolded_def
    by (auto simp: is_block_defs s2tt_init_unassigned_ns_def intro!: uniform_replicate)
  then show ?thesis ..
qed

lemma check_created:
  assumes "s2tt_ctx_ok hw s2_ctx" and "s2_creatable s2_ctx coh pa level st" and "state_ripas st \<noteq> None"
    and "s2tte_create hw s2_ctx coh pa level ap st = Some t"
  shows "s2tte_check hw s2_ctx t level s = Some (s = st)"
proof -
  obtain r where "state_ripas st = Some r" using assms(3) by blast
  from created_entry [OF assms(1,2) this, of ap] assms(4) show ?thesis by auto
qed

lemma unfolded_assigned:
  assumes "s2tt_ctx_ok hw s2_ctx" and "1 \<le> level" and "level \<le> 3" and "r \<noteq> RIPAS_DEV"
    and pa: "aligned_pa s2_ctx pa (level - 1)"
  shows "\<exists>table. unfolded hw s2_ctx src pa level ap (St_assigned r) table"
proof -
  note al = aligned_pa_pred [OF assms(3) pa]
  have c: "s2_creatable s2_ctx DEV_MEM_COHERENT pa level (St_assigned r)" using assms al by simp
  note check = check_created [OF assms(1) c, simplified, where ap = ap]
  note init = init_assigned_eq [OF assms(1-3) al]
  show ?thesis
    using assms(4) check
      ram.init_maps_block [OF assms(1) TrueI assms(2,3) pa, of ap False]
      empt.init_maps_block [OF assms(1) TrueI assms(2,3) pa, of ap False]
      destr.init_maps_block [OF assms(1) TrueI assms(2,3) pa, of ap False]
    unfolding unfolded_def
    by (cases r) (fastforce simp: is_block_defs init_defs init)+
qed

lemma unfolded_assigned_dev:
  assumes "s2tt_ctx_ok hw s2_ctx" and "1 \<le> level" and "level \<le> 3" and "r \<noteq> RIPAS_RAM"
    and pa: "aligned_pa s2_ctx pa (level - 1)" and src: "r = RIPAS_DEV \<longrightarrow> dev_source s2_ctx src"
  shows "\<exists>table. unfolded hw s2_ctx src pa level ap (St_assigned_dev r) table"
proof -
  note al = aligned_pa_pred [OF assms(3) pa]
  note init = init_assigned_eq [OF assms(1-3) al] init_dev_dev_eq [OF assms(1-3) al]
  obtain coh where coh: "coh \<noteq> DEV_MEM_MAX" "r = RIPAS_DEV \<longrightarrow> src AND dev_attr_mask s2_ctx = coh_attr s2_ctx coh"
    using src unfolding dev_source_def by (metis dev_coh_type.distinct(3,5))
  have c: "s2_creatable s2_ctx coh pa level (St_assigned_dev r)" using assms al coh by simp
  note check = check_created [OF assms(1) c, simplified, where ap = ap]
  show ?thesis
  proof (cases r)
    case RIPAS_DEV
    then have "s2tte_create_assigned_dev_dev_from_pa hw s2_ctx pa src level ap =
        s2tte_create hw s2_ctx coh pa level ap (St_assigned_dev RIPAS_DEV)"
      using coh by (intro from_pa_eq [OF assms(1-3) al]) auto
    moreover obtain table where "init_loop 512 (\<lambda>pa. s2tte_create_assigned_dev_dev_from_pa hw s2_ctx pa src level ap)
          pa (s2tte_map_size level) = Some table" "length table = 512"
        "s2tte_create_assigned_dev_dev_from_pa hw s2_ctx pa src level ap = Some (table ! 0)"
        "table_maps_block hw s2_ctx table level s2tte_is_assigned_dev_dev True ap True = Some True"
      using dev_dev.init_maps_block [OF assms(1) _ assms(2,3) pa, of src ap True] src RIPAS_DEV by fastforce
    ultimately have "unfolded hw s2_ctx src pa level ap (St_assigned_dev r) table"
      using RIPAS_DEV check [of "table ! 0"] unfolding unfolded_def by (simp add: is_block_defs init)
    then show ?thesis ..
  qed (use assms(4) check
      dev_empt.init_maps_block [OF assms(1) TrueI assms(2,3) pa, of ap False]
      dev_destr.init_maps_block [OF assms(1) TrueI assms(2,3) pa, of ap False]
      in \<open>unfold unfolded_def; fastforce simp: is_block_defs init_defs init\<close>)+
qed

lemma unfolded_assigned_ns:
  assumes "s2tt_ctx_ok hw s2_ctx" and "1 \<le> level" and "level \<le> 3"
    and pa: "aligned_pa s2_ctx pa (level - 1)" and src: "ns_okc src s2_ctx level ap"
  shows "\<exists>table. unfolded hw s2_ctx src pa level ap St_assigned_ns table"
proof -
  note al = aligned_pa_pred [OF assms(3) pa]
  let ?t = "oa_field s2_ctx pa OR ns_fields s2_ctx src level"
  have "\<not> bit (oa_field s2_ctx pa) 1" using oa_field_bits [OF al, of 1] by auto
  then have "state_bits s2_ctx ?t level St_assigned_ns"
    using assms(2) by (simp add: state_bits_def leaf_type_def bit_or_iff bit_ns_fields bit_ns_attr_mask)
  note check = state_bits_check [OF assms(1,3) this]
  obtain table where "init_loop 512 (\<lambda>pa. create_ns_block src hw s2_ctx pa level ap) pa (s2tte_map_size level) = Some table"
      "length table = 512" "create_ns_block src hw s2_ctx pa level ap = Some (table ! 0)"
      "table_maps_block hw s2_ctx table level s2tte_is_assigned_ns True ap False = Some True"
    using ns.init_maps_block [OF assms(1) src assms(2,3) pa, of True] by fastforce
  moreover from this(3) have "table ! 0 = ?t"
    using create_ns_block_eq [OF assms(1-3) al src] by simp
  ultimately have "unfolded hw s2_ctx src pa level ap St_assigned_ns table"
    using check unfolding unfolded_def by (simp add: is_block_defs init_ns_eq [OF assms(1-3) al])
  then show ?thesis ..
qed

lemma unfolded_exists:
  assumes "s2tt_ctx_ok hw s2_ctx" and "1 \<le> level" and "level \<le> 3"
    and "s2_unfoldable s2_ctx src pa level ap st"
  shows "\<exists>table. unfolded hw s2_ctx src pa level ap st table"
  using assms
  by (cases st) (simp_all add: unfolded_unassigned unfolded_unassigned_ns unfolded_assigned
      unfolded_assigned_dev unfolded_assigned_ns)

text \<open>
  C14. Unfolding a block of any foldable state fills a table of 512 entries without a failed
  assertion, and the fold checks recognise that table as a block of exactly this state:
  the check of the state succeeds, the checks of all other states answer no.
\<close>

theorem unfold_then_fold:
  assumes "s2tt_ctx_ok hw s2_ctx" and "1 \<le> level" and "level \<le> 3"
    and "s2_unfoldable s2_ctx src pa level ap st"
  shows "\<exists>table. s2tt_init_state hw s2_ctx src pa level ap st = Some table \<and> length table = 512 \<and>
    (\<forall>s. s2tt_is_block hw s2_ctx table level ap s = Some (s = st))"
proof -
  obtain table where "unfolded hw s2_ctx src pa level ap st table"
    using unfolded_exists [OF assms] by blast
  then show ?thesis
    using is_block_first [OF assms(1-3)] unfolding unfolded_def by (metis (full_types))
qed

theorem unfold_then_fold_witness:
  "\<exists>table. s2tt_init_assigned_ram hw_plain ctx_48 (BIT 31) 3 0xC0 = Some table \<and>
    s2tt_maps_assigned_ram_block hw_plain ctx_48 table 3 0xC0 = Some True \<and>
    s2tt_maps_assigned_empty_block hw_plain ctx_48 table 3 0xC0 = Some False"
proof -
  obtain table where "s2tt_init_state hw_plain ctx_48 0 (BIT 31) 3 0xC0 (St_assigned RIPAS_RAM) = Some table"
      and blk: "\<And>s. s2tt_is_block hw_plain ctx_48 table 3 0xC0 s = Some (s = St_assigned RIPAS_RAM)"
    using unfold_then_fold [OF ctx_48_simps(1), of 3 0 "BIT 31" "0xC0" "St_assigned RIPAS_RAM"] aligned_2MB
    by auto
  then show ?thesis
    using blk [of "St_assigned RIPAS_RAM"] blk [of "St_assigned RIPAS_EMPTY"] by simp
qed

subsection \<open>What a recognised table maps\<close>

lemma uniform_block_iff:
  "table_is_uniform_unassigned_block s2_ctx table is_x ap = Some True \<longleftrightarrow>
     (\<forall>j < 512. j < length table \<and> is_x (table ! j) \<and>
        (\<forall>a. ap = Some a \<longrightarrow> s2tte_get_ap s2_ctx (table ! j) False = s2tte_get_ap s2_ctx a False))"
proof -
  let ?ap = "map_option (\<lambda>a. s2tte_get_ap s2_ctx a False) ap"
  have "table_is_uniform_unassigned_block s2_ctx table is_x ap = Some True \<longleftrightarrow>
      (0 < length table \<and> is_x (table ! 0) \<and>
        (\<forall>a. ap = Some a \<longrightarrow> s2tte_get_ap s2_ctx (table ! 0) False = s2tte_get_ap s2_ctx a False)) \<and>
      uniform_loop 511 1 s2_ctx table is_x ?ap = Some True"
    by (cases ap) (auto simp: table_is_uniform_unassigned_block_def s2tte_read_def Let_def)
  then show ?thesis
    unfolding uniform_loop_iff all_less_Suc_0 by auto
qed

text \<open>The entries of a table that a fold check accepts.\<close>

lemma is_block_entries:
  assumes "s2tt_ctx_ok hw s2_ctx" and "1 \<le> level" and "level \<le> 3"
    and "s2tt_is_block hw s2_ctx table level ap st = Some True"
  shows "(\<forall>j < 512. j < length table \<and> s2tte_check hw s2_ctx (table ! j) level st = Some True \<and>
      (if st \<in> {St_unassigned_ns, St_assigned_ns} then True
       else s2tte_get_ap s2_ctx (table ! j) (state_dev st) = s2tte_get_ap s2_ctx ap (state_dev st))) \<and>
    (if state_live st then \<exists>base. aligned_pa s2_ctx base (level - 1) \<and>
       (\<forall>j < 512. s2tte_pa hw s2_ctx (table ! j) level = Some (base + of_nat j * s2tte_map_size level))
     else True) \<and>
    (st \<in> {St_assigned_ns, St_assigned_dev RIPAS_DEV} \<longrightarrow>
       (\<forall>j < 512. table ! j AND s2tt_attr_mask s2_ctx = table ! 0 AND s2tt_attr_mask s2_ctx))"
  using assms(4)
  by (cases "(hw, s2_ctx, table, level, ap, st)" rule: s2tt_is_block.cases)
    (auto simp: is_block_defs uniform_block_iff table_maps_block_iff [OF assms(1-3)] maps_entry_def)

text \<open>
  C8. A table that a fold check accepts is uniform: all 512 entries are in the checked state
  and, except for Non-secure mappings, have the given permissions; if the state has an
  output address, the entries map consecutive blocks from a base that is aligned for the
  parent level, so the parent entry that replaces the table maps the same addresses.
\<close>

theorem fold_block_sound:
  assumes "s2tt_ctx_ok hw s2_ctx" and "1 \<le> level" and "level \<le> 3"
    and "s2tt_is_block hw s2_ctx table level ap st = Some True"
  shows "(\<forall>j < 512. j < length table \<and> s2tte_check hw s2_ctx (table ! j) level st = Some True \<and>
      (if st \<in> {St_unassigned_ns, St_assigned_ns} then True
       else s2tte_get_ap s2_ctx (table ! j) (state_dev st) = s2tte_get_ap s2_ctx ap (state_dev st))) \<and>
    (if state_live st then \<exists>base. aligned_pa s2_ctx base (level - 1) \<and>
       (\<forall>j < 512. s2tte_pa hw s2_ctx (table ! j) level = Some (base + of_nat j * s2tte_map_size level))
     else True)"
  using is_block_entries [OF assms] by simp

theorem fold_block_sound_witness:
  "\<exists>table. s2tt_maps_assigned_ram_block hw_plain ctx_48 table 3 0xC0 = Some True \<and>
    s2tte_is_assigned_ram hw_plain ctx_48 (table ! 7) 3 = Some True"
proof -
  obtain table where "unfolded hw_plain ctx_48 0 (BIT 31) 3 0xC0 (St_assigned RIPAS_RAM) table"
    using unfolded_exists [OF ctx_48_simps(1), of 3 0 "BIT 31" "0xC0" "St_assigned RIPAS_RAM"] aligned_2MB
    by auto
  then have "s2tt_is_block hw_plain ctx_48 table 3 0xC0 (St_assigned RIPAS_RAM) = Some True"
    by (simp add: unfolded_def)
  with fold_block_sound [OF ctx_48_simps(1) _ _ this] show ?thesis by auto
qed

subsection \<open>Scanning for live entries\<close>

text \<open>
  C16. The scan from the walk's entry fails no assertion when the walk lies inside the table. It
  returns the given address if that entry is live, and otherwise the address, rounded down
  to the entry, of the first later live entry or of the end of the table; everything it
  skips is not live.
\<close>

theorem skip_non_live_correct:
  assumes "s2tt_ctx_ok hw s2_ctx" and "first_level s2_ctx \<le> last_level wi" and "last_level wi \<le> 3"
    and "length table = 512" and "unat (index wi) < 512"
  shows "\<exists>r. s2tt_skip_non_live_entries hw s2_ctx addr table wi = Some r \<and>
    (if s2tte_is_live (table ! unat (index wi)) (last_level wi) then r = addr
     else \<exists>j. unat (index wi) < j \<and> j \<le> 512 \<and>
       r = round_down addr (s2tte_map_size (last_level wi)) +
           (of_nat j - index wi) * s2tte_map_size (last_level wi) \<and>
       (\<forall>n. unat (index wi) \<le> n \<and> n < j \<longrightarrow> \<not> s2tte_is_live (table ! n) (last_level wi)) \<and>
       (j < 512 \<longrightarrow> s2tte_is_live (table ! j) (last_level wi)))"
proof (cases "s2tte_is_live (table ! unat (index wi)) (last_level wi)")
  case True
  then show ?thesis
    using assms by (simp add: s2tt_skip_non_live_entries_def s2tte_read_def first_level_def)
next
  case False
  let ?i = "unat (index wi)"
  obtain j where j: "skip_loop (512 - (?i + 1)) (?i + 1) table (last_level wi) = Some j" "?i + 1 \<le> j"
      "j \<le> ?i + 1 + (512 - (?i + 1))"
      "\<And>n. ?i + 1 \<le> n \<Longrightarrow> n < j \<Longrightarrow> \<not> s2tte_is_live (table ! n) (last_level wi)"
      "j < ?i + 1 + (512 - (?i + 1)) \<Longrightarrow> s2tte_is_live (table ! j) (last_level wi)"
    using skip_loop_total [of "?i + 1" "512 - (?i + 1)" table "last_level wi"] assms by auto
  have "s2tt_skip_non_live_entries hw s2_ctx addr table wi =
      Some (round_down addr (s2tte_map_size (last_level wi)) + (of_nat j - index wi) * s2tte_map_size (last_level wi))"
    using assms False j(1)
    by (simp add: s2tt_skip_non_live_entries_def s2tte_read_def first_level_def round_down_def Let_def)
  moreover have "\<not> s2tte_is_live (table ! n) (last_level wi)" if "?i \<le> n" "n < j" for n
    using that False j(4) by (cases "n = ?i") auto
  ultimately show ?thesis
    using False j assms(5) by (auto intro!: exI [of _ j])
qed

definition scan_table :: s2tt where "scan_table = (replicate 512 0)[5 := 1]"

lemma scan_table_live: "n < 512 \<Longrightarrow> s2tte_is_live (scan_table ! n) level \<longleftrightarrow> n = 5"
  by (auto simp: scan_table_def s2tte_is_live_def has_pa_bits nth_list_update)

theorem skip_non_live_correct_witness:
  "s2tt_skip_non_live_entries hw_plain ctx_48 0x2345 scan_table
     \<lparr>g_llt = (), index = 2, last_level = 3\<rparr> = Some 0x5000"
proof -
  let ?wi = "\<lparr>g_llt = (), index = 2, last_level = 3\<rparr>"
  have size: "s2tte_map_size 3 = 4096" "round_down 0x2345 4096 = 0x2000"
    by (simp_all add: s2tte_map_size_def round_down_def)
  have len: "length scan_table = 512" by (simp add: scan_table_def)
  obtain r j where r: "s2tt_skip_non_live_entries hw_plain ctx_48 0x2345 scan_table ?wi = Some r"
      "r = of_nat j * 4096" and j: "2 < j" "j \<le> 512"
      "\<forall>n. 2 \<le> n \<and> n < j \<longrightarrow> \<not> s2tte_is_live (scan_table ! n) 3" "j < 512 \<longrightarrow> j = 5"
    using skip_non_live_correct [OF ctx_48_simps(1) _ _ len, of ?wi "0x2345"]
    by (auto simp: first_level_def scan_table_live size)
  have "\<not> 5 < j" using j(3) scan_table_live [of 5 3] by auto
  then have "j = 5" using j by (cases "j < 512") auto
  then show ?thesis using r by simp
qed

end
