(* ===== verification/S2tte_Ctors.thy ===== *)
theory S2tte_Ctors
  imports S2tt_Kinds S2tte_Marks
begin

text \<open>
  All constructors of stage 2 translation table entries under one statement: the ones that set a
  RIPAS, the two that keep the RIPAS of the entry they replace, the two for device memory, the one
  that maps Non-secure memory from a descriptor of the host, and the one for tables.
\<close>

subsection \<open>The constructors\<close>

datatype s2tte_ctor =
    Unassigned_empty | Unassigned_ram | Unassigned_destroyed | Unassigned_ns
  | Assigned_empty | Assigned_ram | Assigned_destroyed | Assigned_unchanged u64
  | Assigned_dev_empty | Assigned_dev_destroyed | Assigned_dev_unchanged u64
  | Assigned_dev_dev_from_pa u64 | Assigned_dev_dev_coh_type dev_coh_type
  | Assigned_ns u64
  | Table

fun construct :: "cached_idregs \<Rightarrow> 'g s2tt_context \<Rightarrow> u64 \<Rightarrow> int \<Rightarrow> u64 \<Rightarrow> s2tte_ctor \<Rightarrow> u64 option" where
  "construct hw s2_ctx pa level ap Unassigned_empty = Some (s2tte_create_unassigned_empty s2_ctx ap)"
| "construct hw s2_ctx pa level ap Unassigned_ram = Some (s2tte_create_unassigned_ram s2_ctx ap)"
| "construct hw s2_ctx pa level ap Unassigned_destroyed = Some (s2tte_create_unassigned_destroyed s2_ctx ap)"
| "construct hw s2_ctx pa level ap Unassigned_ns = Some (s2tte_create_unassigned_ns s2_ctx ap)"
| "construct hw s2_ctx pa level ap Assigned_empty = s2tte_create_assigned_empty hw s2_ctx pa level ap"
| "construct hw s2_ctx pa level ap Assigned_ram = s2tte_create_assigned_ram hw s2_ctx pa level ap"
| "construct hw s2_ctx pa level ap Assigned_destroyed = s2tte_create_assigned_destroyed hw s2_ctx pa level ap"
| "construct hw s2_ctx pa level ap (Assigned_unchanged old) = s2tte_create_assigned_unchanged hw s2_ctx old pa level"
| "construct hw s2_ctx pa level ap Assigned_dev_empty = s2tte_create_assigned_dev_empty hw s2_ctx pa level ap"
| "construct hw s2_ctx pa level ap Assigned_dev_destroyed = s2tte_create_assigned_dev_destroyed hw s2_ctx pa level ap"
| "construct hw s2_ctx pa level ap (Assigned_dev_unchanged old) = s2tte_create_assigned_dev_unchanged hw s2_ctx old pa level"
| "construct hw s2_ctx pa level ap (Assigned_dev_dev_from_pa source) =
     s2tte_create_assigned_dev_dev_from_pa hw s2_ctx pa source level ap"
| "construct hw s2_ctx pa level ap (Assigned_dev_dev_coh_type coh) =
     s2tte_create_assigned_dev_dev_coh_type hw s2_ctx pa level coh ap"
| "construct hw s2_ctx pa level ap (Assigned_ns host) = s2tte_create_assigned_ns hw s2_ctx host level ap"
| "construct hw s2_ctx pa level ap Table = s2tte_create_table hw s2_ctx pa level"

text \<open>The state a constructor is meant to build. The \<^verbatim>\<open>_unchanged\<close> ones take the RIPAS of the old entry.\<close>

fun built_state :: "s2tte_ctor \<Rightarrow> s2_state" where
  "built_state Unassigned_empty = St_unassigned RIPAS_EMPTY"
| "built_state Unassigned_ram = St_unassigned RIPAS_RAM"
| "built_state Unassigned_destroyed = St_unassigned RIPAS_DESTROYED"
| "built_state Unassigned_ns = St_unassigned_ns"
| "built_state Assigned_empty = St_assigned RIPAS_EMPTY"
| "built_state Assigned_ram = St_assigned RIPAS_RAM"
| "built_state Assigned_destroyed = St_assigned RIPAS_DESTROYED"
| "built_state (Assigned_unchanged old) = St_assigned (the (s2tte_get_ripas old))"
| "built_state Assigned_dev_empty = St_assigned_dev RIPAS_EMPTY"
| "built_state Assigned_dev_destroyed = St_assigned_dev RIPAS_DESTROYED"
| "built_state (Assigned_dev_unchanged old) = St_assigned_dev (the (s2tte_get_ripas old))"
| "built_state (Assigned_dev_dev_from_pa source) = St_assigned_dev RIPAS_DEV"
| "built_state (Assigned_dev_dev_coh_type coh) = St_assigned_dev RIPAS_DEV"
| "built_state (Assigned_ns host) = St_assigned_ns"
| "built_state Table = St_table"

text \<open>
  The preconditions: a level at which the entry may stand and an address aligned to it; for the
  \<^verbatim>\<open>_unchanged\<close> ones an old entry that is not mapped and has a RIPAS; for the copy of a device entry
  a source with the attributes of a coherency type; for Non-secure memory a descriptor that
  \<^verbatim>\<open>host_ns_s2tte_is_valid\<close> accepts. That check admits the base permission index \<^verbatim>\<open>RW_upX\<close>, which
  the constructor asserts away and \<^verbatim>\<open>build_unprot_map_attrs\<close> refuses before either is called.
\<close>

fun ctor_ok :: "cached_idregs \<Rightarrow> 'g s2tt_context \<Rightarrow> u64 \<Rightarrow> int \<Rightarrow> s2tte_ctor \<Rightarrow> bool" where
  "ctor_ok hw s2_ctx pa level Unassigned_empty \<longleftrightarrow> level \<le> 3"
| "ctor_ok hw s2_ctx pa level Unassigned_ram \<longleftrightarrow> level \<le> 3"
| "ctor_ok hw s2_ctx pa level Unassigned_destroyed \<longleftrightarrow> level \<le> 3"
| "ctor_ok hw s2_ctx pa level Unassigned_ns \<longleftrightarrow> level \<le> 3"
| "ctor_ok hw s2_ctx pa level (Assigned_ns host) \<longleftrightarrow>
     1 \<le> level \<and> level \<le> 3 \<and> host_ns_s2tte_is_valid hw s2_ctx host level = Some True \<and>
     (indirect_s2ap s2_ctx \<longrightarrow> s2tte_get_pi_index host \<le> S2AP_IND_BASE_PERM_IDX_RW)"
| "ctor_ok hw s2_ctx pa level Table \<longleftrightarrow> first_level s2_ctx \<le> level \<and> level < 3 \<and> aligned_pa s2_ctx pa 3"
| "ctor_ok hw s2_ctx pa level c \<longleftrightarrow> 1 \<le> level \<and> level \<le> 3 \<and> aligned_pa s2_ctx pa level \<and>
     (case c of
        Assigned_unchanged old \<Rightarrow> (old AND S2TT_DESC_VALID_MASK) = S2TTE_INVALID \<and> s2tte_get_ripas old \<noteq> None
      | Assigned_dev_unchanged old \<Rightarrow> (old AND S2TT_DESC_VALID_MASK) = S2TTE_INVALID \<and>
          s2tte_get_ripas old \<in> {Some RIPAS_EMPTY, Some RIPAS_DESTROYED}
      | Assigned_dev_dev_from_pa source \<Rightarrow> dev_source s2_ctx source
      | Assigned_dev_dev_coh_type coh \<Rightarrow> coh \<noteq> DEV_MEM_MAX
      | _ \<Rightarrow> True)"

text \<open>Where the permissions of the new entry come from.\<close>

fun ctor_ap :: "u64 \<Rightarrow> s2tte_ctor \<Rightarrow> u64" where
  "ctor_ap ap (Assigned_unchanged old) = old"
| "ctor_ap ap (Assigned_dev_unchanged old) = old"
| "ctor_ap ap c = ap"

subsection \<open>Constructors of entries with a RIPAS\<close>

lemma unchanged_eq:
  assumes "s2tt_ctx_ok hw s2_ctx" and "1 \<le> level" and "level \<le> 3" and "aligned_pa s2_ctx pa level"
    and "\<not> bit old 0" and "s2tte_get_ripas old = Some r"
  shows "r \<noteq> RIPAS_DEV"
    and "s2tte_create_assigned_unchanged hw s2_ctx old pa level = s2tte_create hw s2_ctx coh pa level old (St_assigned r)"
    and "r \<noteq> RIPAS_RAM \<Longrightarrow>
      s2tte_create_assigned_dev_unchanged hw s2_ctx old pa level = s2tte_create hw s2_ctx coh pa level old (St_assigned_dev r)"
proof -
  have r: "r = RIPAS_EMPTY \<and> old AND S2TTE_INVALID_RIPAS_MASK = S2TTE_INVALID_RIPAS_EMPTY \<or>
      r = RIPAS_RAM \<and> old AND S2TTE_INVALID_RIPAS_MASK = S2TTE_INVALID_RIPAS_RAM \<or>
      r = RIPAS_DESTROYED \<and> old AND S2TTE_INVALID_RIPAS_MASK = S2TTE_INVALID_RIPAS_DESTROYED"
    using assms(5,6) by (auto simp: get_ripas_bits ripas_mask_bits split: if_splits)
  then show "r \<noteq> RIPAS_DEV" by auto
  note eqs = create_eqs [OF assms(1-4)] create_assigned_eq [OF assms(1-4)] create_assigned_dev_eq [OF assms(1-4)]
  show "s2tte_create_assigned_unchanged hw s2_ctx old pa level = s2tte_create hw s2_ctx coh pa level old (St_assigned r)"
    using r assms(5)
    by (elim disjE conjE)
      (simp_all add: s2tte_create_assigned_unchanged_def valid_bit eqs built_tte_def or.assoc or.commute or.left_commute)
  show "s2tte_create_assigned_dev_unchanged hw s2_ctx old pa level =
      s2tte_create hw s2_ctx coh pa level old (St_assigned_dev r)" if "r \<noteq> RIPAS_RAM"
    using r assms(5) that
    by (elim disjE conjE)
      (simp_all add: s2tte_create_assigned_dev_unchanged_def valid_bit eqs built_tte_def or.assoc or.commute or.left_commute)
qed

text \<open>Each of them builds an entry for a state, from some coherency type.\<close>

lemma construct_ripas:
  assumes "s2tt_ctx_ok hw s2_ctx" and "ctor_ok hw s2_ctx pa level c" and "state_ripas (built_state c) = Some r"
  shows "\<exists>coh. s2_creatable s2_ctx coh pa level (built_state c) \<and>
    construct hw s2_ctx pa level ap c = s2tte_create hw s2_ctx coh pa level (ctor_ap ap c) (built_state c)"
proof (cases c)
  case (Assigned_unchanged old)
  then have l: "1 \<le> level" "level \<le> 3" "aligned_pa s2_ctx pa level" "\<not> bit old 0" and
    r: "s2tte_get_ripas old = Some r"
    using assms(2,3) by (auto simp: valid_bit)
  from unchanged_eq(1) [OF assms(1) l r] unchanged_eq(2) [OF assms(1) l r, where coh = DEV_MEM_COHERENT]
  show ?thesis using Assigned_unchanged l r by (intro exI [of _ DEV_MEM_COHERENT]) simp
next
  case (Assigned_dev_unchanged old)
  then have l: "1 \<le> level" "level \<le> 3" "aligned_pa s2_ctx pa level" "\<not> bit old 0" and
    r: "s2tte_get_ripas old = Some r" "r \<noteq> RIPAS_RAM"
    using assms(2,3) by (auto simp: valid_bit)
  from unchanged_eq(3) [OF assms(1) l r, where coh = DEV_MEM_COHERENT] show ?thesis
    using Assigned_dev_unchanged l r by (intro exI [of _ DEV_MEM_COHERENT]) simp
next
  case (Assigned_dev_dev_from_pa source)
  then have l: "1 \<le> level" "level \<le> 3" "aligned_pa s2_ctx pa level" and "dev_source s2_ctx source"
    using assms(2) by simp_all
  then obtain coh where "coh \<noteq> DEV_MEM_MAX" "source AND dev_attr_mask s2_ctx = coh_attr s2_ctx coh"
    unfolding dev_source_def by blast
  with from_pa_eq [OF assms(1) l this] show ?thesis
    using Assigned_dev_dev_from_pa l by (intro exI [of _ coh]) simp
next
  case (Assigned_dev_dev_coh_type coh)
  then show ?thesis using assms by (intro exI [of _ coh]) simp
qed (use assms in \<open>auto intro: exI [of _ DEV_MEM_COHERENT]\<close>)

lemma state_bits_has_ripas:
  "state_bits s2_ctx t level st \<Longrightarrow> s2tte_has_ripas t level \<longleftrightarrow> state_ripas st \<noteq> None"
  using leaf_type_def [of t level]
  by (auto simp: state_bits_def s2tte_has_ripas_def ns_bit is_table_bits split: s2_state.splits if_splits)

lemma created_has_ripas:
  assumes "s2tt_ctx_ok hw s2_ctx" and "s2_creatable s2_ctx coh pa level st" and "state_ripas st = Some r"
    and "s2tte_create hw s2_ctx coh pa level ap st = Some t"
  shows "s2tte_has_ripas t level"
proof -
  let ?pa = "if state_live st then pa else 0"
  have al: "aligned_pa s2_ctx ?pa level" using assms(2,3) by (cases st) simp_all
  have "t = built_tte s2_ctx ?pa ap (state_dev st) (state_template s2_ctx coh level st)"
    using create_eq_built [OF assms(1,2)] assms(3,4) by simp
  then have "state_bits s2_ctx t level st"
    using state_template_state [OF assms(2)] assms(3) by (simp only: state_bits_built [OF al]) simp
  from state_bits_has_ripas [OF this] assms(3) show ?thesis by simp
qed

subsection \<open>Entries for Non-secure memory\<close>

text \<open>The bits a descriptor of the host may set, and those that the constructor adds.\<close>

definition host_bit :: "'g s2tt_context \<Rightarrow> int \<Rightarrow> nat \<Rightarrow> bool" where
  "host_bit s2_ctx level n \<longleftrightarrow> lvl_lsb level \<le> n \<and> n < 48 \<or> ctx_lpa2 s2_ctx \<and> n \<in> {8, 9, 48, 49} \<or>
     bit (ns_attr_mask s2_ctx) n"

definition ns_added_bit :: "'g s2tt_context \<Rightarrow> int \<Rightarrow> nat \<Rightarrow> bool" where
  "ns_added_bit s2_ctx level n \<longleftrightarrow> \<not> ctx_lpa2 s2_ctx \<and> n \<in> {8, 9} \<or>
     (if indirect_s2ap s2_ctx then n = 7 \<or> 59 \<le> n \<and> n < 63 else n = 54) \<or>
     n \<in> {0, 10, 55} \<or> n = 1 \<and> level = 3"

lemma host_bit_not_added: "host_bit s2_ctx level n \<Longrightarrow> \<not> ns_added_bit s2_ctx level n"
  using lvl_lsb_ge [of level] by (auto simp: host_bit_def ns_added_bit_def bit_ns_attr_mask split: if_splits)

lemma host_mask:
  assumes "s2tt_ctx_ok hw s2_ctx" and "1 \<le> level" and "level \<le> 3"
  obtains m where "\<And>n. bit m n \<longleftrightarrow> host_bit s2_ctx level n"
    "host_ns_s2tte hw s2_ctx t level = Some (t AND m)"
    "host_ns_s2tte_is_valid hw s2_ctx t level = Some True \<Longrightarrow> (t AND NOT m) = 0"
proof -
  let ?b = "BIT_MASK_ULL 47 (lvl_lsb level)"
  let ?l = "if ctx_lpa2 s2_ctx then ?b OR (MASK LPA2_S2TTE_51_50 OR MASK LPA2_OA_49_48) else ?b"
  let ?m = "?l OR ns_attr_mask s2_ctx"
  have l: "s2tte_lvl_mask level (ctx_lpa2 s2_ctx) = Some ?l"
    using assms by (simp add: s2tte_lvl_mask_def lvl_lsb_def)
  have "bit ?m n \<longleftrightarrow> host_bit s2_ctx level n" for n
    by (auto simp: host_bit_def bit_or_iff bit_BIT_MASK_ULL bit_MASK)
  moreover have "host_ns_s2tte hw s2_ctx t level = Some (t AND ?m)"
    using assms by (simp add: host_ns_s2tte_def l ns_attr_mask_def or.assoc)
  moreover have "(t AND NOT ?m) = 0" if "host_ns_s2tte_is_valid hw s2_ctx t level = Some True"
    using assms that by (auto simp: host_ns_s2tte_is_valid_def l ns_attr_mask_def or.assoc Let_def split: if_splits)
  ultimately show thesis by (rule that)
qed

lemma create_ns_bits:
  assumes "s2tt_ctx_ok hw s2_ctx" and "1 \<le> level" and "level \<le> 3"
    and "indirect_s2ap s2_ctx \<longrightarrow> s2tte_get_pi_index host \<le> S2AP_IND_BASE_PERM_IDX_RW"
    and host: "\<And>n. bit host n \<Longrightarrow> host_bit s2_ctx level n"
  obtains t where "s2tte_create_assigned_ns hw s2_ctx host level ap = Some t"
    "\<And>n. bit t n \<longleftrightarrow> bit host n \<or> ns_added_bit s2_ctx level n"
proof -
  have o: "\<not> bit host n" if "n \<in> {0, 1} \<or> 59 \<le> n \<or> \<not> indirect_s2ap s2_ctx \<and> n \<in> {53, 54}" for n
    using host [of n] that lvl_lsb_ge [of level] by (auto simp: host_bit_def bit_ns_attr_mask split: if_splits)
  define n1 where "n1 = (if \<not> ctx_lpa2 s2_ctx then (host AND NOT S2TT_DESC_TYPE_MASK) OR S2TTE_SH_IS
     else host AND NOT S2TT_DESC_TYPE_MASK)"
  have n1: "bit n1 n \<longleftrightarrow> bit host n \<or> \<not> ctx_lpa2 s2_ctx \<and> n \<in> {8, 9}" for n
    using o [of n] o [of 0]
    by (cases "n = 0") (auto simp: n1_def bit_or_iff bit_and_iff bit_not_iff desc_bits attr_bits dest: bit_imp_le_length)
  define n2 where "n2 = (if indirect_s2ap s2_ctx then s2tte_set_po_index (n1 OR S2TTE_DIRTY_BIT) 15
     else (n1 AND NOT (MASK S2TTE_PERM_XN)) OR S2TTE_PERM_XNU_XNP)"
  let ?t = "if level = 3 then n2 OR S2TTE_PAGE_NS else n2 OR S2TTE_BLOCK_NS"
  have "s2tte_create_assigned_ns hw s2_ctx host level ap = Some ?t"
    using assms(1-4) by (simp add: s2tte_create_assigned_ns_def n1_def n2_def Let_def)
  moreover have "bit n2 n \<longleftrightarrow> bit host n \<or> \<not> ctx_lpa2 s2_ctx \<and> n \<in> {8, 9} \<or>
      (if indirect_s2ap s2_ctx then n = 7 \<or> 59 \<le> n \<and> n < 63 else n = 54)" for n
  proof (cases "indirect_s2ap s2_ctx")
    case True
    have "unat (15 :: u64) < 16" by simp
    note po = bit_set_po_index [OF this]
    have "bit n2 n \<longleftrightarrow> 59 \<le> n \<and> n < 63 \<or> bit n1 n \<or> n = 7"
      using True by (cases "59 \<le> n \<and> n < 63") (auto simp: n2_def po bit_15 bit_or_iff ap_bits simp del: bit_numeral_word_iff)
    then show ?thesis using True o [of n] unfolding n1 by auto
  next
    case False
    then have "bit n2 n \<longleftrightarrow> bit n1 n \<and> n \<notin> {53, 54} \<or> n = 54"
      by (auto simp: n2_def bit_or_iff bit_and_iff bit_not_iff bit_MASK ap_bits dest: bit_imp_le_length)
    then show ?thesis using False o [of n] unfolding n1 by auto
  qed
  then have "bit ?t n \<longleftrightarrow> bit host n \<or> ns_added_bit s2_ctx level n" for n
    by (auto simp: bit_or_iff ns_added_bit_def template_bits)
  ultimately show thesis by (rule that)
qed

lemma to_pa_cong:
  assumes "s2tt_ctx_ok hw s2_ctx" and "- 1 \<le> level" and "level \<le> 3"
    and same: "\<And>n. lvl_lsb level \<le> n \<and> n < 48 \<or> ctx_lpa2 s2_ctx \<and> n \<in> {8, 9, 48, 49} \<Longrightarrow> bit t n = bit t' n"
  shows "\<exists>p. s2tte_to_pa hw s2_ctx t level = Some p \<and> s2tte_to_pa hw s2_ctx t' level = Some p"
proof -
  obtain p where p: "s2tte_to_pa hw s2_ctx t level = Some p"
    "\<And>n. bit p n \<longleftrightarrow> lvl_lsb level \<le> n \<and> n < 48 \<and> bit t n \<or>
       ctx_lpa2 s2_ctx \<and> (n \<in> {48, 49} \<and> bit t n \<or> n \<in> {50, 51} \<and> bit t (n - 42))"
    using bit_to_pa [OF assms(1-3), of t] by metis
  obtain q where q: "s2tte_to_pa hw s2_ctx t' level = Some q"
    "\<And>n. bit q n \<longleftrightarrow> lvl_lsb level \<le> n \<and> n < 48 \<and> bit t' n \<or>
       ctx_lpa2 s2_ctx \<and> (n \<in> {48, 49} \<and> bit t' n \<or> n \<in> {50, 51} \<and> bit t' (n - 42))"
    using bit_to_pa [OF assms(1-3), of t'] by metis
  have "bit p n = bit q n" for n
    using same [of n] same [of "n - 42"] unfolding p(2) q(2) by fastforce
  then have "p = q" by (intro bit_word_eqI) simp
  with p(1) q(1) show ?thesis by simp
qed

lemma created_ns:
  assumes "s2tt_ctx_ok hw s2_ctx" and "1 \<le> level" and "level \<le> 3"
    and "host_ns_s2tte_is_valid hw s2_ctx host level = Some True"
    and pii: "indirect_s2ap s2_ctx \<longrightarrow> s2tte_get_pi_index host \<le> S2AP_IND_BASE_PERM_IDX_RW"
  shows "\<exists>t p. s2tte_create_assigned_ns hw s2_ctx host level ap = Some t \<and>
    state_bits s2_ctx t level St_assigned_ns \<and> host_ns_s2tte hw s2_ctx t level = Some host \<and>
    s2tte_pa hw s2_ctx t level = Some p \<and> s2tte_to_pa hw s2_ctx host level = Some p"
proof -
  obtain m where m: "\<And>n. bit m n \<longleftrightarrow> host_bit s2_ctx level n" and "(host AND NOT m) = 0"
    using host_mask [OF assms(1-3), of host] assms(4) by metis
  then have host: "host_bit s2_ctx level n" if "bit host n" for n
    using that bit_imp_le_length [OF that] by (auto simp: and_0_iff bit_not_iff m)
  obtain t where t: "s2tte_create_assigned_ns hw s2_ctx host level ap = Some t"
    "\<And>n. bit t n \<longleftrightarrow> bit host n \<or> ns_added_bit s2_ctx level n"
    using create_ns_bits [OF assms(1-3) pii host, of ap] by metis
  have b: "bit t 0" "bit t 55" "bit t (Suc 0) \<longleftrightarrow> level = 3"
    using host [of 1] lvl_lsb_ge [of level]
    by (auto simp: t(2) ns_added_bit_def host_bit_def bit_ns_attr_mask split: if_splits)
  then have st: "state_bits s2_ctx t level St_assigned_ns"
    using assms(2,3) by (simp add: state_bits_def leaf_type_def)
  obtain m' where "\<And>n. bit m' n \<longleftrightarrow> host_bit s2_ctx level n" "host_ns_s2tte hw s2_ctx t level = Some (t AND m')"
    using host_mask [OF assms(1-3), of t] by metis
  moreover from this(1) have "t AND m' = host"
    using host host_bit_not_added [of s2_ctx level] by (intro bit_word_eqI) (auto simp: bit_and_iff t(2))
  ultimately have h: "host_ns_s2tte hw s2_ctx t level = Some host" by simp
  have same: "bit t n = bit host n" if "lvl_lsb level \<le> n \<and> n < 48 \<or> ctx_lpa2 s2_ctx \<and> n \<in> {8, 9, 48, 49}" for n
    using host_bit_not_added [of s2_ctx level n] that by (auto simp: t(2) host_bit_def)
  obtain p where "s2tte_to_pa hw s2_ctx t level = Some p" "s2tte_to_pa hw s2_ctx host level = Some p"
    using to_pa_cong [OF assms(1) _ assms(3) same] assms(2) by fastforce
  then show ?thesis
    using t(1) st h b assms(1-3) by (auto simp: s2tte_pa_def has_pa_bits is_table_bits)
qed

subsection \<open>What the constructors build\<close>

text \<open>
  C15. Every entry constructor, applied within its preconditions, runs without a failed assertion
  and builds an entry that exactly the classifier of its state accepts: all the others, including
  those that carry assertions, answer no. The entry is live exactly when its state holds an
  address, and it has a RIPAS exactly when its state does; then the RIPAS read back is that of the
  state, which for the \<^verbatim>\<open>_unchanged\<close> constructors is that of the old entry, and the access
  permissions are the ones given, or those of the old entry, normalised for the kind of memory. A
  live entry leads back to the address it was built for. An entry for Non-secure memory leads to
  the address in the descriptor of the host, and the descriptor is read back from it unchanged.
\<close>

theorem create_classified:
  assumes "s2tt_ctx_ok hw s2_ctx" and "ctor_ok hw s2_ctx pa level c"
  shows "\<exists>t. construct hw s2_ctx pa level ap c = Some t \<and>
    (\<forall>s. s2tte_check hw s2_ctx t level s = Some (s = built_state c)) \<and>
    s2tte_is_live t level = state_live (built_state c) \<and>
    s2tte_has_ripas t level = (state_ripas (built_state c) \<noteq> None) \<and>
    (case state_ripas (built_state c) of None \<Rightarrow> True
     | Some r \<Rightarrow> s2tte_get_ripas t = Some r \<and>
        s2tte_get_ap s2_ctx t (state_dev (built_state c)) = s2tte_get_ap s2_ctx (ctor_ap ap c) (state_dev (built_state c))) \<and>
    (case c of
       Assigned_ns host \<Rightarrow> host_ns_s2tte hw s2_ctx t level = Some host \<and>
         (\<exists>p. s2tte_pa hw s2_ctx t level = Some p \<and> s2tte_to_pa hw s2_ctx host level = Some p)
     | _ \<Rightarrow> if state_live (built_state c) then s2tte_pa hw s2_ctx t level = Some pa else True)"
proof (cases "state_ripas (built_state c)")
  case (Some r)
  from construct_ripas [OF assms Some] obtain coh where
    c: "s2_creatable s2_ctx coh pa level (built_state c)" and
    eq: "construct hw s2_ctx pa level ap c = s2tte_create hw s2_ctx coh pa level (ctor_ap ap c) (built_state c)" by blast
  from created_entry [OF assms(1) c Some, of "ctor_ap ap c"] obtain t where
    "s2tte_create hw s2_ctx coh pa level (ctor_ap ap c) (built_state c) = Some t"
    "\<forall>s. s2tte_check hw s2_ctx t level s = Some (s = built_state c)" "s2tte_get_ripas t = Some r"
    "s2tte_get_ap s2_ctx t (state_dev (built_state c)) = s2tte_get_ap s2_ctx (ctor_ap ap c) (state_dev (built_state c))"
    "s2tte_is_live t level = state_live (built_state c)"
    "if state_live (built_state c) then s2tte_pa hw s2_ctx t level = Some pa else True" by blast
  with created_has_ripas [OF assms(1) c Some this(1)] Some show ?thesis
    unfolding eq by (intro exI [of _ t] conjI) (simp_all split: s2tte_ctor.split, auto)
next
  case None
  then consider "c = Unassigned_ns" | host where "c = Assigned_ns host" | "c = Table" by (cases c) auto
  then show ?thesis
  proof cases
    case 1
    then have "level \<le> 3" "state_bits s2_ctx (s2tte_create_unassigned_ns s2_ctx ap) level St_unassigned_ns"
      using assms(2) by (auto simp: s2tte_create_unassigned_ns_def state_bits_def bit_or_iff attr_bits hipas_bits)
    with 1 show ?thesis
      using state_bits_check [OF assms(1)] state_bits_live state_bits_has_ripas by fastforce
  next
    case 2
    then have "1 \<le> level" "level \<le> 3" "host_ns_s2tte_is_valid hw s2_ctx host level = Some True"
      "indirect_s2ap s2_ctx \<longrightarrow> s2tte_get_pi_index host \<le> S2AP_IND_BASE_PERM_IDX_RW"
      using assms(2) by simp_all
    with created_ns [OF assms(1) this, of ap] 2 show ?thesis
      using state_bits_check [OF assms(1) \<open>level \<le> 3\<close>] state_bits_live state_bits_has_ripas by fastforce
  next
    case 3
    then have "s2_creatable s2_ctx DEV_MEM_COHERENT pa level St_table" using assms(2) by simp
    from created_table [OF assms(1) this] 3 show ?thesis by auto
  qed
qed

theorem create_classified_witness:
  "\<exists>t u. construct hw_plain ctx_48 (BIT 31) 2 0 (Assigned_unchanged 0xC2) = Some t \<and>
    s2tte_is_assigned_ram hw_plain ctx_48 t 2 = Some True \<and> s2tte_is_assigned_ns hw_plain ctx_48 t 2 = Some False \<and>
    s2tte_get_ripas t = Some RIPAS_RAM \<and> s2tte_pa hw_plain ctx_48 t 2 = Some (BIT 31) \<and>
    construct hw_plain ctx_48 0 2 0 (Assigned_ns 0x800000D8) = Some u \<and>
    s2tte_is_assigned_ns hw_plain ctx_48 u 2 = Some True \<and> s2tte_is_table u 2 = False \<and>
    \<not> s2tte_has_ripas u 2 \<and> host_ns_s2tte hw_plain ctx_48 u 2 = Some 0x800000D8"
proof -
  have ripas: "s2tte_get_ripas 0xC2 = Some RIPAS_RAM" by (simp add: get_ripas_bits)
  then have "ctor_ok hw_plain ctx_48 (BIT 31) 2 (Assigned_unchanged 0xC2)"
    by (simp add: aligned_2MB valid_bit)
  from create_classified [OF ctx_48_simps(1) this, of 0] ripas obtain t where
    t: "construct hw_plain ctx_48 (BIT 31) 2 0 (Assigned_unchanged 0xC2) = Some t" "s2tte_get_ripas t = Some RIPAS_RAM"
      "s2tte_pa hw_plain ctx_48 t 2 = Some (BIT 31)"
    and tc: "\<And>s. s2tte_check hw_plain ctx_48 t 2 s = Some (s = St_assigned RIPAS_RAM)" by auto
  have "host_ns_s2tte_is_valid hw_plain ctx_48 0x800000D8 2 = Some True"
    by (simp add: host_ns_s2tte_is_valid_def s2tte_lvl_mask_def)
      (simp add: ctx_48_def BIT_MASK_ULL_def S2TTE_NS_ATTR_MASK_def S2TTE_RW_AP_MASK_def S2TTE_MEMATTR_MASK_def
        S2TTE_MEMATTR_FWB_RESERVED_def MASK_def mask_eq_exp_minus_1)
  then have "ctor_ok hw_plain ctx_48 0 2 (Assigned_ns 0x800000D8)" by (simp add: ctx_48_def)
  from create_classified [OF ctx_48_simps(1) this, of 0] obtain u where
    u: "construct hw_plain ctx_48 0 2 0 (Assigned_ns 0x800000D8) = Some u" "\<not> s2tte_has_ripas u 2"
      "host_ns_s2tte hw_plain ctx_48 u 2 = Some 0x800000D8"
    and uc: "\<And>s. s2tte_check hw_plain ctx_48 u 2 s = Some (s = St_assigned_ns)" by auto
  show ?thesis
    using t u tc [of "St_assigned RIPAS_RAM"] tc [of St_assigned_ns] uc [of St_assigned_ns] uc [of St_table] by auto
qed

end
