(* ===== verification/S2tt_Tlbi.thy ===== *)
theory S2tt_Tlbi
  imports S2tt_Defs
begin

text \<open>
  Stage 2 TLB invalidation by IPA range: \<^verbatim>\<open>calc_s2_tlbi_range\<close> of \<^verbatim>\<open>s2tt_pvt_defs.h\<close> and the
  invalidation functions of \<^verbatim>\<open>src/lib/s2tt/src/s2tt.c\<close>. The instructions issued are recorded
  as a trace; the architecture's reading of their operands gives the granules they cover.
\<close>

subsection \<open>Choosing a range\<close>

abbreviation (input) S2_TLBI_RANGE_TG :: regfield where "S2_TLBI_RANGE_TG \<equiv> (46, 2)"
abbreviation (input) S2_TLBI_RANGE_SCALE :: regfield where "S2_TLBI_RANGE_SCALE \<equiv> (44, 2)"
abbreviation (input) S2_TLBI_RANGE_NUM :: regfield where "S2_TLBI_RANGE_NUM \<equiv> (39, 5)"
abbreviation (input) S2_TLBI_RANGE_BASE_ADDR :: regfield where "S2_TLBI_RANGE_BASE_ADDR \<equiv> (0, 37)"
abbreviation (input) S2_TLBI_RANGE_TG_4K :: u64 where "S2_TLBI_RANGE_TG_4K \<equiv> 1"
abbreviation (input) S2_TLBI_RANGE_SCALE_MAX :: nat where "S2_TLBI_RANGE_SCALE_MAX \<equiv> 3"
abbreviation (input) S2_TLBI_RANGE_SCALE_MULT :: nat where "S2_TLBI_RANGE_SCALE_MULT \<equiv> 5"
abbreviation (input) S2_TLBI_RANGE_SCALE_BIAS :: nat where "S2_TLBI_RANGE_SCALE_BIAS \<equiv> 1"
abbreviation (input) S2_TLBI_RANGE_NUM_MAX :: u64 where "S2_TLBI_RANGE_NUM_MAX \<equiv> 32"
abbreviation (input) S2_TLBI_RANGE_BASE_SHIFT_LPA2 :: nat where "S2_TLBI_RANGE_BASE_SHIFT_LPA2 \<equiv> 16"

definition S2_TLBI_RANGE_BASE_ALIGN_LPA2 :: u64 where
  "S2_TLBI_RANGE_BASE_ALIGN_LPA2 = 2 ^ S2_TLBI_RANGE_BASE_SHIFT_LPA2"

text \<open>
  The search for the best range: one round of the loop at a scale, keeping the covered
  granules, the scale and the number of the best range so far, and the rounds downwards
  from a scale with the early exit when the best range covers everything.
\<close>

definition calc_step :: "nat \<Rightarrow> u64 \<Rightarrow> u64 \<times> nat \<times> u64 \<Rightarrow> u64 \<times> nat \<times> u64" where
  "calc_step scale num_grans best = (
     let shift = S2_TLBI_RANGE_SCALE_MULT * scale + S2_TLBI_RANGE_SCALE_BIAS;
         num = min (drop_bit shift num_grans) S2_TLBI_RANGE_NUM_MAX;
         covered = push_bit shift num
     in if covered > fst best then (covered, scale, num) else best)"

primrec calc_loop :: "nat \<Rightarrow> u64 \<Rightarrow> u64 \<times> nat \<times> u64 \<Rightarrow> u64 \<times> nat \<times> u64" where
  "calc_loop 0 num_grans best = calc_step 0 num_grans best"
| "calc_loop (Suc scale) num_grans best = (
     let best' = calc_step (Suc scale) num_grans best in
     if fst best' > fst best \<and> fst best' = num_grans then best'
     else calc_loop scale num_grans best')"

definition calc_s2_tlbi_range :: "u64 \<Rightarrow> (u64 \<times> nat \<times> u64) option" where
  "calc_s2_tlbi_range num_grans = do {
     c_assert (num_grans \<noteq> 0);
     Some (calc_loop S2_TLBI_RANGE_SCALE_MAX num_grans (0, 0, 0))
   }"

definition make_s2_tlbi_range_operand :: "u64 \<Rightarrow> bool \<Rightarrow> nat \<Rightarrow> u64 \<Rightarrow> u64 option" where
  "make_s2_tlbi_range_operand ipa enable_lpa2 scale num = do {
     let base_shift = (if enable_lpa2 then S2_TLBI_RANGE_BASE_SHIFT_LPA2 else GRANULE_SHIFT);
     c_assert (scale \<le> S2_TLBI_RANGE_SCALE_MAX);
     c_assert (num \<noteq> 0 \<and> num \<le> S2_TLBI_RANGE_NUM_MAX);
     c_assert (\<not> enable_lpa2 \<or> ALIGNED ipa S2_TLBI_RANGE_BASE_ALIGN_LPA2);
     Some (COMPOSE S2_TLBI_RANGE_TG S2_TLBI_RANGE_TG_4K OR
           COMPOSE S2_TLBI_RANGE_SCALE (of_nat scale) OR
           COMPOSE S2_TLBI_RANGE_NUM (num - 1) OR
           COMPOSE S2_TLBI_RANGE_BASE_ADDR (drop_bit base_shift ipa))
   }"

subsection \<open>Instruction traces\<close>

datatype tlb_op =
    TLBI_IPAS2E1IS u64
  | TLBI_RIPAS2E1IS u64
  | TLBI_VMALLS12E1IS
  | TLBI_VMALLE1IS
  | WRITE_VTTBR_EL2 u64
  | DSB_ISH
  | ISB

text \<open>
  The loop of \<^verbatim>\<open>stage2_tlbi_ipa_range\<close> and the instruction that one round issues with the
  granules it covers. The loop need not end for a size that is not a multiple of the
  granule size, hence a partial function.
\<close>

definition tlbi_round :: "u64 \<Rightarrow> u64 \<Rightarrow> bool \<Rightarrow> (u64 \<times> tlb_op) option" where
  "tlbi_round current_ipa num_grans enable_lpa2 =
     (if num_grans = 1 \<or> enable_lpa2 \<and> \<not> ALIGNED current_ipa S2_TLBI_RANGE_BASE_ALIGN_LPA2
      then Some (1, TLBI_IPAS2E1IS (drop_bit GRANULE_SHIFT current_ipa))
      else do {
        (covered, scale, num) \<leftarrow> calc_s2_tlbi_range num_grans;
        c_assert (covered \<noteq> 0);
        operand \<leftarrow> make_s2_tlbi_range_operand current_ipa enable_lpa2 scale num;
        Some (covered, TLBI_RIPAS2E1IS operand)
      })"

partial_function (option) stage2_tlbi_ipa_range :: "u64 \<Rightarrow> u64 \<Rightarrow> bool \<Rightarrow> tlb_op list option" where
  "stage2_tlbi_ipa_range current_ipa remaining enable_lpa2 =
     (if remaining = 0 then Some []
      else do {
        let num_grans = drop_bit GRANULE_SHIFT remaining;
        (covered, op) \<leftarrow> tlbi_round current_ipa num_grans enable_lpa2;
        rest \<leftarrow> stage2_tlbi_ipa_range (current_ipa + push_bit GRANULE_SHIFT covered)
          (remaining - push_bit GRANULE_SHIFT covered) enable_lpa2;
        Some (op # rest)
      })"

abbreviation (input) VTTBR_EL2_VMID :: regfield where "VTTBR_EL2_VMID \<equiv> (48, 16)"

fun tlbi_vmid_loop :: "u32 list \<Rightarrow> bool \<Rightarrow> u64 \<Rightarrow> u64 \<Rightarrow> tlb_op list option" where
  "tlbi_vmid_loop [] enable_lpa2 ipa sz = Some []"
| "tlbi_vmid_loop (vmid_i # vmids) enable_lpa2 ipa sz = do {
     ops \<leftarrow> (if sz > s2tte_map_size S2TT_MIN_BLOCK_LEVEL then Some [TLBI_VMALLS12E1IS]
             else do {
               ops \<leftarrow> stage2_tlbi_ipa_range ipa sz enable_lpa2;
               Some (ops @ [DSB_ISH, TLBI_VMALLE1IS])
             });
     rest \<leftarrow> tlbi_vmid_loop vmids enable_lpa2 ipa sz;
     Some ([WRITE_VTTBR_EL2 (INPLACE VTTBR_EL2_VMID (ucast vmid_i)), ISB] @ ops @ [DSB_ISH, ISB] @ rest)
   }"

text \<open>\<open>vttbr_el2\<close> is the register on entry; its value is restored at the end.\<close>

definition stage2_tlbi_ipa_per_vmids ::
  "u64 \<Rightarrow> bool \<Rightarrow> u32 list \<Rightarrow> u64 \<Rightarrow> u64 \<Rightarrow> tlb_op list option" where
  "stage2_tlbi_ipa_per_vmids vttbr_el2 enable_lpa2 vmid_list ipa sz = do {
     c_assert (vmid_list \<noteq> []);
     c_assert (sz \<noteq> 0);
     c_assert (ALIGNED ipa GRANULE_SIZE);
     c_assert (ALIGNED sz GRANULE_SIZE);
     let old_vttbr_el2 = vttbr_el2;
     ops \<leftarrow> tlbi_vmid_loop vmid_list enable_lpa2 ipa sz;
     Some (ops @ [WRITE_VTTBR_EL2 old_vttbr_el2, ISB])
   }"

definition s2tt_invalidate_page_block :: "u64 \<Rightarrow> bool \<Rightarrow> u32 \<Rightarrow> u64 \<Rightarrow> int \<Rightarrow> tlb_op list option" where
  "s2tt_invalidate_page_block vttbr_el2 enable_lpa2 vmid_i addr level =
     stage2_tlbi_ipa_per_vmids vttbr_el2 enable_lpa2 [vmid_i] addr GRANULE_SIZE"

definition s2tt_invalidate_page_block_per_vmids ::
  "u64 \<Rightarrow> bool \<Rightarrow> u32 list \<Rightarrow> u64 \<Rightarrow> int \<Rightarrow> tlb_op list option" where
  "s2tt_invalidate_page_block_per_vmids vttbr_el2 enable_lpa2 vmid_list addr level =
     stage2_tlbi_ipa_per_vmids vttbr_el2 enable_lpa2 vmid_list addr GRANULE_SIZE"

definition s2tt_invalidate_pages_in_block :: "u64 \<Rightarrow> bool \<Rightarrow> u32 \<Rightarrow> u64 \<Rightarrow> int \<Rightarrow> tlb_op list option" where
  "s2tt_invalidate_pages_in_block vttbr_el2 enable_lpa2 vmid_i addr level =
     stage2_tlbi_ipa_per_vmids vttbr_el2 enable_lpa2 [vmid_i] addr (s2tte_map_size (level - 1))"

definition s2tt_invalidate_pages_in_block_per_vmids ::
  "u64 \<Rightarrow> bool \<Rightarrow> u32 list \<Rightarrow> u64 \<Rightarrow> int \<Rightarrow> tlb_op list option" where
  "s2tt_invalidate_pages_in_block_per_vmids vttbr_el2 enable_lpa2 vmid_list addr level =
     stage2_tlbi_ipa_per_vmids vttbr_el2 enable_lpa2 vmid_list addr (s2tte_map_size (level - 1))"

subsection \<open>What the instructions cover\<close>

text \<open>
  The granules of an instruction operand: one granule, or
  \<open>(NUM + 1) * 2 ^ (5 * SCALE + 1)\<close> granules from the base address.
\<close>

fun op_granules :: "bool \<Rightarrow> tlb_op \<Rightarrow> nat set" where
  "op_granules enable_lpa2 (TLBI_IPAS2E1IS x) = {unat x}"
| "op_granules enable_lpa2 (TLBI_RIPAS2E1IS x) = (
     let base = unat (EXTRACT S2_TLBI_RANGE_BASE_ADDR x) * (if enable_lpa2 then 16 else 1);
         n = (unat (EXTRACT S2_TLBI_RANGE_NUM x) + 1) * 2 ^ (5 * unat (EXTRACT S2_TLBI_RANGE_SCALE x) + 1)
     in {base ..< base + n})"
| "op_granules enable_lpa2 TLBI_VMALLS12E1IS = UNIV"
| "op_granules enable_lpa2 _ = {}"

text \<open>The pairs of VMID and granule that a trace invalidates, from a current \<open>VTTBR_EL2\<close>.\<close>

fun invalidated :: "bool \<Rightarrow> u64 \<Rightarrow> tlb_op list \<Rightarrow> (u64 \<times> nat) set" where
  "invalidated enable_lpa2 vttbr [] = {}"
| "invalidated enable_lpa2 vttbr (WRITE_VTTBR_EL2 v # ops) = invalidated enable_lpa2 v ops"
| "invalidated enable_lpa2 vttbr (op # ops) =
     {EXTRACT VTTBR_EL2_VMID vttbr} \<times> op_granules enable_lpa2 op \<union> invalidated enable_lpa2 vttbr ops"

fun final_vttbr :: "u64 \<Rightarrow> tlb_op list \<Rightarrow> u64" where
  "final_vttbr vttbr [] = vttbr"
| "final_vttbr vttbr (WRITE_VTTBR_EL2 v # ops) = final_vttbr v ops"
| "final_vttbr vttbr (_ # ops) = final_vttbr vttbr ops"

subsection \<open>The chosen range\<close>

text \<open>The granules covered by the best range of a given scale.\<close>

abbreviation (input) cover :: "nat \<Rightarrow> u64 \<Rightarrow> nat" where
  "cover scale n \<equiv> min (unat n div 2 ^ (5 * scale + 1)) 32 * 2 ^ (5 * scale + 1)"

lemma cover_le: "cover scale n \<le> unat n"
  by (meson div_times_less_eq_dividend le_trans min.cobounded1 mult_le_mono1)

lemma unat_range_num:
  "unat (min (drop_bit k n) 32) = min (unat n div 2 ^ k) 32" for n :: u64
  unfolding unat_min_word unat_drop_bit_eq unfolding drop_bit_eq_div by simp

lemma cover_word:
  assumes "scale \<le> 3"
  shows "unat (push_bit (5 * scale + 1) (min (drop_bit (5 * scale + 1) n) 32)) = cover scale n"
proof -
  have e: "unat (min (drop_bit (5 * scale + 1) n) 32) = min (unat n div 2 ^ (5 * scale + 1)) 32"
    by (rule unat_range_num)
  have "(2 :: nat) ^ (5 * scale + 1) \<le> 2 ^ 16"
    using assms by (intro power_increasing) auto
  then have "min (unat n div 2 ^ (5 * scale + 1)) 32 * 2 ^ (5 * scale + 1) \<le> 32 * 2 ^ 16"
    by (intro mult_le_mono) auto
  then have "unat (min (drop_bit (5 * scale + 1) n) 32) * 2 ^ (5 * scale + 1) < 2 ^ 64"
    unfolding e by (rule le_less_trans) simp
  from unat_push_bit_nat [OF this] show ?thesis unfolding e .
qed

definition range_ok :: "u64 \<Rightarrow> u64 \<times> nat \<times> u64 \<Rightarrow> bool" where
  "range_ok n r \<longleftrightarrow> (case r of (covered, scale, num) \<Rightarrow>
     scale \<le> 3 \<and> num \<le> 32 \<and> covered \<le> n \<and> unat covered = unat num * 2 ^ (5 * scale + 1))"

lemma calc_step_ok:
  assumes "scale \<le> 3" "range_ok n acc"
  shows "range_ok n (calc_step scale n acc)"
    and "fst acc \<le> fst (calc_step scale n acc)"
    and "cover scale n \<le> unat (fst (calc_step scale n acc))"
proof -
  let ?num = "min (drop_bit (5 * scale + 1) n) 32"
  let ?cov = "push_bit (5 * scale + 1) ?num"
  have c: "unat ?cov = cover scale n" by (rule cover_word [OF assms(1)])
  have m: "unat ?num = min (unat n div 2 ^ (5 * scale + 1)) 32"
    by (rule unat_range_num)
  have "range_ok n (?cov, scale, ?num)"
    unfolding range_ok_def prod.case using assms(1) c cover_le [of n scale]
    by (simp only: m word_le_nat_alt) simp
  then show "range_ok n (calc_step scale n acc)"
    using assms(2) by (simp add: calc_step_def Let_def)
  show "fst acc \<le> fst (calc_step scale n acc)"
    by (auto simp: calc_step_def Let_def)
  show "cover scale n \<le> unat (fst (calc_step scale n acc))"
    unfolding c [symmetric] calc_step_def Let_def by (auto simp: word_less_nat_alt)
qed

lemma calc_loop_ok:
  assumes "scale \<le> 3" "range_ok n acc"
  shows "range_ok n (calc_loop scale n acc) \<and> fst acc \<le> fst (calc_loop scale n acc) \<and>
    (\<forall>s \<le> scale. cover s n \<le> unat (fst (calc_loop scale n acc)))"
  using assms
proof (induction scale arbitrary: acc)
  case 0
  from calc_step_ok [OF 0] show ?case by simp
next
  case (Suc scale)
  let ?acc = "calc_step (Suc scale) n acc"
  note step = calc_step_ok [OF Suc.prems]
  show ?case
  proof (cases "fst acc < fst ?acc \<and> fst ?acc = n")
    case True
    then have l: "calc_loop (Suc scale) n acc = ?acc" by (auto simp: Let_def)
    have "cover k n \<le> unat (fst ?acc)" for k
      using cover_le [of n k] True by simp
    then show ?thesis unfolding l using step(1,2) by blast
  next
    case False
    then have l: "calc_loop (Suc scale) n acc = calc_loop scale n ?acc"
      by (auto simp: Let_def)
    have "scale \<le> 3" using Suc.prems by simp
    note ih = Suc.IH [OF this step(1)]
    have "cover k n \<le> unat (fst (calc_loop scale n ?acc))" if "k \<le> Suc scale" for k
    proof (cases "k = Suc scale")
      case True
      have "unat (fst ?acc) \<le> unat (fst (calc_loop scale n ?acc))"
        using ih by (simp only: word_le_nat_alt)
      with step(3) True show ?thesis by simp
    next
      case False
      with that have "k \<le> scale" by simp
      with ih show ?thesis by blast
    qed
    then show ?thesis unfolding l using ih order_trans [OF step(2)] by blast
  qed
qed

lemma calc_s2_tlbi_range_ok:
  assumes "n \<noteq> 0"
  obtains covered scale num where "calc_s2_tlbi_range n = Some (covered, scale, num)"
    "range_ok n (covered, scale, num)" "\<And>s. s \<le> 3 \<Longrightarrow> cover s n \<le> unat covered"
proof -
  obtain c s m where l: "calc_loop 3 n (0, 0, 0) = (c, s, m)" by (metis prod_cases3)
  have "range_ok n (0, 0, 0)" by (simp add: range_ok_def)
  note ok = calc_loop_ok [OF order_refl this, unfolded l fst_conv]
  show ?thesis
  proof (rule that)
    show "calc_s2_tlbi_range n = Some (c, s, m)" using assms l by (simp add: calc_s2_tlbi_range_def)
    show "range_ok n (c, s, m)" using ok by (rule conjunct1)
    show "cover k n \<le> unat c" if "k \<le> 3" for k
      using ok [THEN conjunct2, THEN conjunct2]  that by blast
  qed
qed

subsection \<open>One instruction\<close>

lemma operand_granules:
  assumes "scale \<le> 3" "num \<noteq> 0" "num \<le> 32"
    and "4096 dvd unat ipa" "unat ipa < 2 ^ (if enable_lpa2 then 52 else 48)"
    and "enable_lpa2 \<longrightarrow> ALIGNED ipa S2_TLBI_RANGE_BASE_ALIGN_LPA2"
  obtains operand where "make_s2_tlbi_range_operand ipa enable_lpa2 scale num = Some operand"
    "op_granules enable_lpa2 (TLBI_RIPAS2E1IS operand) =
      {unat ipa div 4096 ..< unat ipa div 4096 + unat num * 2 ^ (5 * scale + 1)}"
proof -
  let ?sh = "if enable_lpa2 then 16 else 12 :: nat"
  let ?o = "COMPOSE (46, 2) 1 OR COMPOSE (44, 2) (of_nat scale) OR COMPOSE (39, 5) (num - 1) OR
    COMPOSE (0, 37) (drop_bit ?sh ipa)"
  have u: "unat (drop_bit ?sh ipa) = unat ipa div 2 ^ ?sh"
    unfolding unat_drop_bit_eq unfolding drop_bit_eq_div ..
  have "unat ipa div 2 ^ ?sh < 2 ^ 37"
    using assms(5) by (simp add: less_mult_imp_div_less split: if_splits)
  then have e0: "EXTRACT (0, 37) ?o = drop_bit ?sh ipa"
    by (simp add: EXTRACT_or EXTRACT_COMPOSE_same EXTRACT_COMPOSE_other u)
  have "unat (num - 1) < 2 ^ 5" and n: "unat (num - 1) + 1 = unat num"
    using assms(2,3) by (auto simp: word_le_nat_alt unat_minus_one unat_gt_0)
  then have e1: "EXTRACT (39, 5) ?o = num - 1"
    by (simp add: EXTRACT_or EXTRACT_COMPOSE_same EXTRACT_COMPOSE_other)
  have sc: "unat (of_nat scale :: u64) = scale" using assms(1) by (simp add: unat_of_nat)
  then have e2: "EXTRACT (44, 2) ?o = of_nat scale"
    using assms(1) by (simp add: EXTRACT_or EXTRACT_COMPOSE_same EXTRACT_COMPOSE_other)
  have base: "unat ipa div 2 ^ ?sh * (if enable_lpa2 then 16 else 1) = unat ipa div 4096"
    using assms(6) ALIGNED_unat [of ipa 16]
    by (auto simp: S2_TLBI_RANGE_BASE_ALIGN_LPA2_def elim!: dvdE)
  show ?thesis
  proof (rule that)
    show "make_s2_tlbi_range_operand ipa enable_lpa2 scale num = Some ?o"
      using assms by (auto simp: make_s2_tlbi_range_operand_def Let_def)
    show "op_granules enable_lpa2 (TLBI_RIPAS2E1IS ?o) =
        {unat ipa div 4096 ..< unat ipa div 4096 + unat num * 2 ^ (5 * scale + 1)}"
      unfolding op_granules.simps Let_def e0 e1 e2 sc n u base ..
  qed
qed

lemma tlbi_round_ok:
  assumes "n \<noteq> 0" "4096 dvd unat ipa" "unat ipa < 2 ^ (if enable_lpa2 then 52 else 48)"
  obtains covered op where "tlbi_round ipa n enable_lpa2 = Some (covered, op)"
    "covered \<noteq> 0" "covered \<le> n"
    "op_granules enable_lpa2 op = {unat ipa div 4096 ..< unat ipa div 4096 + unat covered}"
    "\<And>v. op \<noteq> WRITE_VTTBR_EL2 v"
proof (cases "n = 1 \<or> enable_lpa2 \<and> \<not> ALIGNED ipa S2_TLBI_RANGE_BASE_ALIGN_LPA2")
  case True
  have "1 \<le> n" using assms(1) by (simp add: word_le_nat_alt unat_gt_0 Suc_le_eq)
  with True show ?thesis
    by (intro that [of 1 "TLBI_IPAS2E1IS (drop_bit 12 ipa)"])
       (auto simp: tlbi_round_def unat_drop_12)
next
  case False
  obtain covered scale num where c: "calc_s2_tlbi_range n = Some (covered, scale, num)"
    "range_ok n (covered, scale, num)" "\<And>s. s \<le> 3 \<Longrightarrow> cover s n \<le> unat covered"
    using calc_s2_tlbi_range_ok [OF assms(1)] by metis
  have "unat n \<noteq> 0" "unat n \<noteq> 1" using assms(1) False by (auto simp: word_unat_eq_iff)
  then have "2 \<le> unat n" by simp
  then have "0 < unat covered" using c(3) [of 0] by (auto simp: Suc_le_eq)
  then have n0: "covered \<noteq> 0" "num \<noteq> 0" using c(2) by (auto simp: range_ok_def)
  obtain operand where o: "make_s2_tlbi_range_operand ipa enable_lpa2 scale num = Some operand"
    "op_granules enable_lpa2 (TLBI_RIPAS2E1IS operand) =
      {unat ipa div 4096 ..< unat ipa div 4096 + unat num * 2 ^ (5 * scale + 1)}"
    using operand_granules [OF _ n0(2) _ assms(2,3)] c(2) False unfolding range_ok_def by auto
  have "tlbi_round ipa n enable_lpa2 = Some (covered, TLBI_RIPAS2E1IS operand)"
    using False n0 by (simp add: tlbi_round_def c(1) o(1) cong: if_cong)
  then show ?thesis using n0(1) o(2) c(2)
    by (intro that [of covered "TLBI_RIPAS2E1IS operand"]) (auto simp: range_ok_def simp del: op_granules.simps)
qed

subsection \<open>The whole range\<close>

lemma tlbi_range_covers:
  assumes "4096 dvd unat ipa" "4096 dvd unat sz"
    and "unat ipa + unat sz \<le> 2 ^ (if enable_lpa2 then 52 else 48)"
  shows "\<exists>ops. stage2_tlbi_ipa_range ipa sz enable_lpa2 = Some ops \<and>
    \<Union> (op_granules enable_lpa2 ` set ops) = {unat ipa div 4096 ..< (unat ipa + unat sz) div 4096} \<and>
    (\<forall>v. WRITE_VTTBR_EL2 v \<notin> set ops)"
  using assms
proof (induction "unat sz" arbitrary: ipa sz rule: less_induct)
  case less
  show ?case
  proof (cases "sz = 0")
    case True
    then show ?thesis by (subst stage2_tlbi_ipa_range.simps) simp
  next
    case False
    let ?n = "drop_bit 12 sz"
    obtain i m where im: "unat ipa = 4096 * i" "unat sz = 4096 * m" using less.prems by (auto elim!: dvdE)
    have n: "unat ?n = m" using im by (simp add: unat_drop_12)
    have m: "0 < m" using False im by (cases m) (auto simp: unat_eq_zero)
    then have nz: "?n \<noteq> 0" using n by auto
    have lt48: "unat ipa < 2 ^ (if enable_lpa2 then 52 else 48)" using less.prems(3) im(2) m by linarith
    obtain c op where r: "tlbi_round ipa ?n enable_lpa2 = Some (c, op)" "c \<noteq> 0" "c \<le> ?n"
      "op_granules enable_lpa2 op = {unat ipa div 4096 ..< unat ipa div 4096 + unat c}"
      "\<And>v. op \<noteq> WRITE_VTTBR_EL2 v"
      by (rule tlbi_round_ok [OF nz less.prems(1) lt48]) (rule that)
    have cm: "unat c \<le> m" "0 < unat c" using r(2,3) n by (auto simp: word_le_nat_alt unat_gt_0)
    have lt: "unat sz < 2 ^ 64" by (rule unat_lt2p_64)
    have p: "unat (push_bit 12 c) = 4096 * unat c"
      using unat_push_bit_nat [of c 12] cm im lt by simp
    have bound: "unat ipa + unat sz \<le> 2 ^ 52"
      using less.prems(3) by (simp split: if_splits)
    have ipa': "unat (ipa + push_bit 12 c) = 4096 * (i + unat c)"
      using bound im cm p by (simp add: unat_word_ariths)
    have sz': "unat (sz - push_bit 12 c) = 4096 * (m - unat c)"
      using im cm p by (subst unat_sub) (auto simp: word_le_nat_alt diff_mult_distrib2)
    have sum: "unat (ipa + push_bit 12 c) + unat (sz - push_bit 12 c) = unat ipa + unat sz"
      unfolding ipa' sz' im using cm(1) by (simp add: diff_mult_distrib2)
    have smaller: "unat (sz - push_bit 12 c) < unat sz" unfolding sz' im using cm m by simp
    have ipa_div: "4096 * (i + unat c) div 4096 = i + unat c" by simp
    have sum_div: "(4096 * i + 4096 * m) div 4096 = i + m"
      by (simp flip: distrib_left del: distrib_left_numeral)
    have "4096 dvd unat (ipa + push_bit 12 c)" "4096 dvd unat (sz - push_bit 12 c)"
      unfolding ipa' sz' by simp_all
    from less.hyps [OF smaller this, unfolded sum, OF less.prems(3)] obtain ops where o:
      "stage2_tlbi_ipa_range (ipa + push_bit 12 c) (sz - push_bit 12 c) enable_lpa2 = Some ops"
      "\<Union> (op_granules enable_lpa2 ` set ops) = {i + unat c ..< i + m}"
      "\<forall>v. WRITE_VTTBR_EL2 v \<notin> set ops"
      unfolding ipa' im ipa_div sum_div by blast
    have "stage2_tlbi_ipa_range ipa sz enable_lpa2 = Some (op # ops)"
      using False r(1) o(1) by (subst stage2_tlbi_ipa_range.simps) (simp add: Let_def)
    moreover have "{i ..< i + unat c} \<union> {i + unat c ..< i + m} = {i ..< i + m}"
      using cm by auto
    then have "\<Union> (op_granules enable_lpa2 ` set (op # ops)) = {i ..< i + m}"
      using o(2) r(4) by (simp add: im)
    moreover have "\<forall>v. WRITE_VTTBR_EL2 v \<notin> set (op # ops)"
      using o(3) r(5) by (metis set_ConsD)
    ultimately show ?thesis unfolding im sum_div by simp
  qed
qed

subsection \<open>Traces\<close>

lemma final_vttbr_append [simp]: "final_vttbr v (a @ b) = final_vttbr (final_vttbr v a) b"
  by (induction v a rule: final_vttbr.induct) auto

lemma invalidated_append [simp]:
  "invalidated l v (a @ b) = invalidated l v a \<union> invalidated l (final_vttbr v a) b"
  by (induction l v a rule: invalidated.induct) auto

lemma no_write_trace:
  assumes "\<forall>v. WRITE_VTTBR_EL2 v \<notin> set ops"
  shows "final_vttbr v ops = v"
    and "invalidated l v ops = {EXTRACT VTTBR_EL2_VMID v} \<times> \<Union> (op_granules l ` set ops)"
  using assms by (induction l v ops rule: invalidated.induct) auto

abbreviation (input) granules_of :: "u64 \<Rightarrow> u64 \<Rightarrow> nat set" where
  "granules_of ipa sz \<equiv> {unat ipa div 4096 ..< (unat ipa + unat sz) div 4096}"

lemma EXTRACT_vmid:
  "v < 0x10000 \<Longrightarrow> EXTRACT VTTBR_EL2_VMID (INPLACE VTTBR_EL2_VMID (ucast v)) = ucast v" for v :: u32
  by (rule EXTRACT_INPLACE_same) (auto simp: word_less_nat_alt unat_ucast_up)

lemma vmid_loop_trace:
  assumes "4096 dvd unat ipa" "4096 dvd unat sz"
    and "unat ipa + unat sz \<le> 2 ^ (if enable_lpa2 then 52 else 48)"
    and "\<forall>v \<in> set vmids. v < 0x10000"
  shows "\<exists>ops. tlbi_vmid_loop vmids enable_lpa2 ipa sz = Some ops \<and>
    (\<forall>vttbr. invalidated enable_lpa2 vttbr ops = ucast ` set vmids \<times>
       (if sz > s2tte_map_size 1 then UNIV else granules_of ipa sz))"
  using assms(4)
proof (induction vmids)
  case Nil
  then show ?case by simp
next
  case (Cons v vmids)
  then obtain rest where rest: "tlbi_vmid_loop vmids enable_lpa2 ipa sz = Some rest"
    "\<And>vttbr. invalidated enable_lpa2 vttbr rest = ucast ` set vmids \<times>
       (if sz > s2tte_map_size 1 then UNIV else granules_of ipa sz)"
    by auto
  obtain ops where ops: "stage2_tlbi_ipa_range ipa sz enable_lpa2 = Some ops"
    "\<Union> (op_granules enable_lpa2 ` set ops) = granules_of ipa sz"
    "\<forall>v. WRITE_VTTBR_EL2 v \<notin> set ops"
    using tlbi_range_covers [OF assms(1-3)] by blast
  show ?case
    using Cons.prems by (auto simp: rest ops no_write_trace [OF ops(3)] EXTRACT_vmid)
qed

text \<open>
  C10. Invalidating a granule-aligned IPA range for a list of 16-bit VMIDs fails no assertion
  and ends. For each VMID it invalidates exactly the granules of the range, or all
  granules when the range is larger than a level 1 block; it invalidates nothing of any
  other VMID, and \<^verbatim>\<open>VTTBR_EL2\<close> has its old value at the end.
\<close>

theorem tlbi_per_vmids_exact:
  assumes "vmids \<noteq> []" and "\<forall>v \<in> set vmids. v < 0x10000" and "sz \<noteq> 0"
    and "ALIGNED ipa GRANULE_SIZE" and "ALIGNED sz GRANULE_SIZE"
    and "unat ipa + unat sz \<le> 2 ^ (if enable_lpa2 then 52 else 48)"
  shows "\<exists>ops. stage2_tlbi_ipa_per_vmids vttbr enable_lpa2 vmids ipa sz = Some ops \<and>
    invalidated enable_lpa2 vttbr ops = ucast ` set vmids \<times>
      (if sz > s2tte_map_size 1 then UNIV
       else {unat ipa div 4096 ..< (unat ipa + unat sz) div 4096}) \<and>
    final_vttbr vttbr ops = vttbr"
proof -
  have "4096 dvd unat ipa" "4096 dvd unat sz"
    using assms(4,5) ALIGNED_unat [of _ 12] by simp_all
  from vmid_loop_trace [OF this assms(6,2)] assms show ?thesis
    by (auto simp: stage2_tlbi_ipa_per_vmids_def Let_def)
qed

theorem tlbi_per_vmids_exact_witness:
  "\<exists>ops. stage2_tlbi_ipa_per_vmids 7 True [3, 5] 0x11000 0x40000 = Some ops \<and>
    invalidated True 7 ops = {3, 5} \<times> {0x11 ..< 0x51} \<and> final_vttbr 7 ops = 7"
  using tlbi_per_vmids_exact [of "[3, 5]" "0x40000" "0x11000" True 7]
  by (simp add: ALIGNED_def s2tte_map_size_def)

text \<open>
  C21. For any nonzero number of granules the search returns a range of at most that many
  granules, and no encodable range (scale up to 3, up to 32 units) that fits covers more.
\<close>

theorem calc_range_optimal:
  assumes "num_grans \<noteq> 0"
  shows "case calc_s2_tlbi_range num_grans of
      None \<Rightarrow> False
    | Some (covered, scale, num) \<Rightarrow>
        scale \<le> 3 \<and> num \<le> 32 \<and> covered \<le> num_grans \<and> unat covered = unat num * 2 ^ (5 * scale + 1) \<and>
        (\<forall>s m. s \<le> 3 \<and> m \<le> 32 \<and> m * 2 ^ (5 * s + 1) \<le> unat num_grans \<longrightarrow>
           m * 2 ^ (5 * s + 1) \<le> unat covered)"
proof -
  obtain covered scale num where c: "calc_s2_tlbi_range num_grans = Some (covered, scale, num)"
    "range_ok num_grans (covered, scale, num)" "\<And>s. s \<le> 3 \<Longrightarrow> cover s num_grans \<le> unat covered"
    by (rule calc_s2_tlbi_range_ok [OF assms]) (rule that)
  have "m * 2 ^ (5 * s + 1) \<le> unat covered"
    if "s \<le> 3" "m \<le> 32" "m * 2 ^ (5 * s + 1) \<le> unat num_grans" for s m
  proof -
    have "m \<le> unat num_grans div 2 ^ (5 * s + 1)"
      using that(3) by (subst less_eq_div_iff_mult_less_eq) simp_all
    with that(2) have "m * 2 ^ (5 * s + 1) \<le> cover s num_grans"
      by (intro mult_le_mono1) simp
    with c(3) [OF that(1)] show ?thesis by linarith
  qed
  with c(2) show ?thesis by (simp add: c(1) range_ok_def del: power_Suc)
qed

theorem calc_range_optimal_witness:
  "\<exists>covered scale num. calc_s2_tlbi_range 130 = Some (covered, scale, num) \<and>
     covered \<le> 130 \<and> unat covered \<ge> 128"
proof -
  have "(130 :: u64) \<noteq> 0" by simp
  from calc_range_optimal [OF this] obtain covered scale num where
    "calc_s2_tlbi_range 130 = Some (covered, scale, num)" "covered \<le> 130"
    and m: "\<forall>s m. s \<le> 3 \<and> m \<le> 32 \<and> m * 2 ^ (5 * s + 1) \<le> unat (130 :: u64) \<longrightarrow>
      m * 2 ^ (5 * s + 1) \<le> unat covered"
    by (auto split: option.splits)
  moreover have "128 \<le> unat covered" using m [rule_format, of 1 2] by simp
  ultimately show ?thesis by blast
qed

end
