(* ===== verification/Granule.thy ===== *)
theory Granule
  imports Rmm_Prelude
begin

text \<open>
  Granule descriptors: the bit locks of \<^verbatim>\<open>src/lib/arch/include/aarch64/bitlock.h\<close>, the
  16-bit descriptor of a memory granule (\<^verbatim>\<open>src/lib/granule/include/granule.h\<close>,
  \<^verbatim>\<open>granule_types.h\<close>, \<^verbatim>\<open>granule_lock.h\<close>) and the 8-bit descriptor of a device granule
  (\<^verbatim>\<open>dev_granule.h\<close>). Each operation is the function on the descriptor that its
  atomic access computes; the concurrent use of the operations is in \<^verbatim>\<open>Granule_Lock\<close>.
\<close>

subsection \<open>Bit locks\<close>

text \<open>An attempt to acquire returns whether the bit was clear, and the new word.\<close>

definition bitlock_try_acquire_8 :: "u8 \<Rightarrow> nat \<Rightarrow> (bool \<times> u8) option" where
  "bitlock_try_acquire_8 loc b = do {
     c_assert (b < 8);
     let msk = push_bit b 1;
     Some (loc AND msk = 0, loc OR msk)
   }"

definition bitlock_release_8 :: "u8 \<Rightarrow> nat \<Rightarrow> u8 option" where
  "bitlock_release_8 loc b = do {
     c_assert (b < 8);
     let msk = push_bit b 1;
     Some (loc AND NOT msk)
   }"

definition bitlock_try_acquire_16 :: "u16 \<Rightarrow> nat \<Rightarrow> (bool \<times> u16) option" where
  "bitlock_try_acquire_16 loc b = do {
     c_assert (b < 16);
     let msk = push_bit b 1;
     Some (loc AND msk = 0, loc OR msk)
   }"

definition bitlock_release_16 :: "u16 \<Rightarrow> nat \<Rightarrow> u16 option" where
  "bitlock_release_16 loc b = do {
     c_assert (b < 16);
     let msk = push_bit b 1;
     Some (loc AND NOT msk)
   }"

text \<open>The waiting loops leave when one load shows another value of the masked bits.\<close>

definition bitlock_wait_while_8 :: "u8 \<Rightarrow> u8 \<Rightarrow> u8 \<Rightarrow> bool option" where
  "bitlock_wait_while_8 loc msk val = do {
     c_assert (msk \<noteq> 0 \<and> val AND msk = val);
     Some (loc AND msk \<noteq> val)
   }"

definition bitlock_wait_8 :: "u8 \<Rightarrow> nat \<Rightarrow> bool option" where
  "bitlock_wait_8 loc b = do {
     c_assert (b < 8);
     let msk = push_bit b 1;
     bitlock_wait_while_8 loc msk msk
   }"

definition bitlock_wait_while_16 :: "u16 \<Rightarrow> u16 \<Rightarrow> u16 \<Rightarrow> bool option" where
  "bitlock_wait_while_16 loc msk val = do {
     c_assert (msk \<noteq> 0 \<and> val AND msk = val);
     Some (loc AND msk \<noteq> val)
   }"

definition bitlock_wait_16 :: "u16 \<Rightarrow> nat \<Rightarrow> bool option" where
  "bitlock_wait_16 loc b = do {
     c_assert (b < 16);
     let msk = push_bit b 1;
     bitlock_wait_while_16 loc msk msk
   }"

subsection \<open>Memory granules\<close>

abbreviation (input) GRANULE_STATE_NS :: u8 where "GRANULE_STATE_NS \<equiv> 0"
abbreviation (input) GRANULE_STATE_DELEGATED :: u8 where "GRANULE_STATE_DELEGATED \<equiv> 1"
abbreviation (input) GRANULE_STATE_RD :: u8 where "GRANULE_STATE_RD \<equiv> 2"
abbreviation (input) GRANULE_STATE_REC :: u8 where "GRANULE_STATE_REC \<equiv> 3"
abbreviation (input) GRANULE_STATE_REC_AUX :: u8 where "GRANULE_STATE_REC_AUX \<equiv> 4"
abbreviation (input) GRANULE_STATE_DATA :: u8 where "GRANULE_STATE_DATA \<equiv> 5"
abbreviation (input) GRANULE_STATE_RTT :: u8 where "GRANULE_STATE_RTT \<equiv> 6"
abbreviation (input) GRANULE_STATE_PDEV :: u8 where "GRANULE_STATE_PDEV \<equiv> 7"
abbreviation (input) GRANULE_STATE_PDEV_AUX :: u8 where "GRANULE_STATE_PDEV_AUX \<equiv> 8"
abbreviation (input) GRANULE_STATE_VDEV :: u8 where "GRANULE_STATE_VDEV \<equiv> 9"
abbreviation (input) GRANULE_STATE_VDEV_AUX :: u8 where "GRANULE_STATE_VDEV_AUX \<equiv> 10"
abbreviation (input) GRANULE_STATE_PARTIAL :: u8 where "GRANULE_STATE_PARTIAL \<equiv> 11"
abbreviation (input) GRANULE_STATE_INTERNAL :: u8 where "GRANULE_STATE_INTERNAL \<equiv> 12"
abbreviation (input) GRANULE_STATE_PSMMU_ST_L2 :: u8 where "GRANULE_STATE_PSMMU_ST_L2 \<equiv> 13"
abbreviation (input) GRANULE_STATE_RD_AUX :: u8 where "GRANULE_STATE_RD_AUX \<equiv> 14"
abbreviation (input) GRANULE_STATE_LAST :: u8 where "GRANULE_STATE_LAST \<equiv> GRANULE_STATE_RD_AUX"

abbreviation (input) GRN_LOCK_SHIFT :: nat where "GRN_LOCK_SHIFT \<equiv> 15"
abbreviation (input) GRN_STATE :: regfield where "GRN_STATE \<equiv> (10, 5)"
abbreviation (input) GRN_REFCOUNT :: regfield where "GRN_REFCOUNT \<equiv> (0, 10)"
abbreviation (input) RTT_REFCOUNT_MAX :: u16 where "RTT_REFCOUNT_MAX \<equiv> 512"
abbreviation (input) PSMMU_ST_L2_REFCOUNT_MAX :: u16 where "PSMMU_ST_L2_REFCOUNT_MAX \<equiv> 64"
abbreviation (input) REFCOUNT_MAX :: nat where "REFCOUNT_MAX \<equiv> 1023"
abbreviation (input) MAX_TOTAL_PLANES :: u16 where "MAX_TOTAL_PLANES \<equiv> 4"

record granule =
  descriptor :: u16

definition GRN_LOCK_BIT :: u16 where "GRN_LOCK_BIT = push_bit GRN_LOCK_SHIFT 1"
definition STATE_MASK :: u16 where "STATE_MASK = ucast (MASK GRN_STATE)"
definition REFCOUNT_MASK :: u16 where "REFCOUNT_MASK = ucast (MASK GRN_REFCOUNT)"

definition LOCKED :: "granule \<Rightarrow> bool" where
  "LOCKED g \<longleftrightarrow> descriptor g AND GRN_LOCK_BIT \<noteq> 0"

definition REFCOUNT :: "granule \<Rightarrow> u16" where
  "REFCOUNT g = descriptor g AND REFCOUNT_MASK"

definition STATE :: "granule \<Rightarrow> u8" where
  "STATE g = ucast (EXTRACT GRN_STATE (ucast (descriptor g)))"

definition granule_refcount_read :: "granule \<Rightarrow> u16" where
  "granule_refcount_read g = REFCOUNT g"

definition granule_refcount_read_acquire :: "granule \<Rightarrow> u16 option" where
  "granule_refcount_read_acquire g = do {
     c_assert (LOCKED g);
     Some (descriptor g AND REFCOUNT_MASK)
   }"

definition granule_assert_unlocked_invariants :: "granule \<Rightarrow> u8 \<Rightarrow> unit option" where
  "granule_assert_unlocked_invariants g state = c_assert (
     if state = GRANULE_STATE_NS then REFCOUNT g = 0
     else if state = GRANULE_STATE_DELEGATED then REFCOUNT g = 0
     else if state = GRANULE_STATE_PARTIAL then REFCOUNT g = 0
     else if state = GRANULE_STATE_RD then True
     else if state = GRANULE_STATE_REC then REFCOUNT g \<le> 1
     else if state = GRANULE_STATE_DATA then REFCOUNT g < MAX_TOTAL_PLANES
     else if state = GRANULE_STATE_RTT then REFCOUNT g \<le> RTT_REFCOUNT_MAX
     else if state = GRANULE_STATE_REC_AUX then REFCOUNT g = 0
     else if state = GRANULE_STATE_PDEV then REFCOUNT g \<le> 1
     else if state = GRANULE_STATE_PDEV_AUX then REFCOUNT g = 0
     else if state = GRANULE_STATE_VDEV then REFCOUNT g \<le> 1
     else if state = GRANULE_STATE_VDEV_AUX then REFCOUNT g = 0
     else if state = GRANULE_STATE_INTERNAL then REFCOUNT g = 0
     else if state = GRANULE_STATE_PSMMU_ST_L2 then REFCOUNT g \<le> PSMMU_ST_L2_REFCOUNT_MAX
     else if state = GRANULE_STATE_RD_AUX then REFCOUNT g = 0
     else False)"

definition granule_unlocked_state :: "granule \<Rightarrow> u8" where
  "granule_unlocked_state g = STATE g"

definition granule_get_state :: "granule \<Rightarrow> u8 option" where
  "granule_get_state g = do {
     c_assert (LOCKED g);
     Some (STATE g)
   }"

text \<open>
  The state is replaced in two accesses: a load of the descriptor from which the mask of
  changing bits is computed, and an atomic exclusive-or with that mask.
\<close>

definition set_state_mask :: "granule \<Rightarrow> u8 \<Rightarrow> u16" where
  "set_state_mask g state = (descriptor g AND STATE_MASK) XOR push_bit 10 (ucast state)"

definition atomic_eor_16 :: "granule \<Rightarrow> u16 \<Rightarrow> granule" where
  "atomic_eor_16 g val = g\<lparr>descriptor := descriptor g XOR val\<rparr>"

definition granule_set_state :: "granule \<Rightarrow> u8 \<Rightarrow> granule option" where
  "granule_set_state g state = do {
     c_assert (LOCKED g);
     let val = set_state_mask g state;
     Some (atomic_eor_16 g val)
   }"

definition granule_bitlock_try_acquire :: "granule \<Rightarrow> (bool \<times> granule) option" where
  "granule_bitlock_try_acquire g = do {
     (acquired, d) \<leftarrow> bitlock_try_acquire_16 (descriptor g) GRN_LOCK_SHIFT;
     Some (acquired, g\<lparr>descriptor := d\<rparr>)
   }"

definition granule_bitlock_wait :: "granule \<Rightarrow> u8 \<Rightarrow> bool option" where
  "granule_bitlock_wait g expected_state = do {
     let msk = GRN_LOCK_BIT OR STATE_MASK;
     let val = GRN_LOCK_BIT OR push_bit 10 (ucast expected_state);
     bitlock_wait_while_16 (descriptor g) msk val
   }"

definition granule_bitlock_release :: "granule \<Rightarrow> granule option" where
  "granule_bitlock_release g = do {
     d \<leftarrow> bitlock_release_16 (descriptor g) GRN_LOCK_SHIFT;
     Some (g\<lparr>descriptor := d\<rparr>)
   }"

definition granule_unlock :: "granule \<Rightarrow> granule option" where
  "granule_unlock g = do {
     state \<leftarrow> granule_get_state g;
     granule_assert_unlocked_invariants g state;
     granule_bitlock_release g
   }"

definition granule_unlock_transition :: "granule \<Rightarrow> u8 \<Rightarrow> granule option" where
  "granule_unlock_transition g new_state = do {
     (if new_state = GRANULE_STATE_DELEGATED then do {
        state \<leftarrow> granule_get_state g;
        c_assert (state = GRANULE_STATE_NS \<or> state = GRANULE_STATE_PARTIAL)
      } else Some ());
     g' \<leftarrow> granule_set_state g new_state;
     granule_unlock g'
   }"

definition granule_unlock_transition_to_delegated :: "granule \<Rightarrow> granule option" where
  "granule_unlock_transition_to_delegated g = do {
     c_assert (LOCKED g);
     current_state \<leftarrow> granule_get_state g;
     c_assert (current_state \<noteq> GRANULE_STATE_DELEGATED);
     c_assert (current_state \<noteq> GRANULE_STATE_NS);
     g' \<leftarrow> granule_set_state g GRANULE_STATE_DELEGATED;
     granule_unlock g'
   }"

definition granule_refcount_inc :: "granule \<Rightarrow> u16 \<Rightarrow> granule option" where
  "granule_refcount_inc g val = do {
     c_assert (LOCKED g);
     let old_refcount = descriptor g AND REFCOUNT_MASK;
     let g' = g\<lparr>descriptor := descriptor g + val\<rparr>;
     c_assert (unat old_refcount + unat val \<le> REFCOUNT_MAX);
     Some g'
   }"

definition atomic_granule_get :: "granule \<Rightarrow> granule option" where
  "atomic_granule_get g = granule_refcount_inc g 1"

definition granule_refcount_dec :: "granule \<Rightarrow> u16 \<Rightarrow> granule option" where
  "granule_refcount_dec g val = do {
     c_assert (LOCKED g);
     let old_refcount = descriptor g AND REFCOUNT_MASK;
     let g' = g\<lparr>descriptor := descriptor g + (- val)\<rparr>;
     c_assert (old_refcount \<ge> val);
     Some g'
   }"

definition atomic_granule_put :: "granule \<Rightarrow> granule option" where
  "atomic_granule_put g = granule_refcount_dec g 1"

definition atomic_granule_put_release :: "granule \<Rightarrow> granule option" where
  "atomic_granule_put_release g = do {
     let old_refcount = descriptor g AND REFCOUNT_MASK;
     let g' = g\<lparr>descriptor := descriptor g + (- 1)\<rparr>;
     c_assert (old_refcount \<noteq> 0);
     Some g'
   }"

definition is_granule_locked :: "granule \<Rightarrow> bool" where
  "is_granule_locked g = LOCKED g"

subsection \<open>The fields of a descriptor\<close>

text \<open>
  A descriptor of either width is a lock bit above a state field above a reference count.
\<close>

locale descriptor_layout =
  fixes lock_shift state_shift state_width :: nat
    and lock_bit state_mask refcount_mask :: "'a::len word"
  assumes layout: "state_shift + state_width \<le> lock_shift" "lock_shift < LENGTH('a)"
    and lock_bit: "lock_bit = push_bit lock_shift 1"
    and state_mask: "bit state_mask n \<longleftrightarrow> state_shift \<le> n \<and> n < state_shift + state_width"
    and refcount_mask: "refcount_mask = mask state_shift"
begin

abbreviation (input) state_of :: "'a word \<Rightarrow> 'a word" where
  "state_of d \<equiv> take_bit state_width (drop_bit state_shift d)"

lemma locked_iff: "d AND lock_bit \<noteq> 0 \<longleftrightarrow> bit d lock_shift"
  unfolding lock_bit and_0_iff bit_pow2_word using layout by auto

lemma refcount_take: "d AND refcount_mask = take_bit state_shift d"
  by (simp add: refcount_mask take_bit_eq_mask)

lemma state_bit: "bit (state_of d) n \<longleftrightarrow> n < state_width \<and> bit d (state_shift + n)"
  by (auto simp: bit_simps)

lemma state_cong:
  assumes "\<And>n. state_shift \<le> n \<Longrightarrow> n < lock_shift \<Longrightarrow> bit d' n = bit d n"
  shows "state_of d' = state_of d"
  by (rule bit_eqI) (use assms layout in \<open>auto simp: bit_simps\<close>)

lemma acquire_fields:
  "bit (d OR lock_bit) lock_shift" "state_of (d OR lock_bit) = state_of d"
  "take_bit state_shift (d OR lock_bit) = take_bit state_shift d"
  using layout by (auto simp: lock_bit bit_simps bit_pow2_word intro!: state_cong bit_eqI)

lemma release_fields:
  "\<not> bit (d AND NOT lock_bit) lock_shift" "state_of (d AND NOT lock_bit) = state_of d"
  "take_bit state_shift (d AND NOT lock_bit) = take_bit state_shift d"
  using layout by (auto simp: lock_bit bit_simps bit_pow2_word intro!: state_cong bit_eqI)

lemma release_acquire: "\<not> bit d lock_shift \<Longrightarrow> (d OR lock_bit) AND NOT lock_bit = d"
  by (rule bit_eqI) (use layout in \<open>auto simp: lock_bit bit_simps bit_pow2_word\<close>)

lemma eor_fields:
  assumes "unat st < 2 ^ state_width"
    and "val = (d AND state_mask) XOR push_bit state_shift st"
  shows "bit (d' XOR val) lock_shift = bit d' lock_shift"
    and "take_bit state_shift (d' XOR val) = take_bit state_shift d'"
    and "state_of d' = state_of d \<Longrightarrow> state_of (d' XOR val) = st"
proof -
  have st: "n < state_width" if "bit st n" for n using bit_unat_less [OF assms(1) that] .
  show "bit (d' XOR val) lock_shift = bit d' lock_shift"
    using layout st [of "lock_shift - state_shift"]
    by (auto simp: assms(2) bit_simps state_mask)
  show "take_bit state_shift (d' XOR val) = take_bit state_shift d'"
    by (rule bit_eqI) (auto simp: assms(2) bit_simps state_mask)
  assume "state_of d' = state_of d"
  then have e: "n < state_width \<Longrightarrow> bit d' (state_shift + n) = bit d (state_shift + n)" for n
    by (metis state_bit)
  show "state_of (d' XOR val) = st"
    by (rule bit_eqI) (use layout in \<open>auto simp: state_bit assms(2) bit_simps state_mask e dest: st\<close>)
qed

lemma inc_fields:
  assumes "unat (take_bit state_shift d) + unat v < 2 ^ state_shift"
  shows "bit (d + v) lock_shift = bit d lock_shift" "state_of (d + v) = state_of d"
    "take_bit state_shift (d + v) = take_bit state_shift d + v"
proof -
  have r: "state_shift < LENGTH('a)" using layout by simp
  note f = low_field_add [OF assms r]
  have "bit (d + v) (state_shift + n) = bit d (state_shift + n)" for n
    using arg_cong [OF f(2), of "\<lambda>w. bit w n"] by (simp add: bit_drop_bit_eq)
  from this [of "lock_shift - state_shift"] show "bit (d + v) lock_shift = bit d lock_shift"
    using layout by simp
qed (use low_field_add [OF assms] layout in simp_all)

lemma dec_fields:
  assumes "v \<le> take_bit state_shift d"
  shows "bit (d + (- v)) lock_shift = bit d lock_shift" "state_of (d + (- v)) = state_of d"
    "take_bit state_shift (d + (- v)) = take_bit state_shift d - v"
proof -
  note f = low_field_sub [OF assms]
  have "bit (d + (- v)) (state_shift + n) = bit d (state_shift + n)" for n
    using arg_cong [OF f(2), of "\<lambda>w. bit w n"] by (simp add: bit_drop_bit_eq)
  from this [of "lock_shift - state_shift"] show "bit (d + (- v)) lock_shift = bit d lock_shift"
    using layout by simp
qed (use low_field_sub [OF assms] in simp_all)

end

subsection \<open>The fields of a memory granule\<close>

lemma bit_STATE_MASK: "bit STATE_MASK n \<longleftrightarrow> 10 \<le> n \<and> n < 15"
  by (auto simp: STATE_MASK_def bit_simps bit_MASK)

lemma REFCOUNT_MASK_mask: "REFCOUNT_MASK = mask 10"
  by (rule bit_eqI) (auto simp: REFCOUNT_MASK_def bit_simps bit_MASK)

interpretation grn: descriptor_layout 15 10 5 GRN_LOCK_BIT STATE_MASK REFCOUNT_MASK
  by unfold_locales (simp_all add: GRN_LOCK_BIT_def bit_STATE_MASK REFCOUNT_MASK_mask)

lemma LOCKED_bit: "LOCKED g \<longleftrightarrow> bit (descriptor g) 15"
  unfolding LOCKED_def by (rule grn.locked_iff)

lemma REFCOUNT_take: "REFCOUNT g = take_bit 10 (descriptor g)"
  unfolding REFCOUNT_def by (rule grn.refcount_take)

lemma STATE_field: "STATE g = ucast (take_bit 5 (drop_bit 10 (descriptor g)))"
  by (rule bit_eqI) (auto simp: STATE_def bit_simps bit_EXTRACT add.commute)

lemma STATE_ucast: "ucast (STATE g) = take_bit 5 (drop_bit 10 (descriptor g))"
  by (rule bit_eqI) (auto simp: STATE_def bit_simps bit_EXTRACT add.commute)

lemma STATE_less: "unat (STATE g) < 32"
  unfolding STATE_field using unat_less_if_bits [where w = 5]
  by (intro unat_less_if_bits [where w = 5, simplified]) (auto simp: bit_simps)

lemma REFCOUNT_le: "unat (REFCOUNT g) \<le> 1023"
proof -
  have "unat (REFCOUNT g) < 2 ^ 10"
    unfolding REFCOUNT_take by (rule unat_less_if_bits) (simp add: bit_simps)
  then show ?thesis by simp
qed

lemma granule_eqI:
  assumes "LOCKED g = LOCKED g'" "STATE g = STATE g'" "REFCOUNT g = REFCOUNT g'"
  shows "g = g'"
proof -
  have "bit (descriptor g) n = bit (descriptor g') n" if "n < 16" for n
  proof -
    consider "n < 10" | "10 \<le> n" "n < 15" | "n = 15" using \<open>n < 16\<close> by linarith
    then show ?thesis
    proof cases
      case 1
      then show ?thesis
        using arg_cong [OF assms(3), of "\<lambda>w. bit w n"] by (simp add: REFCOUNT_take bit_simps)
    next
      case 2
      then show ?thesis
        using arg_cong [OF assms(2), of "\<lambda>w. bit w (n - 10)"] by (auto simp: STATE_field bit_simps)
    next
      case 3
      then show ?thesis using assms(1) by (simp add: LOCKED_bit)
    qed
  qed
  then have "descriptor g = descriptor g'" by (intro bit_word_eqI) simp
  then show ?thesis by (cases g; cases g') simp
qed

subsection \<open>The operations on the fields\<close>

lemmas granule_fields = LOCKED_bit REFCOUNT_take STATE_field

lemma try_acquire_fields:
  assumes "granule_bitlock_try_acquire g = Some (acquired, g')"
  shows "acquired \<longleftrightarrow> \<not> LOCKED g" "LOCKED g'" "STATE g' = STATE g" "REFCOUNT g' = REFCOUNT g"
proof -
  have d: "descriptor g' = descriptor g OR GRN_LOCK_BIT"
    and a: "acquired \<longleftrightarrow> descriptor g AND GRN_LOCK_BIT = 0"
    using assms by (auto simp: granule_bitlock_try_acquire_def bitlock_try_acquire_16_def GRN_LOCK_BIT_def)
  show "acquired \<longleftrightarrow> \<not> LOCKED g" using a by (simp add: LOCKED_def)
  show "LOCKED g'" "STATE g' = STATE g" "REFCOUNT g' = REFCOUNT g"
    unfolding granule_fields d by (simp_all only: grn.acquire_fields)
qed

lemma try_acquire_total: "\<exists>a g'. granule_bitlock_try_acquire g = Some (a, g')"
  by (simp add: granule_bitlock_try_acquire_def bitlock_try_acquire_16_def)

lemma release_granule:
  "\<exists>g'. granule_bitlock_release g = Some g' \<and> \<not> LOCKED g' \<and> STATE g' = STATE g \<and> REFCOUNT g' = REFCOUNT g"
proof -
  let ?g = "g\<lparr>descriptor := descriptor g AND NOT GRN_LOCK_BIT\<rparr>"
  have "granule_bitlock_release g = Some ?g"
    by (simp add: granule_bitlock_release_def bitlock_release_16_def GRN_LOCK_BIT_def)
  moreover have d: "descriptor ?g = descriptor g AND NOT GRN_LOCK_BIT" by simp
  have "\<not> LOCKED ?g" "STATE ?g = STATE g" "REFCOUNT ?g = REFCOUNT g"
    unfolding granule_fields d by (simp_all only: grn.release_fields not_False_eq_True)
  ultimately show ?thesis by blast
qed

lemma set_state_fields:
  assumes "unat st < 32" "STATE g' = STATE g"
  shows "LOCKED (atomic_eor_16 g' (set_state_mask g st)) = LOCKED g'"
    "STATE (atomic_eor_16 g' (set_state_mask g st)) = st"
    "REFCOUNT (atomic_eor_16 g' (set_state_mask g st)) = REFCOUNT g'"
proof -
  have st: "unat (ucast st :: u16) < 2 ^ 5" using assms(1) by (simp add: unat_ucast_up)
  note f = grn.eor_fields [OF st refl, of "descriptor g'" "descriptor g"]
  have eq: "take_bit 5 (drop_bit 10 (descriptor g')) = take_bit 5 (drop_bit 10 (descriptor g))"
    unfolding STATE_ucast [symmetric] assms(2) ..
  have up: "ucast (ucast st :: u16) = st" by (rule bit_eqI) (auto simp: bit_simps)
  show "LOCKED (atomic_eor_16 g' (set_state_mask g st)) = LOCKED g'"
    "STATE (atomic_eor_16 g' (set_state_mask g st)) = st"
    "REFCOUNT (atomic_eor_16 g' (set_state_mask g st)) = REFCOUNT g'"
    unfolding granule_fields atomic_eor_16_def set_state_mask_def
    using f(1,2) f(3) [OF eq] by (simp_all add: up)
qed

lemma refcount_inc_fields:
  assumes "granule_refcount_inc g v = Some g'"
  shows "LOCKED g" "LOCKED g'" "STATE g' = STATE g" "unat (REFCOUNT g') = unat (REFCOUNT g) + unat v"
proof -
  have l: "LOCKED g" and b: "unat (REFCOUNT g) + unat v < 2 ^ 10"
    and g': "g' = g\<lparr>descriptor := descriptor g + v\<rparr>"
    using assms by (auto simp: granule_refcount_inc_def Let_def REFCOUNT_def split: if_splits)
  note f = grn.inc_fields [OF b [unfolded REFCOUNT_take]]
  show "LOCKED g" by (rule l)
  show "LOCKED g'" "STATE g' = STATE g" using l by (simp_all add: granule_fields g' f)
  show "unat (REFCOUNT g') = unat (REFCOUNT g) + unat v"
    using b by (simp add: granule_fields g' f unat_word_ariths)
qed

lemma refcount_sub_fields:
  assumes "v \<le> REFCOUNT g"
  shows "LOCKED (g\<lparr>descriptor := descriptor g + (- v)\<rparr>) = LOCKED g"
    "STATE (g\<lparr>descriptor := descriptor g + (- v)\<rparr>) = STATE g"
    "REFCOUNT (g\<lparr>descriptor := descriptor g + (- v)\<rparr>) = REFCOUNT g - v"
  using grn.dec_fields [OF assms [unfolded REFCOUNT_take]]
  unfolding granule_fields by simp_all

subsection \<open>Refinement of an abstract granule\<close>

record agranule =
  ag_locked :: bool
  ag_state :: u8
  ag_refs :: nat

definition abs_granule :: "granule \<Rightarrow> agranule" where
  "abs_granule g = \<lparr>ag_locked = LOCKED g, ag_state = STATE g, ag_refs = unat (REFCOUNT g)\<rparr>"

text \<open>The number of references that an unlocked granule may have in each state.\<close>

definition max_refs :: "u8 \<Rightarrow> nat option" where
  "max_refs state = map_of [
     (GRANULE_STATE_NS, 0), (GRANULE_STATE_DELEGATED, 0), (GRANULE_STATE_RD, 1023),
     (GRANULE_STATE_REC, 1), (GRANULE_STATE_REC_AUX, 0), (GRANULE_STATE_DATA, 3),
     (GRANULE_STATE_RTT, 512), (GRANULE_STATE_PDEV, 1), (GRANULE_STATE_PDEV_AUX, 0),
     (GRANULE_STATE_VDEV, 1), (GRANULE_STATE_VDEV_AUX, 0), (GRANULE_STATE_PARTIAL, 0),
     (GRANULE_STATE_INTERNAL, 0), (GRANULE_STATE_PSMMU_ST_L2, 64), (GRANULE_STATE_RD_AUX, 0)] state"

definition refs_ok :: "u8 \<Rightarrow> nat \<Rightarrow> bool" where
  "refs_ok state n \<longleftrightarrow> (case max_refs state of None \<Rightarrow> False | Some m \<Rightarrow> n \<le> m)"

lemma invariants_refs_ok:
  "granule_assert_unlocked_invariants g st = c_assert (refs_ok st (unat (REFCOUNT g)))"
  using REFCOUNT_le [of g]
  by (auto simp: granule_assert_unlocked_invariants_def refs_ok_def max_refs_def
      word_le_nat_alt word_less_nat_alt unat_eq_0 intro!: arg_cong [where f = c_assert])

lemma refs_ok_mono: "refs_ok st n \<Longrightarrow> m \<le> n \<Longrightarrow> refs_ok st m"
  by (auto simp: refs_ok_def split: option.splits)

datatype granule_op =
    Op_set_state u8
  | Op_unlock
  | Op_unlock_transition u8
  | Op_unlock_transition_to_delegated
  | Op_refcount_inc u16
  | Op_refcount_dec u16
  | Op_put_release

fun granule_exec :: "granule_op \<Rightarrow> granule \<Rightarrow> granule option" where
  "granule_exec (Op_set_state st) g = granule_set_state g st"
| "granule_exec Op_unlock g = granule_unlock g"
| "granule_exec (Op_unlock_transition st) g = granule_unlock_transition g st"
| "granule_exec Op_unlock_transition_to_delegated g = granule_unlock_transition_to_delegated g"
| "granule_exec (Op_refcount_inc v) g = granule_refcount_inc g v"
| "granule_exec (Op_refcount_dec v) g = granule_refcount_dec g v"
| "granule_exec Op_put_release g = atomic_granule_put_release g"

text \<open>The contract: what each operation promises of the lock, the state and the references.\<close>

definition agranule_unlock :: "agranule \<Rightarrow> agranule option" where
  "agranule_unlock a = (if ag_locked a \<and> refs_ok (ag_state a) (ag_refs a)
     then Some (a\<lparr>ag_locked := False\<rparr>) else None)"

fun agranule_exec :: "granule_op \<Rightarrow> agranule \<Rightarrow> agranule option" where
  "agranule_exec (Op_set_state st) a = (if ag_locked a then Some (a\<lparr>ag_state := st\<rparr>) else None)"
| "agranule_exec Op_unlock a = agranule_unlock a"
| "agranule_exec (Op_unlock_transition st) a =
     (if st = GRANULE_STATE_DELEGATED \<longrightarrow> ag_state a \<in> {GRANULE_STATE_NS, GRANULE_STATE_PARTIAL}
      then agranule_unlock (a\<lparr>ag_state := st\<rparr>) else None)"
| "agranule_exec Op_unlock_transition_to_delegated a =
     (if ag_state a \<in> {GRANULE_STATE_NS, GRANULE_STATE_DELEGATED} then None
      else agranule_unlock (a\<lparr>ag_state := GRANULE_STATE_DELEGATED\<rparr>))"
| "agranule_exec (Op_refcount_inc v) a =
     (if ag_locked a \<and> ag_refs a + unat v \<le> 1023 then Some (a\<lparr>ag_refs := ag_refs a + unat v\<rparr>) else None)"
| "agranule_exec (Op_refcount_dec v) a =
     (if ag_locked a \<and> unat v \<le> ag_refs a then Some (a\<lparr>ag_refs := ag_refs a - unat v\<rparr>) else None)"
| "agranule_exec Op_put_release a =
     (if ag_refs a = 0 then None else Some (a\<lparr>ag_refs := ag_refs a - 1\<rparr>))"

text \<open>State arguments are the states of \<^verbatim>\<open>granule_types.h\<close>, which fit the state field.\<close>

fun granule_op_ok :: "granule_op \<Rightarrow> bool" where
  "granule_op_ok (Op_set_state st) \<longleftrightarrow> st \<le> GRANULE_STATE_LAST"
| "granule_op_ok (Op_unlock_transition st) \<longleftrightarrow> st \<le> GRANULE_STATE_LAST"
| "granule_op_ok _ \<longleftrightarrow> True"

lemma set_state_abs:
  assumes "unat st < 32"
  shows "map_option abs_granule (granule_set_state g st) =
    (if LOCKED g then Some ((abs_granule g)\<lparr>ag_state := st\<rparr>) else None)"
  using set_state_fields [OF assms refl]
  by (simp add: granule_set_state_def abs_granule_def Let_def)

lemma unlock_abs: "map_option abs_granule (granule_unlock g) = agranule_unlock (abs_granule g)"
  using release_granule [of g]
  by (auto simp: granule_unlock_def granule_get_state_def agranule_unlock_def abs_granule_def
      invariants_refs_ok)

lemma map_option_bind_abs:
  "map_option f (Option.bind m k) = Option.bind m (\<lambda>x. map_option f (k x))"
  by (cases m) simp_all

lemma set_state_unlock_abs:
  assumes "unat st < 32"
  shows "map_option abs_granule (Option.bind (granule_set_state g st) granule_unlock) =
    agranule_unlock ((abs_granule g)\<lparr>ag_state := st\<rparr>)"
proof (cases "LOCKED g")
  case True
  then obtain g' where g': "granule_set_state g st = Some g'"
    "abs_granule g' = (abs_granule g)\<lparr>ag_state := st\<rparr>"
    using set_state_abs [OF assms, of g] by (auto simp: map_option_eq_Some)
  then show ?thesis by (simp add: unlock_abs)
next
  case False
  then show ?thesis
    by (simp add: granule_set_state_def agranule_unlock_def abs_granule_def)
qed

lemma refcount_dec_abs:
  "map_option abs_granule (granule_refcount_dec g v) = agranule_exec (Op_refcount_dec v) (abs_granule g)"
  using refcount_sub_fields [of v g] REFCOUNT_def [of g]
  by (auto simp: granule_refcount_dec_def abs_granule_def Let_def word_le_nat_alt unat_sub)

lemma refcount_inc_abs:
  "map_option abs_granule (granule_refcount_inc g v) = agranule_exec (Op_refcount_inc v) (abs_granule g)"
proof (cases "granule_refcount_inc g v")
  case None
  then show ?thesis
    by (auto simp: granule_refcount_inc_def abs_granule_def Let_def REFCOUNT_def split: if_splits)
next
  case (Some g')
  note f = refcount_inc_fields [OF Some]
  show ?thesis using Some f REFCOUNT_le [of g'] by (simp add: abs_granule_def)
qed

lemma put_release_abs:
  "map_option abs_granule (atomic_granule_put_release g) = agranule_exec Op_put_release (abs_granule g)"
proof (cases "REFCOUNT g = 0")
  case False
  then have "1 \<le> REFCOUNT g" by (simp add: word_le_nat_alt unat_gt_0 Suc_le_eq)
  then show ?thesis using False refcount_sub_fields [of 1 g] REFCOUNT_def [of g]
    by (auto simp: atomic_granule_put_release_def abs_granule_def Let_def unat_sub unat_eq_0)
qed (simp add: atomic_granule_put_release_def abs_granule_def Let_def flip: REFCOUNT_def)

lemma granule_exec_abs:
  assumes "granule_op_ok opn"
  shows "map_option abs_granule (granule_exec opn g) = agranule_exec opn (abs_granule g)"
proof (cases opn)
  case (Op_set_state st)
  then have "unat st < 32" using assms by (simp add: word_le_nat_alt)
  then show ?thesis using Op_set_state by (simp add: set_state_abs) (simp add: abs_granule_def)
next
  case (Op_unlock_transition st)
  then have st: "unat st < 32" using assms by (simp add: word_le_nat_alt)
  show ?thesis using Op_unlock_transition set_state_unlock_abs [OF st, of g]
    by (auto simp: granule_unlock_transition_def granule_get_state_def abs_granule_def
        agranule_unlock_def granule_set_state_def)
next
  case Op_unlock_transition_to_delegated
  then show ?thesis using set_state_unlock_abs [of GRANULE_STATE_DELEGATED g]
    by (auto simp: granule_unlock_transition_to_delegated_def granule_get_state_def abs_granule_def
        agranule_unlock_def)
qed (simp_all only: granule_exec.simps agranule_exec.simps unlock_abs refcount_dec_abs refcount_inc_abs
    put_release_abs)

text \<open>
  C25. The operations on the packed 16-bit descriptor implement the contract of a granule with
  a lock, a state and a number of references. An operation stops at an assertion exactly
  when the contract forbids it: changing the state or the references without the lock,
  exceeding 1023 references or dropping more than there are, unlocking with more
  references than the state allows, entering DELEGATED from a state that may not. No
  operation on one field disturbs another, and the three fields determine the descriptor.
\<close>

theorem granule_ops_refine:
  assumes "granule_op_ok opn"
  shows "map_option abs_granule (granule_exec opn g) = agranule_exec opn (abs_granule g) \<and>
    inj abs_granule"
proof
  show "map_option abs_granule (granule_exec opn g) = agranule_exec opn (abs_granule g)"
    by (rule granule_exec_abs [OF assms])
  show "inj abs_granule"
    by (rule injI, rule granule_eqI) (simp_all add: abs_granule_def word_unat_eq_iff)
qed

theorem granule_ops_refine_witness:
  "map_option abs_granule (granule_unlock_transition \<lparr>descriptor = 0x8000\<rparr> GRANULE_STATE_DELEGATED) =
     Some \<lparr>ag_locked = False, ag_state = GRANULE_STATE_DELEGATED, ag_refs = 0\<rparr>"
  using granule_ops_refine [of "Op_unlock_transition GRANULE_STATE_DELEGATED" "\<lparr>descriptor = 0x8000\<rparr>"]
  by (simp add: abs_granule_def agranule_unlock_def refs_ok_def max_refs_def granule_fields)

end
