(* ===== verification/Dev_Granule.thy ===== *)
theory Dev_Granule
  imports Granule
begin

text \<open>
  Device granules (\<^verbatim>\<open>src/lib/granule/include/dev_granule.h\<close>): the 8-bit descriptor with its
  lock, state and reference count, and the same contract as for memory granules.
\<close>

subsection \<open>Definitions\<close>

abbreviation (input) DEV_GRANULE_STATE_NS :: u8 where "DEV_GRANULE_STATE_NS \<equiv> 0"
abbreviation (input) DEV_GRANULE_STATE_DELEGATED :: u8 where "DEV_GRANULE_STATE_DELEGATED \<equiv> 1"
abbreviation (input) DEV_GRANULE_STATE_MAPPED :: u8 where "DEV_GRANULE_STATE_MAPPED \<equiv> 2"
abbreviation (input) DEV_GRANULE_STATE_PARTIAL :: u8 where "DEV_GRANULE_STATE_PARTIAL \<equiv> 3"

abbreviation (input) DEV_GRN_LOCK_SHIFT :: nat where "DEV_GRN_LOCK_SHIFT \<equiv> 7"
abbreviation (input) DEV_GRN_STATE :: regfield where "DEV_GRN_STATE \<equiv> (3, 3)"
abbreviation (input) DEV_GRN_REFCOUNT :: regfield where "DEV_GRN_REFCOUNT \<equiv> (0, 3)"
abbreviation (input) DEV_REFCOUNT_MAX :: nat where "DEV_REFCOUNT_MAX \<equiv> 7"

record dev_granule =
  dev_descriptor :: u8

definition DEV_GRN_LOCK_BIT :: u8 where "DEV_GRN_LOCK_BIT = push_bit DEV_GRN_LOCK_SHIFT 1"
definition DEV_STATE_MASK :: u8 where "DEV_STATE_MASK = ucast (MASK DEV_GRN_STATE)"
definition DEV_REFCOUNT_MASK :: u8 where "DEV_REFCOUNT_MASK = ucast (MASK DEV_GRN_REFCOUNT)"

definition DEV_LOCKED :: "dev_granule \<Rightarrow> bool" where
  "DEV_LOCKED g \<longleftrightarrow> dev_descriptor g AND DEV_GRN_LOCK_BIT \<noteq> 0"

definition DEV_REFCOUNT :: "dev_granule \<Rightarrow> u8" where
  "DEV_REFCOUNT g = dev_descriptor g AND DEV_REFCOUNT_MASK"

definition DEV_STATE :: "dev_granule \<Rightarrow> u8" where
  "DEV_STATE g = ucast (EXTRACT DEV_GRN_STATE (ucast (dev_descriptor g)))"

definition dev_granule_refcount_read :: "dev_granule \<Rightarrow> u8" where
  "dev_granule_refcount_read g = DEV_REFCOUNT g"

definition dev_granule_refcount_read_acquire :: "dev_granule \<Rightarrow> u8 option" where
  "dev_granule_refcount_read_acquire g = do {
     c_assert (DEV_LOCKED g);
     Some (dev_descriptor g AND DEV_REFCOUNT_MASK)
   }"

definition dev_granule_assert_unlocked_invariants :: "dev_granule \<Rightarrow> u8 \<Rightarrow> unit option" where
  "dev_granule_assert_unlocked_invariants g state = c_assert (
     if state = DEV_GRANULE_STATE_NS then DEV_REFCOUNT g = 0
     else if state = DEV_GRANULE_STATE_DELEGATED then DEV_REFCOUNT g = 0
     else if state = DEV_GRANULE_STATE_PARTIAL then DEV_REFCOUNT g = 0
     else if state = DEV_GRANULE_STATE_MAPPED then True
     else False)"

definition dev_granule_unlocked_state :: "dev_granule \<Rightarrow> u8" where
  "dev_granule_unlocked_state g = DEV_STATE g"

definition dev_granule_get_state :: "dev_granule \<Rightarrow> u8 option" where
  "dev_granule_get_state g = do {
     c_assert (DEV_LOCKED g);
     Some (DEV_STATE g)
   }"

definition dev_granule_set_state :: "dev_granule \<Rightarrow> u8 \<Rightarrow> dev_granule option" where
  "dev_granule_set_state g state = do {
     c_assert (DEV_LOCKED g);
     let val = (dev_descriptor g AND DEV_STATE_MASK) XOR push_bit 3 state;
     Some (g\<lparr>dev_descriptor := dev_descriptor g XOR val\<rparr>)
   }"

definition dev_granule_bitlock_try_acquire :: "dev_granule \<Rightarrow> (bool \<times> dev_granule) option" where
  "dev_granule_bitlock_try_acquire g = do {
     (acquired, d) \<leftarrow> bitlock_try_acquire_8 (dev_descriptor g) DEV_GRN_LOCK_SHIFT;
     Some (acquired, g\<lparr>dev_descriptor := d\<rparr>)
   }"

definition dev_granule_bitlock_wait :: "dev_granule \<Rightarrow> u8 \<Rightarrow> bool option" where
  "dev_granule_bitlock_wait g expected_state = do {
     let msk = DEV_GRN_LOCK_BIT OR DEV_STATE_MASK;
     let val = DEV_GRN_LOCK_BIT OR push_bit 3 expected_state;
     bitlock_wait_while_8 (dev_descriptor g) msk val
   }"

definition dev_granule_bitlock_release :: "dev_granule \<Rightarrow> dev_granule option" where
  "dev_granule_bitlock_release g = do {
     d \<leftarrow> bitlock_release_8 (dev_descriptor g) DEV_GRN_LOCK_SHIFT;
     Some (g\<lparr>dev_descriptor := d\<rparr>)
   }"

definition dev_granule_unlock :: "dev_granule \<Rightarrow> dev_granule option" where
  "dev_granule_unlock g = do {
     state \<leftarrow> dev_granule_get_state g;
     dev_granule_assert_unlocked_invariants g state;
     dev_granule_bitlock_release g
   }"

definition dev_granule_unlock_transition :: "dev_granule \<Rightarrow> u8 \<Rightarrow> dev_granule option" where
  "dev_granule_unlock_transition g new_state = do {
     g' \<leftarrow> dev_granule_set_state g new_state;
     dev_granule_unlock g'
   }"

definition dev_granule_refcount_inc :: "dev_granule \<Rightarrow> u8 \<Rightarrow> dev_granule option" where
  "dev_granule_refcount_inc g val = do {
     c_assert (DEV_LOCKED g);
     let old_refcount = dev_descriptor g AND DEV_REFCOUNT_MASK;
     let g' = g\<lparr>dev_descriptor := dev_descriptor g + val\<rparr>;
     c_assert (unat old_refcount + unat val \<le> DEV_REFCOUNT_MAX);
     Some g'
   }"

definition atomic_dev_granule_get :: "dev_granule \<Rightarrow> dev_granule option" where
  "atomic_dev_granule_get g = dev_granule_refcount_inc g 1"

definition dev_granule_refcount_dec :: "dev_granule \<Rightarrow> u8 \<Rightarrow> dev_granule option" where
  "dev_granule_refcount_dec g val = do {
     c_assert (DEV_LOCKED g);
     let old_refcount = dev_descriptor g AND DEV_REFCOUNT_MASK;
     let g' = g\<lparr>dev_descriptor := dev_descriptor g + (- val)\<rparr>;
     c_assert (old_refcount \<ge> val);
     Some g'
   }"

definition atomic_dev_granule_put :: "dev_granule \<Rightarrow> dev_granule option" where
  "atomic_dev_granule_put g = dev_granule_refcount_dec g 1"

definition atomic_dev_granule_put_release :: "dev_granule \<Rightarrow> dev_granule option" where
  "atomic_dev_granule_put_release g = do {
     let old_refcount = dev_descriptor g AND DEV_REFCOUNT_MASK;
     let g' = g\<lparr>dev_descriptor := dev_descriptor g + (- 1)\<rparr>;
     c_assert (old_refcount \<noteq> 0);
     Some g'
   }"

definition is_dev_granule_locked :: "dev_granule \<Rightarrow> bool" where
  "is_dev_granule_locked g = DEV_LOCKED g"

subsection \<open>The fields of a device granule\<close>

lemma bit_DEV_STATE_MASK: "bit DEV_STATE_MASK n \<longleftrightarrow> 3 \<le> n \<and> n < 6"
  by (auto simp: DEV_STATE_MASK_def bit_simps bit_MASK)

lemma DEV_REFCOUNT_MASK_mask: "DEV_REFCOUNT_MASK = mask 3"
  by (rule bit_eqI) (auto simp: DEV_REFCOUNT_MASK_def bit_simps bit_MASK)

interpretation dgrn: descriptor_layout 7 3 3 DEV_GRN_LOCK_BIT DEV_STATE_MASK DEV_REFCOUNT_MASK
  by unfold_locales (simp_all add: DEV_GRN_LOCK_BIT_def bit_DEV_STATE_MASK DEV_REFCOUNT_MASK_mask)

lemma DEV_LOCKED_bit: "DEV_LOCKED g \<longleftrightarrow> bit (dev_descriptor g) 7"
  unfolding DEV_LOCKED_def by (rule dgrn.locked_iff)

lemma DEV_REFCOUNT_take: "DEV_REFCOUNT g = take_bit 3 (dev_descriptor g)"
  unfolding DEV_REFCOUNT_def by (rule dgrn.refcount_take)

lemma DEV_STATE_field: "DEV_STATE g = take_bit 3 (drop_bit 3 (dev_descriptor g))"
  by (rule bit_eqI) (auto simp: DEV_STATE_def bit_simps bit_EXTRACT add.commute)

lemmas dev_fields = DEV_LOCKED_bit DEV_REFCOUNT_take DEV_STATE_field

lemma dev_descriptor_update:
  "dev_descriptor (g\<lparr>dev_descriptor := d\<rparr>) = d"
  by simp

lemma dev_release_fields:
  "\<exists>g'. dev_granule_bitlock_release g = Some g' \<and> \<not> DEV_LOCKED g' \<and>
     DEV_STATE g' = DEV_STATE g \<and> DEV_REFCOUNT g' = DEV_REFCOUNT g"
proof -
  let ?g = "g\<lparr>dev_descriptor := dev_descriptor g AND NOT DEV_GRN_LOCK_BIT\<rparr>"
  have "dev_granule_bitlock_release g = Some ?g"
    by (simp add: dev_granule_bitlock_release_def bitlock_release_8_def DEV_GRN_LOCK_BIT_def)
  moreover have "\<not> DEV_LOCKED ?g" "DEV_STATE ?g = DEV_STATE g" "DEV_REFCOUNT ?g = DEV_REFCOUNT g"
    unfolding dev_fields dev_descriptor_update
    by (simp_all only: dgrn.release_fields not_False_eq_True)
  ultimately show ?thesis by blast
qed

lemma dev_set_state_fields:
  assumes "dev_granule_set_state g st = Some g'" "unat st < 8"
  shows "DEV_LOCKED g" "DEV_LOCKED g'" "DEV_STATE g' = st" "DEV_REFCOUNT g' = DEV_REFCOUNT g"
proof -
  show l: "DEV_LOCKED g" using assms by (simp add: dev_granule_set_state_def split: if_splits)
  have d: "dev_descriptor g' =
      dev_descriptor g XOR ((dev_descriptor g AND DEV_STATE_MASK) XOR push_bit 3 st)"
    using assms(1) by (simp add: dev_granule_set_state_def Let_def split: if_splits) auto
  have st: "unat st < 2 ^ 3" using assms(2) by simp
  note f = dgrn.eor_fields [OF st refl, of "dev_descriptor g" "dev_descriptor g"]
  show "DEV_LOCKED g'" "DEV_STATE g' = st" "DEV_REFCOUNT g' = DEV_REFCOUNT g"
    using l unfolding dev_fields d by (simp_all only: f)
qed

lemma dev_sub_fields:
  assumes "v \<le> DEV_REFCOUNT g"
  shows "DEV_LOCKED (g\<lparr>dev_descriptor := dev_descriptor g + (- v)\<rparr>) = DEV_LOCKED g"
    "DEV_STATE (g\<lparr>dev_descriptor := dev_descriptor g + (- v)\<rparr>) = DEV_STATE g"
    "DEV_REFCOUNT (g\<lparr>dev_descriptor := dev_descriptor g + (- v)\<rparr>) = DEV_REFCOUNT g - v"
  using dgrn.dec_fields [OF assms [unfolded DEV_REFCOUNT_take]]
  unfolding dev_fields by simp_all

lemma dev_inc_fields:
  assumes "unat (DEV_REFCOUNT g) + unat v \<le> 7"
  shows "DEV_LOCKED (g\<lparr>dev_descriptor := dev_descriptor g + v\<rparr>) = DEV_LOCKED g"
    "DEV_STATE (g\<lparr>dev_descriptor := dev_descriptor g + v\<rparr>) = DEV_STATE g"
    "unat (DEV_REFCOUNT (g\<lparr>dev_descriptor := dev_descriptor g + v\<rparr>)) = unat (DEV_REFCOUNT g) + unat v"
proof -
  have b: "unat (take_bit 3 (dev_descriptor g)) + unat v < 2 ^ 3"
    using assms by (simp add: DEV_REFCOUNT_take)
  note f = dgrn.inc_fields [OF b]
  show "DEV_LOCKED (g\<lparr>dev_descriptor := dev_descriptor g + v\<rparr>) = DEV_LOCKED g"
    "DEV_STATE (g\<lparr>dev_descriptor := dev_descriptor g + v\<rparr>) = DEV_STATE g"
    by (simp_all add: dev_fields f)
  show "unat (DEV_REFCOUNT (g\<lparr>dev_descriptor := dev_descriptor g + v\<rparr>)) = unat (DEV_REFCOUNT g) + unat v"
    using assms by (simp add: dev_fields f unat_word_ariths)
qed

subsection \<open>Refinement of an abstract granule\<close>

definition abs_dev_granule :: "dev_granule \<Rightarrow> agranule" where
  "abs_dev_granule g =
     \<lparr>ag_locked = DEV_LOCKED g, ag_state = DEV_STATE g, ag_refs = unat (DEV_REFCOUNT g)\<rparr>"

definition dev_refs_ok :: "u8 \<Rightarrow> nat \<Rightarrow> bool" where
  "dev_refs_ok state n \<longleftrightarrow>
     state = DEV_GRANULE_STATE_MAPPED \<or>
     state \<in> {DEV_GRANULE_STATE_NS, DEV_GRANULE_STATE_DELEGATED, DEV_GRANULE_STATE_PARTIAL} \<and> n = 0"

definition adev_unlock :: "agranule \<Rightarrow> agranule option" where
  "adev_unlock a = (if ag_locked a \<and> dev_refs_ok (ag_state a) (ag_refs a)
     then Some (a\<lparr>ag_locked := False\<rparr>) else None)"

lemma dev_unlock_abs: "map_option abs_dev_granule (dev_granule_unlock g) = adev_unlock (abs_dev_granule g)"
  using dev_release_fields [of g]
  by (auto simp: dev_granule_unlock_def dev_granule_get_state_def adev_unlock_def abs_dev_granule_def
      dev_refs_ok_def dev_granule_assert_unlocked_invariants_def unat_eq_0)

lemma dev_transition_abs:
  assumes "unat st < 8"
  shows "map_option abs_dev_granule (dev_granule_unlock_transition g st) =
    adev_unlock ((abs_dev_granule g)\<lparr>ag_state := st\<rparr>)"
proof (cases "dev_granule_set_state g st")
  case None
  then show ?thesis
    by (auto simp: dev_granule_unlock_transition_def dev_granule_set_state_def adev_unlock_def
        abs_dev_granule_def split: if_splits)
next
  case (Some g')
  note f = dev_set_state_fields [OF Some assms]
  then have "abs_dev_granule g' = (abs_dev_granule g)\<lparr>ag_state := st\<rparr>"
    by (simp add: abs_dev_granule_def)
  then show ?thesis by (simp add: dev_granule_unlock_transition_def Some dev_unlock_abs)
qed

text \<open>
  C26. The operations on the 8-bit descriptor of a device granule implement the same contract:
  a transition installs the new state and unlocks if the state allows the references; the
  reference count moves by exactly the given amount within 0 to 7 and only under the lock,
  except for the release put, and no operation disturbs another field.
\<close>

theorem dev_granule_ops_refine:
  "map_option abs_dev_granule (dev_granule_unlock_transition g (take_bit 3 st)) =
     adev_unlock ((abs_dev_granule g)\<lparr>ag_state := take_bit 3 st\<rparr>) \<and>
   map_option abs_dev_granule (dev_granule_unlock g) = adev_unlock (abs_dev_granule g) \<and>
   map_option abs_dev_granule (dev_granule_refcount_inc g v) =
     (if ag_locked (abs_dev_granule g) \<and> ag_refs (abs_dev_granule g) + unat v \<le> 7
      then Some ((abs_dev_granule g)\<lparr>ag_refs := ag_refs (abs_dev_granule g) + unat v\<rparr>) else None) \<and>
   map_option abs_dev_granule (dev_granule_refcount_dec g v) =
     (if ag_locked (abs_dev_granule g) \<and> unat v \<le> ag_refs (abs_dev_granule g)
      then Some ((abs_dev_granule g)\<lparr>ag_refs := ag_refs (abs_dev_granule g) - unat v\<rparr>) else None) \<and>
   map_option abs_dev_granule (atomic_dev_granule_put_release g) =
     (if ag_refs (abs_dev_granule g) = 0 then None
      else Some ((abs_dev_granule g)\<lparr>ag_refs := ag_refs (abs_dev_granule g) - 1\<rparr>))"
proof (intro conjI)
  have "unat (take_bit 3 st) < 8"
    using unat_less_if_bits [of "take_bit 3 st" 3] by (simp add: bit_simps)
  then show "map_option abs_dev_granule (dev_granule_unlock_transition g (take_bit 3 st)) =
     adev_unlock ((abs_dev_granule g)\<lparr>ag_state := take_bit 3 st\<rparr>)"
    by (rule dev_transition_abs)
  have one: "1 \<le> DEV_REFCOUNT g" if "DEV_REFCOUNT g \<noteq> 0"
    using that by (simp add: word_le_nat_alt unat_gt_0 Suc_le_eq)
  show "map_option abs_dev_granule (atomic_dev_granule_put_release g) =
     (if ag_refs (abs_dev_granule g) = 0 then None
      else Some ((abs_dev_granule g)\<lparr>ag_refs := ag_refs (abs_dev_granule g) - 1\<rparr>))"
    using dev_sub_fields [of 1 g] one
    by (auto simp: atomic_dev_granule_put_release_def Let_def abs_dev_granule_def unat_sub unat_eq_0
        simp flip: DEV_REFCOUNT_def)
qed (use dev_inc_fields [of g v] dev_sub_fields [of v g] in
  \<open>auto simp: dev_unlock_abs dev_granule_refcount_inc_def dev_granule_refcount_dec_def Let_def
     abs_dev_granule_def word_le_nat_alt unat_sub simp flip: DEV_REFCOUNT_def\<close>)

end
