(* ===== verification/Granule_Lock.thy ===== *)
theory Granule_Lock
  imports Granule
begin

text \<open>
  The locking protocol of one granule on many PEs: \<^verbatim>\<open>granule_lock_on_state_match\<close>,
  \<^verbatim>\<open>granule_lock\<close>, \<^verbatim>\<open>granule_unlock\<close>, \<^verbatim>\<open>granule_unlock_transition\<close> and the reference
  counting of \<^verbatim>\<open>src/lib/granule/include/granule.h\<close>. Each rule is one access to the shared
  descriptor by one PE, so the rules interleave as the accesses of the PEs do. A PE whose
  assertion fails stops: it has no rule.
\<close>

subsection \<open>Program counters\<close>

text \<open>
  \<open>Match_*\<close> are the points of the loop of \<^verbatim>\<open>granule_lock_on_state_match\<close>, \<open>Lock_*\<close> those of
  \<^verbatim>\<open>granule_lock\<close>. \<open>Held\<close> is the caller's critical section, \<open>Set_State\<close> the point between
  the load and the exclusive-or of \<^verbatim>\<open>__granule_set_state\<close>, \<open>Release\<close> the point before the
  lock bit is cleared.
\<close>

datatype pe_pc =
    Idle
  | Match_State u8
  | Match_Try u8
  | Match_Wait u8
  | Match_Recheck u8
  | Match_Failed
  | Lock_Wait u8
  | Lock_Try u8
  | Lock_Check u8
  | Held
  | Set_State u8 u16
  | Release

record 'pe lock_sys =
  gran :: granule
  pcs :: "'pe \<Rightarrow> pe_pc"

abbreviation (input) move :: "'pe lock_sys \<Rightarrow> 'pe \<Rightarrow> pe_pc \<Rightarrow> 'pe lock_sys" where
  "move s i p \<equiv> s\<lparr>pcs := (pcs s)(i := p)\<rparr>"

abbreviation (input) move_mem :: "'pe lock_sys \<Rightarrow> granule \<Rightarrow> 'pe \<Rightarrow> pe_pc \<Rightarrow> 'pe lock_sys" where
  "move_mem s g i p \<equiv> s\<lparr>gran := g, pcs := (pcs s)(i := p)\<rparr>"

subsection \<open>Steps\<close>

inductive lock_step :: "'pe lock_sys \<Rightarrow> 'pe \<Rightarrow> 'pe lock_sys \<Rightarrow> bool" where
  match_start: "pcs s i = Idle \<Longrightarrow> lock_step s i (move s i (Match_State e))"
| match_state_ok: "pcs s i = Match_State e \<Longrightarrow> STATE (gran s) = e \<Longrightarrow> lock_step s i (move s i (Match_Try e))"
| match_state_no: "pcs s i = Match_State e \<Longrightarrow> STATE (gran s) \<noteq> e \<Longrightarrow> lock_step s i (move s i Idle)"
| match_try: "pcs s i = Match_Try e \<Longrightarrow> granule_bitlock_try_acquire (gran s) = Some (a, g) \<Longrightarrow>
    lock_step s i (move_mem s g i (if a then Match_Recheck e else Match_Wait e))"
| match_wait: "pcs s i = Match_Wait e \<Longrightarrow> granule_bitlock_wait (gran s) e = Some True \<Longrightarrow>
    lock_step s i (move s i (Match_State e))"
| match_recheck_no: "pcs s i = Match_Recheck e \<Longrightarrow> granule_get_state (gran s) = Some st \<Longrightarrow> st \<noteq> e \<Longrightarrow>
    lock_step s i (move s i Match_Failed)"
| match_failed: "pcs s i = Match_Failed \<Longrightarrow> granule_bitlock_release (gran s) = Some g \<Longrightarrow>
    lock_step s i (move_mem s g i Idle)"
| match_recheck_ok: "pcs s i = Match_Recheck e \<Longrightarrow> granule_get_state (gran s) = Some e \<Longrightarrow>
    granule_assert_unlocked_invariants (gran s) e = Some () \<Longrightarrow> lock_step s i (move s i Held)"
| lock_start: "pcs s i = Idle \<Longrightarrow> lock_step s i (move s i (Lock_Wait e))"
| lock_wait: "pcs s i = Lock_Wait e \<Longrightarrow> bitlock_wait_16 (descriptor (gran s)) 15 = Some True \<Longrightarrow>
    lock_step s i (move s i (Lock_Try e))"
| lock_try: "pcs s i = Lock_Try e \<Longrightarrow> granule_bitlock_try_acquire (gran s) = Some (a, g) \<Longrightarrow>
    lock_step s i (move_mem s g i (if a then Lock_Check e else Lock_Wait e))"
| lock_check: "pcs s i = Lock_Check e \<Longrightarrow> granule_get_state (gran s) = Some e \<Longrightarrow>
    granule_assert_unlocked_invariants (gran s) e = Some () \<Longrightarrow> lock_step s i (move s i Held)"
| set_state_load: "pcs s i = Held \<Longrightarrow> LOCKED (gran s) \<Longrightarrow> st \<le> GRANULE_STATE_LAST \<Longrightarrow>
    lock_step s i (move s i (Set_State st (set_state_mask (gran s) st)))"
| set_state_eor: "pcs s i = Set_State st val \<Longrightarrow>
    lock_step s i (move_mem s (atomic_eor_16 (gran s) val) i Held)"
| refcount_inc: "pcs s i = Held \<Longrightarrow> granule_refcount_inc (gran s) v = Some g \<Longrightarrow>
    lock_step s i (s\<lparr>gran := g\<rparr>)"
| refcount_dec: "pcs s i = Held \<Longrightarrow> granule_refcount_dec (gran s) v = Some g \<Longrightarrow>
    lock_step s i (s\<lparr>gran := g\<rparr>)"
| put_release: "pcs s i = Idle \<Longrightarrow> atomic_granule_put_release (gran s) = Some g \<Longrightarrow>
    lock_step s i (s\<lparr>gran := g\<rparr>)"
| unlock: "pcs s i = Held \<Longrightarrow> granule_get_state (gran s) = Some st \<Longrightarrow>
    granule_assert_unlocked_invariants (gran s) st = Some () \<Longrightarrow> lock_step s i (move s i Release)"
| release: "pcs s i = Release \<Longrightarrow> granule_bitlock_release (gran s) = Some g \<Longrightarrow>
    lock_step s i (move_mem s g i Idle)"

text \<open>Runs start with the granule unlocked within its limits and every PE idle.\<close>

definition lock_init :: "'pe lock_sys \<Rightarrow> bool" where
  "lock_init s \<longleftrightarrow> \<not> LOCKED (gran s) \<and> refs_ok (STATE (gran s)) (unat (REFCOUNT (gran s))) \<and>
     pcs s = (\<lambda>_. Idle)"

inductive lock_reach :: "'pe lock_sys \<Rightarrow> bool" where
  init: "lock_init s \<Longrightarrow> lock_reach s"
| step: "lock_reach s \<Longrightarrow> lock_step s i s' \<Longrightarrow> lock_reach s'"

subsection \<open>The invariant\<close>

text \<open>The points at which a PE has the lock, and those at which it may have changed the granule.\<close>

fun holding :: "pe_pc \<Rightarrow> bool" where
  "holding (Match_Recheck e) = True"
| "holding Match_Failed = True"
| "holding (Lock_Check e) = True"
| "holding Held = True"
| "holding (Set_State st val) = True"
| "holding Release = True"
| "holding _ = False"

fun modifying :: "pe_pc \<Rightarrow> bool" where
  "modifying Held = True"
| "modifying (Set_State st val) = True"
| "modifying _ = False"

definition lock_inv :: "'pe lock_sys \<Rightarrow> bool" where
  "lock_inv s \<longleftrightarrow>
     (\<forall>i j. holding (pcs s i) \<longrightarrow> holding (pcs s j) \<longrightarrow> i = j) \<and>
     (LOCKED (gran s) \<longleftrightarrow> (\<exists>i. holding (pcs s i))) \<and>
     (\<forall>i st val. pcs s i = Set_State st val \<longrightarrow>
        st \<le> GRANULE_STATE_LAST \<and> (\<exists>g. STATE g = STATE (gran s) \<and> val = set_state_mask g st)) \<and>
     ((\<exists>i. modifying (pcs s i)) \<or> refs_ok (STATE (gran s)) (unat (REFCOUNT (gran s))))"

lemma modifying_holding: "modifying p \<Longrightarrow> holding p"
  by (cases p) auto

lemma lock_invI:
  assumes "\<And>i j. holding (pcs s i) \<Longrightarrow> holding (pcs s j) \<Longrightarrow> i = j"
    and "LOCKED (gran s) \<longleftrightarrow> (\<exists>i. holding (pcs s i))"
    and "\<And>i st val. pcs s i = Set_State st val \<Longrightarrow>
      st \<le> GRANULE_STATE_LAST \<and> (\<exists>g. STATE g = STATE (gran s) \<and> val = set_state_mask g st)"
    and "(\<exists>i. modifying (pcs s i)) \<or> refs_ok (STATE (gran s)) (unat (REFCOUNT (gran s)))"
  shows "lock_inv s"
  using assms unfolding lock_inv_def by blast

lemma lock_init_inv: "lock_init s \<Longrightarrow> lock_inv s"
  by (auto simp: lock_init_def lock_inv_def)

lemma lock_invD:
  assumes "lock_inv s"
  shows "holding (pcs s i) \<Longrightarrow> holding (pcs s j) \<Longrightarrow> i = j"
    and "LOCKED (gran s) \<longleftrightarrow> (\<exists>i. holding (pcs s i))"
    and "pcs s i = Set_State st val \<Longrightarrow>
      st \<le> GRANULE_STATE_LAST \<and> (\<exists>g. STATE g = STATE (gran s) \<and> val = set_state_mask g st)"
    and "(\<exists>i. modifying (pcs s i)) \<or> refs_ok (STATE (gran s)) (unat (REFCOUNT (gran s)))"
  using assms unfolding lock_inv_def by blast+

text \<open>A step that does not touch the descriptor.\<close>

lemma inv_move:
  assumes "lock_inv s" and "holding p = holding (pcs s i)"
    and "\<And>st val. p = Set_State st val \<Longrightarrow> st \<le> GRANULE_STATE_LAST \<and> val = set_state_mask (gran s) st"
    and "modifying (pcs s i) \<Longrightarrow> modifying p \<or> refs_ok (STATE (gran s)) (unat (REFCOUNT (gran s)))"
  shows "lock_inv (move s i p)"
proof (rule lock_invI, goal_cases)
  case (1 j k)
  then show ?case using lock_invD(1) [OF assms(1), of j k] assms(2) by (auto split: if_splits)
next
  case 2
  then show ?case using lock_invD(2) [OF assms(1)] assms(2) by (auto split: if_splits)
next
  case (3 j st val)
  then show ?case using lock_invD(3) [OF assms(1), of j st val] assms(3) by (auto split: if_splits)
next
  case 4
  then show ?case using lock_invD(4) [OF assms(1)] assms(4) by simp metis
qed

text \<open>A step that acquires the lock, or finds it taken.\<close>

lemma inv_try:
  assumes "lock_inv s" "\<not> holding (pcs s i)"
    and "granule_bitlock_try_acquire (gran s) = Some (a, g)"
    and "holding p \<longleftrightarrow> a" "\<not> modifying p"
  shows "lock_inv (move_mem s g i p)"
proof -
  note f = try_acquire_fields [OF assms(3)]
  have free: "a \<Longrightarrow> \<not> holding (pcs s j)" for j
    using f(1) lock_invD(2) [OF assms(1)] by blast
  have m: "\<not> modifying (pcs s i)" using assms(2) modifying_holding by blast
  show ?thesis
  proof (rule lock_invI, goal_cases)
    case (1 j k)
    then show ?case using lock_invD(1) [OF assms(1), of j k] assms(4) free by (auto split: if_splits)
  next
    case 2
    then show ?case using f lock_invD(2) [OF assms(1)] assms(2,4) by (auto split: if_splits)
  next
    case (3 j st val)
    then show ?case using lock_invD(3) [OF assms(1), of j st val] f(3) assms(5) by (auto split: if_splits)
  next
    case 4
    then show ?case using lock_invD(4) [OF assms(1)] f m by (auto split: if_splits)
  qed
qed

text \<open>A step that releases the lock.\<close>

lemma inv_release:
  assumes "lock_inv s" "holding (pcs s i)" "\<not> modifying (pcs s i)"
    and "granule_bitlock_release (gran s) = Some g"
  shows "lock_inv (move_mem s g i Idle)"
proof -
  have f: "\<not> LOCKED g" "STATE g = STATE (gran s)" "REFCOUNT g = REFCOUNT (gran s)"
    using release_granule [of "gran s"] assms(4) by auto
  have only: "j \<noteq> i \<Longrightarrow> \<not> holding (pcs s j)" for j
    using lock_invD(1) [OF assms(1) assms(2)] by blast
  then have "\<not> modifying (pcs s j)" for j
    using assms(3) modifying_holding by (cases "j = i") blast+
  then have r: "refs_ok (STATE (gran s)) (unat (REFCOUNT (gran s)))"
    using lock_invD(4) [OF assms(1)] by blast
  have "pcs s j = Set_State st val \<Longrightarrow> j = i" for j st val using only [of j] by auto
  then show ?thesis using only f r assms(3) by (intro lock_invI) (auto split: if_splits)
qed

text \<open>The lock holder changes the descriptor in its critical section.\<close>

lemma inv_critical:
  assumes "lock_inv s" "holding (pcs s i)" and "LOCKED g"
  shows "lock_inv (move_mem s g i Held)"
proof -
  have only: "j \<noteq> i \<Longrightarrow> \<not> holding (pcs s j)" for j
    using lock_invD(1) [OF assms(1) assms(2)] by blast
  have "pcs s j = Set_State st val \<Longrightarrow> j = i" for j st val using only [of j] by auto
  then show ?thesis using only assms(3) by (intro lock_invI) (auto split: if_splits)
qed

lemma inv_critical_same:
  "lock_inv s \<Longrightarrow> pcs s i = Held \<Longrightarrow> LOCKED g \<Longrightarrow> lock_inv (s\<lparr>gran := g\<rparr>)"
  using inv_critical [of s i g] by (simp add: fun_upd_idem)

text \<open>A PE drops its reference without the lock.\<close>

lemma put_release_fields:
  assumes "atomic_granule_put_release g = Some g'"
  shows "LOCKED g' = LOCKED g" "STATE g' = STATE g" "unat (REFCOUNT g') < unat (REFCOUNT g)"
proof -
  have nz: "REFCOUNT g \<noteq> 0" and g': "g' = g\<lparr>descriptor := descriptor g + (- 1)\<rparr>"
    using assms by (auto simp: atomic_granule_put_release_def REFCOUNT_def Let_def split: if_splits)
  then have "1 \<le> REFCOUNT g" by (simp add: word_le_nat_alt unat_gt_0 Suc_le_eq)
  from refcount_sub_fields [OF this] nz
  show "LOCKED g' = LOCKED g" "STATE g' = STATE g" "unat (REFCOUNT g') < unat (REFCOUNT g)"
    unfolding g' by (simp_all add: unat_minus_one unat_gt_0)
qed

lemma inv_put_release:
  assumes "lock_inv s" "atomic_granule_put_release (gran s) = Some g"
  shows "lock_inv (s\<lparr>gran := g\<rparr>)"
  using assms(1) put_release_fields [OF assms(2)] refs_ok_mono
  unfolding lock_inv_def by (auto dest: less_imp_le)

subsection \<open>Reachable states\<close>

lemma get_state_Some: "granule_get_state g = Some st \<longleftrightarrow> LOCKED g \<and> STATE g = st"
  by (auto simp: granule_get_state_def)

lemma assert_invariants_Some:
  "granule_assert_unlocked_invariants g st = Some () \<longleftrightarrow> refs_ok st (unat (REFCOUNT g))"
  by (simp add: invariants_refs_ok)

lemma refcount_dec_LOCKED: "granule_refcount_dec g v = Some g' \<Longrightarrow> LOCKED g'"
  using refcount_sub_fields(1) [of v g]
  by (auto simp: granule_refcount_dec_def Let_def REFCOUNT_def split: if_splits)

lemma last_less_32: "st \<le> GRANULE_STATE_LAST \<Longrightarrow> unat st < 32"
  by (simp add: word_le_nat_alt)

lemma lock_step_inv: "lock_step s i s' \<Longrightarrow> lock_inv s \<Longrightarrow> lock_inv s'"
proof (induction rule: lock_step.induct)
  case (match_try s i e a g)
  then show ?case by (intro inv_try) auto
next
  case (lock_try s i e a g)
  then show ?case by (intro inv_try) auto
next
  case (match_failed s i g)
  then show ?case by (intro inv_release) auto
next
  case (release s i g)
  then show ?case by (intro inv_release) auto
next
  case (set_state_eor s i st val)
  then obtain g where g: "STATE (gran s) = STATE g" "val = set_state_mask g st" "unat st < 32"
    using lock_invD(3) [of s i st val] last_less_32 by metis
  have "LOCKED (gran s)" using set_state_eor lock_invD(2) [of s] by (metis holding.simps(5))
  then have "LOCKED (atomic_eor_16 (gran s) val)"
    unfolding g(2) using set_state_fields(1) [OF g(3,1)] by blast
  then show ?case using set_state_eor by (intro inv_critical) auto
next
  case (refcount_inc s i v g)
  then show ?case using refcount_inc_fields(2) [OF refcount_inc(2)]
    by (auto intro: inv_critical_same)
next
  case (refcount_dec s i v g)
  then show ?case using refcount_dec_LOCKED [OF refcount_dec(2)]
    by (auto intro: inv_critical_same)
next
  case (put_release s i g)
  then show ?case by (intro inv_put_release)
qed (auto intro!: inv_move simp: get_state_Some assert_invariants_Some)

lemma lock_reach_inv: "lock_reach s \<Longrightarrow> lock_inv s"
  by (induction rule: lock_reach.induct) (auto intro: lock_init_inv lock_step_inv)

text \<open>A Non-secure granule that the first PE has just acquired.\<close>

definition acquired_sys :: "nat lock_sys" where
  "acquired_sys = \<lparr>gran = \<lparr>descriptor = 0x8000\<rparr>, pcs = (\<lambda>_. Idle)(0 := Match_Recheck GRANULE_STATE_NS)\<rparr>"

lemma acquired_reach: "lock_reach acquired_sys"
proof -
  let ?s = "\<lambda>d p. \<lparr>gran = \<lparr>descriptor = d\<rparr>, pcs = (\<lambda>_. Idle)(0 := p)\<rparr> :: nat lock_sys"
  have "lock_init (?s 0 Idle)"
    by (auto simp: lock_init_def granule_fields refs_ok_def max_refs_def)
  then have "lock_reach (?s 0 Idle)" by (rule lock_reach.init)
  moreover have "lock_step (?s 0 Idle) 0 (?s 0 (Match_State 0))"
    using lock_step.match_start [of "?s 0 Idle" 0 0] by simp
  moreover have "lock_step (?s 0 (Match_State 0)) 0 (?s 0 (Match_Try 0))"
    using lock_step.match_state_ok [of "?s 0 (Match_State 0)" 0 0] by (simp add: granule_fields)
  moreover have "lock_step (?s 0 (Match_Try 0)) 0 acquired_sys"
    using lock_step.match_try [of "?s 0 (Match_Try 0)" 0 0 True "\<lparr>descriptor = 0x8000\<rparr>"]
    by (simp add: granule_bitlock_try_acquire_def bitlock_try_acquire_16_def acquired_sys_def)
  ultimately show ?thesis by (metis lock_reach.step)
qed

text \<open>
  C2. On any number of PEs and in every interleaving of their accesses, at most one PE is
  between acquiring and releasing the lock, and the lock bit is set exactly when there is
  one. While the bit is clear the granule is within the reference limit of its state; in
  particular, an unlocked Non-secure or delegated granule has no references.
\<close>

theorem granule_mutual_exclusion:
  assumes "lock_reach s"
  shows "(\<forall>i j. holding (pcs s i) \<and> holding (pcs s j) \<longrightarrow> i = j) \<and>
    (LOCKED (gran s) \<longleftrightarrow> (\<exists>i. holding (pcs s i))) \<and>
    (LOCKED (gran s) \<or> refs_ok (STATE (gran s)) (unat (REFCOUNT (gran s))))"
  using lock_reach_inv [OF assms] modifying_holding unfolding lock_inv_def by blast

theorem granule_mutual_exclusion_witness:
  "lock_reach acquired_sys \<and> holding (pcs acquired_sys 0) \<and> {j. holding (pcs acquired_sys j)} = {0}"
proof -
  have h: "holding (pcs acquired_sys 0)" by (simp add: acquired_sys_def)
  with granule_mutual_exclusion [OF acquired_reach] have "{j. holding (pcs acquired_sys j)} = {0}"
    by blast
  with h acquired_reach show ?thesis by blast
qed

text \<open>
  C9. In every reachable state and for every step of any PE: the state field changes only if
  that PE holds the lock and executes the exclusive-or of a state change, and then it
  becomes exactly the requested state, while reference drops of other PEs that happened
  since its load of the descriptor are kept. A PE leaves the state-matching acquisition
  successfully only with the lock held and the granule in the expected state.
\<close>

theorem granule_state_protected:
  assumes "lock_reach s" and "lock_step s i s'"
  shows "(if STATE (gran s') \<noteq> STATE (gran s)
      then \<exists>st val. pcs s i = Set_State st val \<and> STATE (gran s') = st \<and>
        REFCOUNT (gran s') = REFCOUNT (gran s)
      else True) \<and>
    (if pcs s' i = Held \<and> (\<exists>e. pcs s i = Match_Recheck e)
     then pcs s i = Match_Recheck (STATE (gran s')) \<and> LOCKED (gran s') else True)"
  using assms(2) lock_reach_inv [OF assms(1)]
proof (induction rule: lock_step.induct)
  case (match_try s i e a g)
  then show ?case using try_acquire_fields [OF match_try(2)] by auto
next
  case (lock_try s i e a g)
  then show ?case using try_acquire_fields [OF lock_try(2)] by auto
next
  case (match_failed s i g)
  then show ?case using release_granule [of "gran s"] by auto
next
  case (release s i g)
  then show ?case using release_granule [of "gran s"] by auto
next
  case (set_state_eor s i st val)
  then obtain g where g: "STATE (gran s) = STATE g" "val = set_state_mask g st" "unat st < 32"
    using lock_invD(3) [of s i st val] last_less_32 by metis
  then show ?case using set_state_eor(1) set_state_fields [OF g(3,1)] by auto
next
  case (refcount_inc s i v g)
  then show ?case using refcount_inc_fields [OF refcount_inc(2)] by auto
next
  case (refcount_dec s i v g)
  then show ?case using refcount_sub_fields(2) [of v "gran s"]
    by (auto simp: granule_refcount_dec_def Let_def REFCOUNT_def split: if_splits)
next
  case (put_release s i g)
  then show ?case using put_release_fields [OF put_release(2)] by auto
qed (auto simp: get_state_Some)

theorem granule_state_protected_witness:
  "\<exists>s'. lock_step acquired_sys 0 s' \<and> pcs s' 0 = Held \<and> STATE (gran s') = GRANULE_STATE_NS \<and>
     LOCKED (gran s')"
proof -
  let ?s' = "acquired_sys\<lparr>pcs := (pcs acquired_sys)(0 := Held)\<rparr>"
  have step: "lock_step acquired_sys 0 ?s'"
    by (rule lock_step.match_recheck_ok [of _ _ GRANULE_STATE_NS])
       (simp_all add: acquired_sys_def get_state_Some assert_invariants_Some granule_fields
         refs_ok_def max_refs_def)
  have pc: "pcs ?s' 0 = Held" "pcs acquired_sys 0 = Match_Recheck GRANULE_STATE_NS"
    by (simp_all add: acquired_sys_def)
  with granule_state_protected [OF acquired_reach step]
  have "STATE (gran ?s') = GRANULE_STATE_NS \<and> LOCKED (gran ?s')" by simp
  with step pc show ?thesis by blast
qed

subsection \<open>Progress\<close>

lemma bit_GRN_LOCK_BIT: "bit GRN_LOCK_BIT n \<longleftrightarrow> n = 15"
  unfolding GRN_LOCK_BIT_def bit_pow2_word by simp

lemma bitlock_wait_iff:
  assumes "unat e < 32"
  shows "granule_bitlock_wait g e = Some (\<not> (LOCKED g \<and> STATE g = e))"
proof -
  let ?m = "GRN_LOCK_BIT OR STATE_MASK"
  let ?v = "GRN_LOCK_BIT OR push_bit 10 (ucast e)"
  have e: "bit e n \<Longrightarrow> n < 5" for n using bit_unat_less [of e 5 n] assms by simp
  have v: "bit ?v n \<longleftrightarrow> n = 15 \<or> 10 \<le> n \<and> bit e (n - 10)" if "n < 16" for n
    using that e [of "n - 10"] by (auto simp: bit_simps bit_GRN_LOCK_BIT)
  have m: "bit ?m n \<longleftrightarrow> 10 \<le> n" if "n < 16" for n
    using that by (auto simp: bit_simps bit_GRN_LOCK_BIT bit_STATE_MASK)
  have "?v AND ?m = ?v" by (rule bit_word_eqI) (auto simp: bit_and_iff v m)
  moreover have "bit ?m 15" by (simp add: m)
  then have "?m \<noteq> 0" by auto
  moreover have "descriptor g AND ?m = ?v \<longleftrightarrow> LOCKED g \<and> STATE g = e"
  proof
    assume eq: "descriptor g AND ?m = ?v"
    have b: "n < 16 \<Longrightarrow> bit ?v n \<longleftrightarrow> bit (descriptor g) n \<and> 10 \<le> n" for n
      unfolding eq [symmetric] by (simp add: bit_and_iff m)
    have "LOCKED g" using b [of 15] v [of 15] by (simp add: LOCKED_bit)
    moreover have "STATE g = e"
    proof (rule bit_word_eqI)
      fix n
      show "bit (STATE g) n = bit e n"
        using b [of "n + 10"] v [of "n + 10"] e [of n]
        by (cases "n < 5") (auto simp: STATE_field bit_simps add.commute)
    qed
    ultimately show "LOCKED g \<and> STATE g = e" by blast
  next
    assume l: "LOCKED g \<and> STATE g = e"
    then have b: "bit e n \<longleftrightarrow> n < 5 \<and> bit (descriptor g) (n + 10)" for n
      by (auto simp: STATE_field bit_simps add.commute)
    show "descriptor g AND ?m = ?v"
      by (rule bit_word_eqI) (use l in \<open>auto simp: bit_and_iff v m b LOCKED_bit\<close>)
  qed
  ultimately show ?thesis by (simp add: granule_bitlock_wait_def bitlock_wait_while_16_def Let_def)
qed

lemma bitlock_wait_16_iff: "bitlock_wait_16 (descriptor g) 15 = Some (\<not> LOCKED g)"
proof -
  have "descriptor g AND GRN_LOCK_BIT = GRN_LOCK_BIT \<longleftrightarrow> LOCKED g"
    by (subst and_eq_bits [of _ "[15]"]) (auto simp: bit_GRN_LOCK_BIT LOCKED_bit)
  moreover have "GRN_LOCK_BIT \<noteq> 0" by (simp add: GRN_LOCK_BIT_def)
  ultimately show ?thesis
    unfolding bitlock_wait_16_def bitlock_wait_while_16_def GRN_LOCK_BIT_def [symmetric] Let_def
    by simp
qed

text \<open>
  C24. A PE in either acquisition is never blocked by an unlocked granule: it has a next step
  unless another PE holds the lock. In the state-matching acquisition it is blocked only
  while the granule is in the expected state, so it never waits for a state to come back.
\<close>

theorem granule_acquire_progress:
  assumes "lock_reach s" and "e \<le> GRANULE_STATE_LAST"
    and "pcs s i \<in> {Match_State e, Match_Try e, Match_Wait e, Lock_Wait e, Lock_Try e}"
  shows "(\<exists>s'. lock_step s i s') \<or>
    (\<exists>j. j \<noteq> i \<and> holding (pcs s j)) \<and> (if pcs s i = Match_Wait e then STATE (gran s) = e else True)"
proof (cases "(\<exists>s'. lock_step s i s')")
  case False
  note no = False [unfolded not_ex, rule_format]
  obtain a g where acq: "granule_bitlock_try_acquire (gran s) = Some (a, g)"
    using try_acquire_total by blast
  have p: "pcs s i \<notin> {Match_State e, Match_Try e, Lock_Try e}"
  proof
    assume "pcs s i \<in> {Match_State e, Match_Try e, Lock_Try e}"
    then consider "pcs s i = Match_State e" | "pcs s i = Match_Try e" | "pcs s i = Lock_Try e" by blast
    then show False
    proof cases
      case 1
      show ?thesis
        using lock_step.match_state_ok [OF 1] lock_step.match_state_no [OF 1] no by blast
    next
      case 2
      show ?thesis using lock_step.match_try [OF 2 acq] no by blast
    next
      case 3
      show ?thesis using lock_step.lock_try [OF 3 acq] no by blast
    qed
  qed
  have w: "LOCKED (gran s) \<and> STATE (gran s) = e" if "pcs s i = Match_Wait e"
    using lock_step.match_wait [OF that] no bitlock_wait_iff [OF last_less_32 [OF assms(2)], of "gran s"]
    by auto
  have "LOCKED (gran s)" if "pcs s i = Lock_Wait e"
    using lock_step.lock_wait [OF that] no bitlock_wait_16_iff [of "gran s"] by auto
  with p w assms(3) have "LOCKED (gran s)" by blast
  then obtain j where "holding (pcs s j)"
    using lock_invD(2) [OF lock_reach_inv [OF assms(1)]] by blast
  moreover have "\<not> holding (pcs s i)" using assms(3) by auto
  ultimately show ?thesis using w by metis
qed simp

theorem granule_acquire_progress_witness:
  "\<exists>s'. lock_step acquired_sys 1 s' \<and>
     ((\<exists>s''. lock_step s' 1 s'') \<or> (\<exists>j. j \<noteq> 1 \<and> holding (pcs s' j)))"
proof -
  let ?s = "acquired_sys\<lparr>pcs := (pcs acquired_sys)(1 := Lock_Wait 0)\<rparr>"
  have step: "lock_step acquired_sys 1 ?s"
    by (rule lock_step.lock_start) (simp add: acquired_sys_def)
  have "lock_reach ?s" by (rule lock_reach.step [OF acquired_reach step])
  from granule_acquire_progress [OF this, of 0 1]
  have "(\<exists>s''. lock_step ?s 1 s'') \<or> (\<exists>j. j \<noteq> 1 \<and> holding (pcs ?s j))" by simp
  with step show ?thesis by blast
qed

end
