(* ===== verification/Addr_List.thy ===== *)
theory Addr_List
  imports Rmm_Prelude "HOL-Library.Multiset"
begin

text \<open>
  RMI address lists (\<^verbatim>\<open>src/lib/addr_list\<close>): range descriptors of 4KB granules, the list that
  holds up to 512 of them, and its operations. A list of type output collects the memory
  blocks that the RMM returns to the host; a list of type input holds the ranges that the
  host donates.
\<close>

subsection \<open>Range descriptors (addr_list_prv.h, addr_list.h)\<close>

abbreviation (input) ADDR_LIST_MAX_RANGES :: nat where "ADDR_LIST_MAX_RANGES \<equiv> 512"
abbreviation (input) XLAT_TABLE_LEVEL_MAX :: int where "XLAT_TABLE_LEVEL_MAX \<equiv> 3"
abbreviation (input) RMI_OP_MEM_DELEGATED :: u64 where "RMI_OP_MEM_DELEGATED \<equiv> 0"
abbreviation (input) RMI_OP_MEM_UNDELEGATED :: u64 where "RMI_OP_MEM_UNDELEGATED \<equiv> 1"
abbreviation (input) RMI_OP_MEM_CONDITIONAL :: u64 where "RMI_OP_MEM_CONDITIONAL \<equiv> 2"

abbreviation (input) ADDR_RDESC_4K_SZ :: regfield where "ADDR_RDESC_4K_SZ \<equiv> (0, 2)"
abbreviation (input) ADDR_RDESC_4K_CNT :: regfield where "ADDR_RDESC_4K_CNT \<equiv> (2, 10)"
abbreviation (input) ADDR_RDESC_4K_ADDR :: regfield where "ADDR_RDESC_4K_ADDR \<equiv> (12, 40)"
abbreviation (input) ADDR_RDESC_4K_ST :: regfield where "ADDR_RDESC_4K_ST \<equiv> (62, 2)"

definition MAX_BLOCK_CNT_4K :: u64 where "MAX_BLOCK_CNT_4K = push_bit 10 1 - 1"

definition XLAT_BLOCK_SIZE :: "int \<Rightarrow> u64" where
  "XLAT_BLOCK_SIZE level = push_bit (nat (int GRANULE_SHIFT + (XLAT_TABLE_LEVEL_MAX - level) * 9)) 1"

definition IS_VALID_XLAT_BLOCK_SIZE :: "u64 \<Rightarrow> bool" where
  "IS_VALID_XLAT_BLOCK_SIZE sz \<longleftrightarrow>
     sz = XLAT_BLOCK_SIZE XLAT_TABLE_LEVEL_MAX \<or> sz = XLAT_BLOCK_SIZE (XLAT_TABLE_LEVEL_MAX - 1) \<or>
     sz = XLAT_BLOCK_SIZE (XLAT_TABLE_LEVEL_MAX - 2) \<or> sz = XLAT_BLOCK_SIZE (XLAT_TABLE_LEVEL_MAX - 3)"

definition XLAT_LVL_FROM_ADR_LIST_SZ :: "u64 \<Rightarrow> int" where
  "XLAT_LVL_FROM_ADR_LIST_SZ x = XLAT_TABLE_LEVEL_MAX - int (unat x)"

definition get_addr_from_desc :: "u64 \<Rightarrow> u64" where
  "get_addr_from_desc desc = push_bit 12 (EXTRACT ADDR_RDESC_4K_ADDR desc)"

definition get_addr_mask :: u64 where "get_addr_mask = MASK ADDR_RDESC_4K_ADDR"

definition get_cnt_from_desc :: "u64 \<Rightarrow> u64" where
  "get_cnt_from_desc desc = EXTRACT ADDR_RDESC_4K_CNT desc"

definition get_cnt_mask :: u64 where "get_cnt_mask = MASK ADDR_RDESC_4K_CNT"

definition get_sz_mask :: u64 where "get_sz_mask = MASK ADDR_RDESC_4K_SZ"

definition get_st_from_desc :: "u64 \<Rightarrow> u64" where
  "get_st_from_desc desc = EXTRACT ADDR_RDESC_4K_ST desc"

definition get_max_block_cnt :: u64 where "get_max_block_cnt = MAX_BLOCK_CNT_4K"

definition get_sz_from_desc :: "u64 \<Rightarrow> u64" where
  "get_sz_from_desc desc = EXTRACT ADDR_RDESC_4K_SZ desc"

definition set_addr_in_desc :: "u64 \<Rightarrow> u64 \<Rightarrow> u64" where
  "set_addr_in_desc desc addr = (
     let new_desc = desc AND NOT get_addr_mask
     in new_desc OR INPLACE ADDR_RDESC_4K_ADDR (drop_bit 12 addr))"

definition set_cnt_in_desc :: "u64 \<Rightarrow> u64 \<Rightarrow> u64" where
  "set_cnt_in_desc desc cnt = (
     let new_desc = desc AND NOT get_cnt_mask
     in new_desc OR INPLACE ADDR_RDESC_4K_CNT cnt)"

definition set_sz_in_desc :: "u64 \<Rightarrow> u64 \<Rightarrow> u64" where
  "set_sz_in_desc desc sz = (
     let new_desc = desc AND NOT get_sz_mask
     in new_desc OR INPLACE ADDR_RDESC_4K_SZ sz)"

definition set_st_in_desc :: "u64 \<Rightarrow> u64 \<Rightarrow> u64" where
  "set_st_in_desc desc st = (
     let new_desc = desc AND NOT (MASK ADDR_RDESC_4K_ST)
     in new_desc OR INPLACE ADDR_RDESC_4K_ST st)"

definition max_block_count :: u64 where "max_block_count = MAX_BLOCK_CNT_4K"

definition increment_block_count :: "u64 \<Rightarrow> u64 option" where
  "increment_block_count desc = do {
     c_assert (desc \<noteq> 0);
     c_assert (get_cnt_from_desc desc < max_block_count);
     Some (desc + push_bit 2 1)
   }"

definition decrement_block_count :: "u64 \<Rightarrow> u64 option" where
  "decrement_block_count desc = do {
     c_assert (desc \<noteq> 0);
     c_assert (get_cnt_from_desc desc > 0);
     Some (desc - push_bit 2 1)
   }"

definition addr_list_sz_to_xlat_blk_sz :: "u64 \<Rightarrow> u64" where
  "addr_list_sz_to_xlat_blk_sz sz_enc = XLAT_BLOCK_SIZE (XLAT_TABLE_LEVEL_MAX - int (unat sz_enc))"

definition xlat_blk_sz_to_addr_list_sz :: "u64 \<Rightarrow> u64 option" where
  "xlat_blk_sz_to_addr_list_sz blk_size =
     find (\<lambda>sz_enc. addr_list_sz_to_xlat_blk_sz sz_enc = blk_size) [0, 1, 2, 3]"

definition desc_blk_size :: "u64 \<Rightarrow> u64" where
  "desc_blk_size desc = addr_list_sz_to_xlat_blk_sz (get_sz_from_desc desc)"

definition create_desc :: "u64 \<Rightarrow> u64 \<Rightarrow> u64 \<Rightarrow> u64 \<Rightarrow> u64 option" where
  "create_desc addr cnt blk_size st = do {
     sz \<leftarrow> xlat_blk_sz_to_addr_list_sz blk_size;
     let desc = 0;
     let desc = desc OR set_addr_in_desc desc addr;
     let desc = desc OR set_cnt_in_desc desc cnt;
     let desc = desc OR set_sz_in_desc desc sz;
     let desc = desc OR set_st_in_desc desc st;
     Some desc
   }"

definition desc_top_addr :: "u64 \<Rightarrow> u64" where
  "desc_top_addr desc = (
     let blk_size = desc_blk_size desc; base = get_addr_from_desc desc
     in base + get_cnt_from_desc desc * blk_size)"

definition desc_is_empty :: "u64 \<Rightarrow> bool" where
  "desc_is_empty desc \<longleftrightarrow> get_cnt_from_desc desc = 0"

subsection \<open>The list\<close>

datatype list_type = LIST_TYPE_INPUT | LIST_TYPE_OUTPUT

record addr_list =
  range_desc :: "u64 list"
  al_count :: nat
  cur_idx :: nat
  max_count :: nat
  al_type :: list_type

definition addr_list_init :: "list_type \<Rightarrow> nat \<Rightarrow> addr_list option" where
  "addr_list_init type max_cnt = do {
     c_assert (max_cnt > 0);
     c_assert (max_cnt \<le> ADDR_LIST_MAX_RANGES);
     Some \<lparr>range_desc = replicate ADDR_LIST_MAX_RANGES 0, al_count = 0, cur_idx = 0,
       max_count = max_cnt, al_type = type\<rparr>
   }"

definition al_update :: "addr_list \<Rightarrow> nat \<Rightarrow> u64 \<Rightarrow> addr_list option" where
  "al_update l i d = do {
     ds \<leftarrow> arr_set (range_desc l) i d;
     Some (l\<lparr>range_desc := ds\<rparr>)
   }"

definition add_block_to_current_idx ::
  "addr_list \<Rightarrow> u64 \<Rightarrow> u64 \<Rightarrow> u64 \<Rightarrow> (bool \<times> addr_list) option" where
  "add_block_to_current_idx l addr blk_size st = do {
     d \<leftarrow> arr_get (range_desc l) (cur_idx l);
     c_assert (\<not> desc_is_empty d);
     if blk_size \<noteq> desc_blk_size d then Some (False, l)
     else if st \<noteq> get_st_from_desc d then Some (False, l)
     else if get_cnt_from_desc d \<ge> max_block_count then Some (False, l)
     else if addr = get_addr_from_desc d - blk_size then do {
       d' \<leftarrow> increment_block_count (set_addr_in_desc d addr);
       l' \<leftarrow> al_update l (cur_idx l) d';
       Some (True, l')
     } else if addr = desc_top_addr d then do {
       d' \<leftarrow> increment_block_count d;
       l' \<leftarrow> al_update l (cur_idx l) d';
       Some (True, l')
     } else Some (False, l)
   }"

text \<open>The search for a range that takes the block; \<open>k\<close> ranges are left.\<close>

primrec add_block_loop :: "nat \<Rightarrow> addr_list \<Rightarrow> u64 \<Rightarrow> u64 \<Rightarrow> u64 \<Rightarrow> (bool \<times> addr_list) option" where
  "add_block_loop 0 l addr blk_size st = Some (False, l)"
| "add_block_loop (Suc k) l addr blk_size st = do {
     (added, l') \<leftarrow> add_block_to_current_idx l addr blk_size st;
     if added then Some (True, l')
     else add_block_loop k (l'\<lparr>cur_idx := cur_idx l' + 1\<rparr>) addr blk_size st
   }"

definition addr_list_add_block :: "addr_list \<Rightarrow> u64 \<Rightarrow> int \<Rightarrow> u64 \<Rightarrow> (bool \<times> addr_list) option" where
  "addr_list_add_block l block_addr rtt_level st = do {
     c_assert (al_type l = LIST_TYPE_OUTPUT);
     c_assert (rtt_level \<ge> 0 \<and> rtt_level \<le> XLAT_TABLE_LEVEL_MAX);
     c_assert (st = RMI_OP_MEM_DELEGATED \<or> st = RMI_OP_MEM_UNDELEGATED);
     let blk_size = XLAT_BLOCK_SIZE rtt_level;
     if \<not> ALIGNED block_addr blk_size then Some (False, l)
     else if al_count l = 0 then do {
       d \<leftarrow> create_desc block_addr 1 blk_size st;
       l' \<leftarrow> al_update l 0 d;
       Some (True, l'\<lparr>al_count := al_count l' + 1\<rparr>)
     } else do {
       (added, l') \<leftarrow> add_block_loop (al_count l) (l\<lparr>cur_idx := 0\<rparr>) block_addr blk_size st;
       if added then Some (True, l')
       else if al_count l' = max_count l' then Some (False, l')
       else do {
         d \<leftarrow> create_desc block_addr 1 blk_size st;
         l'' \<leftarrow> al_update l' (cur_idx l') d;
         Some (True, l''\<lparr>al_count := al_count l'' + 1\<rparr>)
       }
     }
   }"

definition desc_after_by_addr :: "u64 \<Rightarrow> u64 \<Rightarrow> bool" where
  "desc_after_by_addr a b = (
     let a_empty = desc_is_empty a; b_empty = desc_is_empty b in
     if a_empty \<noteq> b_empty then a_empty
     else if a_empty then False
     else get_addr_from_desc a > get_addr_from_desc b)"

text \<open>The inner loop of the sort returns the array and the place of \<open>temp\<close>.\<close>

primrec sort_shift :: "nat \<Rightarrow> u64 \<Rightarrow> u64 list \<Rightarrow> (u64 list \<times> nat) option" where
  "sort_shift 0 temp ds = Some (ds, 0)"
| "sort_shift (Suc j) temp ds = do {
     d \<leftarrow> arr_get ds j;
     if desc_after_by_addr d temp then do {
       ds' \<leftarrow> arr_set ds (Suc j) d;
       sort_shift j temp ds'
     } else Some (ds, Suc j)
   }"

fun sort_loop :: "nat list \<Rightarrow> u64 list \<Rightarrow> u64 list option" where
  "sort_loop [] ds = Some ds"
| "sort_loop (i # rest) ds = do {
     temp \<leftarrow> arr_get ds i;
     (ds', j) \<leftarrow> sort_shift i temp ds;
     ds'' \<leftarrow> (if i \<noteq> j then arr_set ds' j temp else Some ds');
     sort_loop rest ds''
   }"

definition addr_list_sort_by_addr :: "addr_list \<Rightarrow> addr_list option" where
  "addr_list_sort_by_addr l = do {
     c_assert (al_type l = LIST_TYPE_OUTPUT);
     ds \<leftarrow> sort_loop [1 ..< al_count l] (range_desc l);
     Some (l\<lparr>range_desc := ds, cur_idx := 0\<rparr>)
   }"

definition addr_list_add_desc :: "addr_list \<Rightarrow> u64 \<Rightarrow> (bool \<times> addr_list) option" where
  "addr_list_add_desc l desc = do {
     c_assert (al_type l = LIST_TYPE_INPUT);
     if al_count l = max_count l then Some (False, l)
     else do {
       let addr = get_addr_from_desc desc;
       let cnt = get_cnt_from_desc desc;
       let blk_size = desc_blk_size desc;
       let st = get_st_from_desc desc;
       d \<leftarrow> create_desc addr cnt blk_size st;
       l' \<leftarrow> al_update l (al_count l) d;
       Some (True, l'\<lparr>al_count := al_count l' + 1\<rparr>)
     }
   }"

text \<open>The next range that is not empty; \<open>k\<close> ranges are left.\<close>

primrec skip_empty :: "nat \<Rightarrow> u64 list \<Rightarrow> nat \<Rightarrow> nat option" where
  "skip_empty 0 ds i = Some i"
| "skip_empty (Suc k) ds i = do {
     d \<leftarrow> arr_get ds i;
     if desc_is_empty d then skip_empty k ds (i + 1) else Some i
   }"

text \<open>The block removed, if any, is returned as address, level and state.\<close>

definition addr_list_reduce_first_block ::
  "addr_list \<Rightarrow> ((u64 \<times> int \<times> u64) option \<times> addr_list) option" where
  "addr_list_reduce_first_block l = do {
     c_assert (al_type l = LIST_TYPE_INPUT);
     if al_count l = 0 then Some (None, l)
     else do {
       idx \<leftarrow> skip_empty (al_count l - cur_idx l) (range_desc l) (cur_idx l);
       let l = l\<lparr>cur_idx := idx\<rparr>;
       if cur_idx l = al_count l then Some (None, l)
       else do {
         c_assert (cur_idx l < al_count l);
         d \<leftarrow> arr_get (range_desc l) (cur_idx l);
         let blk_size = desc_blk_size d;
         let block_addr = get_addr_from_desc d;
         let rtt_level = XLAT_TABLE_LEVEL_MAX - int (unat (get_sz_from_desc d));
         let st = get_st_from_desc d;
         d' \<leftarrow> decrement_block_count (set_addr_in_desc d (block_addr + blk_size));
         l' \<leftarrow> al_update l (cur_idx l) d';
         Some (Some (block_addr, rtt_level, st), l')
       }
     }
   }"

primrec all_empty_from :: "nat \<Rightarrow> u64 list \<Rightarrow> nat \<Rightarrow> unit option" where
  "all_empty_from 0 ds j = Some ()"
| "all_empty_from (Suc k) ds j = do {
     d \<leftarrow> arr_get ds j;
     c_assert (desc_is_empty d);
     all_empty_from k ds (j + 1)
   }"

definition addr_list_reduce_contig_block ::
  "addr_list \<Rightarrow> ((u64 \<times> u64 \<times> u64) option \<times> addr_list) option" where
  "addr_list_reduce_contig_block l = do {
     c_assert (al_type l = LIST_TYPE_INPUT);
     idx \<leftarrow> skip_empty (al_count l) (range_desc l) 0;
     if idx = al_count l then Some (None, l)
     else do {
       all_empty_from (al_count l - (idx + 1)) (range_desc l) (idx + 1);
       d \<leftarrow> arr_get (range_desc l) idx;
       let blk_size = desc_blk_size d;
       let cnt = get_cnt_from_desc d;
       let base_addr = get_addr_from_desc d;
       let total_size = cnt * blk_size;
       let st = get_st_from_desc d;
       c_assert (IS_POWER_OF_TWO total_size);
       c_assert (ALIGNED base_addr total_size);
       l' \<leftarrow> al_update l idx (set_cnt_in_desc d 0);
       Some (Some (base_addr, total_size, st), l')
     }
   }"

definition addr_list_peek_desc :: "addr_list \<Rightarrow> nat \<Rightarrow> (u64 \<times> int \<times> u64 \<times> u64) option option" where
  "addr_list_peek_desc l idx =
     (if idx \<ge> al_count l then Some None
      else do {
        d \<leftarrow> arr_get (range_desc l) idx;
        Some (Some (get_addr_from_desc d, XLAT_LVL_FROM_ADR_LIST_SZ (get_sz_from_desc d),
          get_cnt_from_desc d, get_st_from_desc d))
      })"

text \<open>
  The loop of the validation over the remaining ranges, with the number of ranges found valid
  so far and the memory they describe. The result is \<open>None\<close> for an invalid list.
\<close>

fun validate_loop :: "u64 list \<Rightarrow> bool \<Rightarrow> u64 \<Rightarrow> nat \<Rightarrow> u64 \<Rightarrow> u64 option" where
  "validate_loop [] is_contig state valid_count total_mem = Some total_mem"
| "validate_loop (d # ds) is_contig state valid_count total_mem =
     (if get_cnt_from_desc d = 0 then validate_loop ds is_contig state valid_count total_mem
      else let valid_count = valid_count + 1; contig_blk = desc_blk_size d * get_cnt_from_desc d in
        if is_contig \<and> valid_count > 1 then None
        else if \<not> ALIGNED (get_addr_from_desc d) (desc_blk_size d) then None
        else if \<not> IS_VALID_XLAT_BLOCK_SIZE (desc_blk_size d) then None
        else if get_cnt_from_desc d > get_max_block_cnt then None
        else if state \<noteq> RMI_OP_MEM_CONDITIONAL \<and> get_st_from_desc d \<noteq> state then None
        else if state = RMI_OP_MEM_CONDITIONAL \<and> get_st_from_desc d \<noteq> RMI_OP_MEM_DELEGATED \<and>
                get_st_from_desc d \<noteq> RMI_OP_MEM_UNDELEGATED then None
        else if is_contig \<and> \<not> IS_POWER_OF_TWO contig_blk then None
        else if is_contig \<and> \<not> ALIGNED (get_addr_from_desc d) contig_blk then None
        else validate_loop ds is_contig state valid_count
               (total_mem + desc_blk_size d * get_cnt_from_desc d))"

definition addr_list_validate :: "addr_list \<Rightarrow> bool \<Rightarrow> u64 \<Rightarrow> u64 option option" where
  "addr_list_validate l is_contig state = do {
     c_assert (al_type l = LIST_TYPE_INPUT);
     c_assert (state = RMI_OP_MEM_DELEGATED \<or> state = RMI_OP_MEM_UNDELEGATED \<or>
       state = RMI_OP_MEM_CONDITIONAL);
     c_assert (al_count l \<le> ADDR_LIST_MAX_RANGES);
     Some (validate_loop (take (al_count l) (range_desc l)) is_contig state 0 0)
   }"

text \<open>
  Copies from and to the host go through the access functions of Non-secure memory of
  \<^verbatim>\<open>buffer.c\<close>, which check the alignment and the size before the access. Mapping the granule and
  the trapped copy, which may fault, are parameters: \<open>ns_write\<close> takes the granule, the byte offset
  and the words and returns the memory after the write, or \<open>None\<close> if the granule cannot be mapped
  or the access faults; \<open>ns_read\<close> takes the granule, the byte offset and the number of words.
\<close>

definition ns_access_ok :: "u64 \<Rightarrow> u32 \<Rightarrow> u64 \<Rightarrow> bool" where
  "ns_access_ok ns_addr offset sz \<longleftrightarrow>
     GRANULE_ALIGNED ns_addr \<and> ALIGNED sz 8 \<and> ALIGNED (ucast offset :: u64) 8 \<and>
     sz \<le> GRANULE_SIZE - ucast (offset AND ucast (NOT GRANULE_MASK))"

definition ns_buffer_write_addr ::
  "(u64 \<Rightarrow> nat \<Rightarrow> u64 list \<Rightarrow> 'm \<Rightarrow> 'm option) \<Rightarrow> u64 \<Rightarrow> u32 \<Rightarrow> u64 list \<Rightarrow> 'm \<Rightarrow> 'm option" where
  "ns_buffer_write_addr ns_write ns_addr offset src mem =
     (if \<not> ns_access_ok ns_addr offset (of_nat (length src) * 8) then None
      else ns_write ns_addr (unat (offset AND ucast (NOT GRANULE_MASK))) src mem)"

definition ns_buffer_read_addr ::
  "(u64 \<Rightarrow> nat \<Rightarrow> nat \<Rightarrow> u64 list option) \<Rightarrow> u64 \<Rightarrow> u32 \<Rightarrow> nat \<Rightarrow> u64 list option" where
  "ns_buffer_read_addr ns_read ns_addr offset n =
     (if \<not> ns_access_ok ns_addr offset (of_nat n * 8) then None
      else ns_read ns_addr (unat (offset AND ucast (NOT GRANULE_MASK))) n)"

definition addr_list_partial_copy_to_host ::
  "(u64 \<Rightarrow> nat \<Rightarrow> u64 list \<Rightarrow> 'm \<Rightarrow> 'm option) \<Rightarrow> 'm \<Rightarrow> addr_list \<Rightarrow> u64 \<Rightarrow> nat \<Rightarrow>
   ((nat \<times> addr_list \<times> 'm) option) option" where
  "addr_list_partial_copy_to_host ns_write mem l ns_list_addr ns_list_count = do {
     c_assert (al_type l = LIST_TYPE_OUTPUT);
     let ns_list_offset = (ns_list_addr AND NOT GRANULE_MASK) div 8;
     let list_count = al_count l;
     c_assert (ALIGNED ns_list_addr 8);
     let granule_remaining = ADDR_LIST_MAX_RANGES - unat ns_list_offset;
     let list_count = min list_count ns_list_count;
     let list_count = min list_count granule_remaining;
     case ns_buffer_write_addr ns_write (ns_list_addr AND GRANULE_MASK) (ucast (ns_list_offset * 8))
            (take list_count (range_desc l)) mem of
       None \<Rightarrow> Some None
     | Some mem' \<Rightarrow> do {
         let cnt = al_count l - list_count;
         let moved = take cnt (drop list_count (range_desc l));
         Some (Some (list_count,
           l\<lparr>al_count := cnt, range_desc := moved @ drop cnt (range_desc l)\<rparr>, mem'))
       }
   }"

definition addr_list_copy_from_host ::
  "(u64 \<Rightarrow> nat \<Rightarrow> nat \<Rightarrow> u64 list option) \<Rightarrow> addr_list \<Rightarrow> u64 \<Rightarrow> nat \<Rightarrow> (bool \<times> addr_list) option" where
  "addr_list_copy_from_host ns_read l ns_list_addr ns_list_count = do {
     c_assert (al_type l = LIST_TYPE_INPUT);
     let ns_list_offset = (ns_list_addr AND NOT GRANULE_MASK) div 8;
     c_assert (al_count l = 0);
     c_assert (unat ns_list_offset + ns_list_count \<le> ADDR_LIST_MAX_RANGES);
     c_assert (ALIGNED ns_list_addr 8);
     case ns_buffer_read_addr ns_read (ns_list_addr AND GRANULE_MASK) (ucast (ns_list_offset * 8)) ns_list_count of
       None \<Rightarrow> Some (False, l)
     | Some ds \<Rightarrow> Some (True, l\<lparr>range_desc := ds @ drop ns_list_count (range_desc l),
         al_count := ns_list_count\<rparr>)
   }"

definition addr_list_is_empty :: "addr_list \<Rightarrow> bool" where
  "addr_list_is_empty l \<longleftrightarrow> al_count l = 0"

subsection \<open>Fields of a descriptor\<close>

lemma bit_get_addr: "bit (get_addr_from_desc d) n \<longleftrightarrow> 12 \<le> n \<and> n < 52 \<and> bit d n"
  by (auto simp: get_addr_from_desc_def bit_simps bit_EXTRACT)

lemma bit_set_addr:
  "bit (set_addr_in_desc d a) n \<longleftrightarrow>
     (if 12 \<le> n \<and> n < 52 then bit a n else bit d n \<or> 52 \<le> n \<and> bit a n)"
  by (auto simp: set_addr_in_desc_def get_addr_mask_def bit_simps bit_MASK bit_INPLACE Let_def
      dest: bit_imp_le_length)

lemma field_eqI:
  assumes "\<And>n. sh \<le> n \<Longrightarrow> n < sh + w \<Longrightarrow> n < 64 \<Longrightarrow> bit d n = bit d' n"
  shows "EXTRACT (sh, w) d = EXTRACT (sh, w) d'"
  by (rule bit_word_eqI) (use assms in \<open>auto simp: bit_EXTRACT\<close>)

lemma get_addr_set_addr:
  assumes "ALIGNED a (2 ^ 12)"
  shows "get_addr_from_desc (set_addr_in_desc d a) = take_bit 52 a"
  by (rule bit_word_eqI) (use assms [unfolded ALIGNED_exp] in \<open>auto simp: bit_get_addr bit_set_addr bit_simps not_le\<close>)

lemma bit_above:
  assumes "unat a < 2 ^ k" "k \<le> n"
  shows "\<not> bit a n"
  using bit_unat_less [OF assms(1), of n] assms(2) by auto

lemma set_addr_other:
  "get_cnt_from_desc (set_addr_in_desc d a) = get_cnt_from_desc d"
  "get_sz_from_desc (set_addr_in_desc d a) = get_sz_from_desc d"
  "unat a < 2 ^ 62 \<Longrightarrow> get_st_from_desc (set_addr_in_desc d a) = get_st_from_desc d"
  unfolding get_cnt_from_desc_def get_sz_from_desc_def get_st_from_desc_def
  by (rule field_eqI, use bit_above [of a 62] in \<open>auto simp: bit_set_addr\<close>)+

lemma desc_blk_size_set_addr: "desc_blk_size (set_addr_in_desc d a) = desc_blk_size d"
  by (simp add: desc_blk_size_def set_addr_other)

text \<open>The count and the size encoding are the low 12 bits.\<close>

lemma low_bits:
  "unat (take_bit 12 d) = 4 * unat (get_cnt_from_desc d) + unat (get_sz_from_desc d)"
  "unat (get_sz_from_desc d) < 4" "unat (get_cnt_from_desc d) < 1024"
proof -
  have c: "get_cnt_from_desc d = drop_bit 2 (take_bit 12 d)"
    unfolding get_cnt_from_desc_def by (rule bit_word_eqI) (auto simp: bit_EXTRACT bit_simps add.commute)
  have s: "get_sz_from_desc d = take_bit 2 (take_bit 12 d)"
    unfolding get_sz_from_desc_def by (rule bit_word_eqI) (auto simp: bit_EXTRACT bit_simps)
  have "unat (drop_bit 2 (take_bit 12 d)) = unat (take_bit 12 d) div 4"
    unfolding unat_drop_bit_eq unfolding drop_bit_eq_div by simp
  moreover have "unat (take_bit 2 (take_bit 12 d)) = unat (take_bit 12 d) mod 4"
    unfolding unsigned_take_bit_eq [of 2] unfolding take_bit_eq_mod by simp
  moreover have "unat (take_bit 12 d) < 2 ^ 12"
    by (rule unat_less_if_bits) (simp add: bit_simps)
  ultimately show "unat (take_bit 12 d) = 4 * unat (get_cnt_from_desc d) + unat (get_sz_from_desc d)"
    "unat (get_sz_from_desc d) < 4" "unat (get_cnt_from_desc d) < 1024"
    unfolding c s by auto
qed

lemma high_eq:
  assumes "drop_bit 12 d' = drop_bit 12 d"
  shows "get_addr_from_desc d' = get_addr_from_desc d" "get_st_from_desc d' = get_st_from_desc d"
proof -
  have "bit d' n = bit d n" if "12 \<le> n" for n
    using arg_cong [OF assms, of "\<lambda>w. bit w (n - 12)"] that by (simp add: bit_drop_bit_eq)
  then show "get_addr_from_desc d' = get_addr_from_desc d" "get_st_from_desc d' = get_st_from_desc d"
    unfolding get_st_from_desc_def
    by (auto intro!: bit_word_eqI field_eqI simp: bit_get_addr)
qed

lemma low_eq:
  assumes "unat (take_bit 12 d) = 4 * c + s" "s < 4"
  shows "unat (get_cnt_from_desc d) = c" "unat (get_sz_from_desc d) = s"
  using assms low_bits(1,2) [of d] by presburger+

lemma low_12: "unat (take_bit 12 d) < 4096"
  using unat_less_if_bits [of "take_bit 12 d" 12] by (simp add: bit_simps)

lemma increment_fields:
  assumes "get_cnt_from_desc d < 1023" "d \<noteq> 0"
  obtains d' where "increment_block_count d = Some d'"
    "get_addr_from_desc d' = get_addr_from_desc d" "get_st_from_desc d' = get_st_from_desc d"
    "get_cnt_from_desc d' = get_cnt_from_desc d + 1" "get_sz_from_desc d' = get_sz_from_desc d"
proof -
  have c: "unat (get_cnt_from_desc d) < 1023" using assms(1) by (simp add: word_less_nat_alt)
  then have lt: "unat (take_bit 12 d) + unat (4 :: u64) < 2 ^ 12"
    using low_bits(1,2) [of d] by simp
  note f = low_field_add [OF lt]
  have "unat (take_bit 12 (d + 4)) = 4 * (unat (get_cnt_from_desc d) + 1) + unat (get_sz_from_desc d)"
    using lt low_bits(1) [of d] by (simp add: f(1) unat_word_ariths)
  note e = low_eq [OF this low_bits(2)]
  have "increment_block_count d = Some (d + 4)"
    using assms by (simp add: increment_block_count_def max_block_count_def MAX_BLOCK_CNT_4K_def)
  then show ?thesis
  proof (rule that)
    show "get_addr_from_desc (d + 4) = get_addr_from_desc d" "get_st_from_desc (d + 4) = get_st_from_desc d"
      by (rule high_eq, simp add: f(2))+
    show "get_cnt_from_desc (d + 4) = get_cnt_from_desc d + 1"
      using e(1) c by (simp add: word_unat_eq_iff unat_word_ariths)
    show "get_sz_from_desc (d + 4) = get_sz_from_desc d" using e(2) by (simp only: word_unat_eq_iff)
  qed
qed

lemma decrement_fields:
  assumes "get_cnt_from_desc d \<noteq> 0"
  obtains d' where "decrement_block_count d = Some d'"
    "get_addr_from_desc d' = get_addr_from_desc d" "get_st_from_desc d' = get_st_from_desc d"
    "get_cnt_from_desc d' = get_cnt_from_desc d - 1" "get_sz_from_desc d' = get_sz_from_desc d"
proof -
  have c: "0 < unat (get_cnt_from_desc d)" using assms by (simp add: unat_gt_0)
  then have le: "4 \<le> take_bit 12 d" using low_bits(1) [of d] by (simp add: word_le_nat_alt)
  note f = low_field_sub [OF le]
  have "unat (take_bit 12 (d - 4)) = 4 * (unat (get_cnt_from_desc d) - 1) + unat (get_sz_from_desc d)"
    using f(1) le c low_bits(1) [of d] by (simp add: unat_sub diff_mult_distrib2)
  note e = low_eq [OF this low_bits(2)]
  have "d \<noteq> 0" using assms by (auto simp: get_cnt_from_desc_def)
  then have "decrement_block_count d = Some (d - 4)"
    using assms by (simp add: decrement_block_count_def word_neq_0_conv)
  then show ?thesis
  proof (rule that)
    show "get_addr_from_desc (d - 4) = get_addr_from_desc d" "get_st_from_desc (d - 4) = get_st_from_desc d"
      using f(2) by (auto intro: high_eq)
    show "get_cnt_from_desc (d - 4) = get_cnt_from_desc d - 1"
      using e(1) c by (simp add: word_unat_eq_iff unat_minus_one assms)
    show "get_sz_from_desc (d - 4) = get_sz_from_desc d" using e(2) by (simp only: word_unat_eq_iff)
  qed
qed

subsection \<open>Block sizes\<close>

lemma level_cases:
  assumes "0 \<le> level" "level \<le> (3 :: int)"
  shows "level \<in> {0, 1, 2, 3}"
  using assms by auto

lemma sz_cases: "get_sz_from_desc d \<in> {0, 1, 2, 3}"
proof -
  have "unat (get_sz_from_desc d) \<in> {0, 1, 2, 3}" using low_bits(2) [of d] by auto
  then show ?thesis by (auto simp: word_unat_eq_iff)
qed

lemma block_size_values:
  "XLAT_BLOCK_SIZE 0 = 2 ^ 39" "XLAT_BLOCK_SIZE 1 = 2 ^ 30" "XLAT_BLOCK_SIZE 2 = 2 ^ 21"
  "XLAT_BLOCK_SIZE 3 = 2 ^ 12"
  by (simp_all add: XLAT_BLOCK_SIZE_def)

lemma sz_to_blk_values:
  "addr_list_sz_to_xlat_blk_sz 0 = 2 ^ 12" "addr_list_sz_to_xlat_blk_sz 1 = 2 ^ 21"
  "addr_list_sz_to_xlat_blk_sz 2 = 2 ^ 30" "addr_list_sz_to_xlat_blk_sz 3 = 2 ^ 39"
  by (simp_all add: addr_list_sz_to_xlat_blk_sz_def XLAT_BLOCK_SIZE_def)

lemma blk_to_sz:
  assumes "0 \<le> level" "level \<le> 3"
  shows "xlat_blk_sz_to_addr_list_sz (XLAT_BLOCK_SIZE level) = Some (word_of_int (3 - level))"
  using level_cases [OF assms]
  by (auto simp: xlat_blk_sz_to_addr_list_sz_def block_size_values sz_to_blk_values)

definition desc_level :: "u64 \<Rightarrow> int" where
  "desc_level d = 3 - int (unat (get_sz_from_desc d))"

lemma desc_level: "0 \<le> desc_level d" "desc_level d \<le> 3" "desc_blk_size d = XLAT_BLOCK_SIZE (desc_level d)"
  "xlat_blk_sz_to_addr_list_sz (desc_blk_size d) = Some (get_sz_from_desc d)"
  using sz_cases [of d]
  by (auto simp: desc_level_def desc_blk_size_def addr_list_sz_to_xlat_blk_sz_def
      xlat_blk_sz_to_addr_list_sz_def XLAT_BLOCK_SIZE_def)

lemma blk_size_exp: "\<exists>k \<in> {12, 21, 30, 39}. desc_blk_size d = 2 ^ k"
  using sz_cases [of d] by (auto simp: desc_blk_size_def sz_to_blk_values)

lemma XLAT_BLOCK_SIZE_inj:
  assumes "0 \<le> l" "l \<le> 3" "0 \<le> l'" "l' \<le> 3" "XLAT_BLOCK_SIZE l = XLAT_BLOCK_SIZE l'"
  shows "l = l'"
  using level_cases [OF assms(1,2)] level_cases [OF assms(3,4)] assms(5)
  by (auto simp: block_size_values)

lemma or_set: "d OR ((d AND NOT m) OR x) = d OR x" for d :: u64
  by (rule bit_eqI) (auto simp: bit_simps)

lemma create_desc_or:
  assumes "0 \<le> level" "level \<le> 3"
  shows "create_desc addr cnt (XLAT_BLOCK_SIZE level) st = Some (push_bit 12 (drop_bit 12 addr) OR
    push_bit 2 cnt OR word_of_int (3 - level) OR push_bit 62 st)"
  by (simp add: create_desc_def blk_to_sz [OF assms] Let_def set_addr_in_desc_def set_cnt_in_desc_def
      set_sz_in_desc_def set_st_in_desc_def or_set INPLACE_def or.assoc)

lemma create_desc_fields:
  assumes "0 \<le> level" "level \<le> 3" "ALIGNED addr (2 ^ 12)" "unat addr < 2 ^ 52"
    and "unat cnt < 2 ^ 10" "unat st < 2 ^ 2"
  obtains d where "create_desc addr cnt (XLAT_BLOCK_SIZE level) st = Some d"
    "get_addr_from_desc d = addr" "get_cnt_from_desc d = cnt" "get_st_from_desc d = st"
    "desc_level d = level"
proof -
  define sz where "sz = (word_of_int (3 - level) :: u64)"
  define d where "d = push_bit 12 (drop_bit 12 addr) OR push_bit 2 cnt OR sz OR push_bit 62 st"
  have d: "create_desc addr cnt (XLAT_BLOCK_SIZE level) st = Some d"
    unfolding d_def sz_def by (rule create_desc_or [OF assms(1,2)])
  have szu: "unat sz = nat (3 - level)" "unat sz < 2 ^ 2" using level_cases [OF assms(1,2)] by (auto simp: sz_def)
  have bits: "bit addr n \<Longrightarrow> 12 \<le> n \<and> n < 52" "bit cnt n \<Longrightarrow> n < 10" "bit st n \<Longrightarrow> n < 2"
    "bit sz n \<Longrightarrow> n < 2" for n
    using bit_unat_less [OF assms(4), of n] assms(3) [unfolded ALIGNED_exp] bit_unat_less [OF assms(5), of n]
      bit_unat_less [OF assms(6), of n] bit_unat_less [OF szu(2), of n] by (auto simp: not_le [symmetric])
  have b: "bit d n \<longleftrightarrow> n < 2 \<and> bit sz n \<or> 2 \<le> n \<and> n < 12 \<and> bit cnt (n - 2) \<or> bit addr n \<or>
      62 \<le> n \<and> n < 64 \<and> bit st (n - 62)" for n
    using bits [of n] bits(2) [of "n - 2"] bits(3) [of "n - 62"]
    by (auto simp: d_def bit_simps bit_imp_le_length)
  show ?thesis
  proof (rule that [OF d])
    show "get_addr_from_desc d = addr"
      by (rule bit_word_eqI) (use bits(1) in \<open>auto simp: bit_get_addr b\<close>)
    show "get_cnt_from_desc d = cnt" unfolding get_cnt_from_desc_def
      by (rule bit_word_eqI) (auto simp: bit_EXTRACT b dest: bits)
    show "get_st_from_desc d = st" unfolding get_st_from_desc_def
      by (rule bit_word_eqI) (auto simp: bit_EXTRACT b dest: bits)
    have "get_sz_from_desc d = sz" unfolding get_sz_from_desc_def
      by (rule bit_word_eqI) (auto simp: bit_EXTRACT b dest: bits)
    then show "desc_level d = level" using assms(1,2) by (simp add: desc_level_def szu(1))
  qed
qed

subsection \<open>The blocks of a list\<close>

text \<open>
  A descriptor stands for its blocks, from its base address upwards. The address field has
  bits 51 to 12, so the addresses of a range that runs over the end of the physical address
  space continue from zero.
\<close>

definition block_at :: "u64 \<Rightarrow> nat \<Rightarrow> u64 \<times> int \<times> u64" where
  "block_at d k = (take_bit 52 (get_addr_from_desc d + of_nat k * desc_blk_size d), desc_level d,
     get_st_from_desc d)"

definition desc_blocks :: "u64 \<Rightarrow> (u64 \<times> int \<times> u64) list" where
  "desc_blocks d = map (block_at d) [0 ..< unat (get_cnt_from_desc d)]"

definition blocks :: "addr_list \<Rightarrow> (u64 \<times> int \<times> u64) list" where
  "blocks l = concat (map desc_blocks (take (al_count l) (range_desc l)))"

lemma upt_Suc_map: "map f [0 ..< Suc n] = f 0 # map (\<lambda>k. f (Suc k)) [0 ..< n]"
  by (simp add: upt_conv_Cons map_Suc_upt [symmetric] del: upt_Suc)

lemma take_bit_addr: "take_bit 52 (get_addr_from_desc d) = get_addr_from_desc d"
  by (rule bit_word_eqI) (auto simp: bit_simps bit_get_addr)

text \<open>One block added below a range, above it, and one removed from its bottom.\<close>

lemma desc_blocks_front:
  assumes "get_addr_from_desc d' = get_addr_from_desc d - desc_blk_size d"
    and "get_cnt_from_desc d' = get_cnt_from_desc d + 1" "unat (get_cnt_from_desc d) < 1023"
    and "get_sz_from_desc d' = get_sz_from_desc d" "get_st_from_desc d' = get_st_from_desc d"
  shows "desc_blocks d' = (get_addr_from_desc d', desc_level d, get_st_from_desc d) # desc_blocks d"
proof -
  have c: "unat (get_cnt_from_desc d') = Suc (unat (get_cnt_from_desc d))"
    using assms(2,3) by (simp add: unat_word_ariths)
  have s: "desc_blk_size d' = desc_blk_size d" "desc_level d' = desc_level d"
    by (simp_all add: desc_blk_size_def desc_level_def assms(4))
  have "block_at d' (Suc k) = block_at d k" for k
    by (simp add: block_at_def s assms(1,5) algebra_simps)
  then show ?thesis
    by (simp add: desc_blocks_def c upt_Suc_map block_at_def [of d' 0] take_bit_addr s assms(5)
        del: upt_Suc)
qed

lemma desc_blocks_back:
  assumes "get_addr_from_desc d' = get_addr_from_desc d"
    and "get_cnt_from_desc d' = get_cnt_from_desc d + 1" "unat (get_cnt_from_desc d) < 1023"
    and "get_sz_from_desc d' = get_sz_from_desc d" "get_st_from_desc d' = get_st_from_desc d"
  shows "desc_blocks d' = desc_blocks d @ [(take_bit 52 (desc_top_addr d), desc_level d, get_st_from_desc d)]"
proof -
  have c: "unat (get_cnt_from_desc d') = Suc (unat (get_cnt_from_desc d))"
    using assms(2,3) by (simp add: unat_word_ariths)
  have s: "desc_blk_size d' = desc_blk_size d" "desc_level d' = desc_level d"
    by (simp_all add: desc_blk_size_def desc_level_def assms(4))
  have "block_at d' = block_at d" by (rule ext) (simp add: block_at_def s assms(1,5))
  then show ?thesis by (simp add: desc_blocks_def c block_at_def desc_top_addr_def)
qed

lemma block_size_exp:
  assumes "0 \<le> level" "level \<le> 3"
  obtains k where "12 \<le> k" "k \<le> 39" "XLAT_BLOCK_SIZE level = 2 ^ k"
proof (rule that)
  show "XLAT_BLOCK_SIZE level = 2 ^ nat (12 + (3 - level) * 9)"
    by (simp add: XLAT_BLOCK_SIZE_def)
qed (use assms in auto)

lemma ALIGNED_blk:
  assumes "ALIGNED a (XLAT_BLOCK_SIZE level)" "0 \<le> level" "level \<le> 3"
  shows "ALIGNED a (2 ^ 12)"
proof -
  obtain k where k: "12 \<le> k" "XLAT_BLOCK_SIZE level = 2 ^ k"
    by (rule block_size_exp [OF assms(2,3)])
  show ?thesis using assms(1) k(1) unfolding k(2) ALIGNED_exp by auto
qed

end
