(* ===== verification/Addr_List_Props.thy ===== *)
theory Addr_List_Props
  imports Addr_List "HOL-Library.Product_Lexorder"
begin

text \<open>
  Correctness of the address list operations in terms of the memory blocks that a list
  stands for.
\<close>

subsection \<open>Adding blocks\<close>

lemma mset_concat_update:
  "i < length xs \<Longrightarrow>
   mset (concat (map f (xs[i := y]))) + mset (f (xs ! i)) = mset (concat (map f xs)) + mset (f y)"
proof (induction xs arbitrary: i)
  case (Cons x xs)
  show ?case
  proof (cases i)
    case 0
    then show ?thesis by (simp add: ac_simps)
  next
    case (Suc k)
    then have "k < length xs" using Cons.prems by simp
    from Cons.IH [OF this] Suc show ?thesis by (simp add: add.assoc)
  qed
qed simp

definition out_ok :: "addr_list \<Rightarrow> bool" where
  "out_ok l \<longleftrightarrow> al_type l = LIST_TYPE_OUTPUT \<and> length (range_desc l) = 512 \<and>
     al_count l \<le> max_count l \<and> max_count l \<le> 512 \<and>
     (\<forall>i < al_count l. \<not> desc_is_empty (range_desc l ! i))"

lemma blocks_update:
  assumes "i < al_count l" "al_count l \<le> length (range_desc l)"
    and "mset (desc_blocks d') = add_mset b (mset (desc_blocks (range_desc l ! i)))"
  shows "mset (blocks (l\<lparr>range_desc := (range_desc l)[i := d']\<rparr>)) = add_mset b (mset (blocks l))"
proof -
  let ?ds = "take (al_count l) (range_desc l)"
  have i: "i < length ?ds" "?ds ! i = range_desc l ! i" using assms(1,2) by simp_all
  show ?thesis
    using mset_concat_update [OF i(1), of desc_blocks d'] assms(3)
    by (simp add: blocks_def take_update_swap i(2))
qed

lemma cnt_max: "get_cnt_from_desc d < max_block_count \<longleftrightarrow> unat (get_cnt_from_desc d) < 1023"
  by (simp add: max_block_count_def MAX_BLOCK_CNT_4K_def word_less_nat_alt)

text \<open>A range takes a block exactly below it or exactly above it.\<close>

lemma extend_desc:
  assumes "\<not> desc_is_empty d" "get_cnt_from_desc d < max_block_count"
    and "desc_level d = level" "get_st_from_desc d = st"
    and "ALIGNED addr (2 ^ 12)" "unat addr < 2 ^ 52"
  shows "addr = get_addr_from_desc d - desc_blk_size d \<Longrightarrow>
      \<exists>d'. increment_block_count (set_addr_in_desc d addr) = Some d' \<and>
        desc_blocks d' = (addr, level, st) # desc_blocks d \<and> \<not> desc_is_empty d'"
    and "addr = desc_top_addr d \<Longrightarrow>
      \<exists>d'. increment_block_count d = Some d' \<and>
        desc_blocks d' = desc_blocks d @ [(addr, level, st)] \<and> \<not> desc_is_empty d'"
proof -
  have addr: "take_bit 52 addr = addr"
    by (rule bit_word_eqI) (use bit_unat_less [OF assms(6)] in \<open>auto simp: bit_simps\<close>)
  have c: "unat (get_cnt_from_desc d) < 1023" "get_cnt_from_desc d < 1023"
    using assms(2) [unfolded cnt_max] by (simp_all add: word_less_nat_alt)
  have nz: "get_cnt_from_desc d \<noteq> 0" using assms(1) by (simp add: desc_is_empty_def)
  have ne: "get_cnt_from_desc d + 1 \<noteq> 0" using c(1) by (auto simp: word_unat_eq_iff unat_word_ariths)
  have d0: "e \<noteq> 0" if "get_cnt_from_desc e = get_cnt_from_desc d" for e
    using nz that by (auto simp: get_cnt_from_desc_def)
  {
    assume a: "addr = get_addr_from_desc d - desc_blk_size d"
    let ?e = "set_addr_in_desc d addr"
    have e: "get_cnt_from_desc ?e = get_cnt_from_desc d" "get_sz_from_desc ?e = get_sz_from_desc d"
      "get_addr_from_desc ?e = addr" "get_st_from_desc ?e = get_st_from_desc d"
      using set_addr_other(1,2) [of d addr] set_addr_other(3) [of addr d] get_addr_set_addr [OF assms(5)] addr assms(6) by simp_all
    obtain d' where d': "increment_block_count ?e = Some d'"
      "get_addr_from_desc d' = get_addr_from_desc ?e" "get_st_from_desc d' = get_st_from_desc ?e"
      "get_cnt_from_desc d' = get_cnt_from_desc ?e + 1" "get_sz_from_desc d' = get_sz_from_desc ?e"
      by (rule increment_fields [of ?e]) (use c(2) e(1) d0 [OF e(1)] in auto)
    have "desc_blocks d' = (get_addr_from_desc d', desc_level d, get_st_from_desc d) # desc_blocks d"
      by (rule desc_blocks_front) (use d' e a c in simp_all)
    with d' e assms(3,4) ne
    show "\<exists>d'. increment_block_count ?e = Some d' \<and>
        desc_blocks d' = (addr, level, st) # desc_blocks d \<and> \<not> desc_is_empty d'"
      by (auto simp: desc_is_empty_def)
  }
  {
    assume a: "addr = desc_top_addr d"
    obtain d' where d': "increment_block_count d = Some d'"
      "get_addr_from_desc d' = get_addr_from_desc d" "get_st_from_desc d' = get_st_from_desc d"
      "get_cnt_from_desc d' = get_cnt_from_desc d + 1" "get_sz_from_desc d' = get_sz_from_desc d"
      by (rule increment_fields [of d]) (use c(2) d0 [OF refl] in auto)
    have "desc_blocks d' = desc_blocks d @ [(take_bit 52 (desc_top_addr d), desc_level d, get_st_from_desc d)]"
      by (rule desc_blocks_back) (use d' c in simp_all)
    with d' a addr assms(3,4) ne
    show "\<exists>d'. increment_block_count d = Some d' \<and>
        desc_blocks d' = desc_blocks d @ [(addr, level, st)] \<and> \<not> desc_is_empty d'"
      by (auto simp: desc_is_empty_def)
  }
qed

lemma add_to_idx:
  assumes "out_ok l" "cur_idx l < al_count l" "0 \<le> level" "level \<le> 3"
    and "ALIGNED addr (2 ^ 12)" "unat addr < 2 ^ 52"
  shows "\<exists>added l'. add_block_to_current_idx l addr (XLAT_BLOCK_SIZE level) st = Some (added, l') \<and>
    (if added then out_ok l' \<and> mset (blocks l') = add_mset (addr, level, st) (mset (blocks l)) else l' = l)"
proof -
  let ?d = "range_desc l ! cur_idx l"
  have len: "cur_idx l < length (range_desc l)" "al_count l \<le> length (range_desc l)"
    and ne: "\<not> desc_is_empty ?d" using assms(1,2) by (auto simp: out_ok_def)
  show ?thesis
  proof (cases "XLAT_BLOCK_SIZE level = desc_blk_size ?d \<and> st = get_st_from_desc ?d \<and>
      get_cnt_from_desc ?d < max_block_count \<and>
      (addr = get_addr_from_desc ?d - desc_blk_size ?d \<or> addr = desc_top_addr ?d)")
    case False
    then have "add_block_to_current_idx l addr (XLAT_BLOCK_SIZE level) st = Some (False, l)"
      using len ne by (auto simp: add_block_to_current_idx_def not_less)
    then show ?thesis by auto
  next
    case True
    then have "XLAT_BLOCK_SIZE (desc_level ?d) = XLAT_BLOCK_SIZE level"
      unfolding desc_level(3) [of ?d] by (elim conjE) (rule sym)
    then have lv: "desc_level ?d = level"
      by (rule XLAT_BLOCK_SIZE_inj [OF desc_level(1,2) assms(3,4)])
    have st: "get_st_from_desc ?d = st" and mx: "get_cnt_from_desc ?d < max_block_count" using True by auto
    note ext = extend_desc [OF ne mx lv st assms(5,6)]
    obtain d' where d': "add_block_to_current_idx l addr (XLAT_BLOCK_SIZE level) st =
        Some (True, l\<lparr>range_desc := (range_desc l)[cur_idx l := d']\<rparr>)"
      "mset (desc_blocks d') = add_mset (addr, level, st) (mset (desc_blocks ?d))" "\<not> desc_is_empty d'"
    proof (cases "addr = get_addr_from_desc ?d - desc_blk_size ?d")
      case below: True
      obtain d' where d': "increment_block_count (set_addr_in_desc ?d addr) = Some d'"
        "desc_blocks d' = (addr, level, st) # desc_blocks ?d" "\<not> desc_is_empty d'"
        using ext(1) [OF below] by blast
      have "add_block_to_current_idx l addr (XLAT_BLOCK_SIZE level) st =
          Some (True, l\<lparr>range_desc := (range_desc l)[cur_idx l := d']\<rparr>)"
        using True below len ne d'(1) unfolding add_block_to_current_idx_def al_update_def
        by (auto simp: not_le)
      then show ?thesis by (rule that) (use d' in simp_all)
    next
      case False
      with True have above: "addr = desc_top_addr ?d" by blast
      obtain d' where d': "increment_block_count ?d = Some d'"
        "desc_blocks d' = desc_blocks ?d @ [(addr, level, st)]" "\<not> desc_is_empty d'"
        using ext(2) [OF above] by blast
      have "add_block_to_current_idx l addr (XLAT_BLOCK_SIZE level) st =
          Some (True, l\<lparr>range_desc := (range_desc l)[cur_idx l := d']\<rparr>)"
        using True False above len ne d'(1) unfolding add_block_to_current_idx_def al_update_def
        by (auto simp: not_le)
      then show ?thesis by (rule that) (use d' in simp_all)
    qed
    let ?l = "l\<lparr>range_desc := (range_desc l)[cur_idx l := d']\<rparr>"
    have "out_ok ?l" using assms(1) d'(3) len(1) nth_list_update [OF len(1)] by (auto simp: out_ok_def)
    with blocks_update [OF assms(2) len(2) d'(2)] d'(1) show ?thesis by auto
  qed
qed

lemma add_loop:
  assumes "out_ok l" "cur_idx l + k = al_count l" "0 \<le> level" "level \<le> 3"
    and "ALIGNED addr (2 ^ 12)" "unat addr < 2 ^ 52"
  shows "\<exists>added l'. add_block_loop k l addr (XLAT_BLOCK_SIZE level) st = Some (added, l') \<and> out_ok l' \<and>
    (if added then mset (blocks l') = add_mset (addr, level, st) (mset (blocks l))
     else l' = l\<lparr>cur_idx := al_count l\<rparr>)"
  using assms(1,2)
proof (induction k arbitrary: l)
  case 0
  then show ?case by (cases l) auto
next
  case (Suc k)
  then have "cur_idx l < al_count l" by simp
  from add_to_idx [OF Suc.prems(1) this assms(3-6), of st] obtain added l' where l':
    "add_block_to_current_idx l addr (XLAT_BLOCK_SIZE level) st = Some (added, l')"
    "if added then out_ok l' \<and> mset (blocks l') = add_mset (addr, level, st) (mset (blocks l)) else l' = l"
    by blast
  show ?case
  proof (cases added)
    case True
    then show ?thesis using l' by auto
  next
    case False
    let ?l = "l\<lparr>cur_idx := cur_idx l + 1\<rparr>"
    have ok: "out_ok ?l" "cur_idx ?l + k = al_count ?l" using Suc.prems by (auto simp: out_ok_def)
    have b: "blocks ?l = blocks l" by (simp add: blocks_def)
    from Suc.IH [OF ok] obtain a l2 where
      "add_block_loop k ?l addr (XLAT_BLOCK_SIZE level) st = Some (a, l2)" "out_ok l2"
      "if a then mset (blocks l2) = add_mset (addr, level, st) (mset (blocks l))
       else l2 = l\<lparr>cur_idx := al_count l\<rparr>"
      unfolding b by auto
    then show ?thesis using False l' by (intro exI [of _ a] exI [of _ l2]) simp
  qed
qed

lemma append_desc:
  assumes "out_ok l" "al_count l < max_count l" "\<not> desc_is_empty d"
  shows "out_ok (l\<lparr>range_desc := (range_desc l)[al_count l := d], al_count := al_count l + 1\<rparr>)"
    and "blocks (l\<lparr>range_desc := (range_desc l)[al_count l := d], al_count := al_count l + 1\<rparr>) =
      blocks l @ desc_blocks d"
proof -
  have len: "al_count l < length (range_desc l)" using assms(1,2) by (simp add: out_ok_def)
  show "out_ok (l\<lparr>range_desc := (range_desc l)[al_count l := d], al_count := al_count l + 1\<rparr>)"
    using assms by (auto simp: out_ok_def nth_list_update less_Suc_eq)
  show "blocks (l\<lparr>range_desc := (range_desc l)[al_count l := d], al_count := al_count l + 1\<rparr>) =
      blocks l @ desc_blocks d"
    using len by (simp add: blocks_def take_Suc_conv_app_nth)
qed

text \<open>
  C12. Adding a block below \<open>2 ^ 52\<close> to a well-formed output list fails no assertion and keeps the
  list well-formed. If it reports success, the list stands for the blocks it stood for
  before and the new one, whether the block was merged below or above an existing range
  or got a descriptor of its own; if it reports failure, the blocks are unchanged, and the
  address was misaligned or no descriptor was free.
\<close>

theorem add_block_correct:
  assumes "out_ok l" "0 \<le> level" "level \<le> 3" "st = RMI_OP_MEM_DELEGATED \<or> st = RMI_OP_MEM_UNDELEGATED"
    and "unat addr < 2 ^ 52" "0 < max_count l"
  shows "\<exists>added l'. addr_list_add_block l addr level st = Some (added, l') \<and> out_ok l' \<and>
    (if added then mset (blocks l') = add_mset (addr, level, st) (mset (blocks l))
     else blocks l' = blocks l \<and>
       (\<not> ALIGNED addr (XLAT_BLOCK_SIZE level) \<or> al_count l = max_count l))"
proof (cases "ALIGNED addr (XLAT_BLOCK_SIZE level)")
  case False
  then show ?thesis using assms by (auto simp: addr_list_add_block_def out_ok_def)
next
  case True
  have al: "ALIGNED addr (2 ^ 12)" by (rule ALIGNED_blk [OF True assms(2,3)])
  have st: "unat st < 2 ^ 2" using assms(4) by auto
  obtain d where d: "create_desc addr 1 (XLAT_BLOCK_SIZE level) st = Some d"
    "get_addr_from_desc d = addr" "get_cnt_from_desc d = 1" "get_st_from_desc d = st"
    "desc_level d = level"
    by (rule create_desc_fields [OF assms(2,3) al assms(5) _ st, of 1]) simp_all
  have addr: "take_bit 52 addr = addr"
    by (rule bit_word_eqI) (use bit_unat_less [OF assms(5)] in \<open>auto simp: bit_simps\<close>)
  have new: "desc_blocks d = [(addr, level, st)]" "\<not> desc_is_empty d"
    using d addr by (simp_all add: desc_blocks_def block_at_def desc_is_empty_def)
  show ?thesis
  proof (cases "al_count l = 0")
    case True
    have "addr_list_add_block l addr level st =
        Some (True, l\<lparr>range_desc := (range_desc l)[al_count l := d], al_count := al_count l + 1\<rparr>)"
      using True \<open>ALIGNED addr (XLAT_BLOCK_SIZE level)\<close> assms d(1)
      by (auto simp: addr_list_add_block_def al_update_def out_ok_def)
    with append_desc [OF assms(1) _ new(2)] True assms(6) show ?thesis by (auto simp: new(1))
  next
    case False
    let ?l = "l\<lparr>cur_idx := 0\<rparr>"
    have ok: "out_ok ?l" "cur_idx ?l + al_count l = al_count ?l" using assms(1) by (auto simp: out_ok_def)
    have b: "blocks ?l = blocks l" "blocks (l\<lparr>cur_idx := al_count l\<rparr>) = blocks l"
      by (simp_all add: blocks_def)
    from add_loop [OF ok assms(2,3) al assms(5), of st] obtain added l' where l':
      "add_block_loop (al_count l) ?l addr (XLAT_BLOCK_SIZE level) st = Some (added, l')" "out_ok l'"
      "if added then mset (blocks l') = add_mset (addr, level, st) (mset (blocks ?l))
       else l' = ?l\<lparr>cur_idx := al_count ?l\<rparr>"
      by blast
    show ?thesis
    proof (cases "added \<or> al_count l = max_count l")
      case True
      then have "addr_list_add_block l addr level st = Some (added, l')"
        using False l' \<open>ALIGNED addr (XLAT_BLOCK_SIZE level)\<close> assms
        by (auto simp: addr_list_add_block_def out_ok_def split: if_splits)
      then show ?thesis using True l' b by auto
    next
      case full: False
      then have lt: "al_count l < max_count l" using assms(1) by (auto simp: out_ok_def)
      have l'': "l' = l\<lparr>cur_idx := al_count l\<rparr>" using full l'(3) by simp
      have "addr_list_add_block l addr level st = Some (True,
          l'\<lparr>range_desc := (range_desc l')[al_count l' := d], al_count := al_count l' + 1\<rparr>)"
        using False full l' lt \<open>ALIGNED addr (XLAT_BLOCK_SIZE level)\<close> assms d(1)
        by (auto simp: addr_list_add_block_def al_update_def out_ok_def)
      with append_desc [OF l'(2) _ new(2)] lt show ?thesis by (auto simp: new(1) l'' b)
    qed
  qed
qed

theorem add_block_correct_witness:
  "\<exists>l0 l'. addr_list_init LIST_TYPE_OUTPUT 1 = Some l0 \<and>
     addr_list_add_block l0 0x5000 3 RMI_OP_MEM_DELEGATED = Some (True, l') \<and>
     mset (blocks l') = {#(0x5000, 3, RMI_OP_MEM_DELEGATED)#}"
proof -
  obtain l0 where l0: "addr_list_init LIST_TYPE_OUTPUT 1 = Some l0" "out_ok l0" "max_count l0 = 1"
    "al_count l0 = 0" "blocks l0 = []"
    by (simp add: addr_list_init_def out_ok_def blocks_def)
  have "ALIGNED 0x5000 (XLAT_BLOCK_SIZE 3)" by (simp add: ALIGNED_def block_size_values)
  with add_block_correct [OF l0(2), of 3 RMI_OP_MEM_DELEGATED "0x5000"] l0 show ?thesis
    by (auto split: if_splits)
qed

subsection \<open>Consuming blocks\<close>

definition in_ok :: "addr_list \<Rightarrow> bool" where
  "in_ok l \<longleftrightarrow> al_type l = LIST_TYPE_INPUT \<and> length (range_desc l) = 512 \<and> al_count l \<le> 512 \<and>
     cur_idx l \<le> al_count l \<and> (\<forall>i < cur_idx l. desc_is_empty (range_desc l ! i))"

lemma skip_empty_spec:
  assumes "i + k \<le> length ds"
  obtains j where "skip_empty k ds i = Some j" "i \<le> j" "j \<le> i + k"
    "\<And>n. i \<le> n \<Longrightarrow> n < j \<Longrightarrow> desc_is_empty (ds ! n)" "j < i + k \<Longrightarrow> \<not> desc_is_empty (ds ! j)"
  using assms
proof (induction k arbitrary: i thesis)
  case 0
  show ?case by (rule 0(1) [of i]) auto
next
  case (Suc k)
  then have i: "i < length ds" by simp
  show ?case
  proof (cases "desc_is_empty (ds ! i)")
    case True
    have "i + 1 + k \<le> length ds" using Suc.prems by simp
    then obtain j where j: "skip_empty k ds (i + 1) = Some j" "i + 1 \<le> j" "j \<le> i + 1 + k"
      "\<And>n. i + 1 \<le> n \<Longrightarrow> n < j \<Longrightarrow> desc_is_empty (ds ! n)" "j < i + 1 + k \<Longrightarrow> \<not> desc_is_empty (ds ! j)"
      by (rule Suc.IH [rotated]) (rule that)
    have "desc_is_empty (ds ! n)" if "i \<le> n" "n < j" for n
      using j(4) [of n] that True by (cases "n = i") auto
    then show ?thesis using Suc.prems(1) [of j] j i True by simp
  next
    case False
    then show ?thesis using Suc.prems(1) [of i] i by simp
  qed
qed

lemma desc_blocks_empty: "desc_is_empty d \<Longrightarrow> desc_blocks d = []"
  by (simp add: desc_blocks_def desc_is_empty_def)

lemma reduce_desc:
  assumes "\<not> desc_is_empty d"
  obtains d' where "decrement_block_count (set_addr_in_desc d (get_addr_from_desc d + desc_blk_size d)) = Some d'"
    "desc_blocks d = (get_addr_from_desc d, desc_level d, get_st_from_desc d) # desc_blocks d'"
proof -
  let ?a = "get_addr_from_desc d + desc_blk_size d"
  let ?e = "set_addr_in_desc d ?a"
  obtain k where k: "12 \<le> k" "k \<le> 39" "desc_blk_size d = 2 ^ k"
    unfolding desc_level(3) by (rule block_size_exp [OF desc_level(1,2)])
  have base: "unat (get_addr_from_desc d) < 2 ^ 52"
    by (rule unat_less_if_bits) (simp add: bit_get_addr)
  have blk: "unat (desc_blk_size d) \<le> 2 ^ 39" "2 ^ 12 dvd unat (desc_blk_size d)"
    using k power_increasing [of k 39 "2 :: nat"] le_imp_power_dvd [OF k(1), of "2 :: nat"]
    by (simp_all add: unat_exp)
  have sum: "unat ?a = unat (get_addr_from_desc d) + unat (desc_blk_size d)"
    using base blk(1) by (simp add: unat_word_ariths)
  have al: "ALIGNED ?a (2 ^ 12)"
    unfolding ALIGNED_unat sum using blk(2)
    by (intro dvd_add) (simp_all only: ALIGNED_unat [symmetric] ALIGNED_exp bit_get_addr, simp_all)
  have lt: "unat ?a < 2 ^ 62" unfolding sum using base blk(1) by simp
  have e: "get_cnt_from_desc ?e = get_cnt_from_desc d" "get_sz_from_desc ?e = get_sz_from_desc d"
    "get_addr_from_desc ?e = take_bit 52 ?a" "get_st_from_desc ?e = get_st_from_desc d"
    using set_addr_other(1,2) [of d ?a] set_addr_other(3) [OF lt, of d] get_addr_set_addr [OF al] by simp_all
  have nz: "get_cnt_from_desc ?e \<noteq> 0" using assms e(1) by (simp add: desc_is_empty_def)
  obtain d' where d': "decrement_block_count ?e = Some d'"
    "get_addr_from_desc d' = get_addr_from_desc ?e" "get_st_from_desc d' = get_st_from_desc ?e"
    "get_cnt_from_desc d' = get_cnt_from_desc ?e - 1" "get_sz_from_desc d' = get_sz_from_desc ?e"
    by (rule decrement_fields [OF nz]) (rule that)
  have c: "unat (get_cnt_from_desc d) = Suc (unat (get_cnt_from_desc d'))"
    using d'(4) e(1) nz by (simp add: unat_minus_one unat_gt_0)
  have s: "desc_blk_size d' = desc_blk_size d" "desc_level d' = desc_level d"
    using d'(5) e(2) by (simp_all add: desc_blk_size_def desc_level_def)
  have "block_at d (Suc j) = block_at d' j" for j
    unfolding block_at_def s d'(2,3) e by (subst take_bit_add_take_bit) (simp_all add: algebra_simps)
  then have "desc_blocks d = (get_addr_from_desc d, desc_level d, get_st_from_desc d) # desc_blocks d'"
    by (simp add: desc_blocks_def c upt_Suc_map block_at_def [of d 0] take_bit_addr del: upt_Suc)
  with d'(1) show ?thesis by (rule that)
qed

lemma concat_skip:
  assumes "\<And>n. n < j \<Longrightarrow> f (xs ! n) = []" "j \<le> length xs"
  shows "concat (map f xs) = concat (map f (drop j xs))"
proof -
  have "concat (map f (take j xs)) = []"
    using assms by (auto simp: concat_eq_Nil_conv in_set_conv_nth)
  then show ?thesis by (metis append_take_drop_id append_Nil concat_append map_append)
qed

text \<open>
  C27. Taking blocks from a well-formed input list fails no assertion and hands out its blocks one
  by one in order: the result is the first block the list stands for, with its level and
  state, and the list then stands for the remaining ones; it reports failure exactly when
  no block is left.
\<close>

theorem reduce_first_block_correct:
  assumes "in_ok l"
  shows "\<exists>r l'. addr_list_reduce_first_block l = Some (r, l') \<and> in_ok l' \<and>
    (case r of None \<Rightarrow> blocks l = [] \<and> blocks l' = [] | Some b \<Rightarrow> blocks l = b # blocks l')"
proof (cases "al_count l = 0")
  case True
  then show ?thesis using assms by (auto simp: addr_list_reduce_first_block_def in_ok_def blocks_def)
next
  case False
  let ?k = "al_count l - cur_idx l"
  have "cur_idx l + ?k \<le> length (range_desc l)" using assms by (simp add: in_ok_def)
  then obtain j where j: "skip_empty ?k (range_desc l) (cur_idx l) = Some j" "cur_idx l \<le> j"
    "j \<le> cur_idx l + ?k" "\<And>n. cur_idx l \<le> n \<Longrightarrow> n < j \<Longrightarrow> desc_is_empty (range_desc l ! n)"
    "j < cur_idx l + ?k \<Longrightarrow> \<not> desc_is_empty (range_desc l ! j)"
    by (rule skip_empty_spec) (rule that)
  have jc: "j \<le> al_count l" using j(3) assms by (simp add: in_ok_def)
  have empty: "desc_is_empty (range_desc l ! n)" if "n < j" for n
    using j(4) [of n] assms that by (cases "n < cur_idx l") (auto simp: in_ok_def)
  have ok: "in_ok (l\<lparr>cur_idx := j\<rparr>)" using assms jc empty by (auto simp: in_ok_def)
  have skip: "concat (map desc_blocks (take n ds)) = concat (map desc_blocks (drop j (take n ds)))"
    if "\<And>i. i < j \<Longrightarrow> ds ! i = range_desc l ! i" "j \<le> n" "j \<le> length ds" for n ds
    by (rule concat_skip) (use that empty in \<open>auto intro: desc_blocks_empty\<close>)
  have bl: "blocks l = concat (map desc_blocks (drop j (take (al_count l) (range_desc l))))"
    unfolding blocks_def by (rule skip) (use jc assms in \<open>auto simp: in_ok_def\<close>)
  show ?thesis
  proof (cases "j = al_count l")
    case True
    then have "addr_list_reduce_first_block l = Some (None, l\<lparr>cur_idx := j\<rparr>)"
      using False assms j(1) by (simp add: addr_list_reduce_first_block_def in_ok_def)
    moreover have "blocks (l\<lparr>cur_idx := j\<rparr>) = blocks l" by (simp add: blocks_def)
    ultimately show ?thesis using ok bl True by simp
  next
    case False
    then have jl: "j < al_count l" "j < length (range_desc l)" using jc assms by (auto simp: in_ok_def)
    let ?d = "range_desc l ! j"
    have "\<not> desc_is_empty ?d" using j(5) jl by simp
    then obtain d' where d':
      "decrement_block_count (set_addr_in_desc ?d (get_addr_from_desc ?d + desc_blk_size ?d)) = Some d'"
      "desc_blocks ?d = (get_addr_from_desc ?d, desc_level ?d, get_st_from_desc ?d) # desc_blocks d'"
      by (rule reduce_desc) (rule that)
    let ?l = "l\<lparr>cur_idx := j, range_desc := (range_desc l)[j := d']\<rparr>"
    let ?b = "(get_addr_from_desc ?d, desc_level ?d, get_st_from_desc ?d)"
    have "addr_list_reduce_first_block l = Some (Some ?b, ?l)"
      using \<open>al_count l \<noteq> 0\<close> assms j(1) jl d'(1)
      by (simp add: addr_list_reduce_first_block_def in_ok_def Let_def al_update_def desc_level_def)
    moreover have "in_ok ?l" using ok jl by (auto simp: in_ok_def)
    moreover have "blocks l = ?b # blocks ?l"
    proof -
      have "blocks ?l = concat (map desc_blocks (drop j (take (al_count l) ((range_desc l)[j := d']))))"
        unfolding blocks_def by (simp, rule skip) (use jl in auto)
      moreover have "drop j (take (al_count l) (range_desc l)) =
          ?d # drop (Suc j) (take (al_count l) (range_desc l))"
        using jl by (simp add: Cons_nth_drop_Suc [symmetric])
      moreover have "drop j (take (al_count l) ((range_desc l)[j := d'])) =
          d' # drop (Suc j) (take (al_count l) (range_desc l))"
        using jl by (simp add: take_update_swap Cons_nth_drop_Suc [symmetric] drop_update_cancel)
      ultimately show ?thesis unfolding bl by (simp add: d'(2))
    qed
    ultimately show ?thesis by auto
  qed
qed

text \<open>Two pages from \<open>0x1000\<close>, delegated.\<close>

definition two_pages :: addr_list where
  "two_pages = \<lparr>range_desc = 0x1008 # replicate 511 0, al_count = 1, cur_idx = 0, max_count = 1,
     al_type = LIST_TYPE_INPUT\<rparr>"

lemma two_pages_blocks: "blocks two_pages = [(0x1000, 3, 0), (0x2000, 3, 0)]"
  by (simp add: blocks_def two_pages_def desc_blocks_def block_at_def get_cnt_from_desc_def
      get_addr_from_desc_def get_st_from_desc_def desc_level_def desc_blk_size_def get_sz_from_desc_def
      EXTRACT_take_bit upt_rec sz_to_blk_values)

theorem reduce_first_block_correct_witness:
  "\<exists>l'. addr_list_reduce_first_block two_pages = Some (Some (0x1000, 3, 0), l') \<and>
     blocks l' = [(0x2000, 3, 0)]"
proof -
  have "in_ok two_pages" by (simp add: in_ok_def two_pages_def)
  from reduce_first_block_correct [OF this] show ?thesis
    by (auto simp: two_pages_blocks split: option.splits)
qed

subsection \<open>Sorting\<close>

text \<open>The order of the sort: ranges by base address, empty ranges last.\<close>

definition desc_key :: "u64 \<Rightarrow> bool \<times> u64" where
  "desc_key d = (desc_is_empty d, if desc_is_empty d then 0 else get_addr_from_desc d)"

lemma desc_after_key: "desc_after_by_addr a b \<longleftrightarrow> desc_key b < desc_key a"
  by (auto simp: desc_after_by_addr_def desc_key_def Let_def less_prod_def)

lemma sort_shift_spec:
  assumes "j < length ds"
  obtains p where "p \<le> j" "sort_shift j temp ds =
      Some (take (p + 1) ds @ drop p (take j ds) @ drop (j + 1) ds, p)"
    "\<And>q. p \<le> q \<Longrightarrow> q < j \<Longrightarrow> desc_key temp < desc_key (ds ! q)"
    "p > 0 \<Longrightarrow> desc_key (ds ! (p - 1)) \<le> desc_key temp"
  using assms
proof (induction j arbitrary: ds thesis)
  case 0
  show ?case by (rule 0(1) [of 0]) (auto simp: take_Suc)
next
  case (Suc j)
  show ?case
  proof (cases "desc_after_by_addr (ds ! j) temp")
    case False
    then show ?thesis using Suc.prems
      by (intro Suc.prems(1) [of "Suc j"]) (auto simp: desc_after_key not_less)
  next
    case True
    let ?ds = "ds[Suc j := ds ! j]"
    have "j < length ?ds" using Suc.prems by simp
    then obtain p where p: "p \<le> j" "sort_shift j temp ?ds =
        Some (take (p + 1) ?ds @ drop p (take j ?ds) @ drop (j + 1) ?ds, p)"
      "\<And>q. p \<le> q \<Longrightarrow> q < j \<Longrightarrow> desc_key temp < desc_key (?ds ! q)"
      "p > 0 \<Longrightarrow> desc_key (?ds ! (p - 1)) \<le> desc_key temp"
      by (rule Suc.IH [rotated]) (rule that)
    have "drop (j + 1) ?ds = ds ! j # drop (Suc j + 1) ds"
      using Suc.prems by (simp add: Cons_nth_drop_Suc [symmetric] drop_update_cancel)
    moreover have "drop p (take (Suc j) ds) = drop p (take j ds) @ [ds ! j]"
      using Suc.prems p(1) by (simp add: take_Suc_conv_app_nth)
    moreover have "take (p + 1) ?ds = take (p + 1) ds" "take j ?ds = take j ds"
      using p(1) by (simp_all add: take_update_cancel)
    ultimately have e: "sort_shift (Suc j) temp ds =
        Some (take (p + 1) ds @ drop p (take (Suc j) ds) @ drop (Suc j + 1) ds, p)"
      using True Suc.prems p(2) by simp
    show ?thesis
    proof (rule Suc.prems(1) [of p])
      show "desc_key temp < desc_key (ds ! q)" if "p \<le> q" "q < Suc j" for q
        using p(3) [of q] that True by (cases "q = j") (auto simp: desc_after_key)
      show "desc_key (ds ! (p - 1)) \<le> desc_key temp" if "p > 0"
        using p(4) that p(1) by simp
    qed (use p(1) e in auto)
  qed
qed

text \<open>Inserting behind the elements with smaller or equal keys keeps a stable sort.\<close>

lemma insert_sorted_snoc:
  "takeWhile (\<lambda>y. f y \<le> f x) (sort_key f xs) @ x # dropWhile (\<lambda>y. f y \<le> f x) (sort_key f xs) =
   sort_key f (xs @ [x])"
proof -
  let ?P = "\<lambda>y. f y \<le> f x"
  let ?s = "sort_key f xs"
  have split: "takeWhile ?P ?s @ dropWhile ?P ?s = ?s" by (rule takeWhile_dropWhile_id)
  have srt: "sorted (map f (takeWhile ?P ?s))" "sorted (map f (dropWhile ?P ?s))"
    using sorted_sort_key [of f xs] arg_cong [OF split, of "map f"]
    by (metis map_append sorted_append)+
  have gt: "f x < f y" if "y \<in> set (dropWhile ?P ?s)" for y
  proof (cases "dropWhile ?P ?s")
    case (Cons z zs)
    then have "f x < f z" using hd_dropWhile [of ?P ?s] by (simp add: not_le)
    moreover have "f z \<le> f y" using srt(2) that Cons by auto
    ultimately show ?thesis by simp
  next
    case Nil
    then show ?thesis using that by (simp only: list.set empty_iff)
  qed
  have st: "filter (\<lambda>y. k = f y) ?s = filter (\<lambda>y. k = f y) xs" for k
    using sort_key_stable [of f k xs] by (simp only: eq_commute [of k])
  show ?thesis
  proof (rule properties_for_sort_key [symmetric])
    show "mset (takeWhile ?P ?s @ x # dropWhile ?P ?s) = mset (xs @ [x])"
      using arg_cong [OF split, of mset] by (simp del: takeWhile_dropWhile_id)
    show "filter (\<lambda>y. f k = f y) (takeWhile ?P ?s @ x # dropWhile ?P ?s) = filter (\<lambda>y. f k = f y) (xs @ [x])"
      for k
    proof (cases "f k = f x")
      case True
      then have "filter (\<lambda>y. f k = f y) (dropWhile ?P ?s) = []"
        using gt by (fastforce simp: filter_empty_conv)
      then show ?thesis using st [of "f k"] arg_cong [OF split, of "filter (\<lambda>y. f k = f y)"] True
        by (simp del: takeWhile_dropWhile_id)
    next
      case False
      then show ?thesis using st [of "f k"] arg_cong [OF split, of "filter (\<lambda>y. f k = f y)"]
        by (simp del: takeWhile_dropWhile_id)
    qed
    show "sorted (map f (takeWhile ?P ?s @ x # dropWhile ?P ?s))"
      using srt gt by (auto simp: sorted_append dest!: set_takeWhileD intro: less_imp_le order_trans)
  qed
qed

lemma sort_round:
  assumes "i < length ds" "take i ds = sort_key desc_key xs"
  shows "\<exists>ds' j. sort_shift i (ds ! i) ds = Some (ds', j) \<and>
    (if i \<noteq> j then arr_set ds' j (ds ! i) else Some ds') =
      Some (sort_key desc_key (xs @ [ds ! i]) @ drop (i + 1) ds)"
proof -
  let ?x = "ds ! i"
  obtain p where p: "p \<le> i" "sort_shift i ?x ds =
      Some (take (p + 1) ds @ drop p (take i ds) @ drop (i + 1) ds, p)"
    "\<And>q. p \<le> q \<Longrightarrow> q < i \<Longrightarrow> desc_key ?x < desc_key (ds ! q)"
    "p > 0 \<Longrightarrow> desc_key (ds ! (p - 1)) \<le> desc_key ?x"
    by (rule sort_shift_spec [OF assms(1), of ?x]) (rule that)
  let ?P = "\<lambda>y. desc_key y \<le> desc_key ?x"
  let ?s = "take i ds"
  have srt: "sorted (map desc_key ?s)" unfolding assms(2) by (rule sorted_sort_key)
  have le: "?P (?s ! q)" if "q < p" for q
  proof -
    have "map desc_key ?s ! q \<le> map desc_key ?s ! (p - 1)"
      using that p(1) assms(1) by (intro sorted_nth_mono [OF srt]) auto
    then show ?thesis using that p(1,4) assms(1) by (auto intro: order_trans)
  qed
  have gt: "\<not> ?P (?s ! p)" if "p < length ?s" using p(3) [of p] that by (simp add: not_le)
  have tw: "takeWhile ?P ?s = take p ?s"
    by (rule takeWhile_eq_take_P_nth) (use le gt in blast)+
  moreover have "dropWhile ?P ?s = drop p ?s"
    unfolding dropWhile_eq_drop tw using p(1) assms(1) by simp
  ultimately have sk: "take p ?s @ ?x # drop p ?s = sort_key desc_key (xs @ [?x])"
    using insert_sorted_snoc [of desc_key ?x xs] unfolding assms(2) [symmetric] by simp
  have tp: "take p ?s = take p ds" using p(1) by (simp add: min_def)
  show ?thesis
  proof (cases "p = i")
    case True
    then have "take (p + 1) ds = take p ds @ [?x]" using assms(1) by (simp add: take_Suc_conv_app_nth)
    then show ?thesis using p(2) sk tp True by (simp flip: sk)
  next
    case False
    then have "take (p + 1) ds = take p ds @ [ds ! p]" "p < length ds"
      using p(1) assms(1) by (simp_all add: take_Suc_conv_app_nth)
    then have "arr_set (take (p + 1) ds @ drop p (take i ds) @ drop (i + 1) ds) p ?x =
        Some (take p ds @ ?x # drop p (take i ds) @ drop (i + 1) ds)"
      by (simp add: arr_set_def list_update_append)
    then show ?thesis using p(2) False sk tp by (simp flip: sk)
  qed
qed

lemma sort_loop_spec:
  assumes "n \<le> length ds" "i \<le> n" "take i ds = sort_key desc_key (take i xs)"
    and "drop i ds = drop i xs" "length ds = length xs"
  shows "sort_loop [i ..< n] ds = Some (sort_key desc_key (take n xs) @ drop n xs)"
  using assms
proof (induction "n - i" arbitrary: i ds)
  case 0
  then have "i = n" by simp
  then show ?case using 0 append_take_drop_id [of n ds] by simp
next
  case (Suc k)
  then have i: "i < n" "i < length ds" by auto
  have x: "ds ! i = xs ! i" using Suc.prems(4,5) i by (metis drop_eq_Nil hd_drop_conv_nth not_less)
  obtain ds' j where r: "sort_shift i (ds ! i) ds = Some (ds', j)"
    "(if i \<noteq> j then arr_set ds' j (ds ! i) else Some ds') =
      Some (sort_key desc_key (take i xs @ [ds ! i]) @ drop (i + 1) ds)"
    using sort_round [OF i(2) Suc.prems(3)] by blast
  let ?ds = "sort_key desc_key (take i xs @ [ds ! i]) @ drop (i + 1) ds"
  have sx: "take i xs @ [ds ! i] = take (Suc i) xs"
    using i Suc.prems(5) x by (simp add: take_Suc_conv_app_nth)
  have len: "length (sort_key desc_key (take i xs @ [ds ! i])) = Suc i"
    using i Suc.prems(5) by simp
  have "sort_loop [Suc i ..< n] ?ds = Some (sort_key desc_key (take n xs) @ drop n xs)"
  proof (rule Suc.hyps(1))
    show "drop (Suc i) ?ds = drop (Suc i) xs"
      using len Suc.prems(4) by simp (metis drop_Suc drop_drop tl_drop add_Suc plus_1_eq_Suc add.commute)
  qed (use Suc i len sx in auto)
  then show ?case using i r by (simp add: upt_conv_Cons)
qed

text \<open>
  C28. Sorting an output list fails no assertion and reads and writes within the list: the result
  is the stable sort of its ranges by base address, empty ranges last; the blocks the list
  stands for are the same, and slots beyond the count are untouched.
\<close>

theorem sort_by_addr_correct:
  assumes "al_type l = LIST_TYPE_OUTPUT" and "al_count l \<le> length (range_desc l)"
  shows "\<exists>l'. addr_list_sort_by_addr l = Some l' \<and>
    take (al_count l) (range_desc l') = sort_key desc_key (take (al_count l) (range_desc l)) \<and>
    drop (al_count l) (range_desc l') = drop (al_count l) (range_desc l) \<and>
    mset (blocks l') = mset (blocks l)"
proof -
  have r: "sort_loop [1 ..< al_count l] (range_desc l) =
      Some (sort_key desc_key (take (al_count l) (range_desc l)) @ drop (al_count l) (range_desc l))"
  proof (cases "al_count l = 0")
    case False
    then have "take 1 (range_desc l) = [hd (range_desc l)]"
      using assms(2) by (cases "range_desc l") auto
    then show ?thesis using False assms(2) by (intro sort_loop_spec) auto
  qed simp
  have m: "mset (concat (map f xs)) = mset (concat (map f ys))" if "mset xs = mset ys"
    for f :: "u64 \<Rightarrow> (u64 \<times> int \<times> u64) list" and xs ys
  proof -
    have "sum_list (map (mset \<circ> f) xs) = sum_list (map (mset \<circ> f) ys)"
      using that by (metis mset_map sum_mset_sum_list)
    then show ?thesis by (simp add: mset_concat comp_def)
  qed
  show ?thesis using assms r
    by (auto simp: addr_list_sort_by_addr_def blocks_def intro!: m)
qed

text \<open>Three pages, the last slot empty.\<close>

definition unsorted_pages :: addr_list where
  "unsorted_pages = \<lparr>range_desc = [0x9004, 0, 0x3004] @ replicate 509 0, al_count = 3, cur_idx = 2,
     max_count = 3, al_type = LIST_TYPE_OUTPUT\<rparr>"

theorem sort_by_addr_correct_witness:
  "\<exists>l'. addr_list_sort_by_addr unsorted_pages = Some l' \<and> take 3 (range_desc l') = [0x3004, 0x9004, 0]"
proof -
  have "al_type unsorted_pages = LIST_TYPE_OUTPUT" "al_count unsorted_pages \<le> length (range_desc unsorted_pages)"
    by (simp_all add: unsorted_pages_def)
  from sort_by_addr_correct [OF this] obtain l' where "addr_list_sort_by_addr unsorted_pages = Some l'"
    "take 3 (range_desc l') = sort_key desc_key [0x9004, 0, 0x3004]"
    by (auto simp: unsorted_pages_def)
  moreover have "desc_key 0x9004 = (False, 0x9000)" "desc_key 0x3004 = (False, 0x3000)" "desc_key 0 = (True, 0)"
    by (simp_all add: desc_key_def desc_is_empty_def get_cnt_from_desc_def get_addr_from_desc_def EXTRACT_take_bit)
  ultimately show ?thesis by simp
qed

subsection \<open>Validation\<close>

definition desc_bytes :: "u64 \<Rightarrow> nat" where
  "desc_bytes d = unat (desc_blk_size d) * unat (get_cnt_from_desc d)"

definition valid_desc :: "u64 \<Rightarrow> u64 \<Rightarrow> bool" where
  "valid_desc state d \<longleftrightarrow> ALIGNED (get_addr_from_desc d) (desc_blk_size d) \<and>
     (if state = RMI_OP_MEM_CONDITIONAL
      then get_st_from_desc d \<in> {RMI_OP_MEM_DELEGATED, RMI_OP_MEM_UNDELEGATED}
      else get_st_from_desc d = state)"

definition contig_desc :: "u64 \<Rightarrow> bool" where
  "contig_desc d \<longleftrightarrow> (\<exists>k. desc_bytes d = 2 ^ k) \<and> desc_bytes d dvd unat (get_addr_from_desc d)"

abbreviation (input) nonempty :: "u64 list \<Rightarrow> u64 list" where
  "nonempty \<equiv> filter (\<lambda>d. \<not> desc_is_empty d)"

lemma desc_bytes_bound: "desc_bytes d < 2 ^ 49"
proof -
  obtain k where k: "k \<le> 39" "desc_blk_size d = 2 ^ k"
    unfolding desc_level(3) by (rule block_size_exp [OF desc_level(1,2)])
  then have "unat (desc_blk_size d) \<le> 2 ^ 39"
    using power_increasing [of k 39 "2 :: nat"] by (simp add: unat_exp)
  then have "desc_bytes d \<le> 2 ^ 39 * 1023"
    unfolding desc_bytes_def using low_bits(3) [of d] by (intro mult_le_mono) auto
  then show ?thesis by simp
qed

lemma desc_bytes_word: "unat (desc_blk_size d * get_cnt_from_desc d) = desc_bytes d"
  using desc_bytes_bound [of d] by (simp add: desc_bytes_def unat_word_ariths)

lemma unat_dvd_ALIGNED: "b \<noteq> 0 \<Longrightarrow> ALIGNED a b \<longleftrightarrow> unat b dvd unat a"
  by (simp add: ALIGNED_def word_unat_eq_iff unat_mod dvd_eq_mod_eq_0)

lemma IS_POWER_OF_TWO_iff: "IS_POWER_OF_TWO x \<longleftrightarrow> (\<exists>k. unat x = 2 ^ k)"
proof
  assume "IS_POWER_OF_TWO x"
  then have nz: "x \<noteq> 0" and z: "x AND (x - 1) = 0" by (simp_all add: IS_POWER_OF_TWO_def)
  define k where "k = (LEAST n. bit x n)"
  obtain n where "bit x n" using nz by (auto simp: bit_eq_iff)
  then have k: "bit x k" and least: "\<And>n. n < k \<Longrightarrow> \<not> bit x n"
    unfolding k_def by (auto intro: LeastI dest: not_less_Least)
  have "take_bit (k + 1) x \<noteq> 0" using k by (auto simp: take_bit_eq_0_bits)
  then have "1 \<le> take_bit (k + 1) x" by (simp add: word_le_nat_alt unat_gt_0 Suc_le_eq)
  then have dr: "drop_bit (k + 1) (x - 1) = drop_bit (k + 1) x"
    using low_field_sub(2) [of 1 "k + 1" x] by simp
  have hi: "\<not> bit x (k + 1 + n)" for n
    using arg_cong [OF dr, of "\<lambda>w. bit w n"] arg_cong [OF z, of "\<lambda>w. bit w (k + 1 + n)"]
    by (simp add: bit_drop_bit_eq bit_and_iff)
  have "\<not> bit x n" if "k < n" for n
    using hi less_imp_Suc_add [OF that] by auto
  then have "bit x n \<longleftrightarrow> n = k" for n
    using k least [of n] by (cases n k rule: linorder_cases) auto
  moreover have "k < 64" using k bit_imp_le_length by fastforce
  ultimately have "x = 2 ^ k" by (intro bit_word_eqI) (auto simp: bit_exp_iff)
  then show "\<exists>k. unat x = 2 ^ k" using \<open>k < 64\<close> by (auto simp: unat_exp)
next
  assume "\<exists>k. unat x = 2 ^ k"
  then obtain k where k: "unat x = 2 ^ k" by blast
  have "(2 :: nat) ^ k < 2 ^ 64" using unat_lt2p_64 [of x] unfolding k .
  then have "k < 64" by (rule power_less_imp_less_exp [rotated]) simp
  with k have x: "x = 2 ^ k" by (simp add: word_unat_eq_iff unat_exp)
  have "x AND (x - 1) = 0"
    unfolding x exp_minus_1_eq_mask by (rule bit_word_eqI) (auto simp: bit_simps)
  then show "IS_POWER_OF_TWO x" using k by (auto simp: IS_POWER_OF_TWO_def)
qed

lemma contig_desc_word:
  assumes "\<not> desc_is_empty d"
  shows "contig_desc d \<longleftrightarrow> IS_POWER_OF_TWO (desc_blk_size d * get_cnt_from_desc d) \<and>
    ALIGNED (get_addr_from_desc d) (desc_blk_size d * get_cnt_from_desc d)"
proof -
  have "IS_POWER_OF_TWO x \<Longrightarrow> x \<noteq> 0" for x by (simp add: IS_POWER_OF_TWO_def)
  then show ?thesis
    by (auto simp: contig_desc_def IS_POWER_OF_TWO_iff unat_dvd_ALIGNED desc_bytes_word)
qed

lemma validate_loop_spec:
  "validate_loop ds c state vc t =
     (if (\<forall>d \<in> set (nonempty ds). valid_desc state d) \<and>
         (c \<longrightarrow> (nonempty ds = [] \<or> vc + length (nonempty ds) \<le> 1) \<and> (\<forall>d \<in> set (nonempty ds). contig_desc d))
      then Some (t + sum_list (map (\<lambda>d. desc_blk_size d * get_cnt_from_desc d) (nonempty ds))) else None)"
proof (induction ds arbitrary: vc t)
  case (Cons d ds)
  have sz: "IS_VALID_XLAT_BLOCK_SIZE (desc_blk_size d)"
    using sz_cases [of d]
    by (auto simp: IS_VALID_XLAT_BLOCK_SIZE_def desc_blk_size_def sz_to_blk_values block_size_values)
  have mx: "\<not> get_max_block_cnt < get_cnt_from_desc d"
    using low_bits(3) [of d]
    by (simp add: get_max_block_cnt_def MAX_BLOCK_CNT_4K_def word_less_nat_alt)
  show ?case
  proof (cases "desc_is_empty d")
    case True
    then have "validate_loop (d # ds) c state vc t = validate_loop ds c state vc t"
      "nonempty (d # ds) = nonempty ds" by (simp_all add: desc_is_empty_def)
    then show ?thesis by (simp only: Cons.IH)
  next
    case False
    then have "validate_loop (d # ds) c state vc t =
        (if valid_desc state d \<and> (c \<longrightarrow> vc = 0 \<and> contig_desc d)
         then validate_loop ds c state (vc + 1) (t + desc_blk_size d * get_cnt_from_desc d) else None)"
      unfolding contig_desc_word [OF False] by (auto simp: sz mx Let_def valid_desc_def desc_is_empty_def)
    moreover have "nonempty (d # ds) = d # nonempty ds" using False by simp
    ultimately show ?thesis unfolding Cons.IH by (cases "nonempty ds") (auto simp: add.assoc)
  qed
qed simp

lemma unat_sum_list:
  fixes ws :: "u64 list"
  assumes "sum_list (map unat ws) < 2 ^ 64"
  shows "unat (sum_list ws) = sum_list (map unat ws)"
  using assms
proof (induction ws)
  case (Cons w ws)
  then show ?case by (simp add: unat_word_ariths)
qed simp

lemma total_bytes_unat:
  assumes "length ds \<le> 512"
  shows "unat (sum_list (map (\<lambda>d. desc_blk_size d * get_cnt_from_desc d) ds)) =
    sum_list (map desc_bytes ds)"
proof -
  have m: "map unat (map (\<lambda>d. desc_blk_size d * get_cnt_from_desc d) ds) = map desc_bytes ds"
    by (simp add: desc_bytes_word)
  have "sum_list (map desc_bytes ds) \<le> length ds * 2 ^ 49"
    using sum_list_mono [of ds desc_bytes "\<lambda>_. 2 ^ 49"] desc_bytes_bound
    by (simp add: less_imp_le sum_list_const_mult sum_list_triv)
  also have "\<dots> \<le> 512 * 2 ^ 49" using assms by (rule mult_le_mono1)
  finally have "sum_list (map unat (map (\<lambda>d. desc_blk_size d * get_cnt_from_desc d) ds)) < 2 ^ 64"
    unfolding m by simp
  from unat_sum_list [OF this] show ?thesis unfolding m .
qed

lemma validate_eq:
  assumes "al_type l = LIST_TYPE_INPUT" "al_count l \<le> 512" "length (range_desc l) = 512"
    and "state \<in> {RMI_OP_MEM_DELEGATED, RMI_OP_MEM_UNDELEGATED, RMI_OP_MEM_CONDITIONAL}"
    and "ne = nonempty (take (al_count l) (range_desc l))"
  shows "\<exists>total. unat total = sum_list (map desc_bytes ne) \<and>
    addr_list_validate l is_contig state = Some (
      if (\<forall>d \<in> set ne. valid_desc state d) \<and>
         (is_contig \<longrightarrow> length ne \<le> 1 \<and> (\<forall>d \<in> set ne. contig_desc d))
      then Some total else None)"
proof -
  have "length ne \<le> length (take (al_count l) (range_desc l))"
    unfolding assms(5) by (rule length_filter_le)
  also have "\<dots> \<le> 512" using assms(2) by simp
  finally have "length ne \<le> 512" .
  note u = total_bytes_unat [OF this]
  have "ne = [] \<or> 0 + length ne \<le> 1 \<longleftrightarrow> length ne \<le> 1" by auto
  then show ?thesis using assms(1,2,4) u
    by (intro exI [of _ "sum_list (map (\<lambda>d. desc_blk_size d * get_cnt_from_desc d) ne)"])
       (auto simp: addr_list_validate_def validate_loop_spec assms(5) [symmetric])
qed

text \<open>
  C29. Validation of an input list of up to 512 ranges fails no assertion. It accepts the list if
  and only if every non-empty range is aligned to its block size and in the requested
  state (in either donor state for a conditional request) and, for a contiguous request,
  there is at most one such range, of a power-of-two size and aligned to it. The total it
  then reports is exact: the sum of the sizes of all ranges never wraps around. A list without
  non-empty ranges is therefore accepted for a contiguous request too, with total zero, although
  the comment in \<^verbatim>\<open>addr_list.h\<close> asks for exactly one valid range; the same comment does not list
  the conditional state, which the code accepts.
\<close>

theorem validate_correct:
  assumes "al_type l = LIST_TYPE_INPUT" "al_count l \<le> 512" "length (range_desc l) = 512"
    and "state \<in> {RMI_OP_MEM_DELEGATED, RMI_OP_MEM_UNDELEGATED, RMI_OP_MEM_CONDITIONAL}"
  shows "let ne = filter (\<lambda>d. \<not> desc_is_empty d) (take (al_count l) (range_desc l)) in
    \<exists>total. unat total = sum_list (map desc_bytes ne) \<and>
    addr_list_validate l is_contig state = Some (
      if (\<forall>d \<in> set ne. valid_desc state d) \<and>
         (is_contig \<longrightarrow> length ne \<le> 1 \<and> (\<forall>d \<in> set ne. contig_desc d))
      then Some total else None)"
  unfolding Let_def by (rule validate_eq [OF assms refl])

theorem validate_correct_witness:
  "addr_list_validate two_pages True RMI_OP_MEM_DELEGATED = Some None \<and>
   addr_list_validate two_pages False RMI_OP_MEM_DELEGATED = Some (Some 0x2000) \<and>
   addr_list_validate (two_pages\<lparr>range_desc := 0x2008 # replicate 511 0\<rparr>) True RMI_OP_MEM_DELEGATED = Some (Some 0x2000) \<and>
   addr_list_validate (two_pages\<lparr>al_count := 0\<rparr>) True RMI_OP_MEM_DELEGATED = Some (Some 0)"
proof -
  have d: "get_addr_from_desc 0x1008 = 0x1000" "get_cnt_from_desc 0x1008 = 2" "get_st_from_desc 0x1008 = 0"
    "desc_blk_size 0x1008 = 2 ^ 12" "get_addr_from_desc 0x2008 = 0x2000" "get_cnt_from_desc 0x2008 = 2"
    "get_st_from_desc 0x2008 = 0" "desc_blk_size 0x2008 = 2 ^ 12"
    by (simp_all add: get_addr_from_desc_def get_cnt_from_desc_def get_st_from_desc_def desc_blk_size_def
        get_sz_from_desc_def EXTRACT_take_bit sz_to_blk_values)
  have v: "valid_desc 0 0x1008" "valid_desc 0 0x2008" by (simp_all add: valid_desc_def d ALIGNED_def)
  have p: "(0x2000 :: nat) = 2 ^ 13" by simp
  have c: "\<not> contig_desc 0x1008" "contig_desc 0x2008"
    unfolding contig_desc_def desc_bytes_def d by (simp, simp, metis p)
  have u: "t = 0x2000" if "unat t = 8192" for t :: u64 using that by (simp add: word_unat_eq_iff)
  show ?thesis
    using validate_correct [of two_pages RMI_OP_MEM_DELEGATED True]
      validate_correct [of two_pages RMI_OP_MEM_DELEGATED False]
      validate_correct [of "two_pages\<lparr>range_desc := 0x2008 # replicate 511 0\<rparr>" RMI_OP_MEM_DELEGATED True]
      validate_correct [of "two_pages\<lparr>al_count := 0\<rparr>" RMI_OP_MEM_DELEGATED True]
    by (auto simp: two_pages_def desc_is_empty_def d desc_bytes_def v c u Let_def unat_eq_0)
qed

lemma all_empty_from_ok:
  assumes "j + k \<le> length ds" "\<And>n. j \<le> n \<Longrightarrow> n < j + k \<Longrightarrow> desc_is_empty (ds ! n)"
  shows "all_empty_from k ds j = Some ()"
  using assms by (induction k arbitrary: j) auto

lemma blocks_nonempty: "concat (map desc_blocks ds) = concat (map desc_blocks (nonempty ds))"
  by (induction ds) (auto simp: desc_blocks_empty)

lemma set_cnt_empty: "desc_is_empty (set_cnt_in_desc d 0)"
proof -
  have "get_cnt_from_desc (set_cnt_in_desc d 0) = 0"
    unfolding get_cnt_from_desc_def set_cnt_in_desc_def get_cnt_mask_def
    by (rule bit_word_eqI) (auto simp: bit_EXTRACT bit_simps bit_MASK bit_INPLACE Let_def)
  then show ?thesis by (simp add: desc_is_empty_def)
qed

lemma contig_block_bounds:
  assumes "contig_desc d" "b \<in> set (desc_blocks d)"
  shows "case b of (a, level, st) \<Rightarrow> st = get_st_from_desc d \<and> unat (get_addr_from_desc d) \<le> unat a \<and>
    unat a + unat (XLAT_BLOCK_SIZE level) \<le> unat (get_addr_from_desc d) + desc_bytes d"
proof -
  let ?base = "get_addr_from_desc d"
  let ?blk = "desc_blk_size d"
  obtain k where k: "k < unat (get_cnt_from_desc d)" "b = block_at d k"
    using assms(2) by (auto simp: desc_blocks_def)
  have "Suc k * unat ?blk \<le> desc_bytes d"
    unfolding desc_bytes_def mult.commute [of "unat ?blk"] using k(1) by (intro mult_le_mono1) simp
  then have kb: "k * unat ?blk + unat ?blk \<le> desc_bytes d" by (simp add: add.commute)
  obtain e where e: "desc_bytes d = 2 ^ e" "2 ^ e dvd unat ?base"
    using assms(1) by (auto simp: contig_desc_def)
  have base: "unat ?base < 2 ^ 52" by (rule unat_less_if_bits) (simp add: bit_get_addr)
  have "(2 :: nat) ^ e < 2 ^ 49" using desc_bytes_bound [of d] unfolding e(1) .
  then have "e < 49" by (rule power_less_imp_less_exp [rotated]) simp
  then have "(2 :: nat) ^ e dvd 2 ^ 52" by (intro le_imp_power_dvd) simp
  with e(2) base have top: "unat ?base + desc_bytes d \<le> 2 ^ 52"
    unfolding e(1) by (auto elim!: dvdE) (metis Suc_leI mult_Suc_right mult_le_mono2 nat_mult_less_cancel_disj add.commute)
  have blk: "0 < unat ?blk"
    using blk_size_exp [of d] by (auto simp: unat_gt_0)
  have lk: "k < 2 ^ 64" using k(1) low_bits(3) [of d] by simp
  have kw: "unat (of_nat k * ?blk) = k * unat ?blk"
    using kb desc_bytes_bound [of d] lk by (simp add: unat_word_ariths unat_of_nat)
  have "unat (?base + of_nat k * ?blk) = unat ?base + k * unat ?blk"
    using kw kb top by (simp add: unat_word_ariths)
  moreover have "unat ?base + k * unat ?blk < 2 ^ 52" using kb top blk by linarith
  ultimately have "unat (take_bit 52 (?base + of_nat k * ?blk)) = unat ?base + k * unat ?blk"
    unfolding unsigned_take_bit_eq by (simp add: take_bit_eq_mod)
  then show ?thesis unfolding k(2) block_at_def using kb desc_level(3) [of d] by simp
qed

text \<open>
  C30. A list that validation accepts for a contiguous request is consumed without failing an
  assertion: the single range is returned with exactly the validated total size, a power
  of two to which the base is aligned, it contains all blocks of the list, and no block
  is left; for a list without blocks, the consumption reports that it is empty.
\<close>

theorem reduce_contig_after_validate:
  assumes "al_count l \<le> 512" "length (range_desc l) = 512"
    and "addr_list_validate l True state = Some (Some tot)"
  shows "\<exists>r l'. addr_list_reduce_contig_block l = Some (r, l') \<and> blocks l' = [] \<and>
    (case r of None \<Rightarrow> blocks l = []
     | Some (base, sz, st) \<Rightarrow> sz = tot \<and> IS_POWER_OF_TWO sz \<and> ALIGNED base sz \<and>
         (\<forall>(a, level, s) \<in> set (blocks l). s = st \<and> unat base \<le> unat a \<and>
           unat a + unat (XLAT_BLOCK_SIZE level) \<le> unat base + unat sz))"
proof -
  let ?ds = "range_desc l" and ?n = "al_count l"
  define ne where "ne = nonempty (take ?n ?ds)"
  have ty: "al_type l = LIST_TYPE_INPUT"
    and st: "state \<in> {RMI_OP_MEM_DELEGATED, RMI_OP_MEM_UNDELEGATED, RMI_OP_MEM_CONDITIONAL}"
    using assms(3) by (auto simp: addr_list_validate_def split: if_splits)
  from validate_eq [OF ty assms(1,2) st ne_def, of True] assms(3)
  have v: "unat tot = sum_list (map desc_bytes ne)" "length ne \<le> 1" "\<forall>d \<in> set ne. contig_desc d"
    by (auto split: if_splits)
  have bl: "blocks l = concat (map desc_blocks ne)"
    unfolding blocks_def ne_def by (rule blocks_nonempty)
  have "0 + ?n \<le> length ?ds" using assms(1,2) by simp
  then obtain j where j: "skip_empty ?n ?ds 0 = Some j" "j \<le> ?n"
    "\<And>n. n < j \<Longrightarrow> desc_is_empty (?ds ! n)" "j < ?n \<Longrightarrow> \<not> desc_is_empty (?ds ! j)"
    by (rule skip_empty_spec) auto
  show ?thesis
  proof (cases "j = ?n")
    case True
    then have "ne = []" using j(3) assms by (auto simp: ne_def filter_empty_conv in_set_conv_nth)
    moreover have "addr_list_reduce_contig_block l = Some (None, l)"
      using True j(1) ty by (simp add: addr_list_reduce_contig_block_def)
    ultimately show ?thesis using bl by simp
  next
    case False
    then have jl: "j < ?n" "j < length ?ds" using j(2) assms by auto
    let ?d = "?ds ! j"
    have d: "\<not> desc_is_empty ?d" using j(4) jl by simp
    have sp: "take ?n ?ds = take j ?ds @ ?d # drop (Suc j) (take ?n ?ds)"
      using id_take_nth_drop [of j "take ?n ?ds"] jl by (simp add: min_def)
    have before: "nonempty (take j ?ds) = []"
      using j(3) jl by (auto simp: filter_empty_conv in_set_conv_nth)
    have "ne = nonempty (take j ?ds @ ?d # drop (Suc j) (take ?n ?ds))"
      unfolding ne_def by (rule arg_cong [OF sp])
    then have "ne = ?d # nonempty (drop (Suc j) (take ?n ?ds))"
      using before d by simp
    then have ne: "ne = [?d]" and rest: "nonempty (drop (Suc j) (take ?n ?ds)) = []" using v(2) by auto
    have "desc_is_empty (?ds ! n)" if "Suc j \<le> n" "n < ?n" for n
    proof -
      have "?ds ! n \<in> set (drop (Suc j) (take ?n ?ds))"
        using that assms(1,2) by (auto simp: in_set_conv_nth intro!: exI [of _ "n - Suc j"])
      then show ?thesis using rest by (auto simp: filter_empty_conv)
    qed
    then have after: "all_empty_from (?n - (j + 1)) ?ds (j + 1) = Some ()"
      using jl assms(1,2) by (intro all_empty_from_ok) auto
    have cd: "contig_desc ?d" using v(3) ne by simp
    then have p2: "IS_POWER_OF_TWO (get_cnt_from_desc ?d * desc_blk_size ?d)"
      "ALIGNED (get_addr_from_desc ?d) (get_cnt_from_desc ?d * desc_blk_size ?d)"
      using contig_desc_word [OF d] by (simp_all add: mult.commute)
    have tot: "get_cnt_from_desc ?d * desc_blk_size ?d = tot" "unat tot = desc_bytes ?d"
      using v(1) ne desc_bytes_word [of ?d] by (simp_all add: word_unat_eq_iff mult.commute)
    let ?l = "l\<lparr>range_desc := ?ds[j := set_cnt_in_desc ?d 0]\<rparr>"
    have "addr_list_reduce_contig_block l =
        Some (Some (get_addr_from_desc ?d, tot, get_st_from_desc ?d), ?l)"
      using j(1) ty jl after p2 tot(1)
      by (simp add: addr_list_reduce_contig_block_def al_update_def Let_def)
    moreover have "blocks ?l = []"
    proof -
      have "take ?n (?ds[j := set_cnt_in_desc ?d 0]) =
          take j ?ds @ set_cnt_in_desc ?d 0 # drop (Suc j) (take ?n ?ds)"
        using jl upd_conv_take_nth_drop [of j "take ?n ?ds" "set_cnt_in_desc ?d 0"]
        by (simp add: take_update_swap min_def)
      then show ?thesis using rest before set_cnt_empty [of ?d]
        by (simp add: blocks_def blocks_nonempty [of "take j ?ds"]
            blocks_nonempty [of "drop (Suc j) (take ?n ?ds)"] desc_blocks_empty)
    qed
    ultimately show ?thesis
      using contig_block_bounds [OF cd] p2 tot bl ne by (auto split: prod.splits)
  qed
qed

theorem reduce_contig_after_validate_witness:
  "\<exists>r l'. addr_list_reduce_contig_block \<lparr>range_desc = 0x2008 # replicate 511 0, al_count = 1,
     cur_idx = 0, max_count = 1, al_type = LIST_TYPE_INPUT\<rparr> = Some (r, l') \<and> blocks l' = []"
proof -
  let ?l = "\<lparr>range_desc = 0x2008 # replicate 511 0, al_count = 1, cur_idx = 0, max_count = 1,
    al_type = LIST_TYPE_INPUT\<rparr>"
  have d: "get_addr_from_desc 0x2008 = 0x2000" "get_cnt_from_desc 0x2008 = 2" "get_st_from_desc 0x2008 = 0"
    "desc_blk_size 0x2008 = 2 ^ 12"
    by (simp_all add: get_addr_from_desc_def get_cnt_from_desc_def get_st_from_desc_def desc_blk_size_def
        get_sz_from_desc_def EXTRACT_take_bit sz_to_blk_values)
  have "addr_list_validate ?l True RMI_OP_MEM_DELEGATED = Some (Some 0x2000)"
    by (simp add: addr_list_validate_def d ALIGNED_def IS_VALID_XLAT_BLOCK_SIZE_def block_size_values
        get_max_block_cnt_def MAX_BLOCK_CNT_4K_def IS_POWER_OF_TWO_def)
  from reduce_contig_after_validate [OF _ _ this] show ?thesis by auto
qed

subsection \<open>Copying to the host\<close>

lemma page_offset: "unat ((a AND NOT GRANULE_MASK) div 8) = (unat a mod 4096) div 8"
proof -
  have "a AND NOT GRANULE_MASK = take_bit 12 a"
    unfolding GRANULE_MASK_def GRANULE_SIZE_eq exp_minus_1_eq_mask
    by (rule bit_word_eqI) (auto simp: bit_simps)
  then have "unat (a AND NOT GRANULE_MASK) = unat a mod 4096"
    by (simp add: take_bit_eq_mod unat_mod)
  then show ?thesis by (simp add: unat_div)
qed

lemma page_base: "GRANULE_ALIGNED (a AND GRANULE_MASK)"
  unfolding GRANULE_ALIGNED_bits GRANULE_MASK_def GRANULE_SIZE_eq exp_minus_1_eq_mask
  by (auto simp: bit_simps)

lemma page_offset_word:
  assumes "ALIGNED a 8"
  defines "off \<equiv> ucast ((a AND NOT GRANULE_MASK) div 8 * 8) :: u32"
  shows "unat off = unat a mod 4096" "unat (off AND ucast (NOT GRANULE_MASK)) = unat a mod 4096"
proof -
  have "8 dvd unat a mod 4096" using assms(1) ALIGNED_unat [of a 3] by (simp add: dvd_mod)
  then have "unat ((a AND NOT GRANULE_MASK) div 8 * 8) = unat a mod 4096"
    by (simp add: unat_word_ariths(2) page_offset)
  then show u: "unat off = unat a mod 4096" unfolding off_def by (simp add: unsigned_ucast_eq take_bit_nat_eq_self)
  have "ucast (NOT GRANULE_MASK) = (mask 12 :: u32)"
    unfolding GRANULE_MASK_def GRANULE_SIZE_eq exp_minus_1_eq_mask
    by (rule bit_word_eqI) (auto simp: bit_simps)
  then have "off AND ucast (NOT GRANULE_MASK) = take_bit 12 off" by (simp add: take_bit_eq_mask and.commute)
  then show "unat (off AND ucast (NOT GRANULE_MASK)) = unat a mod 4096"
    using u by (simp add: take_bit_eq_mod unat_mod)
qed

text \<open>Within the granule, the checks of the access functions pass.\<close>

lemma ns_access_within:
  assumes "ALIGNED a 8" and "unat a mod 4096 + 8 * n \<le> 4096"
  shows "ns_access_ok (a AND GRANULE_MASK) (ucast ((a AND NOT GRANULE_MASK) div 8 * 8)) (of_nat n * 8)"
proof -
  let ?off = "ucast ((a AND NOT GRANULE_MASK) div 8 * 8) :: u32"
  have n: "unat (of_nat n * 8 :: u64) = 8 * n" using assms(2) by (simp add: unat_word_ariths unat_of_nat)
  have "8 dvd unat a mod 4096" using assms(1) ALIGNED_unat [of a 3] by (simp add: dvd_mod)
  then have "ALIGNED (ucast ?off :: u64) 8" "ALIGNED (of_nat n * 8 :: u64) 8"
    using page_offset_word(1) [OF assms(1)] n ALIGNED_unat [of _ 3] by (simp_all add: unat_ucast_up)
  moreover have "unat (GRANULE_SIZE - ucast (?off AND ucast (NOT GRANULE_MASK)) :: u64) = 4096 - unat a mod 4096"
    by (subst unat_sub) (simp_all add: word_le_nat_alt page_offset_word(2) [OF assms(1)] unat_ucast_up)
  ultimately show ?thesis
    using assms(2) n by (simp add: ns_access_ok_def page_base word_le_nat_alt)
qed

text \<open>
  C31. Copying an output list to the host writes its first ranges, in order, to the given place:
  as many as the list has, the host allows and fit before the end of that granule, so the
  write never crosses the granule. If the write faults nothing changes; otherwise the list
  keeps exactly the ranges that were not copied, so no block is lost or reported twice.
\<close>

theorem partial_copy_correct:
  assumes "out_ok l" and "ALIGNED addr 8"
    and "n = min (min (al_count l) cnt) ((4096 - unat addr mod 4096) div 8)"
  shows "unat addr mod 4096 + 8 * n \<le> 4096 \<and>
    (case ns_write (addr AND GRANULE_MASK) (unat addr mod 4096) (take n (range_desc l)) mem of
       None \<Rightarrow> addr_list_partial_copy_to_host ns_write mem l addr cnt = Some None
     | Some mem' \<Rightarrow> \<exists>l'. addr_list_partial_copy_to_host ns_write mem l addr cnt = Some (Some (n, l', mem')) \<and>
         out_ok l' \<and> al_count l' = al_count l - n \<and>
         blocks l = concat (map desc_blocks (take n (range_desc l))) @ blocks l')"
proof
  let ?o = "unat addr mod 4096"
  have d8: "8 dvd unat addr" using assms(2) ALIGNED_unat [of addr 3] by simp
  then have o8: "8 dvd ?o" by (simp add: dvd_mod)
  then have rem: "512 - ?o div 8 = (4096 - ?o) div 8" "?o div 8 * 8 = ?o" by (auto elim!: dvdE)
  have "?o < 4096" by simp
  then show "?o + 8 * n \<le> 4096" unfolding assms(3) by linarith
  have nc: "n \<le> al_count l" "al_count l \<le> 512" "length (range_desc l) = 512"
    using assms(1) by (auto simp: out_ok_def assms(3) min.coboundedI1)
  let ?l = "l\<lparr>al_count := al_count l - n, range_desc := take (al_count l - n) (drop n (range_desc l)) @
    drop (al_count l - n) (range_desc l)\<rparr>"
  have w: "ns_buffer_write_addr ns_write (addr AND GRANULE_MASK) (ucast ((addr AND NOT GRANULE_MASK) div 8 * 8))
      (take n (range_desc l)) mem = ns_write (addr AND GRANULE_MASK) ?o (take n (range_desc l)) mem"
    using ns_access_within [OF assms(2), of n] \<open>?o + 8 * n \<le> 4096\<close> nc page_offset_word(2) [OF assms(2)]
    by (simp add: ns_buffer_write_addr_def min_absorb2)
  have eq: "addr_list_partial_copy_to_host ns_write mem l addr cnt =
      (case ns_write (addr AND GRANULE_MASK) ?o (take n (range_desc l)) mem of
         None \<Rightarrow> Some None | Some mem' \<Rightarrow> Some (Some (n, ?l, mem')))"
    using assms(1,2)
    by (simp add: addr_list_partial_copy_to_host_def out_ok_def page_offset rem Let_def w
        assms(3) [symmetric] split: option.split)
  have tk: "take (al_count l) (range_desc l) = take n (range_desc l) @ take (al_count l - n) (drop n (range_desc l))"
    using nc by (metis le_add_diff_inverse take_add)
  have "out_ok ?l"
    using assms(1) nc by (auto simp: out_ok_def nth_append)
  moreover have "blocks l = concat (map desc_blocks (take n (range_desc l))) @ blocks ?l"
    unfolding blocks_def tk using nc by simp
  ultimately show "case ns_write (addr AND GRANULE_MASK) ?o (take n (range_desc l)) mem of
       None \<Rightarrow> addr_list_partial_copy_to_host ns_write mem l addr cnt = Some None
     | Some mem' \<Rightarrow> \<exists>l'. addr_list_partial_copy_to_host ns_write mem l addr cnt = Some (Some (n, l', mem')) \<and>
         out_ok l' \<and> al_count l' = al_count l - n \<and>
         blocks l = concat (map desc_blocks (take n (range_desc l))) @ blocks l'"
    unfolding eq by (auto split: option.split)
qed

text \<open>Host memory of one granule, written at a byte offset.\<close>

definition ns_write_granule :: "u64 \<Rightarrow> nat \<Rightarrow> u64 list \<Rightarrow> u64 list \<Rightarrow> u64 list option" where
  "ns_write_granule g off ws mem = Some (take (off div 8) mem @ ws @ drop (off div 8 + length ws) mem)"

theorem partial_copy_correct_witness:
  "\<exists>l' mem'. addr_list_partial_copy_to_host ns_write_granule (replicate 512 0)
     \<lparr>range_desc = [0x9004, 0x3004] @ replicate 510 0, al_count = 2, cur_idx = 0, max_count = 2,
       al_type = LIST_TYPE_OUTPUT\<rparr> 0x7FFF8 2 = Some (Some (1, l', mem')) \<and> al_count l' = 1"
proof -
  let ?l = "\<lparr>range_desc = [0x9004, 0x3004] @ replicate 510 0, al_count = 2, cur_idx = 0, max_count = 2,
    al_type = LIST_TYPE_OUTPUT\<rparr>"
  have "get_cnt_from_desc 0x9004 = 1" "get_cnt_from_desc 0x3004 = 1"
    by (simp_all add: get_cnt_from_desc_def EXTRACT_take_bit)
  then have "out_ok ?l" by (auto simp: out_ok_def less_2_cases_iff desc_is_empty_def)
  from partial_copy_correct [OF this, of "0x7FFF8" 1 2 ns_write_granule "replicate 512 0"] show ?thesis
    by (auto simp: ALIGNED_def ns_write_granule_def)
qed

end
