(* ===== verification/Sarray.thy ===== *)
theory Sarray
  imports Rmm_Prelude
begin

text \<open>
  The sorted array table of \<^verbatim>\<open>src/lib/sarray\<close>, which holds the map from MPIDR to REC
  and the map from VDEV identifier to VDEV of a Realm.

  Memory is a function from addresses to bytes, pointers are 64-bit words with \<open>0\<close> for
  \<^verbatim>\<open>NULL\<close>, and elements live in the caller's buffer, their key in their first eight bytes.
  The handle is a record of its own; a \<^verbatim>\<open>NULL\<close> handle is \<open>None\<close>.
\<close>

subsection \<open>Byte memory\<close>

type_synonym memory = "u64 \<Rightarrow> u8"

definition load_bytes :: "memory \<Rightarrow> u64 \<Rightarrow> nat \<Rightarrow> u8 list" where
  "load_bytes m a n = map (\<lambda>i. m (a + of_nat i)) [0..<n]"

definition store_bytes :: "memory \<Rightarrow> u64 \<Rightarrow> u8 list \<Rightarrow> memory" where
  "store_bytes m a bs = (\<lambda>x. if unat (x - a) < length bs then bs ! unat (x - a) else m x)"

text \<open>\<^verbatim>\<open>memmove\<close>, and \<^verbatim>\<open>memcpy\<close> on the non-overlapping ranges it is defined for.\<close>

definition memmove :: "memory \<Rightarrow> u64 \<Rightarrow> u64 \<Rightarrow> u64 \<Rightarrow> memory" where
  "memmove m dst src n = store_bytes m dst (load_bytes m src (unat n))"

definition memcpy :: "memory \<Rightarrow> u64 \<Rightarrow> u64 \<Rightarrow> u64 \<Rightarrow> memory" where
  "memcpy m dst src n = store_bytes m dst (load_bytes m src (unat n))"

text \<open>Little-endian 64-bit accesses.\<close>

definition le_word :: "u8 list \<Rightarrow> u64" where
  "le_word bs = foldr (\<lambda>b acc. ucast b OR push_bit 8 acc) (take 8 bs) 0"

definition le_bytes :: "u64 \<Rightarrow> u8 list" where
  "le_bytes v = map (\<lambda>i. ucast (drop_bit (8 * i) v)) [0..<8]"

definition load_u64 :: "memory \<Rightarrow> u64 \<Rightarrow> u64" where
  "load_u64 m a = le_word (load_bytes m a 8)"

definition store_u64 :: "memory \<Rightarrow> u64 \<Rightarrow> u64 \<Rightarrow> memory" where
  "store_u64 m a v = store_bytes m a (le_bytes v)"

subsection \<open>The handle\<close>


abbreviation (input) NULL :: u64 where "NULL \<equiv> 0"

record sarray_hdr =
  hnd_base :: u64
  elem_sz :: u64
  max_elems :: u64
  num_elems :: u64

definition elem_ptr :: "sarray_hdr \<Rightarrow> u64 \<Rightarrow> u64 \<Rightarrow> u64" where
  "elem_ptr hnd esz idx = (if hnd_base hnd = NULL then NULL else hnd_base hnd + idx * esz)"

definition key_const_ptr :: "sarray_hdr \<Rightarrow> u64 \<Rightarrow> u64 \<Rightarrow> u64" where
  "key_const_ptr hnd esz idx = elem_ptr hnd esz idx"

definition verify_sarray_hnd :: "sarray_hdr option \<Rightarrow> int" where
  "verify_sarray_hnd hnd = (case hnd of
     None \<Rightarrow> - EINVAL
   | Some h \<Rightarrow>
       if hnd_base h = NULL then - EINVAL
       else if \<not> ALIGNED (hnd_base h) 8 then - EINVAL
       else if max_elems h = 0 then - EINVAL
       else if elem_sz h < 8 then - EINVAL
       else if \<not> ALIGNED (elem_sz h) 8 then - EINVAL
       else if num_elems h > max_elems h then - EINVAL
       else 0)"

definition verify_sarray_access :: "sarray_hdr option \<Rightarrow> u64 \<Rightarrow> int" where
  "verify_sarray_access hnd esz = (case hnd of
     None \<Rightarrow> - EINVAL
   | Some h \<Rightarrow>
       if verify_sarray_hnd (Some h) \<noteq> 0 \<or> elem_sz h \<noteq> esz then - EINVAL else 0)"

definition data_overlaps_sarray :: "sarray_hdr \<Rightarrow> u64 \<Rightarrow> bool" where
  "data_overlaps_sarray hnd data =
     (let array_start = hnd_base hnd;
          data_start = data;
          array_sz = max_elems hnd * elem_sz hnd
      in if array_start > UINT64_MAX - array_sz \<or> data_start > UINT64_MAX - elem_sz hnd then True
         else let array_end = array_start + array_sz;
                  data_end = data_start + elem_sz hnd
              in data_start < array_end \<and> array_start < data_end)"

definition sarray_first :: "sarray_hdr option \<Rightarrow> u64" where
  "sarray_first hnd = (case hnd of None \<Rightarrow> NULL | Some h \<Rightarrow> hnd_base h)"

definition sarray_num_elems :: "sarray_hdr option \<Rightarrow> u64" where
  "sarray_num_elems hnd = (case hnd of
     None \<Rightarrow> 0
   | Some h \<Rightarrow> if verify_sarray_hnd (Some h) \<noteq> 0 then 0 else num_elems h)"

definition sarray_last :: "sarray_hdr option \<Rightarrow> u64 \<Rightarrow> u64" where
  "sarray_last hnd esz = (case hnd of
     None \<Rightarrow> NULL
   | Some h \<Rightarrow> if verify_sarray_access (Some h) esz \<noteq> 0 then NULL
               else hnd_base h + sarray_num_elems (Some h) * esz)"

definition get_element :: "sarray_hdr option \<Rightarrow> u64 \<Rightarrow> u64 \<Rightarrow> u64" where
  "get_element hnd esz idx = (case hnd of
     None \<Rightarrow> NULL
   | Some h \<Rightarrow> if verify_sarray_access (Some h) esz \<noteq> 0 then NULL else elem_ptr h esz idx)"

text \<open>\<^verbatim>\<open>_sarray_init\<close> returns the initialised handle, or \<open>None\<close> for \<^verbatim>\<open>NULL\<close>.\<close>

definition sarray_init :: "sarray_hdr option \<Rightarrow> u64 \<Rightarrow> u64 \<Rightarrow> u64 \<Rightarrow> sarray_hdr option" where
  "sarray_init hnd base sz esz = (case hnd of
     None \<Rightarrow> None
   | Some h \<Rightarrow>
       if base = NULL then None
       else if esz < 8 then None
       else if \<not> ALIGNED base 8 \<or> \<not> ALIGNED esz 8 then None
       else if sz < esz then None
       else if sz div esz = 0 then None
       else Some (h\<lparr>hnd_base := base, elem_sz := esz, max_elems := sz div esz, num_elems := 0\<rparr>))"

definition sarray_destroy :: "sarray_hdr option \<Rightarrow> sarray_hdr option" where
  "sarray_destroy hnd = (case hnd of
     None \<Rightarrow> None
   | Some h \<Rightarrow> Some (h\<lparr>hnd_base := NULL, elem_sz := 0, max_elems := 0, num_elems := 0\<rparr>))"

subsection \<open>Search\<close>

lemma bsearch_mid:
  fixes left right :: u64
  assumes "left < right"
  shows "left \<le> left + (right - left) div 2" "left + (right - left) div 2 < right"
    "unat (left + (right - left) div 2) = unat left + (unat right - unat left) div 2"
proof -
  have lt: "unat left < unat right" using assms by (simp add: word_less_nat_alt)
  have d: "unat ((right - left) div 2) = (unat right - unat left) div 2"
    using assms by (simp add: unat_div unat_sub order_less_imp_le)
  have b: "unat left + (unat right - unat left) div 2 < unat right" using lt by linarith
  then have "unat left + (unat right - unat left) div 2 < 2 ^ 64"
    using unat_lt2p_64 [of right] by linarith
  then show u: "unat (left + (right - left) div 2) = unat left + (unat right - unat left) div 2"
    using d by (simp add: unat_word_ariths)
  show "left \<le> left + (right - left) div 2" unfolding word_le_nat_alt u by simp
  show "left + (right - left) div 2 < right" unfolding word_less_nat_alt u by (rule b)
qed

lemma bsearch_measure:
  fixes left right :: u64
  assumes "left < right"
  shows "unat (right - (left + (right - left) div 2 + 1)) < unat (right - left)"
    "unat (left + (right - left) div 2 - left) < unat (right - left)"
proof -
  let ?m = "left + (right - left) div 2"
  note m = bsearch_mid [OF assms]
  have lt: "unat left < unat right" using assms by (simp add: word_less_nat_alt)
  have ml: "unat ?m < unat right" using m(2) by (simp add: word_less_nat_alt)
  then have "unat ?m + 1 < 2 ^ 64" using unat_lt2p_64 [of right] by linarith
  then have "unat (?m + 1) = unat ?m + 1" by (simp add: unat_word_ariths)
  moreover have "?m + 1 \<le> right" unfolding word_le_nat_alt using calculation ml by simp
  ultimately show "unat (right - (?m + 1)) < unat (right - left)"
    using lt ml assms by (simp only: unat_sub order_less_imp_le) (use m(1) in \<open>simp add: word_le_nat_alt\<close>)
  show "unat (?m - left) < unat (right - left)"
    using lt ml m(1,3) assms by (simp only: unat_sub order_less_imp_le)
qed

text \<open>The loop of \<^verbatim>\<open>binary_search_internal\<close>: whether the key is found, and the index.\<close>

function bsearch_loop :: "memory \<Rightarrow> sarray_hdr \<Rightarrow> u64 \<Rightarrow> u64 \<Rightarrow> u64 \<Rightarrow> u64 \<Rightarrow> bool \<times> u64" where
  "bsearch_loop m hnd esz key left right =
     (if left < right then
        (let mid = left + (right - left) div 2;
             mid_key = load_u64 m (key_const_ptr hnd esz mid)
         in if mid_key = key then (True, mid)
            else if mid_key < key then bsearch_loop m hnd esz key (mid + 1) right
            else bsearch_loop m hnd esz key left mid)
      else (False, left))"
  by pat_completeness auto

termination
  by (relation "measure (\<lambda>(m, hnd, esz, key, left, right). unat (right - left))")
    (simp_all add: bsearch_measure bsearch_measure(2) [simplified])

declare bsearch_loop.simps [simp del]

text \<open>The \<^verbatim>\<open>idx\<close> pointer is \<open>None\<close> for \<^verbatim>\<open>NULL\<close> and otherwise the pointed-to value.\<close>

definition binary_search_internal ::
  "memory \<Rightarrow> sarray_hdr option \<Rightarrow> u64 \<Rightarrow> u64 \<Rightarrow> u64 option \<Rightarrow> bool \<times> u64 option" where
  "binary_search_internal m hnd esz key idx = (case idx of
     None \<Rightarrow> (False, idx)
   | Some i \<Rightarrow> (case hnd of
       None \<Rightarrow> (False, idx)
     | Some h \<Rightarrow>
         if verify_sarray_access hnd esz \<noteq> 0 then (False, idx)
         else let (found, j) = bsearch_loop m h esz key 0 (num_elems h) in (found, Some j)))"

subsection \<open>Lookup, insertion and deletion\<close>

text \<open>The stack variable \<^verbatim>\<open>idx\<close> of the callers holds \<open>i\<^sub>0\<close> before the search writes it.\<close>

definition sarray_lookup_locked ::
  "memory \<Rightarrow> sarray_hdr option \<Rightarrow> u64 \<Rightarrow> u64 \<Rightarrow> u64 \<Rightarrow> u64" where
  "sarray_lookup_locked m hnd esz key i\<^sub>0 = (case hnd of
     None \<Rightarrow> NULL
   | Some h \<Rightarrow>
       if verify_sarray_access hnd esz \<noteq> 0 then NULL
       else (case binary_search_internal m hnd esz key (Some i\<^sub>0) of
               (True, Some idx) \<Rightarrow> elem_ptr h esz idx
             | _ \<Rightarrow> NULL))"

definition sarray_insert_locked ::
  "memory \<Rightarrow> sarray_hdr option \<Rightarrow> u64 \<Rightarrow> u64 \<Rightarrow> u64 \<Rightarrow> (int \<times> memory \<times> sarray_hdr option) option" where
  "sarray_insert_locked m hnd esz key data = do {
     c_assert (data \<noteq> NULL);
     (case hnd of
        None \<Rightarrow> Some (- EINVAL, m, hnd)
      | Some h \<Rightarrow>
          if verify_sarray_access hnd esz \<noteq> 0 then Some (- EINVAL, m, hnd)
          else if data_overlaps_sarray h data then Some (- EINVAL, m, hnd)
          else (case binary_search_internal m hnd esz key (Some 0) of
                  (True, _) \<Rightarrow> Some (- EEXIST, m, hnd)
                | (False, None) \<Rightarrow> None
                | (False, Some idx) \<Rightarrow>
                    if num_elems h = max_elems h then Some (- ENOSPC, m, hnd)
                    else
                      let count = num_elems h - idx;
                          m\<^sub>1 = (if count > 0
                                then memmove m (elem_ptr h esz (idx + 1)) (elem_ptr h esz idx) (count * esz)
                                else m);
                          dst = elem_ptr h esz idx;
                          m\<^sub>2 = memcpy m\<^sub>1 dst data esz;
                          m\<^sub>3 = store_u64 m\<^sub>2 dst key
                      in Some (0, m\<^sub>3, Some (h\<lparr>num_elems := num_elems h + 1\<rparr>))))
   }"

definition sarray_delete_locked ::
  "memory \<Rightarrow> sarray_hdr option \<Rightarrow> u64 \<Rightarrow> u64 \<Rightarrow> u64 \<Rightarrow> u64 \<Rightarrow> int \<times> memory \<times> sarray_hdr option" where
  "sarray_delete_locked m hnd esz key deleted_data i\<^sub>0 = (case hnd of
     None \<Rightarrow> (- EINVAL, m, hnd)
   | Some h \<Rightarrow>
       if verify_sarray_access hnd esz \<noteq> 0 then (- EINVAL, m, hnd)
       else (case binary_search_internal m hnd esz key (Some i\<^sub>0) of
               (True, Some idx) \<Rightarrow>
                 if deleted_data \<noteq> NULL \<and> data_overlaps_sarray h deleted_data then (- EINVAL, m, hnd)
                 else
                   let m\<^sub>1 = (if deleted_data \<noteq> NULL
                             then memcpy m deleted_data (elem_ptr h esz idx) esz else m);
                       count = num_elems h - idx - 1;
                       m\<^sub>2 = (if count > 0
                             then memmove m\<^sub>1 (elem_ptr h esz idx) (elem_ptr h esz (idx + 1)) (count * esz)
                             else m\<^sub>1)
                   in (0, m\<^sub>2, Some (h\<lparr>num_elems := num_elems h - 1\<rparr>))
             | _ \<Rightarrow> (- ENOENT, m, hnd)))"

end
