(* ===== verification/Sarray_Props.thy ===== *)
theory Sarray_Props
  imports Sarray
begin

text \<open>
  Correctness of the sorted array: the elements in the buffer stay sorted by key, the
  search finds a key exactly when it is present, and insertion and deletion are update and
  removal of a finite map from keys to payloads, with no byte outside the buffer changed.
\<close>

subsection \<open>Accesses by offset\<close>

lemma length_load_bytes [simp]: "length (load_bytes m a n) = n"
  by (simp add: load_bytes_def)

lemma nth_load_bytes [simp]: "i < n \<Longrightarrow> load_bytes m a n ! i = m (a + of_nat i)"
  by (simp add: load_bytes_def)

lemma take_load_bytes: "k \<le> n \<Longrightarrow> take k (load_bytes m a n) = load_bytes m a k"
  by (rule nth_equalityI) auto

lemma length_le_bytes [simp]: "length (le_bytes v) = 8"
  by (simp add: le_bytes_def)

lemma unat_offset:
  assumes "o' \<le> N" "p < N" "N \<le> 2 ^ 64"
  shows "unat ((B + of_nat p) - (B + of_nat o') :: u64) = (if o' \<le> p then p - o' else 2 ^ 64 + p - o')"
proof (cases "o' \<le> p")
  case True
  then have "(B + of_nat p) - (B + of_nat o') = (of_nat (p - o') :: u64)" by simp
  moreover have "p - o' < 2 ^ 64" using assms by linarith
  ultimately show ?thesis using True by (simp only: unsigned_of_nat) (simp add: take_bit_nat_eq_self_iff)
next
  case False
  let ?x = "of_nat (o' - p) :: u64"
  have "(B + of_nat p) - (B + of_nat o') = - ?x" using False by simp
  moreover have "unat ?x = (o' - p) mod 2 ^ 64"
    by (simp add: unsigned_of_nat take_bit_eq_mod)
  moreover have "unat (- ?x) = (2 ^ 64 - unat ?x) mod 2 ^ 64"
    using unat_sub_if' [of 0 ?x] unat_lt2p_64 [of ?x] by (cases "unat ?x = 0") simp_all
  moreover have "o' - p < 2 ^ 64 \<or> o' - p = 2 ^ 64" using assms by linarith
  ultimately show ?thesis using False by auto
qed

lemma store_bytes_at:
  assumes "o' + length bs \<le> N" "p < N" "N \<le> 2 ^ 64"
  shows "store_bytes m (B + of_nat o') bs (B + of_nat p) =
    (if o' \<le> p \<and> p < o' + length bs then bs ! (p - o') else m (B + of_nat p))"
proof -
  have "o' \<le> N" using assms(1) by linarith
  then show ?thesis
    using assms unat_offset [OF _ assms(2,3), of o' B]
    by (auto simp: store_bytes_def split: if_splits)
qed

lemma store_bytes_outside:
  assumes "length bs \<le> unat (x - a)"
  shows "store_bytes m a bs x = m x"
  using assms by (simp add: store_bytes_def)

text \<open>A store inside the first \<open>N\<close> bytes from \<open>B\<close> changes nothing outside them.\<close>

lemma store_bytes_frame:
  assumes "o' + length bs \<le> N" "N \<le> 2 ^ 64" "N \<le> unat (x - B)"
  shows "store_bytes m (B + of_nat o') bs x = m x"
proof (rule store_bytes_outside)
  have "N < 2 ^ 64" using assms(3) unat_lt2p_64 [of "x - B"] by linarith
  then have u: "unat (of_nat o' :: u64) = o'"
    using assms(1) by (simp add: unsigned_of_nat take_bit_nat_eq_self_iff)
  have "x - (B + of_nat o') = (x - B) - of_nat o'" by simp
  then have "unat (x - (B + of_nat o')) = unat (x - B) - o'"
    using assms(1,3) u by (simp only: unat_sub word_le_nat_alt)
  then show "length bs \<le> unat (x - (B + of_nat o'))" using assms(1,3) by linarith
qed

subsection \<open>Little-endian words\<close>

lemma le_word_prefix: "8 \<le> n \<Longrightarrow> le_word (load_bytes m a n) = load_u64 m a"
  by (simp add: le_word_def load_u64_def take_load_bytes)

lemma le_word_take: "le_word (take n bs) = le_word bs" if "8 \<le> n"
  using that by (simp add: le_word_def min_absorb1)

lemma bit_foldr_le:
  "bit (foldr (\<lambda>b acc. ucast b OR push_bit 8 acc) bs (0 :: u64)) n \<longleftrightarrow>
     n < 64 \<and> n div 8 < length bs \<and> bit ((bs :: u8 list) ! (n div 8)) (n mod 8)"
proof (induction bs arbitrary: n)
  case (Cons b bs)
  show ?case
  proof (cases "n < 8")
    case True
    then show ?thesis by (simp add: bit_simps)
  next
    case False
    then obtain k where k: "n = k + 8" by (metis add.commute le_Suc_ex not_less)
    have "n div 8 = Suc (k div 8)" "n mod 8 = k mod 8" unfolding k by simp_all
    moreover have "\<not> bit b n" using False bit_imp_le_length [of b n] by auto
    ultimately show ?thesis using Cons.IH [of k] k by (auto simp: bit_simps)
  qed
qed simp

lemma le_word_le_bytes [simp]: "le_word (le_bytes v @ bs) = v"
proof (rule bit_word_eqI)
  fix n assume "n < LENGTH(64)"
  then have n: "n < 64" by simp
  have "8 * (n div 8) + n mod 8 = n" by simp
  moreover have "n < 64 \<Longrightarrow> n div 8 < 8" by linarith
  ultimately show "bit (le_word (le_bytes v @ bs)) n = bit v n"
    unfolding le_word_def using n
    by (auto simp: bit_foldr_le le_bytes_def bit_simps)
qed


subsection \<open>The elements of the array\<close>

abbreviation esize :: "sarray_hdr \<Rightarrow> nat" where "esize h \<equiv> unat (elem_sz h)"
abbreviation nelems :: "sarray_hdr \<Rightarrow> nat" where "nelems h \<equiv> unat (num_elems h)"
abbreviation asize :: "sarray_hdr \<Rightarrow> nat" where "asize h \<equiv> unat (max_elems h) * unat (elem_sz h)"

definition elem :: "memory \<Rightarrow> sarray_hdr \<Rightarrow> nat \<Rightarrow> u8 list" where
  "elem m h i = load_bytes m (hnd_base h + of_nat (i * esize h)) (esize h)"

definition elems :: "memory \<Rightarrow> sarray_hdr \<Rightarrow> u8 list list" where
  "elems m h = map (elem m h) [0..<nelems h]"

definition keys :: "memory \<Rightarrow> sarray_hdr \<Rightarrow> u64 list" where
  "keys m h = map le_word (elems m h)"

text \<open>A valid handle on a buffer that does not run past the end of the address space.\<close>

definition hnd_ok :: "sarray_hdr \<Rightarrow> bool" where
  "hnd_ok h \<longleftrightarrow> verify_sarray_hnd (Some h) = 0 \<and> unat (hnd_base h) + asize h < 2 ^ 64"

definition sarray_ok :: "memory \<Rightarrow> sarray_hdr \<Rightarrow> bool" where
  "sarray_ok m h \<longleftrightarrow> hnd_ok h \<and> sorted_wrt (<) (keys m h)"

text \<open>The finite map that the array represents: keys to the bytes after the key.\<close>

definition sarray_map :: "memory \<Rightarrow> sarray_hdr \<Rightarrow> u64 \<Rightarrow> u8 list option" where
  "sarray_map m h = map_of (map (\<lambda>e. (le_word e, drop 8 e)) (elems m h))"

lemma verify_hnd_iff:
  "verify_sarray_hnd (Some h) = 0 \<longleftrightarrow>
     hnd_base h \<noteq> 0 \<and> ALIGNED (hnd_base h) 8 \<and> max_elems h \<noteq> 0 \<and> 8 \<le> elem_sz h \<and>
     ALIGNED (elem_sz h) 8 \<and> num_elems h \<le> max_elems h"
  by (auto simp: verify_sarray_hnd_def)

lemma hnd_okD:
  assumes "hnd_ok h"
  shows "hnd_base h \<noteq> 0" "8 \<le> esize h" "nelems h \<le> unat (max_elems h)" "asize h < 2 ^ 64"
    "verify_sarray_access (Some h) (elem_sz h) = 0"
  using assms by (auto simp: hnd_ok_def verify_hnd_iff verify_sarray_access_def word_le_nat_alt)

lemma length_elems [simp]: "length (elems m h) = nelems h" "length (keys m h) = nelems h"
  by (simp_all add: elems_def keys_def)

lemma nth_elems [simp]: "i < nelems h \<Longrightarrow> elems m h ! i = elem m h i"
  by (simp add: elems_def)

lemma nth_keys: "i < nelems h \<Longrightarrow> keys m h ! i = le_word (elem m h i)"
  by (simp add: keys_def)

lemma elem_ptr_eq:
  assumes "hnd_base h \<noteq> 0"
  shows "elem_ptr h (elem_sz h) i = hnd_base h + of_nat (unat i * esize h)"
  using assms by (simp add: elem_ptr_def)

lemma key_at:
  assumes "hnd_ok h" "unat i < nelems h"
  shows "load_u64 m (key_const_ptr h (elem_sz h) i) = keys m h ! unat i"
  using hnd_okD [OF assms(1)] assms(2)
  by (simp add: key_const_ptr_def elem_ptr_eq nth_keys elem_def le_word_prefix)

subsection \<open>Binary search\<close>

lemma bsearch_loop_correct:
  assumes "hnd_ok h" "sorted_wrt (<) (keys m h)" "right \<le> num_elems h" "left \<le> right"
    and "\<forall>j < unat left. keys m h ! j < key"
    and "\<forall>j. unat right \<le> j \<and> j < nelems h \<longrightarrow> key < keys m h ! j"
    and "bsearch_loop m h (elem_sz h) key left right = (found, i)"
  shows "if found then unat i < nelems h \<and> keys m h ! unat i = key
         else unat i \<le> nelems h \<and> (\<forall>j < unat i. keys m h ! j < key) \<and>
              (\<forall>j. unat i \<le> j \<and> j < nelems h \<longrightarrow> key < keys m h ! j)"
  using assms
proof (induction m h "elem_sz h" key left right rule: bsearch_loop.induct)
  case (1 m h key left right)
  note loop = 1(9) [unfolded bsearch_loop.simps [of m h "elem_sz h" key left right]]
  show ?case
  proof (cases "left < right")
    case False
    then have e: "right = left" using 1(6) by simp
    moreover have "\<not> found" "i = left" using loop False by simp_all
    ultimately show ?thesis using 1(5,7,8) by (simp add: word_le_nat_alt)
  next
    case True
    let ?mid = "left + (right - left) div 2"
    note mid = bsearch_mid [OF True]
    have lt: "unat ?mid < unat right" using mid(2) by (simp add: word_less_nat_alt)
    then have n: "unat ?mid < nelems h" using 1(5) by (simp add: word_le_nat_alt)
    have k: "load_u64 m (key_const_ptr h (elem_sz h) ?mid) = keys m h ! unat ?mid"
      by (rule key_at [OF 1(3) n])
    have suc: "unat (?mid + 1) = Suc (unat ?mid)"
      using lt unat_lt2p_64 [of right] by (simp add: unat_word_ariths)
    consider "keys m h ! unat ?mid = key" | "keys m h ! unat ?mid < key" | "key < keys m h ! unat ?mid"
      by (rule linorder_cases)
    then show ?thesis
    proof cases
      case a: 1
      then show ?thesis using loop True k n by simp
    next
      case a: 2
      have "\<forall>j < unat (?mid + 1). keys m h ! j < key"
      proof (intro allI impI)
        fix j assume "j < unat (?mid + 1)"
        then have "j = unat ?mid \<or> j < unat ?mid" using suc by auto
        then show "keys m h ! j < key"
          using a n sorted_wrt_nth_less [OF 1(4), of j "unat ?mid"] by auto
      qed
      moreover have "?mid + 1 \<le> right" unfolding word_le_nat_alt suc using lt by simp
      moreover have "bsearch_loop m h (elem_sz h) key (?mid + 1) right = (found, i)"
        using loop [unfolded Let_def k] True a less_imp_neq [OF a] by simp
      ultimately show ?thesis
        by (intro 1(1) [OF True refl k [symmetric] less_imp_neq [OF a] a 1(3,4,5) _ _ 1(8)])
    next
      case a: 3
      have "\<forall>j. unat ?mid \<le> j \<and> j < nelems h \<longrightarrow> key < keys m h ! j"
      proof (intro allI impI)
        fix j assume j: "unat ?mid \<le> j \<and> j < nelems h"
        then have "j = unat ?mid \<or> unat ?mid < j" by auto
        then show "key < keys m h ! j"
          using a j sorted_wrt_nth_less [OF 1(4), of "unat ?mid" j] by auto
      qed
      moreover have "?mid \<le> num_elems h" using n by (simp add: word_le_nat_alt)
      moreover have "bsearch_loop m h (elem_sz h) key left ?mid = (found, i)"
        using loop [unfolded Let_def k] True less_imp_neq [OF a, symmetric] less_not_sym [OF a] by simp
      ultimately show ?thesis
        by (intro 1(2) [OF True refl k [symmetric] less_imp_neq [OF a, symmetric] less_not_sym [OF a]
              1(3,4) _ mid(1) 1(7)])
    qed
  qed
qed


lemma map_of_sorted_keys:
  assumes "i < nelems h" "sorted_wrt (<) (keys m h)"
  shows "sarray_map m h (keys m h ! i) = Some (drop 8 (elem m h i))"
proof -
  have "distinct (keys m h)" using assms(2) strict_sorted_iff by blast
  then have "distinct (map fst (map (\<lambda>e. (le_word e, drop 8 e)) (elems m h)))"
    by (simp add: keys_def comp_def)
  moreover have "(le_word (elem m h i), drop 8 (elem m h i)) \<in> set (map (\<lambda>e. (le_word e, drop 8 e)) (elems m h))"
    using assms(1) by (auto simp: elems_def)
  ultimately show ?thesis
    unfolding sarray_map_def nth_keys [OF assms(1)] by (rule map_of_is_SomeI)
qed

lemma dom_sarray_map: "dom (sarray_map m h) = set (keys m h)"
  by (force simp: sarray_map_def keys_def dom_map_of_conv_image_fst image_image)

text \<open>The search finds a present key, and otherwise the place where it belongs.\<close>

lemma binary_search_cases:
  assumes "sarray_ok m h"
  obtains (found) i where
      "binary_search_internal m (Some h) (elem_sz h) key (Some i\<^sub>0) = (True, Some i)"
      "unat i < nelems h" "keys m h ! unat i = key" "key \<in> dom (sarray_map m h)"
  | (absent) i where
      "binary_search_internal m (Some h) (elem_sz h) key (Some i\<^sub>0) = (False, Some i)"
      "unat i \<le> nelems h" "\<forall>j < unat i. keys m h ! j < key"
      "\<forall>j. unat i \<le> j \<and> j < nelems h \<longrightarrow> key < keys m h ! j" "key \<notin> dom (sarray_map m h)"
proof -
  have ok: "hnd_ok h" and sorted: "sorted_wrt (<) (keys m h)" using assms by (simp_all add: sarray_ok_def)
  obtain f i where l: "bsearch_loop m h (elem_sz h) key 0 (num_elems h) = (f, i)"
    by (cases "bsearch_loop m h (elem_sz h) key 0 (num_elems h)")
  then have b: "binary_search_internal m (Some h) (elem_sz h) key (Some i\<^sub>0) = (f, Some i)"
    using hnd_okD(5) [OF ok] by (simp add: binary_search_internal_def)
  have "(0 :: u64) \<le> num_elems h" "\<forall>j < unat (0 :: u64). keys m h ! j < key"
    "\<forall>j. nelems h \<le> j \<and> j < nelems h \<longrightarrow> key < keys m h ! j" by auto
  note c = bsearch_loop_correct [OF ok sorted order_refl this l]
  show thesis
  proof (cases f)
    case True
    then have i: "unat i < nelems h" "keys m h ! unat i = key" using c by simp_all
    then have "key \<in> set (keys m h)" using nth_mem [of "unat i" "keys m h"] by simp
    then show thesis using found [of i] b True i by (simp add: dom_sarray_map)
  next
    case False
    then have i: "unat i \<le> nelems h" "\<forall>j < unat i. keys m h ! j < key"
      "\<forall>j. unat i \<le> j \<and> j < nelems h \<longrightarrow> key < keys m h ! j" using c by simp_all
    have "key \<notin> set (keys m h)"
    proof
      assume "key \<in> set (keys m h)"
      then obtain j where "j < nelems h" "keys m h ! j = key" by (auto simp: in_set_conv_nth)
      then show False using i(2) [rule_format, of j] i(3) [rule_format, of j] by (cases "j < unat i") auto
    qed
    then show thesis using absent [of i] b False i by (simp add: dom_sarray_map)
  qed
qed

subsection \<open>Insertion\<close>

text \<open>The element that an insertion builds: the caller's data with the key stored over its start.\<close>

abbreviation new_elem :: "memory \<Rightarrow> sarray_hdr \<Rightarrow> u64 \<Rightarrow> u64 \<Rightarrow> u8 list" where
  "new_elem m h key data \<equiv> le_bytes key @ drop 8 (load_bytes m data (esize h))"

lemma insert_sorted:
  fixes ks :: "u64 list"
  assumes "sorted_wrt (<) ks" "i \<le> length ks" "\<forall>j < i. ks ! j < k" "\<forall>j. i \<le> j \<and> j < length ks \<longrightarrow> k < ks ! j"
  shows "sorted_wrt (<) (take i ks @ k # drop i ks)"
proof -
  have "sorted_wrt (<) (take i ks)" "sorted_wrt (<) (drop i ks)"
    using assms(1) by (rule sorted_wrt_take, rule sorted_wrt_drop)
  moreover have "\<forall>x \<in> set (take i ks). x < k" using assms(2,3) by (auto simp: in_set_conv_nth)
  moreover have "\<forall>x \<in> set (drop i ks). k < x" using assms(4) by (auto simp: in_set_conv_nth)
  ultimately show ?thesis
    by (auto simp: sorted_wrt_append intro: less_trans)
qed

lemma remove_sorted:
  fixes ks :: "u64 list"
  assumes "sorted_wrt (<) ks" "i < length ks"
  shows "sorted_wrt (<) (take i ks @ drop (Suc i) ks)"
  using assms(1) by (subst (asm) id_take_nth_drop [OF assms(2)]) (simp add: sorted_wrt_append)

lemma unat_count:
  fixes c s :: u64
  assumes "unat c * unat s < 2 ^ 64"
  shows "unat (c * s) = unat c * unat s"
  using assms by (simp add: unat_word_ariths)

lemma data_apart:
  assumes "hnd_ok h" "\<not> data_overlaps_sarray h data"
  shows "unat data + esize h < 2 ^ 64"
    and "unat (hnd_base h) + asize h \<le> unat data \<or> unat data + esize h \<le> unat (hnd_base h)"
proof -
  let ?B = "unat (hnd_base h)" and ?D = "unat data" and ?N = "asize h"
  have N: "unat (max_elems h * elem_sz h) = ?N"
    using hnd_okD(4) [OF assms(1)] by (rule unat_count)
  have bn: "?B + ?N < 2 ^ 64" using assms(1) by (simp add: hnd_ok_def)
  have m1: "unat (UINT64_MAX - x) = 2 ^ 64 - 1 - unat x" for x :: u64
    by (simp add: unat_sub unsigned_minus_1_eq_mask mask_eq_exp_minus_1)
  show d: "?D + esize h < 2 ^ 64"
    using assms(2) unat_lt2p_64 [of "elem_sz h"]
    by (auto simp: data_overlaps_sarray_def Let_def word_less_nat_alt m1 not_less split: if_splits)
  have e: "unat (hnd_base h + max_elems h * elem_sz h) = ?B + ?N" "unat (data + elem_sz h) = ?D + esize h"
    using bn d by (simp_all add: unat_word_ariths N)
  have "\<not> (?D < ?B + ?N \<and> ?B < ?D + esize h)"
    using assms(2) unfolding data_overlaps_sarray_def Let_def word_less_nat_alt m1 e N
    by (simp split: if_splits)
  then show "?B + ?N \<le> ?D \<or> ?D + esize h \<le> ?B" by linarith
qed

lemma unat_add_small: "unat a + n < 2 ^ 64 \<Longrightarrow> unat (a + of_nat n) = unat a + n" for a :: u64
  by (simp add: unat_word_ariths unsigned_of_nat take_bit_nat_eq_self)

lemma outside_array:
  assumes "hnd_ok h" "\<not> data_overlaps_sarray h data" "j < esize h" "o' + n \<le> asize h"
  shows "n \<le> unat (data + of_nat j - (hnd_base h + of_nat o'))"
proof -
  have bn: "unat (hnd_base h) + asize h < 2 ^ 64" using assms(1) by (simp add: hnd_ok_def)
  note apart = data_apart [OF assms(1,2)]
  have a: "unat (hnd_base h + of_nat o') = unat (hnd_base h) + o'" "unat (data + of_nat j) = unat data + j"
    using bn apart(1) assms(3,4) by (intro unat_add_small, linarith)+
  show ?thesis
    using apart assms(3,4) bn unfolding unat_sub_if' a by (auto split: if_splits)
qed

lemma outside_data:
  assumes "hnd_ok h" "\<not> data_overlaps_sarray h data" "p < asize h"
  shows "esize h \<le> unat (hnd_base h + of_nat p - data)"
proof -
  have bn: "unat (hnd_base h) + asize h < 2 ^ 64" using assms(1) by (simp add: hnd_ok_def)
  note apart = data_apart [OF assms(1,2)]
  have a: "unat (hnd_base h + of_nat p) = unat (hnd_base h) + p"
    using bn assms(3) by (intro unat_add_small) linarith
  show ?thesis
    using apart assms(3) bn unfolding unat_sub_if' a by (auto split: if_splits)
qed

text \<open>The memory after the three writes of an insertion at index \<open>idx\<close>.\<close>

definition insert_mem :: "memory \<Rightarrow> sarray_hdr \<Rightarrow> u64 \<Rightarrow> u64 \<Rightarrow> nat \<Rightarrow> memory" where
  "insert_mem m h key data i =
     (let m\<^sub>1 = store_bytes m (hnd_base h + of_nat (Suc i * esize h))
                 (load_bytes m (hnd_base h + of_nat (i * esize h)) ((nelems h - i) * esize h));
          m\<^sub>2 = store_bytes m\<^sub>1 (hnd_base h + of_nat (i * esize h)) (load_bytes m\<^sub>1 data (esize h))
      in store_bytes m\<^sub>2 (hnd_base h + of_nat (i * esize h)) (le_bytes key))"

lemma insert_mem_eq:
  assumes "hnd_ok h" "unat idx \<le> nelems h" "nelems h < unat (max_elems h)"
  shows "store_u64 (memcpy (if num_elems h - idx > 0
        then memmove m (elem_ptr h (elem_sz h) (idx + 1)) (elem_ptr h (elem_sz h) idx) ((num_elems h - idx) * elem_sz h)
        else m) (elem_ptr h (elem_sz h) idx) data (elem_sz h)) (elem_ptr h (elem_sz h) idx) key
      = insert_mem m h key data (unat idx)"
proof -
  note h = hnd_okD [OF assms(1)]
  have cnt: "unat (num_elems h - idx) = nelems h - unat idx"
    using assms(2) by (simp add: unat_sub word_le_nat_alt)
  have "(nelems h - unat idx) * esize h \<le> asize h" using h(3) by (intro mult_le_mono1) simp
  then have "(nelems h - unat idx) * esize h < 2 ^ 64" using h(4) by (rule le_less_trans)
  then have sz: "unat ((num_elems h - idx) * elem_sz h) = (nelems h - unat idx) * esize h"
    using cnt unat_count [of "num_elems h - idx" "elem_sz h"] by simp
  have suc: "unat (idx + 1) = Suc (unat idx)"
    using assms(2,3) unat_lt2p_64 [of "max_elems h"] by (simp add: unat_word_ariths)
  have 0: "store_bytes m a (load_bytes m b ((nelems h - unat idx) * esize h)) = m"
    if "\<not> num_elems h - idx > 0" for a b
    using that cnt by (simp add: word_less_nat_alt store_bytes_def)
  show ?thesis
    unfolding insert_mem_def memcpy_def store_u64_def memmove_def sz elem_ptr_eq [OF h(1)] suc
    using 0 by (simp add: Let_def)
qed

lemma insert_mem_at:
  assumes "hnd_ok h" "i \<le> nelems h" "nelems h < unat (max_elems h)"
    and "\<not> data_overlaps_sarray h data" "p < asize h"
  shows "insert_mem m h key data i (hnd_base h + of_nat p) =
    (if i * esize h \<le> p \<and> p < Suc i * esize h then new_elem m h key data ! (p - i * esize h)
     else if Suc i * esize h \<le> p \<and> p < Suc (nelems h) * esize h then m (hnd_base h + of_nat (p - esize h))
     else m (hnd_base h + of_nat p))"
proof -
  let ?B = "hnd_base h" and ?S = "esize h" and ?n = "nelems h"
  note h = hnd_okD [OF assms(1)]
  have le: "Suc ?n * ?S \<le> asize h" using assms(3) by (intro mult_le_mono1) simp
  have split: "Suc i * ?S + (?n - i) * ?S = Suc ?n * ?S"
    using assms(2) by (simp flip: add_mult_distrib)
  have N: "asize h \<le> 2 ^ 64" using h(4) by simp
  define m\<^sub>1 where "m\<^sub>1 = store_bytes m (?B + of_nat (Suc i * ?S))
                 (load_bytes m (?B + of_nat (i * ?S)) ((?n - i) * ?S))"
  have d: "load_bytes m\<^sub>1 data ?S = load_bytes m data ?S"
    unfolding m\<^sub>1_def using split le
    by (intro nth_equalityI)
      (simp_all only: length_load_bytes nth_load_bytes store_bytes_outside outside_array [OF assms(1,4)])
  have m1: "m\<^sub>1 (?B + of_nat p) = (if Suc i * ?S \<le> p \<and> p < Suc ?n * ?S
      then m (?B + of_nat (p - ?S)) else m (?B + of_nat p))"
  proof -
    have "i * ?S + (p - Suc i * ?S) = p - ?S" if "Suc i * ?S \<le> p" using that by simp
    then show ?thesis
      unfolding m\<^sub>1_def using le split N assms(5)
      by (subst store_bytes_at [where N = "asize h"]) (auto simp: algebra_simps)
  qed
  have a: "i * ?S + length (load_bytes m data ?S) \<le> asize h"
    and b: "i * ?S + length (le_bytes key) \<le> asize h" using split le h(2) by simp_all
  show ?thesis
    unfolding insert_mem_def Let_def m\<^sub>1_def [symmetric] d
      store_bytes_at [OF b assms(5) N] store_bytes_at [OF a assms(5) N] m1
    using h(2) by (auto simp: nth_append)
qed

lemma elem_byte:
  assumes "q < esize h"
  shows "elem m h j ! q = m (hnd_base h + of_nat (j * esize h + q))"
  using assms by (simp add: elem_def add.assoc)

lemma length_elem [simp]: "length (elem m h j) = esize h"
  by (simp add: elem_def)

lemma elem_num [simp]: "elem m (h\<lparr>num_elems := k\<rparr>) = elem m h"
  by (simp add: elem_def fun_eq_iff)

lemma slot_bound: "j < k \<Longrightarrow> q < s \<Longrightarrow> j * s + q < k * s" for j k q s :: nat
proof -
  assume "j < k" "q < s"
  then have "j * s + q < Suc j * s" by simp
  also have "\<dots> \<le> k * s" using \<open>j < k\<close> by (intro mult_le_mono1) simp
  finally show ?thesis .
qed

lemma slot_less_iff: "q < s \<Longrightarrow> j * s + q < k * s \<longleftrightarrow> j < k" for j k q s :: nat
  using slot_bound [of j k q s] slot_bound [of k j 0 s] mult_le_mono1 [of k j s]
  by (meson le_add1 le_less_trans not_less)

lemma elem_insert:
  assumes "hnd_ok h" "i \<le> nelems h" "nelems h < unat (max_elems h)"
    and "\<not> data_overlaps_sarray h data" "j \<le> nelems h"
  shows "elem (insert_mem m h key data i) h j =
    (if j < i then elem m h j else if j = i then new_elem m h key data else elem m h (j - 1))"
proof (rule nth_equalityI)
  show "length (elem (insert_mem m h key data i) h j) = length
    (if j < i then elem m h j else if j = i then new_elem m h key data else elem m h (j - 1))"
    using hnd_okD(2) [OF assms(1)] by simp
next
  fix q assume "q < length (elem (insert_mem m h key data i) h j)"
  then have q: "q < esize h" by simp
  let ?p = "j * esize h + q"
  have "?p < Suc j * esize h" using q by simp
  also have "\<dots> \<le> asize h" using assms(3,5) by (intro mult_le_mono1) simp
  finally have p: "?p < asize h" .
  have ge: "k * esize h \<le> ?p \<longleftrightarrow> k \<le> j" for k
    using slot_less_iff [OF q, of j k] by (simp only: not_less [symmetric])
  have "?p - esize h = (j - 1) * esize h + q" if "0 < j" using that by (cases j) simp_all
  then have e: "m (hnd_base h + of_nat (?p - esize h)) = elem m h (j - 1) ! q" if "0 < j"
    using that elem_byte [OF q] by simp
  show "elem (insert_mem m h key data i) h j ! q =
    (if j < i then elem m h j else if j = i then new_elem m h key data else elem m h (j - 1)) ! q"
    unfolding elem_byte [OF q] insert_mem_at [OF assms(1-4) p] ge slot_less_iff [OF q]
    using e elem_byte [OF q] assms(5) by (cases rule: linorder_cases [of j i]) (auto simp: less_Suc_eq_le)
qed

lemma elems_insert:
  assumes "hnd_ok h" "i \<le> nelems h" "num_elems h < max_elems h" "\<not> data_overlaps_sarray h data"
  shows "elems (insert_mem m h key data i) (h\<lparr>num_elems := num_elems h + 1\<rparr>) =
    take i (elems m h) @ new_elem m h key data # drop i (elems m h)"
proof (rule nth_equalityI)
  have lt: "nelems h < unat (max_elems h)" using assms(3) by (simp add: word_less_nat_alt)
  then have n: "unat (num_elems h + 1) = Suc (nelems h)"
    using unat_lt2p_64 [of "max_elems h"] by (simp add: unat_word_ariths)
  then show "length (elems (insert_mem m h key data i) (h\<lparr>num_elems := num_elems h + 1\<rparr>)) =
      length (take i (elems m h) @ new_elem m h key data # drop i (elems m h))"
    using assms(2) by simp
  fix j assume "j < length (elems (insert_mem m h key data i) (h\<lparr>num_elems := num_elems h + 1\<rparr>))"
  then have j: "j < Suc (nelems h)" using n by simp
  then show "elems (insert_mem m h key data i) (h\<lparr>num_elems := num_elems h + 1\<rparr>) ! j =
      (take i (elems m h) @ new_elem m h key data # drop i (elems m h)) ! j"
    using assms(2) n elem_insert [OF assms(1,2) lt assms(4), of j m key]
    by (auto simp: nth_append nth_Cons' min_absorb2)
qed


lemma insert_mem_frame:
  assumes "hnd_ok h" "i \<le> nelems h" "nelems h < unat (max_elems h)" "asize h \<le> unat (x - hnd_base h)"
  shows "insert_mem m h key data i x = m x"
proof -
  let ?S = "esize h" and ?n = "nelems h"
  note h = hnd_okD [OF assms(1)]
  have N: "asize h \<le> 2 ^ 64" using h(4) by simp
  have "Suc ?n * ?S \<le> asize h" using assms(3) by (intro mult_le_mono1) simp
  moreover have "Suc i * ?S + (?n - i) * ?S = Suc ?n * ?S"
    using assms(2) by (simp flip: add_mult_distrib)
  ultimately have "Suc i * ?S + length (load_bytes m a ((?n - i) * ?S)) \<le> asize h"
    "i * ?S + length (load_bytes m' b ?S) \<le> asize h" "i * ?S + length (le_bytes key) \<le> asize h" for a b m'
    using h(2) by simp_all
  note f = this [THEN store_bytes_frame [OF _ N assms(4)]]
  show ?thesis unfolding insert_mem_def Let_def f ..
qed

lemma map_of_insert:
  assumes "k \<notin> fst ` set ps"
  shows "map_of (take i ps @ (k, v) # drop i ps) = (map_of ps)(k \<mapsto> v)"
proof -
  have "map_of ps = map_of (drop i ps) ++ map_of (take i ps)"
    by (metis append_take_drop_id map_of_append)
  moreover have "map_of (take i ps) k = None"
    using assms by (auto simp: map_of_eq_None_iff dest: in_set_takeD)
  ultimately show ?thesis by (auto simp: fun_eq_iff map_add_def split: option.splits)
qed

lemma map_of_remove:
  assumes "distinct (map fst ps)" "i < length ps"
  shows "map_of (take i ps @ drop (Suc i) ps) = (map_of ps)(fst (ps ! i) := None)"
proof -
  let ?k = "fst (ps ! i)"
  have ps: "ps = take i ps @ ps ! i # drop (Suc i) ps" by (rule id_take_nth_drop [OF assms(2)])
  have d: "distinct (map fst (take i ps) @ ?k # map fst (drop (Suc i) ps))"
    using assms(1) by (subst (asm) ps) simp
  have m: "map_of ps = map_of (ps ! i # drop (Suc i) ps) ++ map_of (take i ps)"
    by (subst ps) (simp only: map_of_append)
  have "map_of (take i ps) ?k = None" "map_of (drop (Suc i) ps) ?k = None"
    using d by (auto simp: map_of_eq_None_iff)
  then show ?thesis
    unfolding m by (cases "ps ! i") (auto simp: fun_eq_iff map_add_def split: option.splits)
qed

subsection \<open>Deletion\<close>

definition delete_mem :: "memory \<Rightarrow> sarray_hdr \<Rightarrow> u64 \<Rightarrow> nat \<Rightarrow> memory" where
  "delete_mem m h data i =
     (let m\<^sub>1 = (if data = 0 then m else store_bytes m data (elem m h i))
      in store_bytes m\<^sub>1 (hnd_base h + of_nat (i * esize h))
           (load_bytes m\<^sub>1 (hnd_base h + of_nat (Suc i * esize h)) ((nelems h - Suc i) * esize h)))"

lemma delete_mem_eq:
  fixes data :: u64
  assumes "hnd_ok h" "unat idx < nelems h"
  defines "copy \<equiv> \<lambda>m. if data \<noteq> 0 then memcpy m data (elem_ptr h (elem_sz h) idx) (elem_sz h) else m"
  shows "(if num_elems h - idx - 1 > 0
        then memmove (copy m) (elem_ptr h (elem_sz h) idx) (elem_ptr h (elem_sz h) (idx + 1)) ((num_elems h - idx - 1) * elem_sz h)
        else copy m) = delete_mem m h data (unat idx)"
proof -
  note h = hnd_okD [OF assms(1)]
  have "unat (num_elems h - idx) = nelems h - unat idx"
    using assms(2) by (simp add: unat_sub word_le_nat_alt)
  then have cnt: "unat (num_elems h - idx - 1) = nelems h - Suc (unat idx)"
    using assms(2) by (subst unat_sub) (auto simp: word_le_nat_alt)
  have "(nelems h - Suc (unat idx)) * esize h \<le> asize h" using h(3) by (intro mult_le_mono1) simp
  then have "(nelems h - Suc (unat idx)) * esize h < 2 ^ 64" using h(4) by (rule le_less_trans)
  then have sz: "unat ((num_elems h - idx - 1) * elem_sz h) = (nelems h - Suc (unat idx)) * esize h"
    using cnt unat_count [of "num_elems h - idx - 1" "elem_sz h"] by simp
  have suc: "unat (idx + 1) = Suc (unat idx)"
    using assms(2) unat_lt2p_64 [of "num_elems h"] by (simp add: unat_word_ariths)
  have 0: "store_bytes m' a (load_bytes m' b ((nelems h - Suc (unat idx)) * esize h)) = m'"
    if "\<not> num_elems h - idx - 1 > 0" for a b m'
    using that cnt by (simp add: word_less_nat_alt store_bytes_def)
  show ?thesis
    unfolding delete_mem_def copy_def memcpy_def memmove_def sz elem_ptr_eq [OF h(1)] suc elem_def
    using 0 by (simp add: Let_def)
qed


lemma delete_mem_at:
  assumes "hnd_ok h" "i < nelems h" "data = 0 \<or> \<not> data_overlaps_sarray h data" "p < asize h"
  shows "delete_mem m h data i (hnd_base h + of_nat p) =
    (if i * esize h \<le> p \<and> p < (nelems h - 1) * esize h then m (hnd_base h + of_nat (p + esize h))
     else m (hnd_base h + of_nat p))"
proof -
  let ?B = "hnd_base h" and ?S = "esize h" and ?n = "nelems h"
  note h = hnd_okD [OF assms(1)]
  have N: "asize h \<le> 2 ^ 64" using h(4) by simp
  define m\<^sub>1 where "m\<^sub>1 = (if data = 0 then m else store_bytes m data (elem m h i))"
  have m1: "m\<^sub>1 (?B + of_nat p) = m (?B + of_nat p)" if "p < asize h" for p
    using assms(3) outside_data [OF assms(1) _ that, of data]
    by (auto simp: m\<^sub>1_def intro!: store_bytes_outside)
  have split: "i * ?S + (?n - Suc i) * ?S = (?n - 1) * ?S"
    using assms(2) by (simp flip: add_mult_distrib)
  have n: "(?n - 1) * ?S + ?S = ?n * ?S" using assms(2) by (cases ?n) simp_all
  have le: "?n * ?S \<le> asize h" using h(3) by (rule mult_le_mono1)
  have a: "i * ?S + length (load_bytes m\<^sub>1 (?B + of_nat (Suc i * ?S)) ((?n - Suc i) * ?S)) \<le> asize h"
    unfolding length_load_bytes split using n le by linarith
  have ld: "load_bytes m\<^sub>1 (?B + of_nat (Suc i * ?S)) ((?n - Suc i) * ?S) ! (p - i * ?S) = m (?B + of_nat (p + ?S))"
    if "i * ?S \<le> p" "p < (?n - 1) * ?S"
  proof -
    have "?B + of_nat (Suc i * ?S) + of_nat (p - i * ?S) = ?B + of_nat (p + ?S)"
      using that(1) by (simp add: algebra_simps)
    moreover have "p - i * ?S < (?n - Suc i) * ?S" using that split by linarith
    moreover have "p + ?S < asize h" using that(2) n le by linarith
    ultimately show ?thesis by (simp only: nth_load_bytes m1)
  qed
  show ?thesis
    unfolding delete_mem_def Let_def m\<^sub>1_def [symmetric] store_bytes_at [OF a assms(4) N]
      length_load_bytes split m1 [OF assms(4)]
    by (rule if_cong [OF refl _ refl]) (simp only: ld)
qed

lemma elem_delete:
  assumes "hnd_ok h" "i < nelems h" "data = 0 \<or> \<not> data_overlaps_sarray h data" "j < nelems h - 1"
  shows "elem (delete_mem m h data i) h j = (if j < i then elem m h j else elem m h (Suc j))"
proof (rule nth_equalityI)
  fix q assume "q < length (elem (delete_mem m h data i) h j)"
  then have q: "q < esize h" by simp
  let ?p = "j * esize h + q"
  have "?p < Suc j * esize h" using q by simp
  also have "\<dots> \<le> asize h" using assms(4) hnd_okD(3) [OF assms(1)] by (intro mult_le_mono1) simp
  finally have p: "?p < asize h" .
  have ge: "k * esize h \<le> ?p \<longleftrightarrow> k \<le> j" for k
    using slot_less_iff [OF q, of j k] by (simp only: not_less [symmetric])
  have e: "m (hnd_base h + of_nat (?p + esize h)) = elem m h (Suc j) ! q"
    using elem_byte [OF q, of m "Suc j"] by (simp add: algebra_simps)
  show "elem (delete_mem m h data i) h j ! q = (if j < i then elem m h j else elem m h (Suc j)) ! q"
    unfolding elem_byte [OF q, of "delete_mem m h data i"] delete_mem_at [OF assms(1-3) p] ge
      slot_less_iff [OF q]
    using e elem_byte [OF q, of m j] assms(4) by auto
qed simp

lemma elems_delete:
  assumes "hnd_ok h" "i < nelems h" "data = 0 \<or> \<not> data_overlaps_sarray h data"
  shows "elems (delete_mem m h data i) (h\<lparr>num_elems := num_elems h - 1\<rparr>) =
    take i (elems m h) @ drop (Suc i) (elems m h)"
proof (rule nth_equalityI)
  have n: "unat (num_elems h - 1) = nelems h - 1"
    using assms(2) by (subst unat_sub) (auto simp: word_le_nat_alt)
  then show "length (elems (delete_mem m h data i) (h\<lparr>num_elems := num_elems h - 1\<rparr>)) =
      length (take i (elems m h) @ drop (Suc i) (elems m h))"
    using assms(2) by simp
  fix j assume "j < length (elems (delete_mem m h data i) (h\<lparr>num_elems := num_elems h - 1\<rparr>))"
  then have j: "j < nelems h - 1" using n by simp
  then show "elems (delete_mem m h data i) (h\<lparr>num_elems := num_elems h - 1\<rparr>) ! j =
      (take i (elems m h) @ drop (Suc i) (elems m h)) ! j"
    using assms(2) n elem_delete [OF assms(1-3), of j m]
    by (auto simp: nth_append min_absorb2)
qed

lemma delete_mem_frame:
  assumes "hnd_ok h" "i < nelems h" "asize h \<le> unat (x - hnd_base h)"
  shows "delete_mem m h data i x = (if data = 0 then m else store_bytes m data (elem m h i)) x"
proof -
  note h = hnd_okD [OF assms(1)]
  have N: "asize h \<le> 2 ^ 64" using h(4) by simp
  have "i * esize h + (nelems h - Suc i) * esize h \<le> nelems h * esize h"
    by (simp flip: add_mult_distrib) (use assms(2) in simp)
  also have "\<dots> \<le> asize h" using h(3) by (rule mult_le_mono1)
  finally have "i * esize h + length (load_bytes m' a ((nelems h - Suc i) * esize h)) \<le> asize h" for m' a
    by simp
  from store_bytes_frame [OF this N assms(3)] show ?thesis
    unfolding delete_mem_def Let_def by simp
qed

lemma delete_mem_data:
  assumes "hnd_ok h" "i < nelems h" "data \<noteq> 0" "\<not> data_overlaps_sarray h data"
  shows "load_bytes (delete_mem m h data i) data (esize h) = elem m h i"
proof (rule nth_equalityI)
  fix j assume "j < length (load_bytes (delete_mem m h data i) data (esize h))"
  then have j: "j < esize h" by simp
  have "asize h \<le> unat (data + of_nat j - hnd_base h)"
    using outside_array [OF assms(1,4) j, of 0 "asize h"] by simp
  moreover have "unat (of_nat j :: u64) = j"
    using j unat_lt2p_64 [of "elem_sz h"] by (simp add: unsigned_of_nat take_bit_nat_eq_self_iff)
  ultimately show "load_bytes (delete_mem m h data i) data (esize h) ! j = elem m h i ! j"
    using delete_mem_frame [OF assms(1,2), of _ m data] assms(3) j
    by (simp add: store_bytes_def)
qed simp


subsection \<open>The operations\<close>

lemma hnd_ok_num:
  assumes "hnd_ok h" "k \<le> max_elems h"
  shows "hnd_ok (h\<lparr>num_elems := k\<rparr>)"
  using assms by (simp add: hnd_ok_def verify_hnd_iff)

lemma lookup_present:
  assumes "sarray_ok m h" "sarray_map m h key = Some v"
  obtains i where "i < nelems h"
    "sarray_lookup_locked m (Some h) (elem_sz h) key i\<^sub>0 = hnd_base h + of_nat (i * esize h)"
    "le_word (elem m h i) = key" "drop 8 (elem m h i) = v"
proof -
  have ok: "hnd_ok h" and sorted: "sorted_wrt (<) (keys m h)" using assms(1) by (simp_all add: sarray_ok_def)
  note h = hnd_okD [OF ok]
  from assms(1) show thesis
  proof (cases rule: binary_search_cases [where key = key and i\<^sub>0 = i\<^sub>0])
    case (found i)
    then have "sarray_lookup_locked m (Some h) (elem_sz h) key i\<^sub>0 = hnd_base h + of_nat (unat i * esize h)"
      using h by (simp add: sarray_lookup_locked_def elem_ptr_eq)
    moreover have "drop 8 (elem m h (unat i)) = v"
      using map_of_sorted_keys [OF found(2) sorted] found(3) assms(2) by simp
    ultimately show thesis using that [of "unat i"] found(2,3) by (simp add: nth_keys)
  next
    case (absent i)
    then show thesis using assms(2) by auto
  qed
qed

lemma lookup_absent:
  assumes "sarray_ok m h" "sarray_map m h key = None"
  shows "sarray_lookup_locked m (Some h) (elem_sz h) key i\<^sub>0 = 0"
  using assms(1)
proof (cases rule: binary_search_cases [where key = key and i\<^sub>0 = i\<^sub>0])
  case (absent i)
  then show ?thesis by (simp add: sarray_lookup_locked_def)
qed (use assms(2) in auto)

lemma insert_present:
  assumes "sarray_ok m h" "data \<noteq> 0" "\<not> data_overlaps_sarray h data" "key \<in> dom (sarray_map m h)"
  shows "sarray_insert_locked m (Some h) (elem_sz h) key data = Some (- EEXIST, m, Some h)"
  using assms(1)
proof (cases rule: binary_search_cases [where key = key and i\<^sub>0 = 0])
  case (found i)
  then show ?thesis using assms hnd_okD(5) [of h] by (simp add: sarray_insert_locked_def sarray_ok_def)
qed (use assms(4) in auto)

lemma insert_absent:
  assumes "sarray_ok m h" "data \<noteq> 0" "\<not> data_overlaps_sarray h data" "key \<notin> dom (sarray_map m h)"
  obtains i where "i \<le> nelems h" "sorted_wrt (<) (take i (keys m h) @ key # drop i (keys m h))"
    "sarray_insert_locked m (Some h) (elem_sz h) key data =
      (if num_elems h = max_elems h then Some (- ENOSPC, m, Some h)
       else Some (0, insert_mem m h key data i, Some (h\<lparr>num_elems := num_elems h + 1\<rparr>)))"
  using assms(1)
proof (cases rule: binary_search_cases [where key = key and i\<^sub>0 = 0])
  case (absent i)
  have ok: "hnd_ok h" using assms(1) by (simp add: sarray_ok_def)
  note h = hnd_okD [OF ok]
  have "sorted_wrt (<) (take (unat i) (keys m h) @ key # drop (unat i) (keys m h))"
    using assms(1) absent by (intro insert_sorted) (simp_all add: sarray_ok_def)
  moreover have "nelems h < unat (max_elems h)" if "num_elems h \<noteq> max_elems h"
    using that h(3) by (metis le_neq_implies_less word_unat_eq_iff)
  ultimately show thesis
    using that [of "unat i"] absent(1,2) assms(2,3) h(5) insert_mem_eq [OF ok absent(2)]
    by (auto simp: sarray_insert_locked_def Let_def)
qed (use assms(4) in auto)

lemma insert_step:
  assumes "sarray_ok m h" "key \<notin> dom (sarray_map m h)" "num_elems h \<noteq> max_elems h"
    and "\<not> data_overlaps_sarray h data" "i \<le> nelems h"
    and "sorted_wrt (<) (take i (keys m h) @ key # drop i (keys m h))"
  defines "m' \<equiv> insert_mem m h key data i" and "h' \<equiv> h\<lparr>num_elems := num_elems h + 1\<rparr>"
  shows "sarray_ok m' h'"
    and "sarray_map m' h' = (sarray_map m h)(key \<mapsto> drop 8 (load_bytes m data (esize h)))"
    and "\<forall>x. asize h \<le> unat (x - hnd_base h) \<longrightarrow> m' x = m x"
proof -
  have ok: "hnd_ok h" using assms(1) by (simp add: sarray_ok_def)
  note h = hnd_okD [OF ok]
  have lt: "nelems h < unat (max_elems h)" using assms(3) h(3) by (metis le_neq_implies_less word_unat_eq_iff)
  then have "num_elems h < max_elems h" by (simp add: word_less_nat_alt)
  then have e: "elems m' h' = take i (elems m h) @ new_elem m h key data # drop i (elems m h)"
    and le: "num_elems h + 1 \<le> max_elems h"
    unfolding m'_def h'_def using elems_insert [OF ok assms(5) _ assms(4)] by (auto simp: inc_le)
  then have "keys m' h' = take i (keys m h) @ key # drop i (keys m h)"
    by (simp add: keys_def take_map drop_map)
  then show "sarray_ok m' h'"
    using assms(6) hnd_ok_num [OF ok le] by (simp add: sarray_ok_def h'_def)
  have "key \<notin> fst ` set (map (\<lambda>e. (le_word e, drop 8 e)) (elems m h))"
    using assms(2) by (auto simp: dom_sarray_map keys_def)
  from map_of_insert [OF this, of i "drop 8 (load_bytes m data (esize h))"]
  show "sarray_map m' h' = (sarray_map m h)(key \<mapsto> drop 8 (load_bytes m data (esize h)))"
    unfolding sarray_map_def e by (simp add: take_map drop_map)
  show "\<forall>x. asize h \<le> unat (x - hnd_base h) \<longrightarrow> m' x = m x"
    unfolding m'_def using insert_mem_frame [OF ok assms(5) lt] by simp
qed


lemma delete_absent:
  assumes "sarray_ok m h" "key \<notin> dom (sarray_map m h)"
  shows "sarray_delete_locked m (Some h) (elem_sz h) key data i\<^sub>0 = (- ENOENT, m, Some h)"
  using assms(1)
proof (cases rule: binary_search_cases [where key = key and i\<^sub>0 = i\<^sub>0])
  case (absent i)
  then show ?thesis using assms hnd_okD(5) [of h] by (simp add: sarray_delete_locked_def sarray_ok_def)
qed (use assms(2) in auto)

lemma delete_present:
  assumes "sarray_ok m h" "data = 0 \<or> \<not> data_overlaps_sarray h data" "key \<in> dom (sarray_map m h)"
  obtains i where "i < nelems h" "keys m h ! i = key"
    "sarray_delete_locked m (Some h) (elem_sz h) key data i\<^sub>0 =
      (0, delete_mem m h data i, Some (h\<lparr>num_elems := num_elems h - 1\<rparr>))"
  using assms(1)
proof (cases rule: binary_search_cases [where key = key and i\<^sub>0 = i\<^sub>0])
  case (found i)
  have ok: "hnd_ok h" using assms(1) by (simp add: sarray_ok_def)
  have "sarray_delete_locked m (Some h) (elem_sz h) key data i\<^sub>0 =
      (0, delete_mem m h data (unat i), Some (h\<lparr>num_elems := num_elems h - 1\<rparr>))"
    unfolding delete_mem_eq [OF ok found(2), of data, symmetric]
    using found(1) assms(2) hnd_okD(5) [OF ok] by (auto simp: sarray_delete_locked_def Let_def)
  then show thesis using that [of "unat i"] found(2,3) by blast
qed (use assms(3) in auto)

lemma delete_step:
  assumes "sarray_ok m h" "data = 0 \<or> \<not> data_overlaps_sarray h data" "i < nelems h" "keys m h ! i = key"
  defines "m' \<equiv> delete_mem m h data i" and "h' \<equiv> h\<lparr>num_elems := num_elems h - 1\<rparr>"
  shows "sarray_ok m' h'" and "sarray_map m' h' = (sarray_map m h)(key := None)"
    and "data \<noteq> 0 \<longrightarrow> load_u64 m' data = key \<and>
      sarray_map m h key = Some (drop 8 (load_bytes m' data (esize h)))"
    and "\<forall>x. asize h \<le> unat (x - hnd_base h) \<and> (data = 0 \<or> esize h \<le> unat (x - data)) \<longrightarrow> m' x = m x"
proof -
  have ok: "hnd_ok h" and sorted: "sorted_wrt (<) (keys m h)" using assms(1) by (simp_all add: sarray_ok_def)
  note h = hnd_okD [OF ok]
  have e: "elems m' h' = take i (elems m h) @ drop (Suc i) (elems m h)"
    unfolding m'_def h'_def by (rule elems_delete [OF ok assms(3,2)])
  have "num_elems h - 1 \<le> max_elems h"
    using h(3) assms(3) by (simp add: word_le_nat_alt unat_sub)
  moreover have "keys m' h' = take i (keys m h) @ drop (Suc i) (keys m h)"
    unfolding keys_def e by (simp add: take_map drop_map)
  moreover have "sorted_wrt (<) (take i (keys m h) @ drop (Suc i) (keys m h))"
    using remove_sorted [OF sorted] assms(3) by simp
  ultimately show "sarray_ok m' h'"
    using hnd_ok_num [OF ok] by (simp add: sarray_ok_def h'_def)
  let ?ps = "map (\<lambda>e. (le_word e, drop 8 e)) (elems m h)"
  have "distinct (map fst ?ps)"
    using sorted strict_sorted_iff by (auto simp: keys_def comp_def)
  from map_of_remove [OF this, of i] show "sarray_map m' h' = (sarray_map m h)(key := None)"
    unfolding sarray_map_def e using assms(3,4) by (simp add: take_map drop_map nth_keys)
  show "data \<noteq> 0 \<longrightarrow> load_u64 m' data = key \<and>
      sarray_map m h key = Some (drop 8 (load_bytes m' data (esize h)))"
    using delete_mem_data [OF ok assms(3), of data m, folded m'_def] assms(2-4) h(2)
      map_of_sorted_keys [OF assms(3) sorted] by (auto simp: nth_keys simp flip: le_word_prefix)
  show "\<forall>x. asize h \<le> unat (x - hnd_base h) \<and> (data = 0 \<or> esize h \<le> unat (x - data)) \<longrightarrow> m' x = m x"
    unfolding m'_def using delete_mem_frame [OF ok assms(3)] by (auto intro: store_bytes_outside)
qed


subsection \<open>Properties\<close>

text \<open>C32. On a well-formed array, lookup terminates and returns \<^verbatim>\<open>NULL\<close> exactly when the key
  is absent; otherwise it returns the address of an element inside the buffer that holds
  the key and the payload the table maps it to.\<close>

theorem sarray_lookup_correct:
  assumes "sarray_ok m h"
  shows "case sarray_map m h key of
      None \<Rightarrow> sarray_lookup_locked m (Some h) (elem_sz h) key i\<^sub>0 = NULL
    | Some v \<Rightarrow> (\<exists>i < nelems h.
        sarray_lookup_locked m (Some h) (elem_sz h) key i\<^sub>0 = get_element (Some h) (elem_sz h) (of_nat i) \<and>
        load_u64 m (get_element (Some h) (elem_sz h) (of_nat i)) = key \<and>
        drop 8 (load_bytes m (get_element (Some h) (elem_sz h) (of_nat i)) (esize h)) = v)"
proof (cases "sarray_map m h key")
  case None
  then show ?thesis using lookup_absent [OF assms] by simp
next
  case (Some v)
  have h: "hnd_ok h" using assms by (simp add: sarray_ok_def)
  obtain i where i: "i < nelems h"
    "sarray_lookup_locked m (Some h) (elem_sz h) key i\<^sub>0 = hnd_base h + of_nat (i * esize h)"
    "le_word (elem m h i) = key" "drop 8 (elem m h i) = v"
    by (rule lookup_present [OF assms Some])
  have "get_element (Some h) (elem_sz h) (of_nat i) = hnd_base h + of_nat (i * esize h)"
    using hnd_okD [OF h] by (simp add: get_element_def elem_ptr_def)
  then show ?thesis
    using Some i hnd_okD(2) [OF h] by (auto simp: elem_def le_word_prefix)
qed

text \<open>A table of two elements with keys 5 and 9.\<close>

definition ex_hdr :: sarray_hdr where
  "ex_hdr = \<lparr>hnd_base = 0x1000, elem_sz = 16, max_elems = 4, num_elems = 2\<rparr>"

definition ex_mem :: memory where
  "ex_mem x = (if x = 0x1000 then 5 else if x = 0x1010 then 9 else if x = 0x1018 then 7 else 0)"

lemma ex_upt: "[0..<2] = [0, 1]" "[0..<16] = [0, 1, 2, 3, 4, 5, 6, 7, 8, 9, 10, 11, 12, 13, 14, 15]"
  by (simp_all add: upt_rec)

lemma ex_elems:
  "elems ex_mem ex_hdr =
     [[5, 0, 0, 0, 0, 0, 0, 0, 0, 0, 0, 0, 0, 0, 0, 0], [9, 0, 0, 0, 0, 0, 0, 0, 7, 0, 0, 0, 0, 0, 0, 0]]"
  by (simp add: elems_def elem_def load_bytes_def ex_hdr_def ex_mem_def ex_upt)

lemma ex_ok: "sarray_ok ex_mem ex_hdr"
  by (simp add: sarray_ok_def keys_def ex_elems le_word_def hnd_ok_def verify_hnd_iff)
    (simp add: ex_hdr_def ALIGNED_def)

lemma ex_map: "sarray_map ex_mem ex_hdr 9 = Some [7, 0, 0, 0, 0, 0, 0, 0]" "sarray_map ex_mem ex_hdr 7 = None"
  by (simp_all add: sarray_map_def ex_elems le_word_def)

theorem sarray_lookup_correct_witness:
  "sarray_ok ex_mem ex_hdr \<and>
   (\<exists>i < nelems ex_hdr.
      sarray_lookup_locked ex_mem (Some ex_hdr) (elem_sz ex_hdr) 9 0 = get_element (Some ex_hdr) (elem_sz ex_hdr) (of_nat i))"
  using ex_ok sarray_lookup_correct [OF ex_ok, of 9 0] ex_map(1) by auto

text \<open>Buffers that may be copied from or to: they end below the top of memory and outside of the array.\<close>

definition buffer_apart :: "sarray_hdr \<Rightarrow> u64 \<Rightarrow> bool" where
  "buffer_apart h data \<longleftrightarrow> unat data + esize h < 2 ^ 64 \<and>
     (unat data + esize h \<le> unat (hnd_base h) \<or> unat (hnd_base h) + asize h \<le> unat data)"

lemma buffer_apart_iff:
  assumes "hnd_ok h"
  shows "buffer_apart h data \<longleftrightarrow> \<not> data_overlaps_sarray h data"
proof -
  have top: "unat (hnd_base h) + asize h < 2 ^ 64" using assms by (simp add: hnd_ok_def)
  then have sz: "unat (max_elems h * elem_sz h) = asize h" using hnd_okD(4) [OF assms] by (simp add: unat_word_ariths)
  have gt: "a > UINT64_MAX - b \<longleftrightarrow> 2 ^ 64 \<le> unat a + unat b" for a b :: u64
  proof -
    have "unat (UINT64_MAX - b) = 2 ^ 64 - 1 - unat b"
      by (subst unat_sub) (simp_all add: unsigned_minus_1_eq_mask mask_eq_exp_minus_1)
    then show ?thesis using unat_lt2p_64 [of b] by (auto simp: word_less_nat_alt)
  qed
  have "\<not> hnd_base h > UINT64_MAX - max_elems h * elem_sz h" unfolding gt sz using top by simp
  then have o: "data_overlaps_sarray h data \<longleftrightarrow> 2 ^ 64 \<le> unat data + esize h \<or>
      data < hnd_base h + max_elems h * elem_sz h \<and> hnd_base h < data + elem_sz h"
    unfolding data_overlaps_sarray_def Let_def using gt [of "elem_sz h" data] by auto
  have "unat (hnd_base h + max_elems h * elem_sz h) = unat (hnd_base h) + asize h"
    using top sz by (simp add: unat_word_ariths)
  moreover have "unat (data + elem_sz h) = unat data + esize h" if "unat data + esize h < 2 ^ 64"
    using that by (simp add: unat_word_ariths)
  ultimately show ?thesis
    unfolding o buffer_apart_def by (cases "unat data + esize h < 2 ^ 64") (auto simp: word_less_nat_alt)
qed

lemma access_refused:
  assumes "\<forall>g. hnd = Some g \<longrightarrow> verify_sarray_hnd (Some g) \<noteq> 0 \<or> elem_sz g \<noteq> esz"
  shows "data \<noteq> 0 \<Longrightarrow> sarray_insert_locked m hnd esz key data = Some (- EINVAL, m, hnd)"
    "sarray_delete_locked m hnd esz key del i\<^sub>0 = (- EINVAL, m, hnd)"
  using assms by (auto simp: sarray_insert_locked_def sarray_delete_locked_def verify_sarray_access_def split: option.splits)

lemma insert_overlap:
  assumes "sarray_ok m h" "data \<noteq> 0" "data_overlaps_sarray h data"
  shows "sarray_insert_locked m (Some h) (elem_sz h) key data = Some (- EINVAL, m, Some h)"
  using assms hnd_okD(5) [of h] by (simp add: sarray_insert_locked_def sarray_ok_def)

lemma delete_overlap:
  assumes "sarray_ok m h" "data \<noteq> 0" "data_overlaps_sarray h data" "key \<in> dom (sarray_map m h)"
  shows "sarray_delete_locked m (Some h) (elem_sz h) key data i\<^sub>0 = (- EINVAL, m, Some h)"
  using assms(1)
proof (cases rule: binary_search_cases [where key = key and i\<^sub>0 = i\<^sub>0])
  case (found i)
  then show ?thesis using assms hnd_okD(5) [of h] by (simp add: sarray_delete_locked_def sarray_ok_def)
qed (use assms(4) in auto)

lemma insert_refines:
  assumes "sarray_ok m h"
  shows "(if data = NULL then sarray_insert_locked m (Some h) (elem_sz h) key data = None
     else if \<not> buffer_apart h data then sarray_insert_locked m (Some h) (elem_sz h) key data = Some (- EINVAL, m, Some h)
     else if sarray_map m h key \<noteq> None then sarray_insert_locked m (Some h) (elem_sz h) key data = Some (- EEXIST, m, Some h)
     else if num_elems h = max_elems h then sarray_insert_locked m (Some h) (elem_sz h) key data = Some (- ENOSPC, m, Some h)
     else \<exists>m' h'. sarray_insert_locked m (Some h) (elem_sz h) key data = Some (0, m', Some h') \<and>
       sarray_ok m' h' \<and> sarray_map m' h' = (sarray_map m h)(key \<mapsto> drop 8 (load_bytes m data (esize h))) \<and>
       (\<forall>x. asize h \<le> unat (x - hnd_base h) \<longrightarrow> m' x = m x))"
proof -
  have ok: "hnd_ok h" using assms by (simp add: sarray_ok_def)
  show ?thesis
  proof (cases "data \<noteq> NULL \<and> buffer_apart h data")
    case False
    then show ?thesis using insert_overlap [OF assms, of data key] buffer_apart_iff [OF ok, of data]
      by (cases "data = NULL") (simp_all add: sarray_insert_locked_def)
  next
    case True
    then have d: "data \<noteq> NULL" "\<not> data_overlaps_sarray h data" using buffer_apart_iff [OF ok] by simp_all
    show ?thesis
    proof (cases "sarray_map m h key")
      case (Some v)
      then show ?thesis using True insert_present [OF assms d, of key] by auto
    next
      case None
      then have k: "key \<notin> dom (sarray_map m h)" by auto
      obtain i where i: "i \<le> nelems h" "sorted_wrt (<) (take i (keys m h) @ key # drop i (keys m h))"
        "sarray_insert_locked m (Some h) (elem_sz h) key data =
          (if num_elems h = max_elems h then Some (- ENOSPC, m, Some h)
           else Some (0, insert_mem m h key data i, Some (h\<lparr>num_elems := num_elems h + 1\<rparr>)))"
        by (rule insert_absent [OF assms d k])
      show ?thesis using True None i(3) insert_step [OF assms k _ d(2) i(1,2)] by simp
    qed
  qed
qed

lemma delete_refines:
  assumes "sarray_ok m h"
  shows "(case sarray_map m h key of
       None \<Rightarrow> sarray_delete_locked m (Some h) (elem_sz h) key del i\<^sub>0 = (- ENOENT, m, Some h)
     | Some v \<Rightarrow>
        if del \<noteq> NULL \<and> \<not> buffer_apart h del
        then sarray_delete_locked m (Some h) (elem_sz h) key del i\<^sub>0 = (- EINVAL, m, Some h)
        else \<exists>m' h'. sarray_delete_locked m (Some h) (elem_sz h) key del i\<^sub>0 = (0, m', Some h') \<and>
          sarray_ok m' h' \<and> sarray_map m' h' = (sarray_map m h)(key := None) \<and>
          (del \<noteq> NULL \<longrightarrow> load_u64 m' del = key \<and> drop 8 (load_bytes m' del (esize h)) = v) \<and>
          (\<forall>x. asize h \<le> unat (x - hnd_base h) \<and> (del = NULL \<or> esize h \<le> unat (x - del)) \<longrightarrow> m' x = m x))"
proof -
  have ok: "hnd_ok h" using assms by (simp add: sarray_ok_def)
  show ?thesis
  proof (cases "sarray_map m h key")
    case None
    then have "key \<notin> dom (sarray_map m h)" by auto
    from delete_absent [OF assms this] None show ?thesis by simp
  next
    case (Some v)
    then have k: "key \<in> dom (sarray_map m h)" by auto
    show ?thesis
    proof (cases "del \<noteq> NULL \<and> \<not> buffer_apart h del")
      case True
      then show ?thesis using Some delete_overlap [OF assms _ _ k, of del] buffer_apart_iff [OF ok, of del] by simp
    next
      case False
      then have o: "del = 0 \<or> \<not> data_overlaps_sarray h del" using buffer_apart_iff [OF ok, of del] by auto
      obtain i where i: "i < nelems h" "keys m h ! i = key"
        "sarray_delete_locked m (Some h) (elem_sz h) key del i\<^sub>0 =
          (0, delete_mem m h del i, Some (h\<lparr>num_elems := num_elems h - 1\<rparr>))"
        by (rule delete_present [OF assms o k])
      show ?thesis
        unfolding if_not_P [OF False] using Some i(3) delete_step [OF assms o i(1,2)] by simp
    qed
  qed
qed

text \<open>C6. Insertion and deletion implement update and removal of the finite map, with every error
  case. A missing or invalid handle and a wrong element size fail with \<^verbatim>\<open>-EINVAL\<close>; so does the
  insertion from a buffer that touches the array or the top of memory, before any other check, and
  the deletion of a present key into such a buffer. Otherwise insertion of a present key fails with
  \<^verbatim>\<open>-EEXIST\<close>, insertion into a full array with \<^verbatim>\<open>-ENOSPC\<close> and deletion of an absent key with
  \<^verbatim>\<open>-ENOENT\<close>. No failure has an effect. On success the map is updated, the array stays sorted, the
  deleted element is copied out when asked for, and no byte outside the array and that copy
  changes. Inserting from \<^verbatim>\<open>NULL\<close> is a failed assertion.\<close>

theorem sarray_update_refines:
  assumes "sarray_ok m h"
  shows "(\<forall>hnd esz. (\<forall>g. hnd = Some g \<longrightarrow> \<not> (hnd_base g \<noteq> NULL \<and> ALIGNED (hnd_base g) 8 \<and> max_elems g \<noteq> 0 \<and>
          8 \<le> elem_sz g \<and> ALIGNED (elem_sz g) 8 \<and> num_elems g \<le> max_elems g \<and> elem_sz g = esz)) \<longrightarrow>
        (data \<noteq> NULL \<longrightarrow> sarray_insert_locked m hnd esz key data = Some (- EINVAL, m, hnd)) \<and>
        sarray_delete_locked m hnd esz key del i\<^sub>0 = (- EINVAL, m, hnd)) \<and>
    (if data = NULL then sarray_insert_locked m (Some h) (elem_sz h) key data = None
     else if \<not> buffer_apart h data then sarray_insert_locked m (Some h) (elem_sz h) key data = Some (- EINVAL, m, Some h)
     else if sarray_map m h key \<noteq> None then sarray_insert_locked m (Some h) (elem_sz h) key data = Some (- EEXIST, m, Some h)
     else if num_elems h = max_elems h then sarray_insert_locked m (Some h) (elem_sz h) key data = Some (- ENOSPC, m, Some h)
     else \<exists>m' h'. sarray_insert_locked m (Some h) (elem_sz h) key data = Some (0, m', Some h') \<and>
       sarray_ok m' h' \<and> sarray_map m' h' = (sarray_map m h)(key \<mapsto> drop 8 (load_bytes m data (esize h))) \<and>
       (\<forall>x. asize h \<le> unat (x - hnd_base h) \<longrightarrow> m' x = m x)) \<and>
    (case sarray_map m h key of
       None \<Rightarrow> sarray_delete_locked m (Some h) (elem_sz h) key del i\<^sub>0 = (- ENOENT, m, Some h)
     | Some v \<Rightarrow>
        if del \<noteq> NULL \<and> \<not> buffer_apart h del
        then sarray_delete_locked m (Some h) (elem_sz h) key del i\<^sub>0 = (- EINVAL, m, Some h)
        else \<exists>m' h'. sarray_delete_locked m (Some h) (elem_sz h) key del i\<^sub>0 = (0, m', Some h') \<and>
          sarray_ok m' h' \<and> sarray_map m' h' = (sarray_map m h)(key := None) \<and>
          (del \<noteq> NULL \<longrightarrow> load_u64 m' del = key \<and> drop 8 (load_bytes m' del (esize h)) = v) \<and>
          (\<forall>x. asize h \<le> unat (x - hnd_base h) \<and> (del = NULL \<or> esize h \<le> unat (x - del)) \<longrightarrow> m' x = m x))"
proof (intro conjI allI impI)
  fix hnd :: "sarray_hdr option" and esz :: u64
  assume "\<forall>g. hnd = Some g \<longrightarrow> \<not> (hnd_base g \<noteq> NULL \<and> ALIGNED (hnd_base g) 8 \<and> max_elems g \<noteq> 0 \<and>
    8 \<le> elem_sz g \<and> ALIGNED (elem_sz g) 8 \<and> num_elems g \<le> max_elems g \<and> elem_sz g = esz)"
  then have "\<forall>g. hnd = Some g \<longrightarrow> verify_sarray_hnd (Some g) \<noteq> 0 \<or> elem_sz g \<noteq> esz"
    unfolding verify_hnd_iff by blast
  note r = access_refused [OF this]
  show "sarray_delete_locked m hnd esz key del i\<^sub>0 = (- EINVAL, m, hnd)" by (rule r(2))
  show "sarray_insert_locked m hnd esz key data = Some (- EINVAL, m, hnd)" if "data \<noteq> NULL" by (rule r(1) [OF that])
qed (rule insert_refines [OF assms] delete_refines [OF assms])+

theorem sarray_update_refines_witness:
  "sarray_ok ex_mem ex_hdr \<and>
   (\<exists>m' h'. sarray_insert_locked ex_mem (Some ex_hdr) (elem_sz ex_hdr) 7 0x8000 = Some (0, m', Some h') \<and>
     sarray_ok m' h' \<and> sarray_map m' h' = (sarray_map ex_mem ex_hdr)(7 \<mapsto> [0, 0, 0, 0, 0, 0, 0, 0])) \<and>
   sarray_insert_locked ex_mem (Some ex_hdr) (elem_sz ex_hdr) 7 0x103F = Some (- EINVAL, ex_mem, Some ex_hdr) \<and>
   sarray_delete_locked ex_mem (Some ex_hdr) (elem_sz ex_hdr) 9 0xFF8 0 = (- EINVAL, ex_mem, Some ex_hdr) \<and>
   sarray_delete_locked ex_mem (Some ex_hdr) 8 9 0 0 = (- EINVAL, ex_mem, Some ex_hdr)"
proof -
  have o: "buffer_apart ex_hdr 0x8000" "\<not> buffer_apart ex_hdr 0x103F" "\<not> buffer_apart ex_hdr 0xFF8"
    and n: "num_elems ex_hdr \<noteq> max_elems ex_hdr" "elem_sz ex_hdr \<noteq> 8"
    by (simp_all add: buffer_apart_def ex_hdr_def)
  have d: "drop 8 (load_bytes ex_mem 0x8000 (esize ex_hdr)) = [0, 0, 0, 0, 0, 0, 0, 0]"
    by (simp add: load_bytes_def ex_hdr_def ex_mem_def ex_upt)
  note ref = sarray_update_refines [OF ex_ok]
  have "\<exists>m' h'. sarray_insert_locked ex_mem (Some ex_hdr) (elem_sz ex_hdr) 7 0x8000 = Some (0, m', Some h') \<and>
     sarray_ok m' h' \<and> sarray_map m' h' = (sarray_map ex_mem ex_hdr)(7 \<mapsto> [0, 0, 0, 0, 0, 0, 0, 0])"
    using conjunct1 [OF conjunct2 [OF ref [where data = "0x8000" and key = 7]]] o n ex_map d by auto
  moreover have "sarray_insert_locked ex_mem (Some ex_hdr) (elem_sz ex_hdr) 7 0x103F = Some (- EINVAL, ex_mem, Some ex_hdr)"
    using conjunct1 [OF conjunct2 [OF ref [where data = "0x103F" and key = 7]]] o by simp
  moreover have "sarray_delete_locked ex_mem (Some ex_hdr) (elem_sz ex_hdr) 9 0xFF8 0 = (- EINVAL, ex_mem, Some ex_hdr)"
    using conjunct2 [OF conjunct2 [OF ref [where key = 9 and del = "0xFF8" and i\<^sub>0 = 0]]] o ex_map by simp
  moreover have "sarray_delete_locked ex_mem (Some ex_hdr) 8 9 0 0 = (- EINVAL, ex_mem, Some ex_hdr)"
    using conjunct1 [OF ref [where key = 9 and del = 0 and i\<^sub>0 = 0], THEN spec [of _ "Some ex_hdr"], THEN spec [of _ 8]] n by simp
  ultimately show ?thesis using ex_ok by blast
qed

end
