(* ===== verification/Tracking_Region.thy ===== *)
theory Tracking_Region
  imports Granule Dev_Granule
begin

text \<open>
  The layout of the tracking metadata (\<^verbatim>\<open>src/lib/granule/src/tracking_region.c\<close>): platform
  memory banks are sorted and given indices in two compressed index spaces, one of tracking
  regions shared by all banks and one of fine granules for each memory type. Addresses are
  translated to indices by binary search and back by a scan over the banks.

  The bank arrays of fixed capacity are lists of their populated entries. Loop counters over
  banks, at most 128, are natural numbers. The layout lock and the region locks are taken and
  released inside every operation of this file and are not part of the state.
\<close>

subsection \<open>Types\<close>

abbreviation (input) TRACKING_REGION_MIN_SHIFT :: nat where "TRACKING_REGION_MIN_SHIFT \<equiv> 21"
abbreviation (input) TRACKING_REGION_MAX_SHIFT :: nat where "TRACKING_REGION_MAX_SHIFT \<equiv> 30"

definition TRACKING_REGION_MIN_SIZE :: u64 where
  "TRACKING_REGION_MIN_SIZE = push_bit TRACKING_REGION_MIN_SHIFT 1"

definition TRACKING_REGION_MAX_SIZE :: u64 where
  "TRACKING_REGION_MAX_SIZE = push_bit TRACKING_REGION_MAX_SHIFT 1"

abbreviation (input) SIZEOF_GRANULE :: u64 where "SIZEOF_GRANULE \<equiv> 2"
abbreviation (input) SIZEOF_DEV_GRANULE :: u64 where "SIZEOF_DEV_GRANULE \<equiv> 1"
abbreviation (input) MAX_CONV_TRACKING_MEMORY_BANKS :: nat where "MAX_CONV_TRACKING_MEMORY_BANKS \<equiv> 64"
abbreviation (input) MAX_DEV_TRACKING_MEMORY_BANKS :: nat where "MAX_DEV_TRACKING_MEMORY_BANKS \<equiv> 64"

abbreviation (input) RMI_MEM_CATEGORY_CONVENTIONAL :: u8 where "RMI_MEM_CATEGORY_CONVENTIONAL \<equiv> 0"
abbreviation (input) RMI_MEM_CATEGORY_DEV_NCOH :: u8 where "RMI_MEM_CATEGORY_DEV_NCOH \<equiv> 1"
abbreviation (input) RMI_MEM_CATEGORY_DEV_COH :: u8 where "RMI_MEM_CATEGORY_DEV_COH \<equiv> 2"
abbreviation (input) RMI_MEM_CATEGORY_NONE :: u8 where "RMI_MEM_CATEGORY_NONE \<equiv> 3"


datatype tr_mem_cat = mc_conv | mc_dev_ncoh | mc_dev_coh | mc_diverse
datatype tr_mem_type = TR_MEM_TYPE_CONV | TR_MEM_TYPE_DEV
datatype tr_state = trs_reserved | trs_none | trs_fine | trs_coarse

fun tr_mem_cat_val :: "tr_mem_cat \<Rightarrow> u64" where
  "tr_mem_cat_val mc_conv = 0"
| "tr_mem_cat_val mc_dev_ncoh = 1"
| "tr_mem_cat_val mc_dev_coh = 2"
| "tr_mem_cat_val mc_diverse = 3"

fun tr_state_val :: "tr_state \<Rightarrow> u64" where
  "tr_state_val trs_reserved = 0"
| "tr_state_val trs_none = 1"
| "tr_state_val trs_fine = 2"
| "tr_state_val trs_coarse = 3"

text \<open>A memory bank that the platform reports.\<close>

record plat_memory_bank =
  pb_base :: u64
  pb_size :: u64

record tracking_memory_bank =
  tb_base :: u64
  tb_size :: u64
  granule_start_idx :: u64
  tracking_start_idx :: u32
  category :: u8

record tracking_memory_bank_storage =
  conv_banks :: "tracking_memory_bank list"
  dev_banks :: "tracking_memory_bank list"

datatype array_mapping_state = TRACKING_REGIONS_RESERVED | TRACKING_REGIONS_COMMITTED

record tracking_array_mapping =
  map_va :: u64
  map_size :: u64
  map_state :: array_mapping_state

text \<open>
  The coarse granule and the coarse dev_granule share storage; the memory category of the
  region selects the one in use.
\<close>

record tracking_region =
  coarse_granule :: granule
  coarse_dev_granule :: dev_granule
  tr_descriptor :: u8

record tracking_region_data =
  td_banks :: tracking_memory_bank_storage
  tracking_region_size :: u64
  num_tracking_regions :: u64
  num_tracking_granules :: u64
  num_tracking_dev_granules :: u64
  tracking_initialized :: bool
  tracking_regions :: "tracking_region list option"
  tracking_region_array :: tracking_array_mapping
  granule_array_tr :: tracking_array_mapping
  dev_granule_array_tr :: tracking_array_mapping

abbreviation bank_end :: "tracking_memory_bank \<Rightarrow> u64" where
  "bank_end b \<equiv> tb_base b + tb_size b"

fun banks_of :: "tracking_memory_bank_storage \<Rightarrow> tr_mem_type \<Rightarrow> tracking_memory_bank list" where
  "banks_of st TR_MEM_TYPE_CONV = conv_banks st"
| "banks_of st TR_MEM_TYPE_DEV = dev_banks st"

fun entry_size_of :: "tr_mem_type \<Rightarrow> u64" where
  "entry_size_of TR_MEM_TYPE_CONV = SIZEOF_GRANULE"
| "entry_size_of TR_MEM_TYPE_DEV = SIZEOF_DEV_GRANULE"

subsection \<open>Building the layout\<close>

definition tracking_region_fine_stride :: "u64 \<Rightarrow> u64 \<Rightarrow> u64 option" where
  "tracking_region_fine_stride region_size entry_size = do {
     c_assert (entry_size \<noteq> 0 \<and>
       (region_size = TRACKING_REGION_MIN_SIZE \<or> region_size = TRACKING_REGION_MAX_SIZE));
     let raw_size = (region_size div GRANULE_SIZE) * entry_size;
     let stride = round_up raw_size GRANULE_SIZE;
     c_assert (stride \<ge> raw_size \<and> stride mod entry_size = 0);
     Some (stride div entry_size)
   }"

text \<open>The loop over the remaining \<open>n\<close> entries; reading behind the platform array is \<open>None\<close>.\<close>

fun copy_bank_loop ::
  "nat \<Rightarrow> plat_memory_bank list \<Rightarrow> u8 \<Rightarrow> nat \<Rightarrow> tracking_memory_bank list
     \<Rightarrow> (int \<times> tracking_memory_bank list) option" where
  "copy_bank_loop 0 platform_banks cat capacity banks = Some (0, banks)"
| "copy_bank_loop (Suc n) [] cat capacity banks = None"
| "copy_bank_loop (Suc n) (bank # rest) cat capacity banks =
     (if pb_size bank = 0 then copy_bank_loop n rest cat capacity banks
      else if \<not> GRANULE_ALIGNED (pb_base bank) \<or> \<not> GRANULE_ALIGNED (pb_size bank) then Some (- EINVAL, banks)
      else if pb_base bank > UINT64_MAX - pb_size bank then Some (- EOVERFLOW, banks)
      else if length banks \<ge> capacity then Some (- ENOSPC, banks)
      else copy_bank_loop n rest cat capacity
             (banks @ [\<lparr>tb_base = pb_base bank, tb_size = pb_size bank, granule_start_idx = 0,
                        tracking_start_idx = 0, category = cat\<rparr>]))"

text \<open>A missing platform array (\<^verbatim>\<open>NULL\<close>) is \<open>None\<close>; \<open>count\<close> is the count that comes with it.\<close>

definition tracking_region_copy_bank_category ::
  "plat_memory_bank list option \<Rightarrow> u64 \<Rightarrow> u8 \<Rightarrow> tracking_memory_bank list \<Rightarrow> nat
     \<Rightarrow> (int \<times> tracking_memory_bank list) option" where
  "tracking_region_copy_bank_category platform_banks count cat banks capacity = do {
     c_assert (cat \<le> RMI_MEM_CATEGORY_DEV_COH);
     (case platform_banks of
        None \<Rightarrow> Some (if count \<noteq> 0 then - EINVAL else 0, banks)
      | Some ps \<Rightarrow> copy_bank_loop (unat count) ps cat capacity banks)
   }"

text \<open>Insertion sort by base: shift larger entries up from position \<open>j\<close>, then store.\<close>

primrec bank_shift :: "tracking_memory_bank list \<Rightarrow> tracking_memory_bank \<Rightarrow> nat \<Rightarrow> tracking_memory_bank list" where
  "bank_shift banks bank 0 = banks[0 := bank]"
| "bank_shift banks bank (Suc j) =
     (if tb_base (banks ! j) > tb_base bank
      then bank_shift (banks[Suc j := banks ! j]) bank j
      else banks[Suc j := bank])"

definition bank_sort_step :: "tracking_memory_bank list \<Rightarrow> nat \<Rightarrow> tracking_memory_bank list" where
  "bank_sort_step banks i = bank_shift banks (banks ! i) i"

definition banks_disjoint_sorted :: "tracking_memory_bank list \<Rightarrow> bool" where
  "banks_disjoint_sorted banks \<longleftrightarrow>
     list_all (\<lambda>i. tb_base (banks ! i) \<le> UINT64_MAX - tb_size (banks ! i) \<and>
                 (i > 0 \<longrightarrow> bank_end (banks ! (i - 1)) \<le> tb_base (banks ! i))) [0..<length banks]"

definition tracking_region_sort_and_validate_banks ::
  "tracking_memory_bank list \<Rightarrow> tracking_memory_bank list option" where
  "tracking_region_sort_and_validate_banks banks = do {
     let sorted = foldl bank_sort_step banks [1..<length banks];
     c_assert (banks_disjoint_sorted sorted);
     Some sorted
   }"

definition tracking_memory_banks_validate_no_overlap :: "tracking_memory_bank_storage \<Rightarrow> unit option" where
  "tracking_memory_banks_validate_no_overlap storage =
     c_assert (list_all (\<lambda>conv. list_all (\<lambda>dev.
       bank_end conv \<le> tb_base dev \<or> bank_end dev \<le> tb_base conv) (dev_banks storage)) (conv_banks storage))"

text \<open>A pointer into one of the two bank arrays.\<close>

type_synonym bank_ptr = "tr_mem_type \<times> nat"

definition bank_deref :: "tracking_memory_bank_storage \<Rightarrow> bank_ptr \<Rightarrow> tracking_memory_bank" where
  "bank_deref storage p = banks_of storage (fst p) ! snd p"

fun set_tracking_start_idx :: "tracking_memory_bank_storage \<Rightarrow> bank_ptr \<Rightarrow> u32 \<Rightarrow> tracking_memory_bank_storage" where
  "set_tracking_start_idx st (TR_MEM_TYPE_CONV, i) v =
     st\<lparr>conv_banks := (conv_banks st)[i := (conv_banks st ! i)\<lparr>tracking_start_idx := v\<rparr>]\<rparr>"
| "set_tracking_start_idx st (TR_MEM_TYPE_DEV, i) v =
     st\<lparr>dev_banks := (dev_banks st)[i := (dev_banks st ! i)\<lparr>tracking_start_idx := v\<rparr>]\<rparr>"

text \<open>The exchange sort of the temporary pointer table.\<close>

definition ptr_exchange :: "tracking_memory_bank_storage \<Rightarrow> nat \<Rightarrow> bank_ptr list \<Rightarrow> nat \<Rightarrow> bank_ptr list" where
  "ptr_exchange storage i banks j =
     (if tb_base (bank_deref storage (banks ! j)) < tb_base (bank_deref storage (banks ! i))
      then banks[i := banks ! j, j := banks ! i] else banks)"

definition ptr_sort_step :: "tracking_memory_bank_storage \<Rightarrow> bank_ptr list \<Rightarrow> nat \<Rightarrow> bank_ptr list" where
  "ptr_sort_step storage banks i = foldl (ptr_exchange storage i) banks [i + 1..<length banks]"

text \<open>The assignment loops. The flag \<open>first\<close> is the test \<^verbatim>\<open>i == 0U\<close>.\<close>

primrec shared_loop ::
  "u64 \<Rightarrow> bank_ptr list \<Rightarrow> bool \<Rightarrow> u64 \<Rightarrow> u64 \<Rightarrow> tracking_memory_bank_storage
     \<Rightarrow> (tracking_memory_bank_storage \<times> u64) option" where
  "shared_loop region_size [] first current_top num_regions storage = Some (storage, num_regions)"
| "shared_loop region_size (p # ps) first current_top num_regions storage = (
     let bank = bank_deref storage p;
         base = round_down (tb_base bank) region_size;
         top = round_up (bank_end bank) region_size
     in if first \<or> base \<ge> current_top then do {
          let start_idx = num_regions;
          c_assert (start_idx \<le> 0xFFFFFFFF);
          shared_loop region_size ps False top (num_regions + (top - base) div region_size)
            (set_tracking_start_idx storage p (ucast start_idx))
        } else do {
          let overlap_regions = (current_top - base) div region_size;
          c_assert (overlap_regions \<le> 1);
          c_assert (overlap_regions \<le> num_regions);
          let start_idx = num_regions - overlap_regions;
          c_assert (start_idx \<le> 0xFFFFFFFF);
          (if top > current_top
           then shared_loop region_size ps False top (num_regions + (top - current_top) div region_size)
                  (set_tracking_start_idx storage p (ucast start_idx))
           else shared_loop region_size ps False current_top num_regions
                  (set_tracking_start_idx storage p (ucast start_idx)))
        })"

definition tracking_memory_banks_assign_shared_indices ::
  "tracking_memory_bank_storage \<Rightarrow> u64 \<Rightarrow> (tracking_memory_bank_storage \<times> u64) option" where
  "tracking_memory_banks_assign_shared_indices storage region_size = do {
     let conv_count = length (conv_banks storage);
     let dev_count = length (dev_banks storage);
     c_assert (conv_count + dev_count \<le> MAX_CONV_TRACKING_MEMORY_BANKS + MAX_DEV_TRACKING_MEMORY_BANKS);
     c_assert (region_size = TRACKING_REGION_MIN_SIZE \<or> region_size = TRACKING_REGION_MAX_SIZE);
     let banks = map (Pair TR_MEM_TYPE_CONV) [0..<conv_count] @ map (Pair TR_MEM_TYPE_DEV) [0..<dev_count];
     let sorted = foldl (ptr_sort_step storage) banks [0..<length banks];
     shared_loop region_size sorted True 0 0 storage
   }"

primrec fine_loop ::
  "u64 \<Rightarrow> u64 \<Rightarrow> tracking_memory_bank list \<Rightarrow> bool \<Rightarrow> u64 \<Rightarrow> u64
     \<Rightarrow> (tracking_memory_bank list \<times> u64) option" where
  "fine_loop region_size per_region [] first current_top num_granules = Some ([], num_granules)"
| "fine_loop region_size per_region (bank # banks) first current_top num_granules = (
     let base = round_down (tb_base bank) region_size;
         top = round_up (bank_end bank) region_size
     in if first \<or> base \<ge> current_top then do {
          let start_idx = num_granules;
          (rest, total) \<leftarrow> fine_loop region_size per_region banks False top
             (num_granules + ((top - base) div region_size) * per_region);
          Some (bank\<lparr>granule_start_idx := start_idx\<rparr> # rest, total)
        } else do {
          let overlap_regions = (current_top - base) div region_size;
          let overlap = overlap_regions * per_region;
          c_assert (overlap_regions \<le> 1);
          c_assert (overlap \<le> num_granules);
          let start_idx = num_granules - overlap;
          (rest, total) \<leftarrow> (if top > current_top
             then fine_loop region_size per_region banks False top
                    (num_granules + ((top - current_top) div region_size) * per_region)
             else fine_loop region_size per_region banks False current_top num_granules);
          Some (bank\<lparr>granule_start_idx := start_idx\<rparr> # rest, total)
        })"

definition tracking_memory_banks_assign_fine_indices ::
  "tracking_memory_bank list \<Rightarrow> u64 \<Rightarrow> u64 \<Rightarrow> (tracking_memory_bank list \<times> u64) option" where
  "tracking_memory_banks_assign_fine_indices banks region_size entry_size = do {
     descriptors_per_region \<leftarrow> tracking_region_fine_stride region_size entry_size;
     fine_loop region_size descriptors_per_region banks True 0 0
   }"

text \<open>
  Reserving virtual address space belongs to the translation library; \<open>arch_reserve\<close> is its
  result, a status and an address, with the state \<open>'a\<close> it keeps.
\<close>

definition tracking_array_reserve ::
  "('a \<Rightarrow> u64 \<Rightarrow> (int \<times> u64) \<times> 'a) \<Rightarrow> 'a \<Rightarrow> tracking_array_mapping \<Rightarrow> u64 \<Rightarrow> u64
     \<Rightarrow> (int \<times> tracking_array_mapping \<times> 'a) option" where
  "tracking_array_reserve arch_reserve a mapping count entry_size = do {
     c_assert (entry_size \<noteq> 0);
     (if count = 0 then Some (0, mapping, a)
      else if count > (UINT64_MAX - (GRANULE_SIZE - 1)) div entry_size then Some (- EOVERFLOW, mapping, a)
      else
        let required_size = round_up (count * entry_size) GRANULE_SIZE
        in if map_size mapping \<noteq> 0
           then Some (if required_size \<le> map_size mapping then 0 else - ERANGE, mapping, a)
           else (case arch_reserve a required_size of ((ret, va), a') \<Rightarrow>
             if ret \<noteq> 0 then Some (ret, mapping, a')
             else Some (0, mapping\<lparr>map_va := va, map_size := required_size,
                                   map_state := TRACKING_REGIONS_RESERVED\<rparr>, a')))
   }"

text \<open>The three reservations of the initialisation, made in turn until one fails.\<close>

definition reserve_arrays ::
  "('a \<Rightarrow> u64 \<Rightarrow> (int \<times> u64) \<times> 'a) \<Rightarrow> 'a \<Rightarrow> tracking_region_data \<Rightarrow> u64 \<Rightarrow> u64 \<Rightarrow> u64
     \<Rightarrow> (int \<times> tracking_region_data) option" where
  "reserve_arrays arch_reserve a td max_region_count max_conv_granules max_dev_granules = do {
     (ret, m, a) \<leftarrow> tracking_array_reserve arch_reserve a (tracking_region_array td)
        max_region_count 16;
     (if ret \<noteq> 0 then Some (ret, td) else do {
        let td = td\<lparr>tracking_region_array := m\<rparr>;
        (ret, m, a) \<leftarrow> tracking_array_reserve arch_reserve a (granule_array_tr td)
           max_conv_granules SIZEOF_GRANULE;
        (if ret \<noteq> 0 then Some (ret, td) else do {
           let td = td\<lparr>granule_array_tr := m\<rparr>;
           (ret, m, a) \<leftarrow> tracking_array_reserve arch_reserve a (dev_granule_array_tr td)
              max_dev_granules SIZEOF_DEV_GRANULE;
           (if ret \<noteq> 0 then Some (ret, td)
            else Some (0, td\<lparr>dev_granule_array_tr := m\<rparr>))
        })
     })
   }"

text \<open>
  The address and size of the persistent data are arguments of their own. Every return
  value comes with the data as the code leaves it.
\<close>

definition tracking_region_indices_init ::
  "('a \<Rightarrow> u64 \<Rightarrow> (int \<times> u64) \<times> 'a) \<Rightarrow> 'a \<Rightarrow> u64 \<Rightarrow> u64 \<Rightarrow> tracking_region_data
     \<Rightarrow> plat_memory_bank list option \<times> u64 \<Rightarrow> plat_memory_bank list option \<times> u64
     \<Rightarrow> plat_memory_bank list option \<times> u64 \<Rightarrow> (int \<times> tracking_region_data) option" where
  "tracking_region_indices_init arch_reserve a data data_size td conv ncoh coh = (
     if data = 0 \<or> data_size < 0x2000 \<or> \<not> GRANULE_ALIGNED data then Some (- EINVAL, td)
     else if tracking_region_size td \<noteq> 0 then Some (0, td)
     else do {
       (ret, cb) \<leftarrow> tracking_region_copy_bank_category (fst conv) (snd conv)
          RMI_MEM_CATEGORY_CONVENTIONAL [] MAX_CONV_TRACKING_MEMORY_BANKS;
       let td = td\<lparr>td_banks := (td_banks td)\<lparr>conv_banks := cb\<rparr>\<rparr>;
       (if ret \<noteq> 0 then Some (ret, td) else do {
       (ret, db) \<leftarrow> tracking_region_copy_bank_category (fst ncoh) (snd ncoh)
          RMI_MEM_CATEGORY_DEV_NCOH [] MAX_DEV_TRACKING_MEMORY_BANKS;
       let td = td\<lparr>td_banks := (td_banks td)\<lparr>dev_banks := db\<rparr>\<rparr>;
       (if ret \<noteq> 0 then Some (ret, td) else do {
       (ret, db) \<leftarrow> tracking_region_copy_bank_category (fst coh) (snd coh)
          RMI_MEM_CATEGORY_DEV_COH db MAX_DEV_TRACKING_MEMORY_BANKS;
       let td = td\<lparr>td_banks := (td_banks td)\<lparr>dev_banks := db\<rparr>\<rparr>;
       (if ret \<noteq> 0 then Some (ret, td)
        else if cb = [] \<and> db = [] then Some (- EINVAL, td) else do {
       cb \<leftarrow> tracking_region_sort_and_validate_banks cb;
       db \<leftarrow> tracking_region_sort_and_validate_banks db;
       let st = \<lparr>conv_banks = cb, dev_banks = db\<rparr>;
       tracking_memory_banks_validate_no_overlap st;
       (st, max_region_count) \<leftarrow> tracking_memory_banks_assign_shared_indices st TRACKING_REGION_MIN_SIZE;
       (st, default_region_count) \<leftarrow> tracking_memory_banks_assign_shared_indices st TRACKING_REGION_MAX_SIZE;
       (cb, conv_granules_2mb) \<leftarrow> tracking_memory_banks_assign_fine_indices (conv_banks st)
          TRACKING_REGION_MIN_SIZE SIZEOF_GRANULE;
       (cb, conv_granules_1gb) \<leftarrow> tracking_memory_banks_assign_fine_indices cb
          TRACKING_REGION_MAX_SIZE SIZEOF_GRANULE;
       (db, dev_granules_2mb) \<leftarrow> tracking_memory_banks_assign_fine_indices (dev_banks st)
          TRACKING_REGION_MIN_SIZE SIZEOF_DEV_GRANULE;
       (db, dev_granules_1gb) \<leftarrow> tracking_memory_banks_assign_fine_indices db
          TRACKING_REGION_MAX_SIZE SIZEOF_DEV_GRANULE;
       let td = td\<lparr>td_banks := \<lparr>conv_banks = cb, dev_banks = db\<rparr>\<rparr>;
       (ret, td) \<leftarrow> reserve_arrays arch_reserve a td max_region_count
          (max conv_granules_2mb conv_granules_1gb) (max dev_granules_2mb dev_granules_1gb);
       (if ret \<noteq> 0 then Some (ret, td)
        else Some (0, td\<lparr>num_tracking_regions := default_region_count,
                         num_tracking_granules := conv_granules_1gb,
                         num_tracking_dev_granules := dev_granules_1gb,
                         tracking_region_size := TRACKING_REGION_MAX_SIZE\<rparr>))
       }) }) }) })"

definition tracking_region_configure ::
  "tracking_region_data option \<Rightarrow> u64 \<Rightarrow> (int \<times> tracking_region_data option) option" where
  "tracking_region_configure tracking_data tr_size = (case tracking_data of
     None \<Rightarrow> Some (- EINVAL, tracking_data)
   | Some td \<Rightarrow>
       if tr_size \<noteq> TRACKING_REGION_MIN_SIZE \<and> tr_size \<noteq> TRACKING_REGION_MAX_SIZE
         then Some (- EINVAL, tracking_data)
       else if tracking_initialized td then Some (- EINVAL, tracking_data)
       else if tracking_region_size td = tr_size then Some (0, tracking_data)
       else do {
         (st, region_count) \<leftarrow> tracking_memory_banks_assign_shared_indices (td_banks td) tr_size;
         (cb, conv_granules) \<leftarrow> tracking_memory_banks_assign_fine_indices (conv_banks st) tr_size SIZEOF_GRANULE;
         (db, dev_granules) \<leftarrow> tracking_memory_banks_assign_fine_indices (dev_banks st) tr_size SIZEOF_DEV_GRANULE;
         c_assert (region_count \<le> map_size (tracking_region_array td) div 16);
         c_assert (conv_granules \<le> map_size (granule_array_tr td) div SIZEOF_GRANULE);
         c_assert (dev_granules \<le> map_size (dev_granule_array_tr td) div SIZEOF_DEV_GRANULE);
         Some (0, Some (td\<lparr>td_banks := \<lparr>conv_banks = cb, dev_banks = db\<rparr>,
           num_tracking_regions := region_count, num_tracking_granules := conv_granules,
           num_tracking_dev_granules := dev_granules, tracking_region_size := tr_size\<rparr>))
       })"

definition tracking_region_get_size :: "tracking_region_data \<Rightarrow> u64 option" where
  "tracking_region_get_size td = do {
     c_assert (tracking_region_size td \<noteq> 0);
     Some (tracking_region_size td)
   }"

subsection \<open>Translating addresses and indices\<close>

text \<open>
  The binary search of \<^verbatim>\<open>tracking_region_find_addr\<close> over bank positions \<open>l..r\<close>: the position
  of the bank that contains the address. The outer option is the assertion on the position.
\<close>

function find_addr_loop :: "tracking_memory_bank list \<Rightarrow> u64 \<Rightarrow> nat \<Rightarrow> nat \<Rightarrow> nat option option" where
  "find_addr_loop banks addr l r =
     (if l \<le> r then
        (let i = l + (r - l) div 2
         in if i < length banks then
              (let bank = banks ! i
               in if addr < tb_base bank then
                    (if i = 0 then Some None else find_addr_loop banks addr l (i - 1))
                  else if addr \<ge> bank_end bank then find_addr_loop banks addr (i + 1) r
                  else Some (Some i))
            else None)
      else Some None)"
  by pat_completeness auto
termination
  by (relation "measure (\<lambda>(banks, addr, l, r). Suc r - l)") auto

declare find_addr_loop.simps [simp del]

text \<open>The bank, its tracking-region index and its fine-granule index; \<open>Some None\<close> is \<^verbatim>\<open>NULL\<close>.\<close>

definition tracking_region_find_addr ::
  "tracking_region_data \<Rightarrow> u64 \<Rightarrow> tr_mem_type \<Rightarrow> (tracking_memory_bank \<times> u64 \<times> u64) option option" where
  "tracking_region_find_addr td addr type = do {
     region_size \<leftarrow> tracking_region_get_size td;
     let banks = banks_of (td_banks td) type;
     granule_stride \<leftarrow> tracking_region_fine_stride region_size (entry_size_of type);
     (if banks = [] then Some None else do {
        res \<leftarrow> find_addr_loop banks addr 0 (length banks - 1);
        Some (case res of
          None \<Rightarrow> None
        | Some i \<Rightarrow>
            let bank = banks ! i;
                tracking_base = round_down (tb_base bank) region_size;
                region_base = round_down addr region_size;
                region_offset = (region_base - tracking_base) div region_size;
                granule_offset = drop_bit GRANULE_SHIFT (addr - region_base)
            in Some (bank, ucast (tracking_start_idx bank) + region_offset,
                     granule_start_idx bank + region_offset * granule_stride + granule_offset))
     })
   }"

definition tracking_region_addr_to_idx ::
  "tracking_region_data \<Rightarrow> u64 \<Rightarrow> tr_mem_type \<Rightarrow> (u64 \<times> u8 option) option" where
  "tracking_region_addr_to_idx td addr type = do {
     c_assert (num_tracking_regions td \<noteq> 0);
     (if \<not> GRANULE_ALIGNED addr then Some (UINT64_MAX, None) else do {
        res \<leftarrow> tracking_region_find_addr td addr type;
        Some (case res of
          None \<Rightarrow> (UINT64_MAX, None)
        | Some (bank, tracking_region_idx, _) \<Rightarrow> (tracking_region_idx, Some (category bank)))
     })
   }"

definition tracking_region_fine_addr_to_idx ::
  "tracking_region_data \<Rightarrow> u64 \<Rightarrow> tr_mem_type \<Rightarrow> (u64 \<times> u8 option) option" where
  "tracking_region_fine_addr_to_idx td addr type = do {
     c_assert (num_tracking_regions td \<noteq> 0);
     (if \<not> GRANULE_ALIGNED addr then Some (UINT64_MAX, None) else do {
        res \<leftarrow> tracking_region_find_addr td addr type;
        Some (case res of
          None \<Rightarrow> (UINT64_MAX, None)
        | Some (bank, _, granule_idx) \<Rightarrow> (granule_idx, Some (category bank)))
     })
   }"

text \<open>The scan of \<^verbatim>\<open>tracking_region_fine_idx_to_addr\<close> over the banks.\<close>

primrec fine_idx_loop ::
  "u64 \<Rightarrow> u64 \<Rightarrow> u64 \<Rightarrow> tracking_memory_bank list \<Rightarrow> u64 \<times> u8 option" where
  "fine_idx_loop region_size granule_stride idx [] = (UINT64_MAX, None)"
| "fine_idx_loop region_size granule_stride idx (bank # banks) =
     (let tracking_base = round_down (tb_base bank) region_size;
          tracking_top = round_up (bank_end bank) region_size;
          bank_regions = (tracking_top - tracking_base) div region_size;
          bank_descriptors = bank_regions * granule_stride
      in if idx \<ge> granule_start_idx bank \<and> idx < granule_start_idx bank + bank_descriptors then
           let relative = idx - granule_start_idx bank;
               offset = relative mod granule_stride
           in if offset \<ge> region_size div GRANULE_SIZE then fine_idx_loop region_size granule_stride idx banks
              else
                let addr = tracking_base + (relative div granule_stride) * region_size
                           + push_bit GRANULE_SHIFT offset
                in if addr < tb_base bank \<or> addr \<ge> bank_end bank
                   then fine_idx_loop region_size granule_stride idx banks
                   else (addr, Some (category bank))
         else fine_idx_loop region_size granule_stride idx banks)"

fun num_fine_of :: "tracking_region_data \<Rightarrow> tr_mem_type \<Rightarrow> u64" where
  "num_fine_of td TR_MEM_TYPE_CONV = num_tracking_granules td"
| "num_fine_of td TR_MEM_TYPE_DEV = num_tracking_dev_granules td"

definition tracking_region_fine_idx_to_addr ::
  "tracking_region_data \<Rightarrow> u64 \<Rightarrow> tr_mem_type \<Rightarrow> (u64 \<times> u8 option) option" where
  "tracking_region_fine_idx_to_addr td idx type = do {
     region_size \<leftarrow> tracking_region_get_size td;
     c_assert (num_tracking_regions td \<noteq> 0);
     granule_stride \<leftarrow> tracking_region_fine_stride region_size (entry_size_of type);
     (if idx \<ge> num_fine_of td type then Some (UINT64_MAX, None)
      else Some (fine_idx_loop region_size granule_stride idx (banks_of (td_banks td) type)))
   }"

text \<open>\<^verbatim>\<open>tracking_region_find\<close> returns the index of the region in the array; \<open>None\<close> is \<^verbatim>\<open>NULL\<close>.\<close>

definition tracking_region_find ::
  "tracking_region_data option \<Rightarrow> u64 \<Rightarrow> tr_mem_type \<Rightarrow> u64 option option" where
  "tracking_region_find tracking_data addr type = (case tracking_data of
     None \<Rightarrow> Some None
   | Some td \<Rightarrow> (case tracking_regions td of
       None \<Rightarrow> Some None
     | Some trs \<Rightarrow> do {
         (idx, _) \<leftarrow> tracking_region_addr_to_idx td addr type;
         Some (if idx \<ge> num_tracking_regions td then None else Some idx)
       }))"

primrec lookup_by_idx_loop ::
  "u64 \<Rightarrow> u64 \<Rightarrow> u64 \<Rightarrow> tracking_memory_bank list \<Rightarrow> (u64 \<times> u64 option) option" where
  "lookup_by_idx_loop region_size granule_stride tr_idx [] = Some (UINT64_MAX, None)"
| "lookup_by_idx_loop region_size granule_stride tr_idx (bank # banks) =
     (let tracking_base = round_down (tb_base bank) region_size;
          tracking_top = round_up (bank_end bank) region_size;
          bank_count_regions = (tracking_top - tracking_base) div region_size;
          start = ucast (tracking_start_idx bank)
      in if tr_idx \<ge> start \<and> tr_idx < start + bank_count_regions then
           let addr0 = tracking_base + (tr_idx - start) * region_size;
               addr = (if addr0 < tb_base bank then tb_base bank else addr0);
               region_base = round_down addr region_size
           in do {
             c_assert (addr < bank_end bank);
             Some (addr, Some (granule_start_idx bank + (tr_idx - start) * granule_stride
                               + drop_bit GRANULE_SHIFT (addr - region_base)))
           }
         else lookup_by_idx_loop region_size granule_stride tr_idx banks)"

definition tracking_region_lookup_by_idx ::
  "tracking_region_data \<Rightarrow> tr_mem_type \<Rightarrow> u64 \<Rightarrow> (u64 \<times> u64 option) option" where
  "tracking_region_lookup_by_idx td type tr_idx = do {
     region_size \<leftarrow> tracking_region_get_size td;
     granule_stride \<leftarrow> tracking_region_fine_stride region_size (entry_size_of type);
     lookup_by_idx_loop region_size granule_stride tr_idx (banks_of (td_banks td) type)
   }"

definition tr_idx_to_fine_granule_idx :: "tracking_region_data \<Rightarrow> u64 \<Rightarrow> tr_mem_type \<Rightarrow> u64 option" where
  "tr_idx_to_fine_granule_idx td tr_idx type = do {
     region_size \<leftarrow> tracking_region_get_size td;
     (addr, granule_idx) \<leftarrow> tracking_region_lookup_by_idx td type tr_idx;
     (if addr = UINT64_MAX then Some UINT64_MAX else (case granule_idx of
        None \<Rightarrow> None
      | Some gi \<Rightarrow> do {
          c_assert (gi \<noteq> UINT64_MAX);
          Some (gi - drop_bit GRANULE_SHIFT (addr - round_down addr region_size))
        }))
   }"

definition tracking_memory_bank_find_any ::
  "tracking_region_data \<Rightarrow> u64 \<Rightarrow> (tracking_memory_bank \<times> u64 \<times> u64) option option" where
  "tracking_memory_bank_find_any td addr = do {
     res \<leftarrow> tracking_region_find_addr td addr TR_MEM_TYPE_CONV;
     (case res of
        Some b \<Rightarrow> Some (Some b)
      | None \<Rightarrow> tracking_region_find_addr td addr TR_MEM_TYPE_DEV)
   }"

definition tracking_region_mem_cat_from_category :: "u8 \<Rightarrow> tr_mem_cat option" where
  "tracking_region_mem_cat_from_category cat =
     (if cat = RMI_MEM_CATEGORY_CONVENTIONAL then Some mc_conv
      else if cat = RMI_MEM_CATEGORY_DEV_NCOH then Some mc_dev_ncoh
      else if cat = RMI_MEM_CATEGORY_DEV_COH then Some mc_dev_coh
      else None)"

lemma find_addr_loop_hit:
  "find_addr_loop banks addr l r = Some (Some i) \<Longrightarrow>
     i < length banks \<and> tb_base (banks ! i) \<le> addr \<and> addr < bank_end (banks ! i)"
proof (induction banks addr l r rule: find_addr_loop.induct)
  case (1 banks addr l r)
  let ?i = "l + (r - l) div 2"
  note loop = 1(3) [unfolded find_addr_loop.simps [of banks addr l r] Let_def]
  have lr: "l \<le> r" and len: "?i < length banks" using loop by (simp_all split: if_splits)
  consider "addr < tb_base (banks ! ?i)" | "tb_base (banks ! ?i) \<le> addr" "bank_end (banks ! ?i) \<le> addr"
    | "tb_base (banks ! ?i) \<le> addr" "addr < bank_end (banks ! ?i)" by force
  then show ?case
  proof cases
    case 1
    then have "?i \<noteq> 0" "find_addr_loop banks addr l (?i - 1) = Some (Some i)"
      using loop lr len by (simp_all split: if_splits)
    then show ?thesis using "1.IH"(1) [OF lr refl len refl 1] by blast
  next
    case 2
    then have "find_addr_loop banks addr (?i + 1) r = Some (Some i)" using loop lr len leD [OF 2(1)] by simp
    then show ?thesis using "1.IH"(2) [OF lr refl len refl leD [OF 2(1)] 2(2)] by blast
  next
    case 3
    then have "i = ?i" using loop lr len leD [OF 3(1)] 3(2) [unfolded not_le [symmetric]] by simp
    then show ?thesis using 3 len by simp
  qed
qed

lemma find_addr_contains:
  assumes "tracking_region_find_addr td addr type = Some (Some (bank, ti, gi))"
  shows "tb_base bank \<le> addr \<and> addr < bank_end bank"
proof -
  let ?banks = "banks_of (td_banks td) type"
  from assms obtain i where "find_addr_loop ?banks addr 0 (length ?banks - 1) = Some (Some i)" "bank = ?banks ! i"
    unfolding tracking_region_find_addr_def Let_def bind_eq_Some_conv
    by (auto simp: bind_eq_Some_conv split: if_splits option.splits)
  then show ?thesis using find_addr_loop_hit by blast
qed

lemma find_any_contains:
  assumes "tracking_memory_bank_find_any td addr = Some (Some (bank, ti, gi))"
  shows "tb_base bank \<le> addr \<and> addr < bank_end bank"
  using assms find_addr_contains
  by (auto simp: tracking_memory_bank_find_any_def bind_eq_Some_conv split: option.splits)

text \<open>The walk over the bank segments of a region; \<open>cat\<close> is the category seen so far.\<close>

function composition_loop ::
  "tracking_region_data \<Rightarrow> u64 \<Rightarrow> u64 \<Rightarrow> tr_mem_cat option \<Rightarrow> tr_mem_cat option" where
  "composition_loop td rtop cursor cat =
     (if cursor < rtop then
        (case tracking_memory_bank_find_any td cursor of
           None \<Rightarrow> None
         | Some None \<Rightarrow> Some mc_diverse
         | Some (Some (bank, _, _)) \<Rightarrow>
             (case tracking_region_mem_cat_from_category (category bank) of
                None \<Rightarrow> None
              | Some bank_category \<Rightarrow>
                  if cat \<noteq> None \<and> cat \<noteq> Some bank_category then Some mc_diverse
                  else composition_loop td rtop (if bank_end bank < rtop then bank_end bank else rtop)
                         (Some bank_category)))
      else cat)"
  by pat_completeness auto
termination
proof (relation "measure (\<lambda>(td, rtop, cursor, cat). unat (rtop - cursor))")
  fix td :: tracking_region_data and rtop cursor :: u64 and cat res p bank q ti gi bank_category
  assume lt: "cursor < rtop" and f: "tracking_memory_bank_find_any td cursor = Some res"
    and r: "res = Some p" "(bank, q) = p"
  obtain ti gi where q: "q = (ti, gi)" by (cases q)
  have "cursor < bank_end bank" using find_any_contains [of td cursor bank ti gi] f r q by auto
  then have "cursor < (if bank_end bank < rtop then bank_end bank else rtop)"
    "(if bank_end bank < rtop then bank_end bank else rtop) \<le> rtop" using lt by auto
  then show "((td, rtop, if bank_end bank < rtop then bank_end bank else rtop, Some bank_category), td, rtop, cursor, cat)
    \<in> measure (\<lambda>(td, rtop, cursor, cat). unat (rtop - cursor))"
    using lt by (auto simp: unat_sub word_less_nat_alt word_le_nat_alt)
qed auto

declare composition_loop.simps [simp del]

definition tracking_region_composition :: "tracking_region_data \<Rightarrow> u64 \<Rightarrow> tr_mem_cat option" where
  "tracking_region_composition td base = do {
     region_size \<leftarrow> tracking_region_get_size td;
     composition_loop td (base + region_size) base None
   }"

subsection \<open>Region descriptors\<close>

abbreviation (input) TR_STATE :: regfield where "TR_STATE \<equiv> (0, 2)"
abbreviation (input) TR_MEM_CAT :: regfield where "TR_MEM_CAT \<equiv> (2, 2)"

definition TR_TRANSITION_BIT :: u8 where "TR_TRANSITION_BIT = push_bit 4 1"

definition tr_state_of_val :: "u64 \<Rightarrow> tr_state" where
  "tr_state_of_val v =
     (if v = 0 then trs_reserved else if v = 1 then trs_none else if v = 2 then trs_fine else trs_coarse)"

definition tracking_region_get_state :: "tracking_region \<Rightarrow> tr_state" where
  "tracking_region_get_state tr = tr_state_of_val (EXTRACT TR_STATE (ucast (tr_descriptor tr)))"

definition tracking_region_transition_pending :: "tracking_region \<Rightarrow> bool" where
  "tracking_region_transition_pending tr \<longleftrightarrow> tr_descriptor tr AND TR_TRANSITION_BIT \<noteq> 0"

definition tracking_region_transition_set_locked :: "tracking_region \<Rightarrow> bool \<Rightarrow> tracking_region" where
  "tracking_region_transition_set_locked tr pending =
     (let desc = (if pending then tr_descriptor tr OR TR_TRANSITION_BIT
                  else tr_descriptor tr AND NOT TR_TRANSITION_BIT)
      in tr\<lparr>tr_descriptor := tr_descriptor tr XOR (tr_descriptor tr XOR desc)\<rparr>)"

definition tracking_region_set_state_locked :: "tracking_region \<Rightarrow> tr_state \<Rightarrow> tracking_region" where
  "tracking_region_set_state_locked tr state =
     (let old_state = tr_descriptor tr AND ucast (MASK TR_STATE);
          new_state = ucast (push_bit 0 (tr_state_val state))
      in tr\<lparr>tr_descriptor := tr_descriptor tr XOR (old_state XOR new_state)\<rparr>)"

definition region_descriptor_init ::
  "tracking_region_data \<Rightarrow> tr_state \<Rightarrow> u64 \<Rightarrow> tracking_region \<Rightarrow> tracking_region option" where
  "region_descriptor_init td state i tr = do {
     region_size \<leftarrow> tracking_region_get_size td;
     (base0, _) \<leftarrow> tracking_region_lookup_by_idx td TR_MEM_TYPE_CONV i;
     (base, _) \<leftarrow> (if base0 = UINT64_MAX then tracking_region_lookup_by_idx td TR_MEM_TYPE_DEV i
                  else Some (base0, None));
     c_assert (base \<noteq> UINT64_MAX);
     cat \<leftarrow> tracking_region_composition td (round_down base region_size);
     let region_state = (if cat = mc_diverse \<and> state = trs_coarse then trs_none else state);
     Some (tr\<lparr>coarse_granule := (coarse_granule tr)\<lparr>descriptor := 0\<rparr>,
              coarse_dev_granule := (coarse_dev_granule tr)\<lparr>dev_descriptor := 0\<rparr>,
              tr_descriptor := ucast (INPLACE TR_MEM_CAT (tr_mem_cat_val cat) OR
                                      INPLACE TR_STATE (tr_state_val region_state))\<rparr>)
   }"

primrec descriptors_init_loop ::
  "tracking_region_data \<Rightarrow> tr_state \<Rightarrow> nat \<Rightarrow> tracking_region list \<Rightarrow> tracking_region list option" where
  "descriptors_init_loop td state i [] = Some []"
| "descriptors_init_loop td state i (tr # trs) = do {
     tr' \<leftarrow> region_descriptor_init td state (of_nat i) tr;
     trs' \<leftarrow> descriptors_init_loop td state (Suc i) trs;
     Some (tr' # trs')
   }"

text \<open>The array holds one entry for each of the \<open>num_tracking_regions\<close> regions.\<close>

definition tracking_region_descriptors_init ::
  "tracking_region_data \<Rightarrow> tracking_region list \<Rightarrow> tr_state \<Rightarrow> tracking_region list option" where
  "tracking_region_descriptors_init td trs state = do {
     c_assert (state = trs_fine \<or> state = trs_coarse);
     c_assert (unat (num_tracking_regions td) = length trs);
     descriptors_init_loop td state 0 trs
   }"

text \<open>
  \<open>backing\<close> is the mapped memory of the region array; \<open>is_mapped\<close> tells whether an address of the
  reserved space has been mapped by the translation library.
\<close>

definition tracking_region_activate ::
  "(u64 \<Rightarrow> bool) \<Rightarrow> tracking_region_data \<Rightarrow> tracking_region list \<Rightarrow> tr_state \<Rightarrow> tracking_region_data option" where
  "tracking_region_activate is_mapped td backing state = do {
     c_assert (state = trs_fine \<or> state = trs_coarse);
     c_assert (num_tracking_regions td \<noteq> 0);
     c_assert (is_mapped (map_va (tracking_region_array td)));
     c_assert (\<not> tracking_initialized td);
     c_assert (tracking_regions td = None);
     c_assert (state = trs_fine \<longrightarrow>
       (map_size (granule_array_tr td) = 0 \<or> map_state (granule_array_tr td) = TRACKING_REGIONS_COMMITTED) \<and>
       (map_size (dev_granule_array_tr td) = 0 \<or> map_state (dev_granule_array_tr td) = TRACKING_REGIONS_COMMITTED));
     trs \<leftarrow> tracking_region_descriptors_init td backing state;
     Some (td\<lparr>tracking_regions := Some trs,
              tracking_region_array := (tracking_region_array td)\<lparr>map_state := TRACKING_REGIONS_COMMITTED\<rparr>,
              tracking_initialized := True\<rparr>)
   }"

subsection \<open>Queries\<close>

text \<open>The first base above \<open>addr\<close> of one sorted bank list, if it improves on \<open>nxt\<close>.\<close>

primrec next_base_loop :: "u64 \<Rightarrow> tracking_memory_bank list \<Rightarrow> u64 \<Rightarrow> u64" where
  "next_base_loop addr [] nxt = nxt"
| "next_base_loop addr (bank # banks) nxt =
     (if tb_base bank > addr then (if tb_base bank < nxt then tb_base bank else nxt)
      else next_base_loop addr banks nxt)"

definition tracking_memory_bank_next_base :: "tracking_region_data \<Rightarrow> u64 \<Rightarrow> u64 \<Rightarrow> u64" where
  "tracking_memory_bank_next_base td addr limit =
     next_base_loop addr (dev_banks (td_banks td)) (next_base_loop addr (conv_banks (td_banks td)) limit)"

definition tracking_region_find_after_base :: "tracking_region_data \<Rightarrow> u64 \<Rightarrow> u64 \<Rightarrow> u64 option option" where
  "tracking_region_find_after_base td base rtop = do {
     c_assert (base < rtop);
     let nxt = tracking_memory_bank_next_base td base rtop;
     (if nxt \<ge> rtop then Some None else do {
        res \<leftarrow> tracking_memory_bank_find_any td nxt;
        (case res of None \<Rightarrow> None | Some (_, idx, _) \<Rightarrow> Some (Some idx))
     })
   }"

text \<open>\<open>Some None\<close> is the result \<^verbatim>\<open>false\<close>, otherwise the index of the region.\<close>

definition tracking_region_set_tracking_find ::
  "tracking_region_data option \<Rightarrow> u64 \<Rightarrow> u64 \<Rightarrow> u64 option option" where
  "tracking_region_set_tracking_find tracking_data addr cat = (case tracking_data of
     None \<Rightarrow> Some None
   | Some td \<Rightarrow>
       if \<not> tracking_initialized td \<or> tracking_regions td = None \<or> cat > ucast RMI_MEM_CATEGORY_NONE
       then Some None
       else do {
         region_size \<leftarrow> tracking_region_get_size td;
         (if addr AND (region_size - 1) \<noteq> 0 then Some None else do {
            res \<leftarrow> tracking_memory_bank_find_any td addr;
            found \<leftarrow> (case res of
                Some (bank, idx, _) \<Rightarrow> Some (if ucast (category bank) \<noteq> cat then None else Some idx)
              | None \<Rightarrow>
                  if addr > UINT64_MAX - region_size then Some None
                  else tracking_region_find_after_base td addr (addr + region_size));
            (case found of
               None \<Rightarrow> Some None
             | Some idx \<Rightarrow> do {
                 c_assert (idx < num_tracking_regions td);
                 Some (Some idx)
               })
         })
       })"

text \<open>Category, state and end of the range around \<open>addr\<close> with these attributes.\<close>

definition tracking_region_get_info ::
  "tracking_region_data \<Rightarrow> u64 \<Rightarrow> u64 \<Rightarrow> (u8 \<times> tr_state \<times> u64) option option" where
  "tracking_region_get_info td addr limit =
     (if addr \<ge> limit then Some None else do {
        c_assert (num_tracking_regions td \<noteq> 0);
        region_size \<leftarrow> tracking_region_get_size td;
        res \<leftarrow> tracking_memory_bank_find_any td addr;
        let top0 = round_down addr region_size + region_size;
        let top1 = (if top0 > limit then limit else top0);
        (case res of
           Some (bank, idx, _) \<Rightarrow> do {
             c_assert (idx < num_tracking_regions td);
             let rtop = (if bank_end bank < top1 then bank_end bank else top1);
             state \<leftarrow> (if \<not> tracking_initialized td then Some trs_none
                      else (case tracking_regions td of
                              None \<Rightarrow> None
                            | Some trs \<Rightarrow> map_option tracking_region_get_state (arr_get trs (unat idx))));
             c_assert (rtop > addr);
             Some (Some (category bank, state, rtop))
           }
         | None \<Rightarrow> do {
             let rtop = tracking_memory_bank_next_base td addr limit;
             c_assert (rtop > addr);
             Some (Some (RMI_MEM_CATEGORY_NONE, trs_reserved, rtop))
           })
      })"

end
