(* ===== verification/Tracking_Index.thy ===== *)
theory Tracking_Index
  imports Tracking_Region
begin

text \<open>
  Compressed index spaces. The abstract assignment numbers the region intervals of sorted
  banks so that every covered region gets its rank among the covered regions; the loops of
  the code compute it on words, with a factor for the entries per region.
\<close>

subsection \<open>Ranks of covered regions\<close>

type_synonym interval = "nat \<times> nat"

definition covered :: "interval list \<Rightarrow> nat set" where
  "covered xs = (\<Union>(lo, hi) \<in> set xs. {lo..<hi})"

definition rank :: "nat set \<Rightarrow> nat \<Rightarrow> nat" where
  "rank C r = card {c \<in> C. c < r}"

text \<open>Intervals in order that share at most one region with their successors.\<close>

definition chain :: "interval list \<Rightarrow> bool" where
  "chain xs \<longleftrightarrow> sorted_wrt (\<lambda>x y. snd x \<le> Suc (fst y)) xs \<and> (\<forall>x \<in> set xs. fst x < snd x)"

text \<open>The assignment: the indices of the intervals and the number of covered regions.\<close>

fun assign :: "interval list \<Rightarrow> nat \<Rightarrow> nat \<Rightarrow> nat list \<times> nat" where
  "assign [] ct n = ([], n)"
| "assign ((lo, hi) # xs) ct n =
     (if ct \<le> lo then (let (is, t) = assign xs hi (n + (hi - lo)) in (n # is, t))
      else (let (is, t) = (if ct < hi then assign xs hi (n + (hi - ct)) else assign xs ct n)
            in ((n - (ct - lo)) # is, t)))"

lemma covered_Cons [simp]: "covered ((lo, hi) # xs) = {lo..<hi} \<union> covered xs"
  by (auto simp: covered_def)

lemma covered_Nil [simp]: "covered [] = {}"
  by (simp add: covered_def)

lemma finite_covered [simp]: "finite (covered xs)"
  by (auto simp: covered_def)

lemma rank_mono: "finite C \<Longrightarrow> r \<le> r' \<Longrightarrow> rank C r \<le> rank C r'"
  unfolding rank_def by (rule card_mono) auto

lemma rank_step: "finite C \<Longrightarrow> r \<in> C \<Longrightarrow> rank C (Suc r) = Suc (rank C r)"
proof -
  assume C: "finite C" "r \<in> C"
  then have "{c \<in> C. c < Suc r} = insert r {c \<in> C. c < r}" by auto
  then show ?thesis using C by (simp add: rank_def)
qed

lemma rank_strict: "finite C \<Longrightarrow> r \<in> C \<Longrightarrow> r < r' \<Longrightarrow> rank C r < rank C r'"
  using rank_step [of C r] rank_mono [of C "Suc r" r'] by simp

lemma rank_inj: "finite C \<Longrightarrow> r \<in> C \<Longrightarrow> r' \<in> C \<Longrightarrow> rank C r = rank C r' \<Longrightarrow> r = r'"
  using rank_strict [of C r r'] rank_strict [of C r' r] by (metis less_irrefl nat_neq_iff)

lemma rank_less_card: "finite C \<Longrightarrow> r \<in> C \<Longrightarrow> rank C r < card C"
  unfolding rank_def by (rule psubset_card_mono) auto

lemma rank_interval:
  assumes "finite C" "{lo..<hi} \<subseteq> C" "lo \<le> r" "r \<le> hi"
  shows "rank C r = rank C lo + (r - lo)"
  using assms(3,4)
proof (induction r rule: dec_induct)
  case (step r)
  then have "r \<in> C" using assms(2) by auto
  then show ?case using step rank_step [OF assms(1)] by simp
qed simp

lemma assign_rank:
  assumes "finite C" "\<forall>c \<in> C. c < ct" "C = {} \<longrightarrow> ct = 0" "C \<noteq> {} \<longrightarrow> 0 < ct \<and> ct - 1 \<in> C"
    and "chain xs" "\<forall>x \<in> set xs. ct \<le> Suc (fst x)"
  shows "assign xs ct (card C) = (map (\<lambda>x. rank (C \<union> covered xs) (fst x)) xs, card (C \<union> covered xs))"
  using assms
proof (induction xs arbitrary: C ct)
  case Nil
  then show ?case by simp
next
  case (Cons x xs)
  obtain lo hi where x: "x = (lo, hi)" by (cases x)
  have lh: "lo < hi" and ct: "ct \<le> Suc lo" and ch: "chain xs"
    using Cons.prems(5,6) by (auto simp: chain_def x)
  have later: "\<forall>y \<in> set xs. hi \<le> Suc (fst y) \<and> fst y < snd y" using Cons.prems(5) by (auto simp: chain_def x)
  let ?D = "C \<union> {lo..<hi}"
  have D: "?D \<union> covered xs = C \<union> covered (x # xs)" by (auto simp: x)
  have low: "{c \<in> C \<union> covered (x # xs). c < lo} = {c \<in> C. c < lo}"
  proof -
    have "lo \<le> c" if c: "c \<in> covered (x # xs)" for c
    proof (cases "c \<in> covered xs")
      case True
      then obtain a b where "(a, b) \<in> set xs" "a \<le> c" by (auto simp: covered_def)
      then show ?thesis using later lh by fastforce
    next
      case False
      then show ?thesis using c by (simp add: x)
    qed
    then show ?thesis by (auto dest: leD)
  qed
  have IH: "assign xs hi (card ?D) = (map (\<lambda>x. rank (?D \<union> covered xs) (fst x)) xs, card (?D \<union> covered xs))"
    if "ct \<le> hi"
  proof (rule Cons.IH)
    have "c < hi" if "c \<in> C" for c using Cons.prems(2) that \<open>ct \<le> hi\<close> by force
    then show "\<forall>c \<in> ?D. c < hi" by auto
    have "hi - 1 \<in> {lo..<hi}" using lh by auto
    then show "?D = {} \<longrightarrow> hi = 0" "?D \<noteq> {} \<longrightarrow> 0 < hi \<and> hi - 1 \<in> ?D" using lh by auto
  qed (use Cons.prems(1) ch later in auto)
  show ?case
  proof (cases "ct \<le> lo")
    case True
    then have disj: "C \<inter> {lo..<hi} = {}" using Cons.prems(2) by force
    then have card: "card ?D = card C + (hi - lo)" using Cons.prems(1) by (simp add: card_Un_disjoint)
    have "{c \<in> C. c < lo} = C" using Cons.prems(2) True by force
    then have r: "rank (C \<union> covered (x # xs)) lo = card C" using low by (simp add: rank_def)
    show ?thesis using True r card IH lh unfolding D by (simp add: x)
  next
    case False
    then have e: "ct = Suc lo" using ct by simp
    then have C: "lo \<in> C" using Cons.prems(3,4) by force
    have sub: "{c \<in> C. c < lo} = C - {lo}" using Cons.prems(2) e by force
    then have r: "rank (C \<union> covered (x # xs)) lo = card C - 1" using low C by (simp add: rank_def)
    show ?thesis
    proof (cases "ct < hi")
      case True
      have "{lo..<hi} = insert lo {ct..<hi}" using e lh by auto
      then have "?D = C \<union> {ct..<hi}" using C by auto
      moreover have "C \<inter> {ct..<hi} = {}" using Cons.prems(2) by force
      ultimately have card: "card ?D = card C + (hi - ct)" using Cons.prems(1) by (simp add: card_Un_disjoint)
      show ?thesis using False True r card e IH unfolding D by (simp add: x)
    next
      case ge: False
      then have h: "hi = ct" using lh e by simp
      then have same: "?D = C" using C e by force
      have "assign xs ct (card C) = (map (\<lambda>x. rank (C \<union> covered xs) (fst x)) xs, card (C \<union> covered xs))"
        using Cons.prems(1-4) later ch h by (intro Cons.IH) auto
      then show ?thesis using False ge r e D unfolding same by (simp add: x)
    qed
  qed
qed

corollary assign_from_start:
  assumes "chain xs"
  shows "assign xs 0 0 = (map (\<lambda>x. rank (covered xs) (fst x)) xs, card (covered xs))"
  using assign_rank [of "{}" 0 xs] assms by simp

subsection \<open>Regions of a bank\<close>

lemma region_size_exp:
  "TRACKING_REGION_MIN_SIZE = 2 ^ 21" "TRACKING_REGION_MAX_SIZE = 2 ^ 30"
  by (simp_all add: TRACKING_REGION_MIN_SIZE_def TRACKING_REGION_MAX_SIZE_def)

text \<open>A non-empty bank inside the 52-bit physical address space.\<close>

definition bank_in_range :: "tracking_memory_bank \<Rightarrow> bool" where
  "bank_in_range b \<longleftrightarrow> tb_size b \<noteq> 0 \<and> unat (tb_base b) + unat (tb_size b) \<le> 2 ^ 52"

text \<open>The regions of size \<open>2 ^ k\<close> that a bank intersects.\<close>

definition ivl :: "nat \<Rightarrow> tracking_memory_bank \<Rightarrow> interval" where
  "ivl k b = (unat (tb_base b) div 2 ^ k, Suc ((unat (tb_base b) + unat (tb_size b) - 1) div 2 ^ k))"

lemma unat_bank_end:
  "bank_in_range b \<Longrightarrow> unat (bank_end b) = unat (tb_base b) + unat (tb_size b)"
  by (simp add: bank_in_range_def unat_word_ariths)

lemma size_pos: "bank_in_range b \<Longrightarrow> 0 < unat (tb_size b)"
  by (simp add: bank_in_range_def unat_gt_0)

lemma nat_or_mask: "n OR mask k = n div 2 ^ k * 2 ^ k + (2 ^ k - 1)" for n :: nat
proof -
  have "push_bit k (drop_bit k n) AND mask k = 0"
    by (rule bit_eqI) (simp add: bit_simps)
  then have "push_bit k (drop_bit k n) OR mask k = push_bit k (drop_bit k n) + mask k"
    by (simp add: disjunctive_add_eq_or)
  moreover have "n OR mask k = push_bit k (drop_bit k n) OR mask k"
    by (rule bit_eqI) (auto simp: bit_simps)
  ultimately show ?thesis by (simp add: push_bit_eq_mult drop_bit_eq_div mask_eq_exp_minus_1)
qed

lemma unat_round_up_exp:
  assumes "0 < unat v" "unat v \<le> 2 ^ 63" "k \<le> 30"
  shows "unat (round_up v (2 ^ k)) = Suc ((unat v - 1) div 2 ^ k) * 2 ^ k"
proof -
  have m: "unat (mask k :: u64) = mask k" by (rule bit_eqI) (use assms(3) in \<open>auto simp: bit_simps\<close>)
  have "unat (v - 1) = unat v - 1" using assms(1) by (subst unat_sub) (auto simp: word_le_nat_alt)
  then have o: "unat ((v - 1) OR mask k) = (unat v - 1) div 2 ^ k * 2 ^ k + (2 ^ k - 1)"
    by (simp only: unsigned_or_eq m nat_or_mask)
  have "(unat v - 1) div 2 ^ k * 2 ^ k \<le> 2 ^ 63" using assms(2)
    by (meson diff_le_self div_times_less_eq_dividend order_trans)
  moreover have "(2::nat) ^ k \<le> 2 ^ 30" using assms(3) by (rule power_increasing) simp
  ultimately have "Suc (unat ((v - 1) OR mask k)) < 2 ^ 64" unfolding o by simp
  then have "unat (((v - 1) OR mask k) + 1) = Suc (unat ((v - 1) OR mask k))"
    by (simp add: unat_word_ariths)
  also have "\<dots> = Suc ((unat v - 1) div 2 ^ k) * 2 ^ k" unfolding o by simp
  finally show ?thesis by (simp add: round_up_def exp_minus_1_eq_mask)
qed

lemma ivl_less: "bank_in_range b \<Longrightarrow> fst (ivl k b) < snd (ivl k b)"
  using size_pos [of b] by (auto simp: ivl_def less_Suc_eq_le intro!: div_le_mono)

lemma unat_bank_bounds:
  assumes "bank_in_range b" "k \<le> 30"
  shows "unat (round_down (tb_base b) (2 ^ k)) = fst (ivl k b) * 2 ^ k"
    "unat (round_up (bank_end b) (2 ^ k)) = snd (ivl k b) * 2 ^ k"
  using assms size_pos [OF assms(1)] unat_bank_end [OF assms(1)]
  by (simp_all add: unat_round_down_exp unat_round_up_exp ivl_def bank_in_range_def)

lemma unat_region_diff:
  fixes a b :: u64
  assumes "unat a = x * 2 ^ k" "unat b = y * 2 ^ k" "y \<le> x" "k \<le> 30"
  shows "unat ((a - b) div 2 ^ k) = x - y"
proof -
  have "b \<le> a" using assms(1-3) by (simp add: word_le_nat_alt)
  then have "unat (a - b) = (x - y) * 2 ^ k" using assms(1,2) by (simp add: unat_sub diff_mult_distrib)
  then show ?thesis using assms(4) by (simp add: unat_div unat_exp)
qed

lemma word_le_regions:
  fixes a b :: u64
  assumes "unat a = x * 2 ^ k" "unat b = y * 2 ^ k"
  shows "a \<le> b \<longleftrightarrow> x \<le> y" "a < b \<longleftrightarrow> x < y"
  using assms by (simp_all add: word_le_nat_alt word_less_nat_alt)

lemma assign_total: "n \<le> snd (assign xs ct n)"
proof (induction xs ct n rule: assign.induct)
  case (2 lo hi xs ct n)
  then show ?case
    by (cases "ct \<le> lo"; cases "ct < hi") (simp_all add: case_prod_beta)
qed simp

subsection \<open>The loops of the code compute the assignment\<close>

lemma of_nat_unat_eq: "unat n = m \<Longrightarrow> n = of_nat m" for n :: u64
  by auto

lemma unat_count_add:
  fixes S :: u64
  assumes "unat a = x * 2 ^ k" "unat b = y * 2 ^ k" "y \<le> x" "k \<le> 30"
    and "unat S = s" "unat n = s * ni" "s * t < 2 ^ 64" "ni + (x - y) \<le> t"
  shows "unat (n + ((a - b) div 2 ^ k) * S) = s * (ni + (x - y))"
proof -
  have d: "unat ((a - b) div 2 ^ k) = x - y" by (rule unat_region_diff [OF assms(1-4)])
  have e: "s * (ni + (x - y)) = s * ni + (x - y) * s" by (simp add: distrib_left mult.commute)
  have "s * (ni + (x - y)) \<le> s * t" using assms(8) by (rule mult_le_mono2)
  then have "(x - y) * s < 2 ^ 64" "s * ni + (x - y) * s < 2 ^ 64" using assms(7) e by simp_all
  then show ?thesis unfolding e using assms(5,6) d by (simp add: unat_word_ariths)
qed

lemma unat_count_back:
  fixes S :: u64
  assumes "unat S = s" "unat n = s * ni" "0 < ni"
  shows "S \<le> n" "n - S = of_nat (s * (ni - 1))"
proof -
  have "s \<le> s * ni" using assms(3) by simp
  then show le: "S \<le> n" using assms by (simp add: word_le_nat_alt)
  have "unat (n - S) = s * (ni - 1)" using le assms by (simp add: unat_sub diff_mult_distrib2)
  then show "n - S = of_nat (s * (ni - 1))" by (rule of_nat_unat_eq)
qed

text \<open>What one bank contributes: its region bounds as words and the successors' constraints.\<close>

lemma bank_step:
  assumes "k \<le> 30" "bank_in_range b" "ivl k b = (lo, hi)" "chain (ivl k b # xs)" "unat ct = cti * 2 ^ k"
  shows "unat (round_down (tb_base b) (2 ^ k)) = lo * 2 ^ k"
    and "unat (round_up (bank_end b) (2 ^ k)) = hi * 2 ^ k"
    and "lo < hi" and "chain xs" and "\<forall>x \<in> set xs. hi \<le> Suc (fst x)"
    and "ct \<le> round_down (tb_base b) (2 ^ k) \<longleftrightarrow> cti \<le> lo"
    and "ct < round_up (bank_end b) (2 ^ k) \<longleftrightarrow> cti < hi"
proof -
  show base: "unat (round_down (tb_base b) (2 ^ k)) = lo * 2 ^ k"
    and rtop: "unat (round_up (bank_end b) (2 ^ k)) = hi * 2 ^ k"
    using unat_bank_bounds [OF assms(2,1)] assms(3) by simp_all
  show "lo < hi" using ivl_less [OF assms(2), of k] assms(3) by simp
  show "chain xs" "\<forall>x \<in> set xs. hi \<le> Suc (fst x)" using assms(3,4) by (auto simp: chain_def)
  show "ct \<le> round_down (tb_base b) (2 ^ k) \<longleftrightarrow> cti \<le> lo"
    by (rule word_le_regions(1) [OF assms(5) base])
  show "ct < round_up (bank_end b) (2 ^ k) \<longleftrightarrow> cti < hi"
    by (rule word_le_regions(2) [OF assms(5) rtop])
qed

lemma overlap_one:
  assumes "k \<le> 30" "unat ct = Suc lo * 2 ^ k" "unat base = lo * 2 ^ k"
  shows "(ct - base) div 2 ^ k = (1 :: u64)"
  using unat_region_diff [OF assms(2,3) _ assms(1)] by (simp add: word_unat_eq_iff)

lemma fine_loop_assign:
  assumes "k \<le> 30" "unat S = s" "\<forall>b \<in> set bs. bank_in_range b"
    and "unat ct = cti * 2 ^ k" "unat n = s * ni" "first \<longrightarrow> cti = 0" "0 < cti \<longrightarrow> 0 < ni"
    and "chain (map (ivl k) bs)" "\<forall>x \<in> set (map (ivl k) bs). cti \<le> Suc (fst x)"
    and "assign (map (ivl k) bs) cti ni = (is, t)" "s * t < 2 ^ 64"
  shows "fine_loop (2 ^ k) S bs first ct n =
    Some (map2 (\<lambda>b i. b\<lparr>granule_start_idx := of_nat (s * i)\<rparr>) bs is, of_nat (s * t))"
  using assms(3-)
proof (induction bs arbitrary: first ct cti n ni "is")
  case Nil
  then have "n = of_nat (s * t)" "is = []" using of_nat_unat_eq [OF Nil(3)] by auto
  then show ?case by simp
next
  case (Cons b bs)
  obtain lo hi where iv: "ivl k b = (lo, hi)" by (cases "ivl k b")
  have b: "bank_in_range b" and bs: "\<forall>b \<in> set bs. bank_in_range b" using Cons.prems(1) by simp_all
  note st = bank_step [OF assms(1) b iv Cons.prems(6) [unfolded list.map] Cons.prems(2)]
  have n: "n = of_nat (s * ni)" using Cons.prems(3) by (rule of_nat_unat_eq)
  note IH = Cons.IH [OF bs st(2) _ _ _ st(4,5)]
  show ?case
  proof (cases "cti \<le> lo")
    case True
    obtain is' where a: "assign (map (ivl k) bs) hi (ni + (hi - lo)) = (is', t)" and eq: "is = ni # is'"
      using Cons.prems(8) True iv by (auto split: prod.splits)
    have "ni + (hi - lo) \<le> t" using assign_total [of "ni + (hi - lo)" "map (ivl k) bs" hi] a by simp
    from IH [OF unat_count_add [OF st(2,1) less_imp_le [OF st(3)] assms(1,2) Cons.prems(3,9) this] _ _ a
        Cons.prems(9), of False] st(3)
    show ?thesis using True st(6) by (simp add: Let_def eq n)
  next
    case False
    then have e: "cti = Suc lo" and nf: "\<not> first" and ni: "0 < ni"
      using Cons.prems(4,5,7) iv by auto
    note bk = unat_count_back [OF assms(2) Cons.prems(3) ni]
      overlap_one [OF assms(1) Cons.prems(2) [unfolded e] st(1)]
    show ?thesis
    proof (cases "cti < hi")
      case True
      obtain is' where a: "assign (map (ivl k) bs) hi (ni + (hi - cti)) = (is', t)" and eq: "is = (ni - 1) # is'"
        using Cons.prems(8) False True iv e by (auto split: prod.splits)
      have "ni + (hi - cti) \<le> t" using assign_total [of "ni + (hi - cti)" "map (ivl k) bs" hi] a by simp
      from IH [OF unat_count_add [OF st(2) Cons.prems(2) less_imp_le [OF True] assms(1,2) Cons.prems(3,9) this]
          _ _ a Cons.prems(9), of False] ni
      show ?thesis using False nf True st(6,7) bk by (simp add: Let_def eq)
    next
      case nt: False
      obtain is' where a: "assign (map (ivl k) bs) cti ni = (is', t)" and eq: "is = (ni - 1) # is'"
        using Cons.prems(8) False nt iv e by (auto split: prod.splits)
      have "hi = cti" using nt st(3) e by simp
      then show ?thesis
        using Cons.IH [OF bs Cons.prems(2,3) _ Cons.prems(5) st(4) _ a Cons.prems(9), of False] st(5)
          False nf nt st(6,7) bk by (simp add: Let_def eq)
    qed
  qed
qed

lemma nth_set_start:
  obtains v' where "xs[i := (xs ! i)\<lparr>tracking_start_idx := v\<rparr>] ! j = (xs ! j)\<lparr>tracking_start_idx := v'\<rparr>"
proof (cases "i < length xs \<and> i = j")
  case True
  then show thesis using that [of v] by simp
next
  case False
  then have "xs[i := (xs ! i)\<lparr>tracking_start_idx := v\<rparr>] ! j = xs ! j"
    by (cases "i < length xs") (simp_all add: nth_list_update list_update_beyond)
  then show thesis using that [of "tracking_start_idx (xs ! j)"] by simp
qed

lemma bank_deref_set_ex:
  obtains v' where "bank_deref (set_tracking_start_idx st p v) q = (bank_deref st q)\<lparr>tracking_start_idx := v'\<rparr>"
proof -
  obtain t i where p: "p = (t, i)" by (cases p)
  show thesis
  proof (cases t)
    case TR_MEM_TYPE_CONV
    obtain v' where "(conv_banks st)[i := (conv_banks st ! i)\<lparr>tracking_start_idx := v\<rparr>] ! snd q
        = (conv_banks st ! snd q)\<lparr>tracking_start_idx := v'\<rparr>"
      by (rule nth_set_start)
    then show thesis using that [of v'] that [of "tracking_start_idx (bank_deref st q)"] TR_MEM_TYPE_CONV p
      by (cases "fst q") (simp_all add: bank_deref_def)
  next
    case TR_MEM_TYPE_DEV
    obtain v' where "(dev_banks st)[i := (dev_banks st ! i)\<lparr>tracking_start_idx := v\<rparr>] ! snd q
        = (dev_banks st ! snd q)\<lparr>tracking_start_idx := v'\<rparr>"
      by (rule nth_set_start)
    then show thesis using that [of v'] that [of "tracking_start_idx (bank_deref st q)"] TR_MEM_TYPE_DEV p
      by (cases "fst q") (simp_all add: bank_deref_def)
  qed
qed

lemma bank_deref_set [simp]:
  shows "tb_base (bank_deref (set_tracking_start_idx st p v) q) = tb_base (bank_deref st q)"
    and "tb_size (bank_deref (set_tracking_start_idx st p v) q) = tb_size (bank_deref st q)"
    and "granule_start_idx (bank_deref (set_tracking_start_idx st p v) q) = granule_start_idx (bank_deref st q)"
    and "category (bank_deref (set_tracking_start_idx st p v) q) = category (bank_deref st q)"
proof -
  obtain v' where "bank_deref (set_tracking_start_idx st p v) q = (bank_deref st q)\<lparr>tracking_start_idx := v'\<rparr>"
    by (rule bank_deref_set_ex)
  then show "tb_base (bank_deref (set_tracking_start_idx st p v) q) = tb_base (bank_deref st q)"
    "tb_size (bank_deref (set_tracking_start_idx st p v) q) = tb_size (bank_deref st q)"
    "granule_start_idx (bank_deref (set_tracking_start_idx st p v) q) = granule_start_idx (bank_deref st q)"
    "category (bank_deref (set_tracking_start_idx st p v) q) = category (bank_deref st q)"
    by simp_all
qed

lemma ivl_set [simp]: "ivl k (bank_deref (set_tracking_start_idx st p v) q) = ivl k (bank_deref st q)"
  by (simp add: ivl_def)

lemma in_range_set [simp]:
  "bank_in_range (bank_deref (set_tracking_start_idx st p v) q) = bank_in_range (bank_deref st q)"
  by (simp add: bank_in_range_def)

lemma ucast_idx: "i < 2 ^ 32 \<Longrightarrow> ucast (of_nat i :: u64) = (of_nat i :: u32)"
  by (simp add: unsigned_of_nat take_bit_nat_eq_self)

lemma idx_le_u32: "i < 2 ^ 32 \<Longrightarrow> (of_nat i :: u64) \<le> 0xFFFFFFFF"
  by (simp add: word_le_nat_alt unsigned_of_nat take_bit_nat_eq_self)

abbreviation set_start_indices ::
  "tracking_memory_bank_storage \<Rightarrow> (bank_ptr \<times> nat) list \<Rightarrow> tracking_memory_bank_storage" where
  "set_start_indices st xs \<equiv> foldl (\<lambda>st (p, i). set_tracking_start_idx st p (of_nat i)) st xs"

lemma shared_loop_assign:
  assumes "k \<le> 30" "\<forall>p \<in> set ps. bank_in_range (bank_deref st p)"
    and "unat ct = cti * 2 ^ k" "unat n = ni" "first \<longrightarrow> cti = 0" "0 < cti \<longrightarrow> 0 < ni"
    and "chain (map (\<lambda>p. ivl k (bank_deref st p)) ps)"
    and "\<forall>x \<in> set (map (\<lambda>p. ivl k (bank_deref st p)) ps). cti \<le> Suc (fst x)"
    and "assign (map (\<lambda>p. ivl k (bank_deref st p)) ps) cti ni = (is, t)" "t < 2 ^ 32"
  shows "shared_loop (2 ^ k) ps first ct n st = Some (set_start_indices st (zip ps is), of_nat t)"
  using assms(2-)
proof (induction ps arbitrary: first ct cti n ni st "is")
  case Nil
  then have "n = of_nat t" "is = []" using of_nat_unat_eq [OF Nil(3)] by auto
  then show ?case by simp
next
  case (Cons p ps)
  obtain lo hi where iv: "ivl k (bank_deref st p) = (lo, hi)" by (cases "ivl k (bank_deref st p)")
  have b: "bank_in_range (bank_deref st p)" using Cons.prems(1) by simp
  note st = bank_step [OF assms(1) b iv Cons.prems(6) [unfolded list.map] Cons.prems(2)]
  have n: "n = of_nat ni" using Cons.prems(3) by (rule of_nat_unat_eq)
  have cnt: "unat (1 :: u64) = 1" "unat n = 1 * ni" "1 * t < 2 ^ 64" using Cons.prems(3,9) by simp_all
  let ?xs = "map (\<lambda>p. ivl k (bank_deref st p)) ps"
  have IH: "shared_loop (2 ^ k) ps False rt m (set_tracking_start_idx st p v) =
      Some (set_start_indices (set_tracking_start_idx st p v) (zip ps is'), of_nat t)"
    if "unat rt = hi * 2 ^ k" "unat m = mi" "0 < mi" "assign ?xs hi mi = (is', t)" for rt m mi is' v
    using Cons.IH [of "set_tracking_start_idx st p v" rt hi m mi False is'] that Cons.prems(1,9) st(4,5) by simp
  show ?case
  proof (cases "cti \<le> lo")
    case True
    obtain is' where a: "assign ?xs hi (ni + (hi - lo)) = (is', t)" and eq: "is = ni # is'"
      using Cons.prems(8) True iv by (auto split: prod.splits)
    have le: "ni + (hi - lo) \<le> t" using assign_total [of "ni + (hi - lo)" ?xs hi] a by simp
    then have "ni < 2 ^ 32" using Cons.prems(9) st(3) by linarith
    moreover note IH [OF st(2) _ _ a] unat_count_add [OF st(2,1) less_imp_le [OF st(3)] assms(1) cnt le]
    ultimately show ?thesis
      using True st(3,6) by (simp add: Let_def eq n idx_le_u32 ucast_idx)
  next
    case False
    then have e: "cti = Suc lo" and nf: "\<not> first" and ni: "0 < ni"
      using Cons.prems(4,5,7) iv by auto
    have ni2: "ni - 1 < 2 ^ 32" using assign_total [of ni "map (\<lambda>p. ivl k (bank_deref st p)) (p # ps)" cti]
      Cons.prems(8,9) by simp
    note bk = unat_count_back [OF cnt(1,2) ni] overlap_one [OF assms(1) Cons.prems(2) [unfolded e] st(1)]
      idx_le_u32 [OF ni2] ucast_idx [OF ni2]
    show ?thesis
    proof (cases "cti < hi")
      case True
      obtain is' where a: "assign ?xs hi (ni + (hi - cti)) = (is', t)" and eq: "is = (ni - 1) # is'"
        using Cons.prems(8) False True iv e by (auto split: prod.splits)
      have le: "ni + (hi - cti) \<le> t" using assign_total [of "ni + (hi - cti)" ?xs hi] a by simp
      note IH [OF st(2) _ _ a] unat_count_add [OF st(2) Cons.prems(2) less_imp_le [OF True] assms(1) cnt le]
      then show ?thesis using False nf True ni st(6,7) bk by (simp add: Let_def eq)
    next
      case nt: False
      then have h: "hi = cti" using st(3) e by simp
      obtain is' where a: "assign ?xs cti ni = (is', t)" and eq: "is = (ni - 1) # is'"
        using Cons.prems(8) False nt iv e by (auto split: prod.splits)
      then show ?thesis using IH [of ct n ni is'] Cons.prems(2,3) h ni False nf nt st(6,7) bk
        by (simp add: Let_def)
    qed
  qed
qed

end
