(* ===== verification/Tracking_Layout.thy ===== *)
theory Tracking_Layout
  imports Tracking_Index "HOL-Library.Multiset"
begin

text \<open>
  The layout that initialisation and configuration build: banks are sorted and disjoint, and
  every bank carries the ranks of its first region among all covered regions and among
  those of its memory type.
\<close>

subsection \<open>The exchange sort of the pointer table\<close>

definition exch :: "('a \<Rightarrow> u64) \<Rightarrow> nat \<Rightarrow> 'a list \<Rightarrow> nat \<Rightarrow> 'a list" where
  "exch g i xs j = (if g (xs ! j) < g (xs ! i) then xs[i := xs ! j, j := xs ! i] else xs)"

lemma ptr_exchange_exch: "ptr_exchange st i = exch (\<lambda>p. tb_base (bank_deref st p)) i"
  by (simp add: ptr_exchange_def exch_def fun_eq_iff)

lemma length_exch [simp]: "length (exch g i xs j) = length xs"
  by (simp add: exch_def)

lemma exch_step:
  assumes "i < j" "j < length xs" "\<forall>l \<in> {i..<j}. g (xs ! i) \<le> g (xs ! l)"
  shows "mset (exch g i xs j) = mset xs"
    and "\<forall>l < i. exch g i xs j ! l = xs ! l"
    and "\<forall>l \<in> {i..<Suc j}. g (exch g i xs j ! i) \<le> g (exch g i xs j ! l)"
proof -
  show "mset (exch g i xs j) = mset xs"
    using mset_swap [of j xs i] assms by (simp add: exch_def)
  show "\<forall>l < i. exch g i xs j ! l = xs ! l"
    using assms by (simp add: exch_def)
  show "\<forall>l \<in> {i..<Suc j}. g (exch g i xs j ! i) \<le> g (exch g i xs j ! l)"
  proof
    fix l assume "l \<in> {i..<Suc j}"
    then consider "l = i" | "i < l" "l < j" | "l = j" using assms(1) by fastforce
    then show "g (exch g i xs j ! i) \<le> g (exch g i xs j ! l)"
    proof cases
      case 2
      then have "g (xs ! i) \<le> g (xs ! l)" using assms(3) by simp
      then show ?thesis using 2 assms(1,2) by (auto simp: exch_def nth_list_update)
    qed (use assms(1,2) in \<open>auto simp: exch_def nth_list_update\<close>)
  qed
qed

lemma exch_inner:
  fixes g :: "'a \<Rightarrow> u64"
  assumes "i < m" "m \<le> length xs"
  defines "ys \<equiv> foldl (exch g i) xs [i + 1..<m]"
  shows "mset ys = mset xs" "\<forall>l < i. ys ! l = xs ! l" "\<forall>l \<in> {i..<m}. g (ys ! i) \<le> g (ys ! l)"
proof -
  have "mset ys = mset xs \<and> (\<forall>l < i. ys ! l = xs ! l) \<and> (\<forall>l \<in> {i..<m}. g (ys ! i) \<le> g (ys ! l))"
    using assms(1,2) unfolding ys_def
  proof (induction m)
    case (Suc m)
    show ?case
    proof (cases "i = m")
      case True
      then show ?thesis by simp
    next
      case False
      let ?zs = "foldl (exch g i) xs [i + 1..<m]"
      have IH: "mset ?zs = mset xs" "\<forall>l < i. ?zs ! l = xs ! l" "\<forall>l \<in> {i..<m}. g (?zs ! i) \<le> g (?zs ! l)"
        using Suc False by auto
      have "length ?zs = length xs" using IH(1) by (rule mset_eq_length)
      then have "m < length ?zs" using Suc.prems(2) by simp
      from exch_step [OF _ this IH(3)] IH(1,2) Suc.prems False show ?thesis by simp
    qed
  qed simp
  then show "mset ys = mset xs" "\<forall>l < i. ys ! l = xs ! l" "\<forall>l \<in> {i..<m}. g (ys ! i) \<le> g (ys ! l)" by simp_all
qed

definition exch_sort :: "('a \<Rightarrow> u64) \<Rightarrow> 'a list \<Rightarrow> nat \<Rightarrow> 'a list" where
  "exch_sort g xs n = foldl (\<lambda>xs i. foldl (exch g i) xs [i + 1..<length xs]) xs [0..<n]"

lemma exch_sort_inv:
  assumes "n \<le> length xs"
  shows "mset (exch_sort g xs n) = mset xs \<and>
    (\<forall>i j. i < n \<and> i \<le> j \<and> j < length xs \<longrightarrow> g (exch_sort g xs n ! i) \<le> g (exch_sort g xs n ! j))"
  using assms
proof (induction n)
  case 0
  then show ?case by (simp add: exch_sort_def)
next
  case (Suc n)
  let ?ys = "exch_sort g xs n"
  have IH: "mset ?ys = mset xs"
    "\<And>i j. i < n \<Longrightarrow> i \<le> j \<Longrightarrow> j < length xs \<Longrightarrow> g (?ys ! i) \<le> g (?ys ! j)" using Suc by auto
  have len: "length ?ys = length xs" using IH(1) by (rule mset_eq_length)
  have n: "n < length ?ys" using len Suc.prems by simp
  let ?zs = "foldl (exch g n) ?ys [n + 1..<length ?ys]"
  have zs: "exch_sort g xs (Suc n) = ?zs" by (simp add: exch_sort_def)
  note inner = exch_inner [OF n order_refl, of g]
  have "g (?zs ! i) \<le> g (?zs ! j)" if ij: "i < Suc n" "i \<le> j" "j < length xs" for i j
  proof (cases "i = n")
    case True
    then show ?thesis using inner(3) ij len by simp
  next
    case False
    then have "i < n" using ij by simp
    then have "?zs ! i = ?ys ! i" using inner(2) by simp
    moreover have "?zs ! j \<in> (\<lambda>l. ?ys ! l) ` {i..<length xs}"
    proof (cases "j < n")
      case True
      then show ?thesis using inner(2) ij by auto
    next
      case nj: False
      have "take n ?zs = take n ?ys" using inner(2) by (intro nth_take_lemma) (use n inner(1) mset_eq_length in \<open>auto, fastforce\<close>)
      then have "mset (drop n ?zs) = mset (drop n ?ys)"
        using inner(1) by (metis add_left_cancel append_take_drop_id mset_append)
      then have "set (drop n ?zs) = set (drop n ?ys)" by (rule mset_eq_setD)
      moreover have "drop n ?zs ! (j - n) \<in> set (drop n ?zs)"
        using nj ij(3) len mset_eq_length [OF inner(1)] by (intro nth_mem) simp
      moreover have "drop n ?zs ! (j - n) = ?zs ! j"
        using nj ij(3) len mset_eq_length [OF inner(1)] by simp
      ultimately have "?zs ! j \<in> set (drop n ?ys)" by simp
      then obtain l where "l < length ?ys - n" "?ys ! (n + l) = ?zs ! j"
        by (auto simp: in_set_conv_nth)
      then show ?thesis using \<open>i < n\<close> len by (intro image_eqI [of _ _ "n + l"]) auto
    qed
    ultimately show ?thesis using IH(2) [of i] \<open>i < n\<close> by auto
  qed
  then show ?case unfolding zs using inner(1) IH(1) by auto
qed

lemma exch_sort_sorted:
  "sorted_wrt (\<lambda>a b. g a \<le> g b) (exch_sort g xs (length xs))" "mset (exch_sort g xs (length xs)) = mset xs"
proof -
  note inv = exch_sort_inv [of "length xs" xs g]
  then show "mset (exch_sort g xs (length xs)) = mset xs" by simp
  then have "length (exch_sort g xs (length xs)) = length xs" by (rule mset_eq_length)
  then show "sorted_wrt (\<lambda>a b. g a \<le> g b) (exch_sort g xs (length xs))"
    using inv by (auto simp: sorted_wrt_iff_nth_less)
qed

subsection \<open>The insertion sort of the banks\<close>

abbreviation sorted_banks :: "tracking_memory_bank list \<Rightarrow> bool" where
  "sorted_banks \<equiv> sorted_wrt (\<lambda>a b. tb_base a \<le> tb_base b)"

lemma bank_shift_insert:
  assumes "j < length xs" "sorted_banks (take j xs)"
  shows "bank_shift xs b j =
    takeWhile (\<lambda>x. tb_base x \<le> tb_base b) (take j xs) @ b #
    dropWhile (\<lambda>x. tb_base x \<le> tb_base b) (take j xs) @ drop (Suc j) xs"
  using assms
proof (induction j arbitrary: xs)
  case 0
  then show ?case by (cases xs) simp_all
next
  case (Suc j)
  let ?P = "\<lambda>x. tb_base x \<le> tb_base b"
  have tk: "take (Suc j) xs = take j xs @ [xs ! j]" using Suc.prems(1) by (simp add: take_Suc_conv_app_nth)
  show ?case
  proof (cases "tb_base (xs ! j) > tb_base b")
    case True
    let ?ys = "xs[Suc j := xs ! j]"
    have "take j ?ys = take j xs" "drop (Suc j) ?ys = xs ! j # drop (Suc (Suc j)) xs"
      using Suc.prems(1) by (simp_all add: drop_update_swap Cons_nth_drop_Suc [symmetric])
    moreover have "sorted_banks (take j ?ys)" using Suc.prems(2) tk by (simp add: sorted_wrt_append)
    moreover have "takeWhile ?P (take (Suc j) xs) = takeWhile ?P (take j xs)"
      "dropWhile ?P (take (Suc j) xs) = dropWhile ?P (take j xs) @ [xs ! j]"
      using True unfolding tk by (simp_all add: takeWhile_tail dropWhile_append3)
    ultimately show ?thesis using Suc.IH [of ?ys] Suc.prems(1) True by simp
  next
    case False
    then have "\<forall>x \<in> set (take (Suc j) xs). ?P x"
      using Suc.prems(2) unfolding tk by (auto simp: sorted_wrt_append)
    then have tw: "takeWhile ?P (take (Suc j) xs) = take (Suc j) xs" "dropWhile ?P (take (Suc j) xs) = []"
      by (simp_all only: takeWhile_eq_all_conv dropWhile_eq_Nil_conv)
    show ?thesis
      unfolding tw using False Suc.prems(1) upd_conv_take_nth_drop [of "Suc j" xs b] by simp
  qed
qed

lemma sort_step_inv:
  assumes "i < length xs" "sorted_banks (take i xs)"
  shows "mset (bank_sort_step xs i) = mset xs" "sorted_banks (take (Suc i) (bank_sort_step xs i))"
proof -
  let ?P = "\<lambda>x. tb_base x \<le> tb_base (xs ! i)"
  let ?a = "takeWhile ?P (take i xs)" and ?b = "dropWhile ?P (take i xs)"
  have e: "bank_sort_step xs i = ?a @ xs ! i # ?b @ drop (Suc i) xs"
    unfolding bank_sort_step_def by (rule bank_shift_insert [OF assms])
  have xs: "xs = (?a @ ?b) @ xs ! i # drop (Suc i) xs"
    using assms(1) by (simp only: takeWhile_dropWhile_id) (rule id_take_nth_drop)
  show "mset (bank_sort_step xs i) = mset xs"
  proof -
    have "mset ?a + mset ?b = mset (take i xs)"
      by (simp only: mset_append [symmetric] takeWhile_dropWhile_id)
    then show ?thesis unfolding e using arg_cong [OF xs, of mset] by simp
  qed
  have "length ?a + length ?b = length (take i xs)"
    by (simp only: length_append [symmetric] takeWhile_dropWhile_id)
  then have len: "length (?a @ xs ! i # ?b) = Suc i" using assms(1) by simp
  have "bank_sort_step xs i = (?a @ xs ! i # ?b) @ drop (Suc i) xs" unfolding e by simp
  then have tk: "take (Suc i) (bank_sort_step xs i) = ?a @ xs ! i # ?b"
    using len by (metis append_eq_conv_conj)
  have ab: "sorted_banks (?a @ ?b)" using assms(2) by (simp only: takeWhile_dropWhile_id)
  have "?P x" if "x \<in> set ?a" for x using set_takeWhileD [OF that] by simp
  moreover have "tb_base (xs ! i) \<le> tb_base x" if mem: "x \<in> set ?b" for x
  proof -
    obtain y ys where b: "?b = y # ys" using list.set_cases [OF mem] by metis
    then have "\<not> ?P y" by (metis dropWhile_eq_Cons_conv)
    moreover have "tb_base y \<le> tb_base x" using ab mem b by (auto simp: sorted_wrt_append)
    ultimately show ?thesis by simp
  qed
  ultimately show "sorted_banks (take (Suc i) (bank_sort_step xs i))"
    unfolding tk using ab by (force simp: sorted_wrt_append)
qed

lemma bank_sort:
  shows "mset (foldl bank_sort_step xs [1..<length xs]) = mset xs"
    and "sorted_banks (foldl bank_sort_step xs [1..<length xs])"
proof -
  have inv: "mset (foldl bank_sort_step xs [1..<n]) = mset xs \<and> sorted_banks (take n (foldl bank_sort_step xs [1..<n]))"
    if "n \<le> length xs" for n
    using that
  proof (induction n)
    case (Suc n)
    let ?ys = "foldl bank_sort_step xs [1..<n]"
    have IH: "mset ?ys = mset xs" "sorted_banks (take n ?ys)" using Suc by simp_all
    have "n < length ?ys" using mset_eq_length [OF IH(1)] Suc.prems by simp
    from sort_step_inv [OF this IH(2)] IH show ?case
      by (cases "n = 0"; cases xs) auto
  qed simp
  from inv [of "length xs"] show m: "mset (foldl bank_sort_step xs [1..<length xs]) = mset xs" by simp
  from inv [of "length xs"] show "sorted_banks (foldl bank_sort_step xs [1..<length xs])"
    using mset_eq_length [OF m] by simp
qed

subsection \<open>Sorted disjoint banks\<close>

definition bank_before :: "tracking_memory_bank \<Rightarrow> tracking_memory_bank \<Rightarrow> bool" where
  "bank_before a b \<longleftrightarrow> unat (tb_base a) + unat (tb_size a) \<le> unat (tb_base b)"

definition bank_ok :: "tracking_memory_bank \<Rightarrow> bool" where
  "bank_ok b \<longleftrightarrow> bank_in_range b \<and> GRANULE_ALIGNED (tb_base b) \<and> GRANULE_ALIGNED (tb_size b)"

definition banks_ok :: "tracking_memory_bank list \<Rightarrow> bool" where
  "banks_ok bs \<longleftrightarrow> (\<forall>b \<in> set bs. bank_ok b) \<and> sorted_wrt bank_before bs"

definition apart :: "tracking_memory_bank list \<Rightarrow> tracking_memory_bank list \<Rightarrow> bool" where
  "apart bs cs \<longleftrightarrow> (\<forall>b \<in> set bs. \<forall>c \<in> set cs. bank_before b c \<or> bank_before c b)"

abbreviation cov :: "nat \<Rightarrow> tracking_memory_bank list \<Rightarrow> nat set" where
  "cov k bs \<equiv> covered (map (ivl k) bs)"

lemma ivl_chain: "bank_in_range a \<Longrightarrow> bank_before a b \<Longrightarrow> snd (ivl k a) \<le> Suc (fst (ivl k b))"
  using size_pos [of a] by (auto simp: ivl_def bank_before_def intro!: div_le_mono)

lemma chain_ivl:
  assumes "\<forall>b \<in> set bs. bank_in_range b" "sorted_wrt bank_before bs"
  shows "chain (map (ivl k) bs)"
proof -
  have "sorted_wrt (\<lambda>x y. snd (ivl k x) \<le> Suc (fst (ivl k y))) bs"
    using assms by (intro sorted_wrt_mono_rel [OF _ assms(2)] ivl_chain) auto
  then show ?thesis using assms(1) ivl_less by (auto simp: chain_def sorted_wrt_map)
qed

lemma disjoint_sorted_before:
  assumes "sorted_banks bs" "\<forall>b \<in> set bs. bank_in_range b"
    and "\<forall>i < length bs. \<forall>j < length bs. i \<noteq> j \<longrightarrow> bank_before (bs ! i) (bs ! j) \<or> bank_before (bs ! j) (bs ! i)"
  shows "sorted_wrt bank_before bs"
proof (unfold sorted_wrt_iff_nth_less, intro allI impI)
  fix i j assume ij: "i < j" "j < length bs"
  then have le: "tb_base (bs ! i) \<le> tb_base (bs ! j)" using assms(1) by (auto simp: sorted_wrt_iff_nth_less)
  have "0 < unat (tb_size (bs ! j))" using assms(2) ij by (intro size_pos) simp
  then have "\<not> bank_before (bs ! j) (bs ! i)" using le by (simp add: bank_before_def word_le_nat_alt)
  then show "bank_before (bs ! i) (bs ! j)" using assms(3) ij by (metis less_trans nat_neq_iff)
qed

lemma cov_bound:
  assumes "\<forall>b \<in> set bs. bank_in_range b" "k \<le> 52"
  shows "cov k bs \<subseteq> {..<2 ^ (52 - k)}"
proof
  fix r assume "r \<in> cov k bs"
  then obtain b where b: "b \<in> set bs" "r \<le> (unat (tb_base b) + unat (tb_size b) - 1) div 2 ^ k"
    by (auto simp: covered_def ivl_def less_Suc_eq_le)
  have "unat (tb_base b) + unat (tb_size b) - 1 < 2 ^ 52"
    using assms(1) b(1) size_pos [of b] by (auto simp: bank_in_range_def)
  also have "(2::nat) ^ 52 = 2 ^ (52 - k) * 2 ^ k" using assms(2) by (simp flip: power_add)
  finally have "(unat (tb_base b) + unat (tb_size b) - 1) div 2 ^ k < 2 ^ (52 - k)"
    by (rule less_mult_imp_div_less)
  then show "r \<in> {..<2 ^ (52 - k)}" using b(2) by simp
qed

lemma card_bound:
  fixes A :: "nat set"
  assumes "A \<subseteq> {..<2 ^ (52 - k)}" "k \<in> {21, 30}"
  shows "card A \<le> 2 ^ 31"
proof -
  have "card A \<le> 2 ^ (52 - k)" using card_mono [OF _ assms(1)] by simp
  also have "\<dots> \<le> (2 :: nat) ^ 31" using assms(2) by (intro power_increasing) auto
  finally show ?thesis .
qed

subsection \<open>Fine indices\<close>

definition stride :: "nat \<Rightarrow> tr_mem_type \<Rightarrow> nat" where
  "stride k type = (if k = 30 then 262144 else if type = TR_MEM_TYPE_CONV then 2048 else 4096)"

lemma fine_stride:
  assumes "k \<in> {21, 30}"
  shows "tracking_region_fine_stride (2 ^ k) (entry_size_of type) = Some (of_nat (stride k type))"
  using assms
  by (cases type) (auto simp: tracking_region_fine_stride_def region_size_exp round_up_def stride_def)

lemma stride_bounds:
  "k \<in> {21, 30} \<Longrightarrow> 2 ^ k div 4096 \<le> stride k type \<and> stride k type \<le> 262144 \<and> 0 < stride k type"
  by (auto simp: stride_def)

lemma unat_stride: "unat (of_nat (stride k type) :: u64) = stride k type"
  by (simp add: stride_def)

lemma stride_total:
  assumes "k \<in> {21, 30}" "t \<le> 2 ^ 31"
  shows "stride k type * t < 2 ^ 64"
proof -
  have "stride k type * t \<le> 262144 * 2 ^ 31"
    using stride_bounds [OF assms(1)] assms(2) by (intro mult_le_mono) auto
  then show ?thesis by simp
qed

definition set_fine :: "nat \<Rightarrow> tr_mem_type \<Rightarrow> nat set \<Rightarrow> tracking_memory_bank \<Rightarrow> tracking_memory_bank" where
  "set_fine k type C b = b\<lparr>granule_start_idx := of_nat (stride k type * rank C (fst (ivl k b)))\<rparr>"

lemma map2_map: "map2 f xs (map g xs) = map (\<lambda>x. f x (g x)) xs"
  by (induction xs) simp_all

lemma assign_fine:
  assumes "k \<in> {21, 30}" "banks_ok bs"
  shows "tracking_memory_banks_assign_fine_indices bs (2 ^ k) (entry_size_of type) =
    Some (map (set_fine k type (cov k bs)) bs, of_nat (stride k type * card (cov k bs)))"
proof -
  have r: "\<forall>b \<in> set bs. bank_in_range b" and c: "chain (map (ivl k) bs)"
    using assms(2) chain_ivl by (auto simp: banks_ok_def bank_ok_def)
  have k: "k \<le> 30" "k \<le> 52" using assms(1) by auto
  have t: "stride k type * card (cov k bs) < 2 ^ 64"
    by (intro stride_total assms(1) card_bound [OF cov_bound [OF r k(2)]])
  have "fine_loop (2 ^ k) (of_nat (stride k type)) bs True 0 0 =
    Some (map2 (\<lambda>b i. b\<lparr>granule_start_idx := of_nat (stride k type * i)\<rparr>) bs
            (map (\<lambda>x. rank (cov k bs) (fst x)) (map (ivl k) bs)), of_nat (stride k type * card (cov k bs)))"
    by (rule fine_loop_assign [OF k(1) unat_stride r _ _ _ _ c _ assign_from_start [OF c] t]) simp_all
  then show ?thesis
    by (simp add: tracking_memory_banks_assign_fine_indices_def fine_stride [OF assms(1)] map2_map set_fine_def
        comp_def)
qed

subsection \<open>Shared indices\<close>

definition all_ptrs :: "tracking_memory_bank_storage \<Rightarrow> bank_ptr list" where
  "all_ptrs st = map (Pair TR_MEM_TYPE_CONV) [0..<length (conv_banks st)]
     @ map (Pair TR_MEM_TYPE_DEV) [0..<length (dev_banks st)]"

definition storage_ok :: "tracking_memory_bank_storage \<Rightarrow> bool" where
  "storage_ok st \<longleftrightarrow> banks_ok (conv_banks st) \<and> banks_ok (dev_banks st) \<and> apart (conv_banks st) (dev_banks st) \<and>
     length (conv_banks st) \<le> 64 \<and> length (dev_banks st) \<le> 64"

abbreviation cov_all :: "nat \<Rightarrow> tracking_memory_bank_storage \<Rightarrow> nat set" where
  "cov_all k st \<equiv> cov k (conv_banks st) \<union> cov k (dev_banks st)"

lemma in_all_ptrs: "p \<in> set (all_ptrs st) \<longleftrightarrow> snd p < length (banks_of st (fst p))"
proof (cases p)
  case (Pair t i)
  then show ?thesis by (cases t) (auto simp: all_ptrs_def)
qed

lemma distinct_all_ptrs: "distinct (all_ptrs st)"
  by (auto simp: all_ptrs_def distinct_map inj_on_def)

lemma deref_all_ptrs: "map (bank_deref st) (all_ptrs st) = conv_banks st @ dev_banks st"
  by (simp add: all_ptrs_def bank_deref_def comp_def map_nth)

lemma storage_ok_in_range: "storage_ok st \<Longrightarrow> p \<in> set (all_ptrs st) \<Longrightarrow> bank_in_range (bank_deref st p)"
proof -
  assume ok: "storage_ok st" and p: "p \<in> set (all_ptrs st)"
  have "bank_deref st p \<in> set (conv_banks st @ dev_banks st)"
    using p by (metis deref_all_ptrs image_eqI list.set_map)
  then show ?thesis using ok by (auto simp: storage_ok_def banks_ok_def bank_ok_def)
qed

lemma sorted_wrt_nth_before:
  "sorted_wrt bank_before bs \<Longrightarrow> i < length bs \<Longrightarrow> j < length bs \<Longrightarrow> i \<noteq> j \<Longrightarrow>
    bank_before (bs ! i) (bs ! j) \<or> bank_before (bs ! j) (bs ! i)"
  using sorted_wrt_nth_less [of bank_before bs i j] sorted_wrt_nth_less [of bank_before bs j i] by linarith

lemma storage_ok_disjoint:
  assumes "storage_ok st" "p \<in> set (all_ptrs st)" "q \<in> set (all_ptrs st)" "p \<noteq> q"
  shows "bank_before (bank_deref st p) (bank_deref st q) \<or> bank_before (bank_deref st q) (bank_deref st p)"
proof -
  obtain t i u j where pq: "p = (t, i)" "q = (u, j)" by (cases p, cases q)
  show ?thesis
    using assms unfolding in_all_ptrs pq
    by (cases t; cases u)
      (auto simp: storage_ok_def banks_ok_def bank_deref_def apart_def sorted_wrt_nth_before dest!: nth_mem)
qed

lemma sorted_ptrs_before:
  assumes "storage_ok st" "mset ps = mset (all_ptrs st)"
    and "sorted_wrt (\<lambda>p q. tb_base (bank_deref st p) \<le> tb_base (bank_deref st q)) ps"
  shows "sorted_wrt (\<lambda>p q. bank_before (bank_deref st p) (bank_deref st q)) ps"
proof (unfold sorted_wrt_iff_nth_less, intro allI impI)
  fix i j assume ij: "i < j" "j < length ps"
  have s: "set ps = set (all_ptrs st)" using assms(2) by (rule mset_eq_setD)
  have d: "distinct ps" using assms(2) distinct_all_ptrs by (metis mset_eq_imp_distinct_iff)
  have in_set: "ps ! i \<in> set (all_ptrs st)" "ps ! j \<in> set (all_ptrs st)"
    using ij s by (metis less_trans nth_mem)+
  have "ps ! i \<noteq> ps ! j" using d ij by (simp add: nth_eq_iff_index_eq)
  note dj = storage_ok_disjoint [OF assms(1) in_set this]
  have "tb_base (bank_deref st (ps ! i)) \<le> tb_base (bank_deref st (ps ! j))"
    using assms(3) ij by (auto simp: sorted_wrt_iff_nth_less)
  moreover have "0 < unat (tb_size (bank_deref st (ps ! j)))"
    using storage_ok_in_range [OF assms(1) in_set(2)] by (rule size_pos)
  ultimately show "bank_before (bank_deref st (ps ! i)) (bank_deref st (ps ! j))"
    using dj by (auto simp: bank_before_def word_le_nat_alt)
qed

lemma banks_of_set_start:
  "banks_of (set_tracking_start_idx st (t, i) v) u =
    (if t = u then (banks_of st u)[i := (banks_of st u ! i)\<lparr>tracking_start_idx := v\<rparr>] else banks_of st u)"
  by (cases t; cases u) simp_all

lemma set_start_all:
  assumes "set ps = set (all_ptrs st)" "distinct ps"
  shows "banks_of (set_start_indices st (map (\<lambda>p. (p, f (bank_deref st p))) ps)) t =
    map (\<lambda>b. b\<lparr>tracking_start_idx := of_nat (f b)\<rparr>) (banks_of st t)"
proof -
  have inv: "length (banks_of (set_start_indices st (map (\<lambda>p. (p, f (bank_deref st p))) qs)) t) = length (banks_of st t)
     \<and> (\<forall>i < length (banks_of st t). banks_of (set_start_indices st (map (\<lambda>p. (p, f (bank_deref st p))) qs)) t ! i =
         (if (t, i) \<in> set qs then (banks_of st t ! i)\<lparr>tracking_start_idx := of_nat (f (banks_of st t ! i))\<rparr>
          else banks_of st t ! i))"
    if "distinct qs" for qs
    using that
  proof (induction qs rule: rev_induct)
    case (snoc q qs)
    obtain u j where q: "q = (u, j)" by (cases q)
    let ?st = "set_start_indices st (map (\<lambda>p. (p, f (bank_deref st p))) qs)"
    have e: "banks_of (set_start_indices st (map (\<lambda>p. (p, f (bank_deref st p))) (qs @ [q]))) t =
      (if u = t then (banks_of ?st t)[j := (banks_of ?st t ! j)\<lparr>tracking_start_idx := of_nat (f (bank_deref st q))\<rparr>]
       else banks_of ?st t)"
      by (simp add: q banks_of_set_start)
    have IH: "length (banks_of ?st t) = length (banks_of st t)" and n: "(u, j) \<notin> set qs"
      and IH2: "i < length (banks_of st t) \<Longrightarrow> banks_of ?st t ! i = (if (t, i) \<in> set qs
        then (banks_of st t ! i)\<lparr>tracking_start_idx := of_nat (f (banks_of st t ! i))\<rparr> else banks_of st t ! i)" for i
      using snoc q by auto
    have u: "xs[j := x] ! i = (if i = j then x else xs ! i)" if "i < length xs" for xs :: "tracking_memory_bank list" and x i
      using that by auto
    show ?case unfolding e using IH n IH2 by (auto simp: u q bank_deref_def)
  qed simp
  show ?thesis
    using inv [OF assms(2)] assms(1) by (intro nth_equalityI) (auto simp: in_all_ptrs)
qed

definition set_shared :: "nat \<Rightarrow> nat set \<Rightarrow> tracking_memory_bank \<Rightarrow> tracking_memory_bank" where
  "set_shared k C b = b\<lparr>tracking_start_idx := of_nat (rank C (fst (ivl k b)))\<rparr>"

lemma assign_shared:
  assumes "k \<in> {21, 30}" "storage_ok st"
  shows "tracking_memory_banks_assign_shared_indices st (2 ^ k) =
    Some (\<lparr>conv_banks = map (set_shared k (cov_all k st)) (conv_banks st),
           dev_banks = map (set_shared k (cov_all k st)) (dev_banks st)\<rparr>, of_nat (card (cov_all k st)))"
proof -
  let ?g = "\<lambda>p. tb_base (bank_deref st p)" and ?v = "\<lambda>p. ivl k (bank_deref st p)"
  define ps where "ps = foldl (ptr_sort_step st) (all_ptrs st) [0..<length (all_ptrs st)]"
  have "ps = exch_sort ?g (all_ptrs st) (length (all_ptrs st))"
    unfolding ps_def exch_sort_def ptr_sort_step_def [abs_def] ptr_exchange_exch ..
  then have m: "mset ps = mset (all_ptrs st)" and sorted: "sorted_wrt (\<lambda>p q. ?g p \<le> ?g q) ps"
    by (simp_all add: exch_sort_sorted)
  have s: "set ps = set (all_ptrs st)" using m by (rule mset_eq_setD)
  have d: "distinct ps" using m distinct_all_ptrs by (metis mset_eq_imp_distinct_iff)
  have r: "\<forall>p \<in> set ps. bank_in_range (bank_deref st p)" using s storage_ok_in_range [OF assms(2)] by simp
  have c: "chain (map ?v ps)"
    using chain_ivl [of "map (bank_deref st) ps" k] r sorted_ptrs_before [OF assms(2) m sorted]
    by (simp add: sorted_wrt_map comp_def)
  have "set (map (bank_deref st) ps) = set (conv_banks st @ dev_banks st)"
    by (metis deref_all_ptrs list.set_map s)
  then have "ivl k ` bank_deref st ` set ps = ivl k ` (set (conv_banks st) \<union> set (dev_banks st))" by simp
  then have C: "covered (map ?v ps) = cov_all k st"
    by (simp add: covered_def image_image image_Un)
  have k: "k \<le> 30" "k \<le> 52" using assms(1) by auto
  have "card (cov_all k st) \<le> 2 ^ 31"
    using assms(2) k by (intro card_bound [OF _ assms(1)] Un_least cov_bound) (auto simp: storage_ok_def banks_ok_def bank_ok_def)
  then have t: "card (covered (map ?v ps)) < 2 ^ 32" using C by simp
  have "shared_loop (2 ^ k) ps True 0 0 st = Some (set_start_indices st (zip ps
      (map (\<lambda>x. rank (covered (map ?v ps)) (fst x)) (map ?v ps))), of_nat (card (covered (map ?v ps))))"
    by (rule shared_loop_assign [OF k(1) r _ _ _ _ c _ assign_from_start [OF c] t]) simp_all
  moreover define st' where "st' = set_start_indices st (map (\<lambda>p. (p, rank (cov_all k st) (fst (?v p)))) ps)"
  ultimately have l: "shared_loop (2 ^ k) ps True 0 0 st = Some (st', of_nat (card (cov_all k st)))"
    unfolding C by (simp add: zip_map2 zip_same_conv_map comp_def)
  have b: "banks_of st' t = map (set_shared k (cov_all k st)) (banks_of st t)" for t
    unfolding st'_def set_shared_def by (rule set_start_all [OF s d])
  have "st' = \<lparr>conv_banks = map (set_shared k (cov_all k st)) (conv_banks st),
      dev_banks = map (set_shared k (cov_all k st)) (dev_banks st)\<rparr>"
    using b [of TR_MEM_TYPE_CONV] b [of TR_MEM_TYPE_DEV] by simp
  moreover have "tracking_memory_banks_assign_shared_indices st (2 ^ k) = shared_loop (2 ^ k) ps True 0 0 st"
    using assms unfolding ps_def all_ptrs_def tracking_memory_banks_assign_shared_indices_def
    by (auto simp: storage_ok_def Let_def region_size_exp)
  ultimately show ?thesis using l by simp
qed

end
