(* ===== verification/Tracking_Init.thy ===== *)
theory Tracking_Init
  imports Tracking_Layout
begin

text \<open>
  Initialising and configuring the tracking layout: for every set of disjoint platform banks the
  code establishes the layout in which the start index of a bank is the rank of its first region
  among the covered regions, at both region sizes, within the reserved metadata.
\<close>

subsection \<open>The layout\<close>

definition layout :: "nat \<Rightarrow> tracking_region_data \<Rightarrow> bool" where
  "layout k td \<longleftrightarrow> k \<in> {21, 30} \<and> tracking_region_size td = 2 ^ k \<and> storage_ok (td_banks td) \<and>
     (conv_banks (td_banks td) \<noteq> [] \<or> dev_banks (td_banks td) \<noteq> []) \<and>
     (\<forall>t. \<forall>b \<in> set (banks_of (td_banks td) t).
        granule_start_idx b = of_nat (stride k t * rank (cov k (banks_of (td_banks td) t)) (fst (ivl k b))) \<and>
        tracking_start_idx b = of_nat (rank (cov_all k (td_banks td)) (fst (ivl k b)))) \<and>
     num_tracking_regions td = of_nat (card (cov_all k (td_banks td))) \<and>
     (\<forall>t. num_fine_of td t = of_nat (stride k t * card (cov k (banks_of (td_banks td) t))))"

text \<open>The reserved arrays hold the layouts of both region sizes.\<close>

definition capacity :: "tracking_region_data \<Rightarrow> bool" where
  "capacity td \<longleftrightarrow> (\<forall>k \<in> {21, 30}.
     card (cov_all k (td_banks td)) \<le> unat (map_size (tracking_region_array td)) div 16 \<and>
     stride k TR_MEM_TYPE_CONV * card (cov k (conv_banks (td_banks td))) \<le> unat (map_size (granule_array_tr td)) div 2 \<and>
     stride k TR_MEM_TYPE_DEV * card (cov k (dev_banks (td_banks td))) \<le> unat (map_size (dev_granule_array_tr td)))"

text \<open>The entries in use lie within the reserved arrays.\<close>

definition within_reserved :: "tracking_region_data \<Rightarrow> bool" where
  "within_reserved td \<longleftrightarrow>
     unat (num_tracking_regions td) * 16 \<le> unat (map_size (tracking_region_array td)) \<and>
     unat (num_tracking_granules td) * 2 \<le> unat (map_size (granule_array_tr td)) \<and>
     unat (num_tracking_dev_granules td) \<le> unat (map_size (dev_granule_array_tr td))"

subsection \<open>Assigning indices keeps the geometry\<close>

text \<open>Two banks with the same base, size and category.\<close>

definition same_bank :: "tracking_memory_bank \<Rightarrow> tracking_memory_bank \<Rightarrow> bool" where
  "same_bank a b \<longleftrightarrow> tb_base a = tb_base b \<and> tb_size a = tb_size b \<and> category a = category b"

lemma same_bank_set [simp]: "same_bank (set_shared k C b) b" "same_bank (set_fine k t C b) b"
  by (simp_all add: same_bank_def set_shared_def set_fine_def)

lemma same_bank_ivl: "same_bank a b \<Longrightarrow> ivl k a = ivl k b"
  by (simp add: same_bank_def ivl_def)

lemma same_bank_before: "same_bank a b \<Longrightarrow> same_bank c d \<Longrightarrow> bank_before a c = bank_before b d"
  by (simp add: same_bank_def bank_before_def)

lemma same_bank_ok: "same_bank a b \<Longrightarrow> bank_ok a = bank_ok b"
  by (simp add: same_bank_def bank_ok_def bank_in_range_def)

lemma same_banks:
  assumes "list_all2 same_bank as bs"
  shows "map (ivl k) as = map (ivl k) bs" "banks_ok as = banks_ok bs"
    and "list_all2 same_bank cs ds \<Longrightarrow> apart as cs = apart bs ds"
proof -
  show "map (ivl k) as = map (ivl k) bs"
    using assms by induction (simp_all add: same_bank_ivl)
  have "(\<forall>a \<in> set as. bank_ok a) = (\<forall>b \<in> set bs. bank_ok b)"
    using assms by induction (simp_all add: same_bank_ok)
  moreover have "bank_before (as ! i) (as ! j) = bank_before (bs ! i) (bs ! j)" if "i < j" "j < length bs" for i j
    using assms that by (intro same_bank_before) (auto simp: list_all2_conv_all_nth)
  then have "sorted_wrt bank_before as = sorted_wrt bank_before bs"
    using list_all2_lengthD [OF assms] by (simp add: sorted_wrt_iff_nth_less)
  ultimately show "banks_ok as = banks_ok bs" by (simp add: banks_ok_def)
  show "apart as cs = apart bs ds" if cd: "list_all2 same_bank cs ds"
  proof -
    have e: "(\<forall>c \<in> set cs. bank_before a c \<or> bank_before c a) = (\<forall>d \<in> set ds. bank_before b d \<or> bank_before d b)"
      if ab: "same_bank a b" for a b
      using cd by induction (simp_all add: same_bank_before [OF ab] same_bank_before [OF _ ab])
    show ?thesis using assms unfolding apart_def by induction (simp_all add: e)
  qed
qed

lemma same_banks_map: "(\<And>b. same_bank (f b) b) \<Longrightarrow> list_all2 same_bank (map f bs) bs"
  by (simp add: list_all2_conv_all_nth)

definition same_storage :: "tracking_memory_bank_storage \<Rightarrow> tracking_memory_bank_storage \<Rightarrow> bool" where
  "same_storage s t \<longleftrightarrow> list_all2 same_bank (conv_banks s) (conv_banks t) \<and> list_all2 same_bank (dev_banks s) (dev_banks t)"

lemma same_storageD:
  assumes "same_storage s t"
  shows "storage_ok s = storage_ok t" "cov k (banks_of s u) = cov k (banks_of t u)" "cov_all k s = cov_all k t"
    "conv_banks s = [] \<longleftrightarrow> conv_banks t = []" "dev_banks s = [] \<longleftrightarrow> dev_banks t = []"
proof -
  have c: "list_all2 same_bank (conv_banks s) (conv_banks t)" and d: "list_all2 same_bank (dev_banks s) (dev_banks t)"
    using assms by (auto simp: same_storage_def)
  show "storage_ok s = storage_ok t"
    using same_banks [OF c] same_banks [OF d] d list_all2_lengthD [OF c] list_all2_lengthD [OF d]
    by (simp add: storage_ok_def)
  show "cov k (banks_of s u) = cov k (banks_of t u)"
    by (cases u) (simp_all add: same_banks(1) [OF c] same_banks(1) [OF d])
  show "cov_all k s = cov_all k t" by (simp add: same_banks(1) [OF c] same_banks(1) [OF d])
  show "conv_banks s = [] \<longleftrightarrow> conv_banks t = []" "dev_banks s = [] \<longleftrightarrow> dev_banks t = []"
    using list_all2_lengthD [OF c] list_all2_lengthD [OF d] by (metis length_0_conv)+
qed

text \<open>The storage after both assignments at one region size.\<close>

definition placed :: "nat \<Rightarrow> tracking_memory_bank_storage \<Rightarrow> tracking_memory_bank_storage" where
  "placed k st = \<lparr>conv_banks = map (set_fine k TR_MEM_TYPE_CONV (cov k (conv_banks st)) \<circ> set_shared k (cov_all k st)) (conv_banks st),
     dev_banks = map (set_fine k TR_MEM_TYPE_DEV (cov k (dev_banks st)) \<circ> set_shared k (cov_all k st)) (dev_banks st)\<rparr>"

lemma same_bank_trans: "same_bank a b \<Longrightarrow> same_bank b c \<Longrightarrow> same_bank a c"
  by (simp add: same_bank_def)

lemma same_placed: "same_storage (placed k st) st"
  unfolding same_storage_def placed_def
  by (auto intro!: same_banks_map intro: same_bank_trans [OF same_bank_set(2) same_bank_set(1)])

lemma placed_layout:
  assumes "k \<in> {21, 30}" "storage_ok st" "conv_banks st \<noteq> [] \<or> dev_banks st \<noteq> []"
    and "td_banks td = placed k st" "tracking_region_size td = 2 ^ k"
    and "num_tracking_regions td = of_nat (card (cov_all k st))"
    and "\<And>t. num_fine_of td t = of_nat (stride k t * card (cov k (banks_of st t)))"
  shows "layout k td"
proof -
  have b: "banks_of (placed k st) t =
    map (\<lambda>b. set_fine k t (cov k (banks_of st t)) (set_shared k (cov_all k st) b)) (banks_of st t)" for t
    by (cases t) (simp_all add: placed_def)
  show ?thesis
    unfolding layout_def assms(4) same_storageD(2,3) [OF same_placed]
    using assms same_storageD [OF same_placed]
    by (auto simp: b set_fine_def set_shared_def ivl_def)
qed

lemma set_shared_banks_ok: "banks_ok (map (set_shared k C) bs) = banks_ok bs"
  and set_fine_banks_ok: "banks_ok (map (set_fine k t C) bs) = banks_ok bs"
  and set_shared_cov: "cov j (map (set_shared k C) bs) = cov j bs"
  and set_fine_cov: "cov j (map (set_fine k t C) bs) = cov j bs"
  by (rule same_banks same_banks(1) [THEN arg_cong [where f = covered]], rule same_banks_map, simp)+

lemma assign_both:
  assumes "k \<in> {21, 30}" "storage_ok st"
  shows "(do {
      (st1, n) \<leftarrow> tracking_memory_banks_assign_shared_indices st (2 ^ k);
      (cb, c) \<leftarrow> tracking_memory_banks_assign_fine_indices (conv_banks st1) (2 ^ k) SIZEOF_GRANULE;
      (db, d) \<leftarrow> tracking_memory_banks_assign_fine_indices (dev_banks st1) (2 ^ k) SIZEOF_DEV_GRANULE;
      f (\<lparr>conv_banks = cb, dev_banks = db\<rparr>, n, c, d)}) =
    f (placed k st, of_nat (card (cov_all k st)), of_nat (stride k TR_MEM_TYPE_CONV * card (cov k (conv_banks st))),
       of_nat (stride k TR_MEM_TYPE_DEV * card (cov k (dev_banks st))))"
proof -
  have "banks_ok (conv_banks st)" "banks_ok (dev_banks st)" using assms(2) by (auto simp: storage_ok_def)
  then show ?thesis
    using assign_fine [OF assms(1), where type = TR_MEM_TYPE_CONV]
      assign_fine [OF assms(1), where type = TR_MEM_TYPE_DEV]
    by (simp add: assign_shared [OF assms] set_shared_banks_ok set_shared_cov placed_def del: map_map of_nat_mult)
      (simp only: map_map)
qed

lemma card_cov:
  assumes "storage_ok st" "k \<in> {21, 30}"
  shows "card (cov_all k st) \<le> 2 ^ 31" "card (cov k (banks_of st t)) \<le> 2 ^ 31"
proof -
  have c: "cov k (banks_of st u) \<subseteq> {..<2 ^ (52 - k)}" for u
    using assms by (intro cov_bound) (cases u; auto simp: storage_ok_def banks_ok_def bank_ok_def)+
  then show "card (cov k (banks_of st t)) \<le> 2 ^ 31" by (intro card_bound [OF _ assms(2)])
  show "card (cov_all k st) \<le> 2 ^ 31"
    using c [of TR_MEM_TYPE_CONV] c [of TR_MEM_TYPE_DEV] by (intro card_bound [OF _ assms(2)]) simp
qed

lemma unat_counts:
  assumes "storage_ok st" "k \<in> {21, 30}"
  shows "unat (of_nat (card (cov_all k st)) :: u64) = card (cov_all k st)"
    "unat (of_nat (stride k t * card (cov k (banks_of st t))) :: u64) = stride k t * card (cov k (banks_of st t))"
  using card_cov [OF assms] stride_total [OF assms(2), of "card (cov k (banks_of st t))" t]
  by (simp_all add: unsigned_of_nat take_bit_nat_eq_self del: of_nat_mult)

lemma capacity_within:
  assumes "layout k td" "capacity td"
  shows "within_reserved td"
proof -
  have ok: "storage_ok (td_banks td)" "k \<in> {21, 30}" using assms(1) by (auto simp: layout_def)
  have n: "num_fine_of td t = of_nat (stride k t * card (cov k (banks_of (td_banks td) t)))"
    "num_tracking_regions td = of_nat (card (cov_all k (td_banks td)))" for t
    using assms(1) by (simp_all add: layout_def)
  have "unat (num_tracking_regions td) = card (cov_all k (td_banks td))"
    "unat (num_tracking_granules td) = stride k TR_MEM_TYPE_CONV * card (cov k (conv_banks (td_banks td)))"
    "unat (num_tracking_dev_granules td) = stride k TR_MEM_TYPE_DEV * card (cov k (dev_banks (td_banks td)))"
    using unat_counts(1) [OF ok] unat_counts(2) [OF ok, of TR_MEM_TYPE_CONV] unat_counts(2) [OF ok, of TR_MEM_TYPE_DEV]
      n(1) [of TR_MEM_TYPE_CONV] n(1) [of TR_MEM_TYPE_DEV] n(2) by (simp_all del: of_nat_mult)
  moreover have "card (cov_all k (td_banks td)) \<le> unat (map_size (tracking_region_array td)) div 16"
    "stride k TR_MEM_TYPE_CONV * card (cov k (conv_banks (td_banks td))) \<le> unat (map_size (granule_array_tr td)) div 2"
    "stride k TR_MEM_TYPE_DEV * card (cov k (dev_banks (td_banks td))) \<le> unat (map_size (dev_granule_array_tr td))"
    using assms(2) ok(2) unfolding capacity_def by blast+
  ultimately show ?thesis unfolding within_reserved_def by linarith
qed

lemma same_storage_refl: "same_storage st st"
  by (simp add: same_storage_def same_bank_def list.rel_refl)

lemma same_storage_trans: "same_storage a b \<Longrightarrow> same_storage b c \<Longrightarrow> same_storage a c"
  unfolding same_storage_def using list_all2_trans [of same_bank same_bank same_bank] same_bank_trans by blast

lemma configure_layout:
  assumes "layout j td" "capacity td" "\<not> tracking_initialized td" "k \<in> {21, 30}"
  shows "\<exists>td'. tracking_region_configure (Some td) (2 ^ k) = Some (0, Some td') \<and> layout k td' \<and> capacity td' \<and>
    \<not> tracking_initialized td' \<and> same_storage (td_banks td') (td_banks td)"
proof (cases "j = k")
  case True
  then show ?thesis
    using assms same_storage_refl by (auto simp: tracking_region_configure_def layout_def region_size_exp)
next
  case False
  have ok: "storage_ok (td_banks td)" and ne: "conv_banks (td_banks td) \<noteq> [] \<or> dev_banks (td_banks td) \<noteq> []"
    and j: "j \<in> {21, 30}" "tracking_region_size td = 2 ^ j"
    using assms(1) by (auto simp: layout_def)
  note c = unat_counts [OF ok assms(4)]
  let ?st = "td_banks td"
  let ?td = "td\<lparr>td_banks := placed k ?st, num_tracking_regions := of_nat (card (cov_all k ?st)),
    num_tracking_granules := of_nat (stride k TR_MEM_TYPE_CONV * card (cov k (conv_banks ?st))),
    num_tracking_dev_granules := of_nat (stride k TR_MEM_TYPE_DEV * card (cov k (dev_banks ?st))),
    tracking_region_size := 2 ^ k\<rparr>"
  have cap: "of_nat (card (cov_all k ?st)) \<le> map_size (tracking_region_array td) div 16"
    "of_nat (stride k TR_MEM_TYPE_CONV * card (cov k (conv_banks ?st))) \<le> map_size (granule_array_tr td) div 2"
    "of_nat (stride k TR_MEM_TYPE_DEV * card (cov k (dev_banks ?st))) \<le> map_size (dev_granule_array_tr td) div 1"
    using assms(2,4) c(1) c(2) [of TR_MEM_TYPE_CONV] c(2) [of TR_MEM_TYPE_DEV]
    unfolding word_le_nat_alt unat_div by (auto simp: capacity_def)
  have "(2 :: u64) ^ j \<noteq> 2 ^ k" using j(1) assms(4) False by auto
  then have "tracking_region_configure (Some td) (2 ^ k) = Some (0, Some ?td)"
    using assms(3,4) j(2) assign_both [OF assms(4) ok, where f = "\<lambda>(st, n, c, d). do {
         c_assert (n \<le> map_size (tracking_region_array td) div 16);
         c_assert (c \<le> map_size (granule_array_tr td) div SIZEOF_GRANULE);
         c_assert (d \<le> map_size (dev_granule_array_tr td) div SIZEOF_DEV_GRANULE);
         Some (0, Some (td\<lparr>td_banks := st,
           num_tracking_regions := n, num_tracking_granules := c,
           num_tracking_dev_granules := d, tracking_region_size := 2 ^ k\<rparr>))}"] cap
    unfolding tracking_region_configure_def
    by (auto simp: region_size_exp)
  moreover have "layout k ?td"
    by (rule placed_layout [OF assms(4) ok ne]) (simp_all, case_tac t, simp_all)
  moreover have "capacity ?td"
    using assms(2) same_storageD(3) [OF same_placed] same_storageD(2) [OF same_placed, where u = TR_MEM_TYPE_CONV]
      same_storageD(2) [OF same_placed, where u = TR_MEM_TYPE_DEV] by (simp add: capacity_def)
  moreover have "\<not> tracking_initialized ?td" "same_storage (td_banks ?td) ?st" using assms(3) same_placed by simp_all
  ultimately show ?thesis by blast
qed

text \<open>Any sequence of configurations, each of which succeeds.\<close>

primrec configure_all :: "u64 list \<Rightarrow> tracking_region_data \<Rightarrow> tracking_region_data option" where
  "configure_all [] td = Some td"
| "configure_all (n # ns) td = do {
     (ret, td) \<leftarrow> tracking_region_configure (Some td) n;
     c_assert (ret = 0);
     td \<leftarrow> td;
     configure_all ns td
   }"

lemma configure_all_layout:
  assumes "layout j td" "capacity td" "\<not> tracking_initialized td" "set ks \<subseteq> {21, 30}"
  shows "\<exists>td'. configure_all (map ((^) 2) ks) td = Some td' \<and> layout (last (j # ks)) td' \<and> within_reserved td' \<and>
    same_storage (td_banks td') (td_banks td)"
  using assms
proof (induction ks arbitrary: j td)
  case Nil
  then show ?case using capacity_within same_storage_refl by auto
next
  case (Cons k ks)
  obtain td1 where td1: "tracking_region_configure (Some td) (2 ^ k) = Some (0, Some td1)" "layout k td1" "capacity td1"
    "\<not> tracking_initialized td1" "same_storage (td_banks td1) (td_banks td)"
    using configure_layout [OF Cons.prems(1-3), of k] Cons.prems(4) by auto
  obtain td2 where td2: "configure_all (map ((^) 2) ks) td1 = Some td2" "layout (last (k # ks)) td2" "within_reserved td2"
    "same_storage (td_banks td2) (td_banks td1)"
    using Cons.IH [OF td1(2-4)] Cons.prems(4) by auto
  have "configure_all (map ((^) 2) (k # ks)) td = Some td2" using td1(1) td2(1) by simp
  moreover have "same_storage (td_banks td2) (td_banks td)" by (rule same_storage_trans [OF td2(4) td1(5)])
  ultimately show ?case using td2(2,3) by auto
qed

lemma configure_unsupported:
  "n \<noteq> 2 ^ 21 \<Longrightarrow> n \<noteq> 2 ^ 30 \<Longrightarrow> tracking_region_configure (Some td) n = Some (- EINVAL, Some td)"
  by (simp add: tracking_region_configure_def region_size_exp)

subsection \<open>Initialisation\<close>

text \<open>The populated platform banks, and what makes a description of the platform valid.\<close>

definition populated :: "plat_memory_bank list option \<times> u64 \<Rightarrow> plat_memory_bank list" where
  "populated p = (case fst p of None \<Rightarrow> [] | Some ps \<Rightarrow> filter (\<lambda>b. pb_size b \<noteq> 0) (take (unat (snd p)) ps))"

definition plat_disjoint :: "plat_memory_bank \<Rightarrow> plat_memory_bank \<Rightarrow> bool" where
  "plat_disjoint a b \<longleftrightarrow> unat (pb_base a) + unat (pb_size a) \<le> unat (pb_base b) \<or>
     unat (pb_base b) + unat (pb_size b) \<le> unat (pb_base a)"

definition plat_ok :: "plat_memory_bank \<Rightarrow> bool" where
  "plat_ok b \<longleftrightarrow> GRANULE_ALIGNED (pb_base b) \<and> GRANULE_ALIGNED (pb_size b) \<and>
     unat (pb_base b) + unat (pb_size b) \<le> 2 ^ 52"

type_synonym plat_banks = "plat_memory_bank list option \<times> u64"

definition platform_ok :: "plat_banks \<Rightarrow> plat_banks \<Rightarrow> plat_banks \<Rightarrow> bool" where
  "platform_ok conv ncoh coh \<longleftrightarrow>
     (\<forall>p \<in> set [conv, ncoh, coh]. unat (snd p) \<le> (case fst p of None \<Rightarrow> 0 | Some ps \<Rightarrow> length ps)) \<and>
     (\<forall>b \<in> set (populated conv @ populated ncoh @ populated coh). plat_ok b) \<and>
     sorted_wrt plat_disjoint (populated conv @ populated ncoh @ populated coh) \<and>
     length (populated conv) \<le> 64 \<and> length (populated ncoh @ populated coh) \<le> 64 \<and>
     populated conv @ populated ncoh @ populated coh \<noteq> []"

definition mk_bank :: "u8 \<Rightarrow> plat_memory_bank \<Rightarrow> tracking_memory_bank" where
  "mk_bank cat b = \<lparr>tb_base = pb_base b, tb_size = pb_size b, granule_start_idx = 0, tracking_start_idx = 0, category = cat\<rparr>"

lemma no_overflow_52:
  fixes a s :: u64
  assumes "unat a + unat s \<le> 2 ^ 52"
  shows "a \<le> UINT64_MAX - s"
proof -
  have "unat (UINT64_MAX - s) = 2 ^ 64 - 1 - unat s"
    by (subst unat_sub) (simp_all add: unsigned_minus_1_eq_mask mask_eq_exp_minus_1)
  then show ?thesis using assms by (simp add: word_le_nat_alt)
qed

lemma copy_loop:
  assumes "n \<le> length ps" "\<forall>b \<in> set (filter (\<lambda>b. pb_size b \<noteq> 0) (take n ps)). plat_ok b"
    and "length bs + length (filter (\<lambda>b. pb_size b \<noteq> 0) (take n ps)) \<le> cap"
  shows "copy_bank_loop n ps cat cap bs = Some (0, bs @ map (mk_bank cat) (filter (\<lambda>b. pb_size b \<noteq> 0) (take n ps)))"
  using assms
proof (induction n ps cat cap bs rule: copy_bank_loop.induct)
  case (3 n p ps cat cap bs)
  show ?case
  proof (cases "pb_size p = 0")
    case False
    then have "plat_ok p" using 3 by simp
    then show ?thesis
      using False 3 no_overflow_52 [of "pb_base p" "pb_size p"]
      by (simp add: plat_ok_def mk_bank_def not_less [symmetric])
  qed (use 3 in simp)
qed simp_all

lemma copy_bank_category:
  assumes "unat (snd p) \<le> (case fst p of None \<Rightarrow> 0 | Some ps \<Rightarrow> length ps)" "\<forall>b \<in> set (populated p). plat_ok b"
    and "length bs + length (populated p) \<le> cap" "cat \<le> 2"
  shows "tracking_region_copy_bank_category (fst p) (snd p) cat bs cap = Some (0, bs @ map (mk_bank cat) (populated p))"
  using assms copy_loop [of "unat (snd p)" "the (fst p)" bs cap cat]
  by (auto simp: tracking_region_copy_bank_category_def populated_def unat_eq_0 split: option.splits)

lemma sort_and_validate:
  assumes "\<forall>b \<in> set bs. bank_ok b" "sorted_wrt (\<lambda>a b. bank_before a b \<or> bank_before b a) bs"
  shows "\<exists>cs. tracking_region_sort_and_validate_banks bs = Some cs \<and> set cs = set bs \<and> length cs = length bs \<and> banks_ok cs"
proof -
  let ?cs = "foldl bank_sort_step bs [1..<length bs]"
  have m: "mset ?cs = mset bs" and s: "sorted_banks ?cs" by (rule bank_sort)+
  have set: "set ?cs = set bs" and len: "length ?cs = length bs"
    using m by (metis mset_eq_setD, metis mset_eq_length)
  have r: "\<forall>b \<in> set ?cs. bank_in_range b" using assms(1) set by (simp add: bank_ok_def)
  have ne: "a \<noteq> b" if "bank_before a b \<or> bank_before b a" "bank_in_range a" for a b
    using that size_pos [of a] by (auto simp: bank_before_def)
  have "distinct bs"
    unfolding distinct_conv_nth using assms ne
    by (metis (no_types, lifting) bank_ok_def linorder_neqE_nat nth_mem sorted_wrt_iff_nth_less)
  then have d: "distinct ?cs" using m by (metis mset_eq_imp_distinct_iff)
  have disj: "bank_before a b \<or> bank_before b a" if "a \<in> set bs" "b \<in> set bs" "a \<noteq> b" for a b
    using that assms(2) unfolding in_set_conv_nth sorted_wrt_iff_nth_less by (metis linorder_neqE_nat)
  have b: "sorted_wrt bank_before ?cs"
    using disj d set by (intro disjoint_sorted_before [OF s r]) (metis nth_eq_iff_index_eq nth_mem)
  have "banks_disjoint_sorted ?cs"
    unfolding banks_disjoint_sorted_def list_all_iff
  proof (intro ballI conjI impI)
    fix i assume i: "i \<in> set [0..<length ?cs]"
    then have in_r: "bank_in_range (?cs ! i)" using r by simp
    then show "tb_base (?cs ! i) \<le> UINT64_MAX - tb_size (?cs ! i)"
      by (intro no_overflow_52) (simp add: bank_in_range_def)
    assume "0 < i"
    then have "bank_before (?cs ! (i - 1)) (?cs ! i)" "bank_in_range (?cs ! (i - 1))"
      using b i r by (auto simp: sorted_wrt_iff_nth_less)
    then show "bank_end (?cs ! (i - 1)) \<le> tb_base (?cs ! i)"
      by (simp add: word_le_nat_alt unat_bank_end bank_before_def)
  qed
  then show ?thesis using set len b assms(1) by (auto simp: tracking_region_sort_and_validate_banks_def banks_ok_def)
qed

lemma reserve_ok:
  assumes "\<And>a n. fst (fst (arch_reserve a n)) = 0" "map_size m = 0" "unat e * c \<le> 2 ^ 53" "e \<in> {1, 2, 16}"
  shows "\<exists>m' a'. tracking_array_reserve arch_reserve a m (of_nat c) e = Some (0, m', a') \<and> unat e * c \<le> unat (map_size m')"
proof -
  have e: "unat e \<noteq> 0" using assms(4) by auto
  have "c \<le> unat e * c" using e by (cases "unat e") auto
  then have "c \<le> 2 ^ 53" using assms(3) by (rule order_trans)
  then have c: "unat (of_nat c :: u64) = c" by (simp add: unsigned_of_nat take_bit_nat_eq_self)
  have p: "unat (of_nat c * e) = unat e * c" using assms(3) c by (simp add: unat_word_ariths mult.commute)
  have "unat (UINT64_MAX - (GRANULE_SIZE - 1)) = 2 ^ 64 - 4096" by simp
  then have "unat ((UINT64_MAX - (GRANULE_SIZE - 1)) div e) = (2 ^ 64 - 4096) div unat e" by (simp only: unat_div)
  moreover have "c \<le> (2 ^ 64 - 4096) div unat e"
    using assms(3) e by (simp add: less_eq_div_iff_mult_less_eq mult.commute)
  ultimately have n: "\<not> of_nat c > (UINT64_MAX - (GRANULE_SIZE - 1)) div e" by (simp add: word_less_nat_alt c)
  have up: "unat e * c \<le> unat (round_up (of_nat c * e) (2 ^ 12))" if "c \<noteq> 0"
  proof -
    have "unat (round_up (of_nat c * e) (2 ^ 12)) = Suc ((unat e * c - 1) div 4096) * 4096"
      using unat_round_up_exp [of "of_nat c * e" 12] that p e assms(3) by simp
    moreover have "unat e * c - 1 < 4096 + (unat e * c - 1) div 4096 * 4096"
      by (rule dividend_less_div_times) simp
    ultimately show ?thesis by simp
  qed
  obtain va a' where "arch_reserve a (round_up (of_nat c * e) GRANULE_SIZE) = ((0, va), a')"
    using assms(1) [of a "round_up (of_nat c * e) GRANULE_SIZE"] by (metis prod.collapse)
  then show ?thesis
    using assms(2) n e up c
    by (cases "c = 0") (auto simp: tracking_array_reserve_def word_unat_eq_iff Let_def)
qed

lemma cov_min_max:
  assumes "\<forall>b \<in> set bs. bank_in_range b"
  shows "cov 30 bs \<subseteq> (\<lambda>r. r div 512) ` cov 21 bs"
proof
  fix r assume "r \<in> cov 30 bs"
  then obtain b where b: "b \<in> set bs" "unat (tb_base b) div 2 ^ 30 \<le> r"
    "r \<le> (unat (tb_base b) + unat (tb_size b) - 1) div 2 ^ 30"
    by (auto simp: covered_def ivl_def less_Suc_eq_le)
  define l h where "l = unat (tb_base b) div 2 ^ 21" and "h = (unat (tb_base b) + unat (tb_size b) - 1) div 2 ^ 21"
  have "l div 512 \<le> r" "r \<le> h div 512" using b by (simp_all add: l_def h_def div_mult2_eq [symmetric])
  then obtain q where "l \<le> q" "q \<le> h" "r = q div 512"
  proof (cases "l div 512 = r")
    case True
    moreover have "0 < unat (tb_size b)" using assms b(1) by (intro size_pos) simp
    then have "l \<le> h" unfolding l_def h_def by (intro div_le_mono) simp
    ultimately show thesis using that [of l] by simp
  next
    case False
    then have "l div 512 < r" using \<open>l div 512 \<le> r\<close> by simp
    then have "l \<le> r * 512" by (simp add: div_less_iff_less_mult)
    moreover have "r * 512 \<le> h" using \<open>r \<le> h div 512\<close> by (simp add: less_eq_div_iff_mult_less_eq)
    ultimately show thesis using that [of "r * 512"] by simp
  qed
  moreover have "q \<in> cov 21 bs" if "l \<le> q" "q \<le> h" for q
    using that b(1) by (auto simp: covered_def ivl_def l_def h_def less_Suc_eq_le)
  ultimately show "r \<in> (\<lambda>r. r div 512) ` cov 21 bs" by blast
qed

lemma card_min_max: "storage_ok st \<Longrightarrow> card (cov_all 30 st) \<le> card (cov_all 21 st)"
proof -
  assume "storage_ok st"
  then have "cov_all 30 st \<subseteq> (\<lambda>r. r div 512) ` cov_all 21 st"
    using cov_min_max [of "conv_banks st"] cov_min_max [of "dev_banks st"] by (auto simp: image_Un storage_ok_def banks_ok_def bank_ok_def)
  then have "card (cov_all 30 st) \<le> card ((\<lambda>r. r div 512) ` cov_all 21 st)" by (intro card_mono) auto
  also have "\<dots> \<le> card (cov_all 21 st)" by (intro card_image_le) auto
  finally show ?thesis .
qed

text \<open>The number of fine descriptors reserved for a memory type.\<close>

abbreviation fine_need :: "tracking_memory_bank_storage \<Rightarrow> tr_mem_type \<Rightarrow> nat" where
  "fine_need st t \<equiv> max (stride 21 t * card (cov 21 (banks_of st t))) (stride 30 t * card (cov 30 (banks_of st t)))"

lemma reserve_arrays_ok:
  assumes "\<And>a n. fst (fst (arch_reserve a n)) = 0" "storage_ok st" "td_banks td = st"
    and "map_size (tracking_region_array td) = 0" "map_size (granule_array_tr td) = 0" "map_size (dev_granule_array_tr td) = 0"
  shows "\<exists>td'. reserve_arrays arch_reserve a td (of_nat (card (cov_all 21 st)))
      (of_nat (fine_need st TR_MEM_TYPE_CONV)) (of_nat (fine_need st TR_MEM_TYPE_DEV)) = Some (0, td') \<and>
    capacity td' \<and> td_banks td' = st \<and> tracking_initialized td' = tracking_initialized td"
proof -
  have fine: "fine_need st t \<le> 2 ^ 49" for t
    using mult_le_mono [OF _ card_cov(2) [OF assms(2)], of "stride 21 t" 262144 21 t]
      mult_le_mono [OF _ card_cov(2) [OF assms(2)], of "stride 30 t" 262144 30 t]
      stride_bounds [of 21 t] stride_bounds [of 30 t] by simp
  note res = reserve_ok [where arch_reserve = arch_reserve, OF assms(1)]
  have "unat (16 :: u64) * card (cov_all 21 st) \<le> 2 ^ 53" using card_cov(1) [OF assms(2), of 21] by simp
  from res [OF assms(4) this, where a = a] obtain m1 a1 where
    m1: "tracking_array_reserve arch_reserve a (tracking_region_array td) (of_nat (card (cov_all 21 st))) 16 = Some (0, m1, a1)"
      "16 * card (cov_all 21 st) \<le> unat (map_size m1)"
    by auto
  have "unat (2 :: u64) * fine_need st TR_MEM_TYPE_CONV \<le> 2 ^ 53" using fine [of TR_MEM_TYPE_CONV] by simp
  from res [OF assms(5) this, where a = a1] obtain m2 a2 where
    m2: "tracking_array_reserve arch_reserve a1 (granule_array_tr td) (of_nat (fine_need st TR_MEM_TYPE_CONV)) 2 = Some (0, m2, a2)"
      "2 * fine_need st TR_MEM_TYPE_CONV \<le> unat (map_size m2)"
    by auto
  have "unat (1 :: u64) * fine_need st TR_MEM_TYPE_DEV \<le> 2 ^ 53" using fine [of TR_MEM_TYPE_DEV] by simp
  from res [OF assms(6) this, where a = a2] obtain m3 a3 where
    m3: "tracking_array_reserve arch_reserve a2 (dev_granule_array_tr td) (of_nat (fine_need st TR_MEM_TYPE_DEV)) 1 = Some (0, m3, a3)"
      "fine_need st TR_MEM_TYPE_DEV \<le> unat (map_size m3)"
    by auto
  let ?td = "td\<lparr>tracking_region_array := m1, granule_array_tr := m2, dev_granule_array_tr := m3\<rparr>"
  have "capacity ?td"
    using m1(2) m2(2) m3(2) card_min_max [OF assms(2)] assms(3) by (auto simp: capacity_def)
  then show ?thesis
    using m1(1) m2(1) m3(1) assms(3) by (intro exI [of _ ?td]) (simp add: reserve_arrays_def)
qed

lemma of_nat_max:
  assumes "m < 2 ^ 64" "n < 2 ^ 64"
  shows "max (of_nat m :: u64) (of_nat n) = of_nat (max m n)"
  using assms by (auto simp: max_def word_le_nat_alt unsigned_of_nat take_bit_nat_eq_self)

lemma assign_init:
  assumes "storage_ok st"
  shows "(do {
      (st1, n) \<leftarrow> tracking_memory_banks_assign_shared_indices st TRACKING_REGION_MIN_SIZE;
      (st2, m) \<leftarrow> tracking_memory_banks_assign_shared_indices st1 TRACKING_REGION_MAX_SIZE;
      (cb, c) \<leftarrow> tracking_memory_banks_assign_fine_indices (conv_banks st2) TRACKING_REGION_MIN_SIZE SIZEOF_GRANULE;
      (cb, c') \<leftarrow> tracking_memory_banks_assign_fine_indices cb TRACKING_REGION_MAX_SIZE SIZEOF_GRANULE;
      (db, d) \<leftarrow> tracking_memory_banks_assign_fine_indices (dev_banks st2) TRACKING_REGION_MIN_SIZE SIZEOF_DEV_GRANULE;
      (db, d') \<leftarrow> tracking_memory_banks_assign_fine_indices db TRACKING_REGION_MAX_SIZE SIZEOF_DEV_GRANULE;
      f (\<lparr>conv_banks = cb, dev_banks = db\<rparr>, n, m, max c c', c', max d d', d')}) =
    f (placed 30 st, of_nat (card (cov_all 21 st)), of_nat (card (cov_all 30 st)),
       of_nat (fine_need st TR_MEM_TYPE_CONV), of_nat (stride 30 TR_MEM_TYPE_CONV * card (cov 30 (conv_banks st))),
       of_nat (fine_need st TR_MEM_TYPE_DEV), of_nat (stride 30 TR_MEM_TYPE_DEV * card (cov 30 (dev_banks st))))"
proof -
  have ok: "banks_ok (conv_banks st)" "banks_ok (dev_banks st)" using assms by (auto simp: storage_ok_def)
  let ?m = "\<lambda>bs. map (set_shared 21 (cov_all 21 st)) bs"
  let ?st1 = "\<lparr>conv_banks = ?m (conv_banks st), dev_banks = ?m (dev_banks st)\<rparr>"
  have same1: "same_storage ?st1 st" by (simp add: same_storage_def same_banks_map del: list.map_comp)
  have ok1: "storage_ok ?st1" using assms by (simp only: same_storageD(1) [OF same1])
  have cov1: "cov_all 30 ?st1 = cov_all 30 st" by (rule same_storageD(3) [OF same1])
  have over: "set_fine 30 t C (set_fine 21 t D (set_shared 30 E (set_shared 21 F b))) = set_fine 30 t C (set_shared 30 E b)"
    for t C D E F b by (simp add: set_fine_def set_shared_def ivl_def)
  have s: "tracking_memory_banks_assign_shared_indices st (2 ^ 21) = Some (?st1, of_nat (card (cov_all 21 st)))"
    by (rule assign_shared) (simp_all add: assms)
  let ?n = "\<lambda>bs. map (set_shared 30 (cov_all 30 st)) (?m bs)"
  have s': "tracking_memory_banks_assign_shared_indices ?st1 (2 ^ 30) =
    Some (\<lparr>conv_banks = ?n (conv_banks st), dev_banks = ?n (dev_banks st)\<rparr>, of_nat (card (cov_all 30 st)))"
    using assign_shared [of 30 ?st1] ok1 unfolding cov1 by simp
  have fine: "tracking_memory_banks_assign_fine_indices (?n (banks_of st t)) (2 ^ 21) (entry_size_of t) =
      Some (map (set_fine 21 t (cov 21 (banks_of st t))) (?n (banks_of st t)), of_nat (stride 21 t * card (cov 21 (banks_of st t))))"
    "tracking_memory_banks_assign_fine_indices (map (set_fine 21 t (cov 21 (banks_of st t))) (?n (banks_of st t)))
        (2 ^ 30) (entry_size_of t) =
      Some (map (set_fine 30 t (cov 30 (banks_of st t))) (map (set_fine 21 t (cov 21 (banks_of st t))) (?n (banks_of st t))),
        of_nat (stride 30 t * card (cov 30 (banks_of st t))))" for t
  proof -
    have "banks_ok (banks_of st t)" using ok by (cases t) simp_all
    then show "tracking_memory_banks_assign_fine_indices (?n (banks_of st t)) (2 ^ 21) (entry_size_of t) =
        Some (map (set_fine 21 t (cov 21 (banks_of st t))) (?n (banks_of st t)), of_nat (stride 21 t * card (cov 21 (banks_of st t))))"
      "tracking_memory_banks_assign_fine_indices (map (set_fine 21 t (cov 21 (banks_of st t))) (?n (banks_of st t)))
          (2 ^ 30) (entry_size_of t) =
        Some (map (set_fine 30 t (cov 30 (banks_of st t))) (map (set_fine 21 t (cov 21 (banks_of st t))) (?n (banks_of st t))),
          of_nat (stride 30 t * card (cov 30 (banks_of st t))))"
      using assign_fine [of 21 "?n (banks_of st t)" t]
        assign_fine [of 30 "map (set_fine 21 t (cov 21 (banks_of st t))) (?n (banks_of st t))" t]
      unfolding set_shared_banks_ok set_fine_banks_ok set_shared_cov set_fine_cov by blast+
  qed
  have mx: "max (of_nat (stride 21 t * card (cov 21 (banks_of st t)))) (of_nat (stride 30 t * card (cov 30 (banks_of st t))))
      = (of_nat (fine_need st t) :: u64)" for t
    using card_cov(2) [OF assms] by (intro of_nat_max stride_total) auto
  show ?thesis
    unfolding region_size_exp s
    using fine [of TR_MEM_TYPE_CONV] fine [of TR_MEM_TYPE_DEV] mx [of TR_MEM_TYPE_CONV] mx [of TR_MEM_TYPE_DEV]
    by (simp only: s' bind.bind_lunit prod.case tracking_memory_bank_storage.select_convs banks_of.simps entry_size_of.simps)
      (simp only: placed_def map_map comp_def over)
qed

lemma validate_no_overlap:
  assumes "storage_ok st"
  shows "tracking_memory_banks_validate_no_overlap st = Some ()"
proof -
  have "bank_end b \<le> tb_base c \<or> bank_end c \<le> tb_base b" if "b \<in> set (conv_banks st)" "c \<in> set (dev_banks st)" for b c
  proof -
    have "bank_in_range b" "bank_in_range c" "bank_before b c \<or> bank_before c b"
      using assms that by (auto simp: storage_ok_def banks_ok_def bank_ok_def apart_def)
    then show ?thesis by (simp add: bank_before_def word_le_nat_alt unat_bank_end)
  qed
  then show ?thesis by (auto simp: tracking_memory_banks_validate_no_overlap_def list_all_iff)
qed

lemma init_layout:
  assumes "data \<noteq> 0" "0x2000 \<le> data_size" "GRANULE_ALIGNED data" "tracking_region_size td = 0"
    and "platform_ok conv ncoh coh" "\<And>a n. fst (fst (arch_reserve a n)) = 0"
    and "map_size (tracking_region_array td) = 0" "map_size (granule_array_tr td) = 0" "map_size (dev_granule_array_tr td) = 0"
  shows "\<exists>td'. tracking_region_indices_init arch_reserve a data data_size td conv ncoh coh = Some (0, td') \<and>
    layout 30 td' \<and> capacity td' \<and> tracking_initialized td' = tracking_initialized td \<and>
    set (map (\<lambda>b. (tb_base b, tb_size b)) (conv_banks (td_banks td'))) =
      set (map (\<lambda>b. (pb_base b, pb_size b)) (populated conv)) \<and>
    set (map (\<lambda>b. (tb_base b, tb_size b, category b)) (dev_banks (td_banks td'))) =
      set (map (\<lambda>b. (pb_base b, pb_size b, 1)) (populated ncoh) @ map (\<lambda>b. (pb_base b, pb_size b, 2)) (populated coh))"
proof -
  let ?cb = "map (mk_bank 0) (populated conv)"
  let ?db = "map (mk_bank 1) (populated ncoh) @ map (mk_bank 2) (populated coh)"
  have copies: "tracking_region_copy_bank_category (fst conv) (snd conv) 0 [] 64 = Some (0, ?cb)"
    "tracking_region_copy_bank_category (fst ncoh) (snd ncoh) 1 [] 64 = Some (0, map (mk_bank 1) (populated ncoh))"
    "tracking_region_copy_bank_category (fst coh) (snd coh) 2 (map (mk_bank 1) (populated ncoh)) 64 = Some (0, ?db)"
    using assms(5) copy_bank_category [of conv "[]" 64 0] copy_bank_category [of ncoh "[]" 64 1]
      copy_bank_category [of coh "map (mk_bank 1) (populated ncoh)" 64 2]
    by (auto simp: platform_ok_def)
  have ok: "bank_ok (mk_bank cat b)" if "plat_ok b" "pb_size b \<noteq> 0" for cat b
    using that by (simp add: bank_ok_def bank_in_range_def mk_bank_def plat_ok_def)
  have oks: "\<forall>b \<in> set ?cb. bank_ok b" "\<forall>b \<in> set ?db. bank_ok b"
    using assms(5) ok by (auto simp: platform_ok_def populated_def split: option.splits)
  have "bank_before (mk_bank c p) (mk_bank d q) \<or> bank_before (mk_bank d q) (mk_bank c p) \<longleftrightarrow> plat_disjoint p q" for c d p q
    by (simp add: bank_before_def mk_bank_def plat_disjoint_def)
  then have "sorted_wrt (\<lambda>a b. bank_before a b \<or> bank_before b a) (?cb @ ?db)"
    using assms(5) unfolding platform_ok_def by (simp add: sorted_wrt_append sorted_wrt_map ball_Un)
  then have ap: "sorted_wrt (\<lambda>a b. bank_before a b \<or> bank_before b a) ?cb"
    "sorted_wrt (\<lambda>a b. bank_before a b \<or> bank_before b a) ?db" "apart ?cb ?db"
    unfolding sorted_wrt_append apart_def by blast+
  obtain cs where cs: "tracking_region_sort_and_validate_banks ?cb = Some cs" "set cs = set ?cb"
      "length cs = length ?cb" "banks_ok cs"
    using sort_and_validate [OF oks(1) ap(1)] by blast
  obtain ds where ds: "tracking_region_sort_and_validate_banks ?db = Some ds" "set ds = set ?db"
      "length ds = length ?db" "banks_ok ds"
    using sort_and_validate [OF oks(2) ap(2)] by blast
  define st where "st = \<lparr>conv_banks = cs, dev_banks = ds\<rparr>"
  have st: "storage_ok st" "cs \<noteq> [] \<or> ds \<noteq> []"
  proof -
    have len: "length cs = length (populated conv)" "length ds = length (populated ncoh @ populated coh)"
      using cs(3) ds(3) by simp_all
    show "storage_ok st"
      using cs(4) ds(4) ap(3) assms(5) len unfolding storage_ok_def apart_def platform_ok_def st_def
      by (simp add: cs(2) ds(2))
    show "cs \<noteq> [] \<or> ds \<noteq> []" using assms(5) len unfolding platform_ok_def by auto
  qed
  have v: "tracking_memory_banks_validate_no_overlap st = Some ()"
    using st(1) by (intro validate_no_overlap)
  let ?td = "td\<lparr>td_banks := placed 30 st\<rparr>"
  have res: "\<exists>td'. reserve_arrays arch_reserve a ?td (of_nat (card (cov_all 21 st)))
      (of_nat (fine_need st TR_MEM_TYPE_CONV)) (of_nat (fine_need st TR_MEM_TYPE_DEV)) = Some (0, td') \<and>
    capacity td' \<and> td_banks td' = placed 30 st \<and> tracking_initialized td' = tracking_initialized td"
    using reserve_arrays_ok [where arch_reserve = arch_reserve and td = ?td and st = "placed 30 st" and a = a, OF assms(6)]
      st(1) assms(7-9) unfolding same_storageD(1,2,3) [OF same_placed [of 30 st]] by simp
  then obtain td1 where td1: "reserve_arrays arch_reserve a ?td (of_nat (card (cov_all 21 st)))
      (of_nat (fine_need st TR_MEM_TYPE_CONV)) (of_nat (fine_need st TR_MEM_TYPE_DEV)) = Some (0, td1)"
    "capacity td1" "td_banks td1 = placed 30 st" "tracking_initialized td1 = tracking_initialized td" by blast
  let ?td2 = "td1\<lparr>num_tracking_regions := of_nat (card (cov_all 30 st)),
    num_tracking_granules := of_nat (stride 30 TR_MEM_TYPE_CONV * card (cov 30 (conv_banks st))),
    num_tracking_dev_granules := of_nat (stride 30 TR_MEM_TYPE_DEV * card (cov 30 (dev_banks st))),
    tracking_region_size := TRACKING_REGION_MAX_SIZE\<rparr>"
  let ?f = "\<lambda>(st, n, m, c, c', d, d'). do {
     (ret, td) \<leftarrow> reserve_arrays arch_reserve a (td\<lparr>td_banks := st\<rparr>) n c d;
     (if ret \<noteq> 0 then Some (ret, td)
      else Some (0, td\<lparr>num_tracking_regions := m, num_tracking_granules := c', num_tracking_dev_granules := d',
                       tracking_region_size := TRACKING_REGION_MAX_SIZE\<rparr>))}"
  have "tracking_region_indices_init arch_reserve a data data_size td conv ncoh coh = Some (0, ?td2)"
  proof -
    have g: "\<not> (data = 0 \<or> data_size < 0x2000 \<or> \<not> GRANULE_ALIGNED data)" "\<not> tracking_region_size td \<noteq> 0"
      "\<not> (?cb = [] \<and> ?db = [])" "\<not> (0 :: int) \<noteq> 0"
      using assms(1-4) st(2) cs(3) ds(3) by (auto simp del: append_is_Nil_conv)
    have "tracking_region_indices_init arch_reserve a data data_size td conv ncoh coh =
      ?f (placed 30 st, of_nat (card (cov_all 21 st)), of_nat (card (cov_all 30 st)),
       of_nat (fine_need st TR_MEM_TYPE_CONV), of_nat (stride 30 TR_MEM_TYPE_CONV * card (cov 30 (conv_banks st))),
       of_nat (fine_need st TR_MEM_TYPE_DEV), of_nat (stride 30 TR_MEM_TYPE_DEV * card (cov 30 (dev_banks st))))"
      unfolding tracking_region_indices_init_def Let_def
        if_not_P [OF g(1)] if_not_P [OF g(2)] copies bind.bind_lunit prod.case if_not_P [OF g(3)] if_not_P [OF g(4)]
        cs(1) ds(1) st_def [symmetric] v
      using assign_init [OF st(1), where f = ?f] by (simp del: of_nat_mult)
    then show ?thesis using td1(1) by (simp only: prod.case bind.bind_lunit if_not_P [OF g(4)])
  qed
  moreover have "layout 30 ?td2"
    by (rule placed_layout [OF _ st(1)]) (use st(2) td1(3) in \<open>simp_all add: st_def region_size_exp\<close>, case_tac t, simp_all add: st_def)
  moreover have "capacity ?td2" using td1(2) by (simp add: capacity_def)
  moreover have "map (\<lambda>b. (tb_base b, tb_size b)) (conv_banks (td_banks ?td2)) = map (\<lambda>b. (tb_base b, tb_size b)) cs"
    "map (\<lambda>b. (tb_base b, tb_size b, category b)) (dev_banks (td_banks ?td2)) = map (\<lambda>b. (tb_base b, tb_size b, category b)) ds"
    by (simp_all add: td1(3) placed_def st_def set_fine_def set_shared_def comp_def)
  ultimately show ?thesis
    using td1(4) by (intro exI [of _ ?td2]) (simp add: cs(2) ds(2) image_image image_Un mk_bank_def)
qed

end
