(* ===== verification/Tracking_Props.thy ===== *)
theory Tracking_Props
  imports Tracking_Init
begin

text \<open>
  The translations between addresses and tracking indices: the binary search finds the bank of
  an address, the fine index of a granule is unique and can be translated back, and the index of
  a tracking region identifies the aligned region of the address.
\<close>

subsection \<open>The binary search over the banks\<close>

definition contains :: "tracking_memory_bank \<Rightarrow> u64 \<Rightarrow> bool" where
  "contains b addr \<longleftrightarrow> tb_base b \<le> addr \<and> addr < bank_end b"

lemma contains_unat:
  "bank_in_range b \<Longrightarrow> contains b addr \<longleftrightarrow>
    unat (tb_base b) \<le> unat addr \<and> unat addr < unat (tb_base b) + unat (tb_size b)"
  by (simp add: contains_def word_le_nat_alt word_less_nat_alt unat_bank_end)

lemma banks_ok_nth:
  assumes "banks_ok bs" "i < length bs"
  shows "bank_in_range (bs ! i)" "j < i \<Longrightarrow> unat (tb_base (bs ! j)) + unat (tb_size (bs ! j)) \<le> unat (tb_base (bs ! i))"
  using assms by (auto simp: banks_ok_def bank_ok_def sorted_wrt_iff_nth_less bank_before_def)

lemma find_addr_loop_search:
  assumes "banks_ok bs" "r < length bs"
  shows "\<exists>res. find_addr_loop bs addr l r = Some res \<and> (\<forall>j. l \<le> j \<and> j \<le> r \<and> contains (bs ! j) addr \<longrightarrow> res = Some j)"
  using assms(2)
proof (induction "Suc r - l" arbitrary: l r rule: less_induct)
  case less
  let ?i = "l + (r - l) div 2" and ?ok = "\<lambda>res l r. \<forall>j. l \<le> j \<and> j \<le> r \<and> contains (bs ! j) addr \<longrightarrow> res = Some j"
  show ?case
  proof (cases "l \<le> r")
    case False
    then show ?thesis by (subst find_addr_loop.simps) auto
  next
    case True
    then have i: "?i \<le> r" "?i < length bs" using less.prems by auto
    note range = banks_ok_nth [OF assms(1)]
    consider "addr < tb_base (bs ! ?i)" | "\<not> addr < tb_base (bs ! ?i)" "bank_end (bs ! ?i) \<le> addr"
      | "\<not> addr < tb_base (bs ! ?i)" "\<not> bank_end (bs ! ?i) \<le> addr" by force
    then show ?thesis
    proof cases
      case 1
      have out: "\<not> contains (bs ! j) addr" if "?i \<le> j" "j \<le> r" for j
      proof -
        have "tb_base (bs ! ?i) \<le> tb_base (bs ! j)"
          using range(2) [of j ?i] that less.prems by (cases "?i = j") (auto simp: word_le_nat_alt)
        then show ?thesis using 1 by (auto simp: contains_def)
      qed
      show ?thesis
      proof (cases "?i = 0")
        case True
        then show ?thesis
          using 1 \<open>l \<le> r\<close> i out by (subst find_addr_loop.simps) auto
      next
        case False
        then have "Suc (?i - 1) - l < Suc r - l" "?i - 1 < length bs" using i True by linarith+
        from less.hyps [OF this] obtain res where
          res: "find_addr_loop bs addr l (?i - 1) = Some res" "?ok res l (?i - 1)" by blast
        have "find_addr_loop bs addr l r = Some res"
          using 1 True i False res(1) by (subst find_addr_loop.simps) (auto simp: Let_def)
        moreover have "?ok res l r" using res(2) out False by (metis Suc_pred' leI less_Suc_eq_le neq0_conv)
        ultimately show ?thesis by blast
      qed
    next
      case 2
      have "Suc r - (?i + 1) < Suc r - l" using True by linarith
      from less.hyps [OF this less.prems] obtain res where
        res: "find_addr_loop bs addr (?i + 1) r = Some res" "?ok res (?i + 1) r" by blast
      have out: "\<not> contains (bs ! j) addr" if "j \<le> ?i" for j
      proof -
        have "unat (tb_base (bs ! j)) + unat (tb_size (bs ! j)) \<le> unat (tb_base (bs ! ?i)) + unat (tb_size (bs ! ?i))"
          using range(2) [of ?i j] that i by (cases "?i = j") auto
        then show ?thesis
          using 2(2) contains_unat [OF range(1), of j addr] unat_bank_end [OF range(1)] that i
          by (auto simp: word_le_nat_alt)
      qed
      have "find_addr_loop bs addr l r = Some res"
        using 2 True i res(1) by (subst find_addr_loop.simps) (simp add: Let_def)
      moreover have "?ok res l r" using res(2) out by (metis Suc_eq_plus1 not_less_eq_eq)
      ultimately show ?thesis by blast
    next
      case 3
      then have "contains (bs ! ?i) addr" by (auto simp: contains_def)
      moreover have "j = ?i" if j: "contains (bs ! j) addr" "contains (bs ! ?i) addr" "j \<le> r" for j
        using contains_unat [OF range(1), of j addr] contains_unat [OF range(1), of ?i addr] range(2) [of j ?i] range(2) [of ?i j]
          j less.prems i by (cases j ?i rule: linorder_cases) auto
      moreover have "find_addr_loop bs addr l r = Some (Some ?i)"
        using 3 True i by (subst find_addr_loop.simps) (simp add: Let_def)
      ultimately show ?thesis by blast
    qed
  qed
qed

lemma find_addr_loop_banks:
  assumes "banks_ok bs" "bs \<noteq> []"
  shows "(b \<in> set bs \<and> contains b addr) \<Longrightarrow> \<exists>i. find_addr_loop bs addr 0 (length bs - 1) = Some (Some i) \<and> bs ! i = b"
    and "(\<forall>b \<in> set bs. \<not> contains b addr) \<Longrightarrow> find_addr_loop bs addr 0 (length bs - 1) = Some None"
proof -
  obtain res where res: "find_addr_loop bs addr 0 (length bs - 1) = Some res"
    and ok: "\<forall>j. 0 \<le> j \<and> j \<le> length bs - 1 \<and> contains (bs ! j) addr \<longrightarrow> res = Some j"
    using find_addr_loop_search [OF assms(1), of "length bs - 1" addr 0] assms(2) by auto
  show "\<exists>i. find_addr_loop bs addr 0 (length bs - 1) = Some (Some i) \<and> bs ! i = b" if b: "b \<in> set bs \<and> contains b addr"
  proof -
    obtain j where "j < length bs" "bs ! j = b" using b by (auto simp: in_set_conv_nth)
    then show ?thesis using ok b res by (metis One_nat_def Suc_pred le0 length_pos_if_in_set less_Suc_eq_le)
  qed
  show "find_addr_loop bs addr 0 (length bs - 1) = Some None" if "\<forall>b \<in> set bs. \<not> contains b addr"
    using res find_addr_loop_hit [of bs addr 0 "length bs - 1"] that
    by (cases res) (auto simp: contains_def dest: nth_mem)
qed

subsection \<open>The indices of an address\<close>

abbreviation all_cov :: "nat \<Rightarrow> tracking_region_data \<Rightarrow> nat set" where
  "all_cov k td \<equiv> cov_all k (td_banks td)"

abbreviation type_cov :: "nat \<Rightarrow> tracking_region_data \<Rightarrow> tr_mem_type \<Rightarrow> nat set" where
  "type_cov k td t \<equiv> cov k (banks_of (td_banks td) t)"

definition fine_pos :: "nat \<Rightarrow> tr_mem_type \<Rightarrow> nat set \<Rightarrow> u64 \<Rightarrow> nat" where
  "fine_pos k t C addr = stride k t * rank C (unat addr div 2 ^ k) + unat addr mod 2 ^ k div 4096"

lemma layoutD:
  assumes "layout k td"
  shows "k \<in> {21, 30}" "k \<le> 30" "tracking_region_size td = 2 ^ k" "storage_ok (td_banks td)"
    "banks_ok (banks_of (td_banks td) t)" "b \<in> set (banks_of (td_banks td) t) \<Longrightarrow> bank_in_range b"
    "tracking_region_get_size td = Some (2 ^ k)" "num_tracking_regions td \<noteq> 0"
proof -
  show k: "k \<in> {21, 30}" "tracking_region_size td = 2 ^ k" and st: "storage_ok (td_banks td)"
    using assms by (auto simp: layout_def)
  show "k \<le> 30" using k by auto
  show ok: "banks_ok (banks_of (td_banks td) u)" for u
    using st by (cases u) (auto simp: storage_ok_def)
  show r: "bank_in_range b" if "b \<in> set (banks_of (td_banks td) u)" for b u
    using ok [of u] that by (auto simp: banks_ok_def bank_ok_def)
  show "tracking_region_get_size td = Some (2 ^ k)" using k by (auto simp: tracking_region_get_size_def)
  obtain t b where b: "b \<in> set (banks_of (td_banks td) t)"
    using assms unfolding layout_def by (metis banks_of.simps last_in_set)
  then have "fst (ivl k b) \<in> type_cov k td t" using ivl_less [OF r [OF b], of k] by (force simp: covered_def)
  then have "fst (ivl k b) \<in> all_cov k td" by (cases t) auto
  then have "0 < card (all_cov k td)" by (auto simp: card_gt_0_iff)
  then have "unat (of_nat (card (all_cov k td)) :: u64) \<noteq> 0" by (simp only: unat_counts(1) [OF st k(1)])
  then show "num_tracking_regions td \<noteq> 0" using assms by (auto simp: layout_def)
qed

lemma contains_region:
  assumes "layout k td" "b \<in> set (banks_of (td_banks td) t)" "contains b addr"
  shows "fst (ivl k b) \<le> unat addr div 2 ^ k" "unat addr div 2 ^ k < snd (ivl k b)"
    "unat addr div 2 ^ k \<in> type_cov k td t" "unat addr div 2 ^ k \<in> all_cov k td"
proof -
  have "unat (tb_base b) \<le> unat addr" "unat addr \<le> unat (tb_base b) + unat (tb_size b) - 1"
    using contains_unat [OF layoutD(6) [OF assms(1,2)]] assms(3) by auto
  then show 1: "fst (ivl k b) \<le> unat addr div 2 ^ k" "unat addr div 2 ^ k < snd (ivl k b)"
    by (auto simp: ivl_def less_Suc_eq_le intro: div_le_mono)
  then show 2: "unat addr div 2 ^ k \<in> type_cov k td t"
    using assms(2) unfolding covered_def by (auto intro!: bexI [of _ b] simp: case_prod_beta)
  then show "unat addr div 2 ^ k \<in> all_cov k td" by (cases t) auto
qed

lemma ivl_cov:
  assumes "b \<in> set bs"
  shows "{fst (ivl k b)..<snd (ivl k b)} \<subseteq> cov k bs"
  using assms by (force simp: covered_def case_prod_beta)

lemma start_to_region:
  fixes s :: nat
  assumes "finite C" "{lo..<hi} \<subseteq> C" "lo \<le> r" "r \<le> hi"
  shows "of_nat (s * rank C lo) + of_nat (r - lo) * of_nat s = (of_nat (s * rank C r) :: 'a :: comm_semiring_1)"
  using rank_interval [OF assms] by (simp add: algebra_simps flip: of_nat_add of_nat_mult)

lemma find_addr_bank:
  assumes "layout k td" "b \<in> set (banks_of (td_banks td) t)" "contains b addr"
  shows "tracking_region_find_addr td addr t =
    Some (Some (b, of_nat (rank (all_cov k td) (unat addr div 2 ^ k)), of_nat (fine_pos k t (type_cov k td t) addr)))"
proof -
  let ?bs = "banks_of (td_banks td) t" and ?r = "unat addr div 2 ^ k" and ?lo = "fst (ivl k b)"
  note L = layoutD [OF assms(1)]
  note reg = contains_region [OF assms]
  have "?bs \<noteq> []" using assms(2) by auto
  from find_addr_loop_banks(1) [OF L(5) this] assms(2,3) obtain i where
    i: "find_addr_loop ?bs addr 0 (length ?bs - 1) = Some (Some i)" "?bs ! i = b" by blast
  have rd: "unat (round_down addr (2 ^ k)) = ?r * 2 ^ k" using L(2) by (simp add: unat_round_down_exp)
  have off: "(round_down addr (2 ^ k) - round_down (tb_base b) (2 ^ k)) div 2 ^ k = of_nat (?r - ?lo)"
    by (rule of_nat_unat_eq unat_region_diff rd unat_bank_bounds(1) reg L(2) L(6) assms(2))+
  have "unat (addr - round_down addr (2 ^ k)) = unat addr mod 2 ^ k"
    using rd by (subst unat_sub) (auto simp: word_le_nat_alt modulo_nat_def)
  then have go: "drop_bit 12 (addr - round_down addr (2 ^ k)) = of_nat (unat addr mod 2 ^ k div 4096)"
    by (intro of_nat_unat_eq) (simp add: drop_bit_eq_div unat_div)
  have start: "granule_start_idx b = of_nat (stride k t * rank (type_cov k td t) ?lo)"
    "tracking_start_idx b = of_nat (rank (all_cov k td) ?lo)"
    using assms(1,2) by (auto simp: layout_def)
  have "rank (all_cov k td) ?lo \<le> card (all_cov k td)" unfolding rank_def by (rule card_mono) auto
  also have "\<dots> < 2 ^ 32" using card_cov(1) [OF L(4) L(1)] by simp
  finally have "ucast (tracking_start_idx b) = (of_nat (rank (all_cov k td) ?lo) :: u64)"
    by (simp add: start unsigned_of_nat take_bit_nat_eq_self)
  moreover have "{?lo..<snd (ivl k b)} \<subseteq> all_cov k td" using ivl_cov [OF assms(2), of k] by (cases t) auto
  ultimately have ti: "ucast (tracking_start_idx b) + of_nat (?r - ?lo) = (of_nat (rank (all_cov k td) ?r) :: u64)"
    using rank_interval [of "all_cov k td" ?lo "snd (ivl k b)" ?r] reg(1,2) by simp
  have gi: "granule_start_idx b + of_nat (?r - ?lo) * of_nat (stride k t) + of_nat (unat addr mod 2 ^ k div 4096) =
    of_nat (fine_pos k t (type_cov k td t) addr)"
    unfolding start(1) fine_pos_def of_nat_add
    by (subst start_to_region [OF finite_covered ivl_cov [OF assms(2)] reg(1) less_imp_le [OF reg(2)]]) (rule refl)
  show ?thesis
    using i off go ti gi \<open>?bs \<noteq> []\<close> L(7) fine_stride [OF L(1), of t]
    by (simp add: tracking_region_find_addr_def Let_def)
qed

subsection \<open>From a fine index back to the address\<close>

text \<open>The address that one bank gives an index, as in the body of the scan.\<close>

definition bank_addr :: "u64 \<Rightarrow> u64 \<Rightarrow> u64 \<Rightarrow> tracking_memory_bank \<Rightarrow> u64 option" where
  "bank_addr region_size granule_stride idx bank =
     (let tracking_base = round_down (tb_base bank) region_size;
          bank_regions = (round_up (bank_end bank) region_size - tracking_base) div region_size;
          relative = idx - granule_start_idx bank;
          addr = tracking_base + (relative div granule_stride) * region_size
                 + push_bit GRANULE_SHIFT (relative mod granule_stride)
      in if idx \<ge> granule_start_idx bank \<and> idx < granule_start_idx bank + bank_regions * granule_stride \<and>
            relative mod granule_stride < region_size div GRANULE_SIZE \<and> contains bank addr
         then Some addr else None)"

lemma fine_idx_loop_bank_addr:
  "fine_idx_loop region_size granule_stride idx (bank # banks) =
    (case bank_addr region_size granule_stride idx bank of
       None \<Rightarrow> fine_idx_loop region_size granule_stride idx banks
     | Some addr \<Rightarrow> (addr, Some (category bank)))"
  unfolding fine_idx_loop.simps bank_addr_def contains_def Let_def not_le [symmetric] de_Morgan_conj
  by (simp only: if_distrib [of "case_option _ _"] option.case) presburger

lemma bank_words:
  assumes "layout k td" "b \<in> set (banks_of (td_banks td) t)"
  defines "lo \<equiv> fst (ivl k b)" and "hi \<equiv> snd (ivl k b)" and "C \<equiv> type_cov k td t" and "s \<equiv> stride k t"
  defines "n \<equiv> (round_up (bank_end b) (2 ^ k) - round_down (tb_base b) (2 ^ k)) div 2 ^ k * of_nat s"
  shows "unat (granule_start_idx b) = s * rank C lo" "unat (granule_start_idx b + n) = s * (rank C lo + (hi - lo))"
    "s * (rank C lo + (hi - lo)) \<le> s * card C" "s * card C < 2 ^ 64" "lo < hi"
proof -
  note L = layoutD [OF assms(1)]
  have r: "bank_in_range b" by (rule L(6) [OF assms(2)])
  show lh: "lo < hi" unfolding lo_def hi_def by (rule ivl_less [OF r])
  have "rank C hi = rank C lo + (hi - lo)"
    using rank_interval [OF finite_covered ivl_cov [OF assms(2)] _ order_refl] lh by (simp add: C_def lo_def hi_def)
  moreover have "rank C hi \<le> card C" unfolding rank_def C_def by (rule card_mono) auto
  ultimately have "rank C lo + (hi - lo) \<le> card C" by simp
  then show le: "s * (rank C lo + (hi - lo)) \<le> s * card C" by (rule mult_le_mono2)
  show b: "s * card C < 2 ^ 64"
    unfolding s_def C_def by (rule stride_total [OF L(1) card_cov(2) [OF L(4,1)]])
  have "granule_start_idx b = of_nat (s * rank C lo)"
    using assms(1,2) unfolding s_def C_def lo_def by (auto simp: layout_def)
  moreover have "s * rank C lo < 2 ^ 64" using le b by (simp add: distrib_left)
  ultimately show st: "unat (granule_start_idx b) = s * rank C lo"
    by (simp add: unsigned_of_nat take_bit_nat_eq_self del: of_nat_mult)
  have "unat (granule_start_idx b + n) = s * (rank C lo + (hi - lo))"
    unfolding n_def
    by (rule unat_count_add [OF _ _ less_imp_le [OF lh] L(2) _ st b])
      (use unat_bank_bounds [OF r L(2)] le unat_stride \<open>rank C lo + (hi - lo) \<le> card C\<close> in \<open>auto simp: lo_def hi_def s_def\<close>)
  then show "unat (granule_start_idx b + n) = s * (rank C lo + (hi - lo))" .
qed

lemma bank_guard:
  assumes "layout k td" "b \<in> set (banks_of (td_banks td) t)"
  defines "lo \<equiv> fst (ivl k b)" and "hi \<equiv> snd (ivl k b)" and "C \<equiv> type_cov k td t" and "s \<equiv> stride k t"
  defines "n \<equiv> (round_up (bank_end b) (2 ^ k) - round_down (tb_base b) (2 ^ k)) div 2 ^ k * of_nat s"
  shows "granule_start_idx b \<le> idx \<and> idx < granule_start_idx b + n \<longleftrightarrow>
    rank C lo \<le> unat idx div s \<and> unat idx div s < rank C lo + (hi - lo)"
proof -
  have s: "0 < s" using stride_bounds [OF layoutD(1) [OF assms(1)]] by (simp add: s_def)
  note w = bank_words [OF assms(1,2), folded lo_def hi_def C_def s_def, folded n_def]
  have "granule_start_idx b \<le> idx \<longleftrightarrow> rank C lo \<le> unat idx div s"
    unfolding word_le_nat_alt w(1) using s by (simp add: less_eq_div_iff_mult_less_eq mult.commute)
  moreover have "idx < granule_start_idx b + n \<longleftrightarrow> unat idx div s < rank C lo + (hi - lo)"
    unfolding word_less_nat_alt w(2) using s by (simp add: div_less_iff_less_mult mult.commute)
  ultimately show ?thesis by simp
qed

lemma bank_relative:
  fixes idx :: u64
  assumes "layout k td" "b \<in> set (banks_of (td_banks td) t)"
  defines "lo \<equiv> fst (ivl k b)" and "C \<equiv> type_cov k td t" and "s \<equiv> stride k t"
  assumes "rank C lo \<le> unat idx div s"
  shows "unat ((idx - granule_start_idx b) mod of_nat s) = unat idx mod s"
    "unat ((idx - granule_start_idx b) div of_nat s) = unat idx div s - rank C lo"
proof -
  note L = layoutD [OF assms(1)]
  have s: "0 < s" "unat (of_nat s :: u64) = s"
    using stride_bounds [OF L(1)] unat_stride by (simp_all add: s_def)
  note w = bank_words [OF assms(1,2), folded lo_def C_def s_def]
  obtain x where x: "unat idx = s * rank C lo + x"
    using assms(6) s(1) by (metis le_Suc_ex less_eq_div_iff_mult_less_eq mult.commute)
  have "unat (idx - granule_start_idx b) = x" using x w(1) by (subst unat_sub) (simp_all add: word_le_nat_alt)
  moreover have "x div s = unat idx div s - rank C lo" "x mod s = unat idx mod s" using x s(1) by simp_all
  ultimately show "unat ((idx - granule_start_idx b) mod of_nat s) = unat idx mod s"
    "unat ((idx - granule_start_idx b) div of_nat s) = unat idx div s - rank C lo"
    by (simp_all only: unat_div unat_mod s(2))
qed

lemma bank_addr_unat:
  fixes idx :: u64
  assumes "layout k td" "b \<in> set (banks_of (td_banks td) t)"
  defines "lo \<equiv> fst (ivl k b)" and "hi \<equiv> snd (ivl k b)" and "C \<equiv> type_cov k td t" and "s \<equiv> stride k t"
  defines "rel \<equiv> idx - granule_start_idx b"
  assumes "rank C lo \<le> unat idx div s" "unat idx div s < rank C lo + (hi - lo)" "unat idx mod s < 2 ^ k div 4096"
  shows "unat (round_down (tb_base b) (2 ^ k) + rel div of_nat s * 2 ^ k + push_bit 12 (rel mod of_nat s)) =
      (lo + (unat idx div s - rank C lo)) * 2 ^ k + unat idx mod s * 4096"
proof -
  note L = layoutD [OF assms(1)]
  note rel = bank_relative [OF assms(1,2) assms(8) [unfolded C_def lo_def s_def], folded lo_def C_def s_def rel_def]
  define y where "y = unat idx div s - rank C lo"
  have base: "unat (round_down (tb_base b) (2 ^ k)) = lo * 2 ^ k"
    unfolding lo_def by (rule unat_bank_bounds(1) [OF L(6) [OF assms(2)] L(2)])
  have "lo + y \<le> hi - 1" using assms(8,9) by (simp add: y_def)
  then have "(lo + y) * 2 ^ k \<le> (hi - 1) * 2 ^ k" by (rule mult_le_mono1)
  also have "\<dots> \<le> unat (tb_base b) + unat (tb_size b) - 1" by (simp add: hi_def ivl_def div_times_less_eq_dividend)
  also have "\<dots> \<le> 2 ^ 52" using L(6) [OF assms(2)] unfolding bank_in_range_def by linarith
  finally have le: "lo * 2 ^ k + y * 2 ^ k \<le> 2 ^ 52" by (simp add: distrib_right)
  have k: "(2 :: nat) ^ k \<le> 2 ^ 30" using L(2) by (intro power_increasing) auto
  have "Suc (unat idx mod s) * 4096 \<le> 2 ^ k" using assms(10) by (simp add: less_eq_div_iff_mult_less_eq flip: Suc_le_eq)
  then have o4: "unat idx mod s * 4096 < 2 ^ 30" using k by simp
  have "unat (rel div of_nat s * 2 ^ k) = y * 2 ^ k"
    using rel(2) le L(2) by (simp add: unat_word_ariths unat_exp y_def)
  moreover have "unat (push_bit 12 (rel mod of_nat s)) = unat idx mod s * 4096"
    using rel(1) o4 by (simp add: push_bit_eq_mult unat_word_ariths)
  ultimately show "unat (round_down (tb_base b) (2 ^ k) + rel div of_nat s * 2 ^ k + push_bit 12 (rel mod of_nat s)) =
      (lo + (unat idx div s - rank C lo)) * 2 ^ k + unat idx mod s * 4096"
    using base le o4 by (simp add: unat_word_ariths y_def distrib_right)
qed

lemma fine_pos_split:
  assumes "k \<in> {21, 30}"
  shows "fine_pos k t C addr div stride k t = rank C (unat addr div 2 ^ k)"
    "fine_pos k t C addr mod stride k t = unat addr mod 2 ^ k div 4096" "unat addr mod 2 ^ k div 4096 < 2 ^ k div 4096"
proof -
  have "(4096 :: nat) dvd 2 ^ k" using assms by (auto simp: le_imp_power_dvd)
  then show lt: "unat addr mod 2 ^ k div 4096 < 2 ^ k div 4096"
    by (simp add: div_less_iff_less_mult dvd_div_mult_self)
  then have "unat addr mod 2 ^ k div 4096 < stride k t" using stride_bounds [OF assms, of t] by simp
  then show "fine_pos k t C addr div stride k t = rank C (unat addr div 2 ^ k)"
    "fine_pos k t C addr mod stride k t = unat addr mod 2 ^ k div 4096"
    by (simp_all add: fine_pos_def)
qed

lemma fine_pos_less:
  assumes "layout k td" "b \<in> set (banks_of (td_banks td) t)" "contains b addr"
  shows "fine_pos k t (type_cov k td t) addr < stride k t * card (type_cov k td t)"
    "unat (of_nat (fine_pos k t (type_cov k td t) addr) :: u64) = fine_pos k t (type_cov k td t) addr"
proof -
  have k: "k \<in> {21, 30}" by (rule layoutD(1) [OF assms(1)])
  have "fine_pos k t (type_cov k td t) addr div stride k t < card (type_cov k td t)"
    unfolding fine_pos_split [OF k] by (rule rank_less_card [OF finite_covered contains_region(3) [OF assms]])
  then show lt: "fine_pos k t (type_cov k td t) addr < stride k t * card (type_cov k td t)"
    using stride_bounds [OF k, of t] by (simp add: div_less_iff_less_mult mult.commute)
  then show "unat (of_nat (fine_pos k t (type_cov k td t) addr) :: u64) = fine_pos k t (type_cov k td t) addr"
    using bank_words(4) [OF assms(1,2)] by (simp add: unsigned_of_nat take_bit_nat_eq_self)
qed

lemma GRANULE_ALIGNED_nat: "GRANULE_ALIGNED a \<longleftrightarrow> unat a mod 4096 = 0"
proof -
  have "unat a mod 4096 = unat (take_bit 12 a)" by (simp add: take_bit_eq_mod unat_mod)
  then have "unat a mod 4096 = 0 \<longleftrightarrow> take_bit 12 a = 0" by (simp only: unsigned_eq_0_iff)
  also have "\<dots> \<longleftrightarrow> GRANULE_ALIGNED a" by (simp add: GRANULE_ALIGNED_bits take_bit_eq_0_bits)
  finally show ?thesis by simp
qed

lemma region_decompose:
  assumes "GRANULE_ALIGNED addr" "k \<in> {21, 30}"
  shows "unat addr div 2 ^ k * 2 ^ k + unat addr mod 2 ^ k div 4096 * 4096 = unat addr"
proof -
  have "unat addr mod 4096 = 0" using assms(1) by (simp add: GRANULE_ALIGNED_nat)
  then have "unat addr mod 2 ^ k mod 4096 = 0" using assms(2) by (auto simp: mod_mod_cancel)
  then show ?thesis by (metis add.right_neutral div_mult_mod_eq)
qed

lemma bank_addr_nat:
  assumes "layout k td" "b \<in> set (banks_of (td_banks td) t)"
  defines "lo \<equiv> fst (ivl k b)" and "hi \<equiv> snd (ivl k b)" and "C \<equiv> type_cov k td t" and "s \<equiv> stride k t"
  shows "bank_addr (2 ^ k) (of_nat s) idx b = Some addr \<longleftrightarrow>
    rank C lo \<le> unat idx div s \<and> unat idx div s < rank C lo + (hi - lo) \<and> unat idx mod s < 2 ^ k div 4096 \<and>
    contains b addr \<and> unat addr = (lo + (unat idx div s - rank C lo)) * 2 ^ k + unat idx mod s * 4096"
    (is "?L = ?R")
proof (cases "rank C lo \<le> unat idx div s \<and> unat idx div s < rank C lo + (hi - lo)")
  case False
  then show ?thesis
    using bank_guard [OF assms(1,2), of idx, folded lo_def hi_def C_def s_def]
    by (auto simp: bank_addr_def Let_def)
next
  case True
  note g = bank_guard [OF assms(1,2), of idx, folded lo_def hi_def C_def s_def, THEN iffD2, OF True]
  have k: "k < 64" using layoutD(2) [OF assms(1)] by simp
  note rel = bank_relative [OF assms(1,2), folded lo_def C_def s_def, OF conjunct1 [OF True]]
  have off: "(idx - granule_start_idx b) mod of_nat s < 2 ^ k div GRANULE_SIZE \<longleftrightarrow> unat idx mod s < 2 ^ k div 4096"
    using k by (simp add: word_less_nat_alt rel(1) unat_div unat_exp)
  show ?thesis
  proof (cases "unat idx mod s < 2 ^ k div 4096")
    case lt: True
    define A where "A = round_down (tb_base b) (2 ^ k) + (idx - granule_start_idx b) div of_nat s * 2 ^ k +
      push_bit 12 ((idx - granule_start_idx b) mod of_nat s)"
    note A = bank_addr_unat [OF assms(1,2), folded lo_def hi_def C_def s_def, OF conjunct1 [OF True] conjunct2 [OF True] lt,
        folded A_def]
    have "?L \<longleftrightarrow> contains b A \<and> A = addr"
      unfolding bank_addr_def Let_def off A_def [symmetric] using g lt by auto
    also have "\<dots> \<longleftrightarrow> contains b addr \<and> unat addr = unat A" by (metis word_unat_eq_iff)
    finally show ?thesis using True lt unfolding A by simp
  next
    case False
    then show ?thesis unfolding bank_addr_def Let_def off by simp
  qed
qed

lemma bank_addr_fine:
  assumes "layout k td" "b \<in> set (banks_of (td_banks td) t)"
  shows "bank_addr (2 ^ k) (of_nat (stride k t)) idx b = Some addr \<longleftrightarrow>
    contains b addr \<and> GRANULE_ALIGNED addr \<and> idx = of_nat (fine_pos k t (type_cov k td t) addr)"
proof -
  define lo hi C s where "lo = fst (ivl k b)" and "hi = snd (ivl k b)" and "C = type_cov k td t" and "s = stride k t"
  note defs = lo_def hi_def C_def s_def
  let ?r = "unat addr div 2 ^ k"
  note k = layoutD(1) [OF assms(1)]
  note nat = bank_addr_nat [OF assms, folded defs]
  have rank: "rank C r = rank C lo + (r - lo)" if "lo \<le> r" "r < hi" for r
    using rank_interval [OF finite_covered ivl_cov [OF assms(2), of k], where r = r] that by (simp add: defs)
  show ?thesis
    unfolding defs [symmetric]
  proof
    assume "bank_addr (2 ^ k) (of_nat s) idx b = Some addr"
    then have q: "rank C lo \<le> unat idx div s" "unat idx div s < rank C lo + (hi - lo)" and o: "unat idx mod s < 2 ^ k div 4096"
      and c: "contains b addr" and a: "unat addr = (lo + (unat idx div s - rank C lo)) * 2 ^ k + unat idx mod s * 4096"
      unfolding nat by auto
    have o4: "unat idx mod s * 4096 < 2 ^ k"
      using o less_eq_div_iff_mult_less_eq [of 4096 "Suc (unat idx mod s)" "2 ^ k"] by simp
    have r: "?r = lo + (unat idx div s - rank C lo)" and m: "unat addr mod 2 ^ k = unat idx mod s * 4096"
      unfolding a using o4 by simp_all
    have "rank C ?r = unat idx div s" using rank [of ?r] r q by simp
    then have "fine_pos k t C addr = s * (unat idx div s) + unat idx mod s" unfolding fine_pos_def s_def [symmetric] m by simp
    then have "fine_pos k t C addr = unat idx" by simp
    moreover have "unat addr mod 4096 = 0" unfolding a using k by (auto simp: mod_add_eq [symmetric])
    ultimately show "contains b addr \<and> GRANULE_ALIGNED addr \<and> idx = of_nat (fine_pos k t C addr)"
      using c by (simp add: GRANULE_ALIGNED_nat)
  next
    assume h: "contains b addr \<and> GRANULE_ALIGNED addr \<and> idx = of_nat (fine_pos k t C addr)"
    then have i: "unat idx = fine_pos k t C addr" using fine_pos_less(2) [OF assms] by (simp add: C_def)
    note sp = fine_pos_split(1,2) [OF k, of t C addr, folded i s_def] fine_pos_split(3) [OF k, of addr]
    have r: "lo \<le> ?r" "?r < hi" using contains_region(1,2) [OF assms] h by (simp_all add: defs)
    show "bank_addr (2 ^ k) (of_nat s) idx b = Some addr"
      unfolding nat using sp r rank [OF r] h region_decompose [of addr k] k by (simp, linarith)
  qed
qed

subsection \<open>The translations\<close>

lemma contains_unique:
  assumes "banks_ok bs" "b \<in> set bs" "c \<in> set bs" "contains b addr" "contains c addr"
  shows "b = c"
proof -
  obtain i j where ij: "i < length bs" "j < length bs" "bs ! i = b" "bs ! j = c"
    using assms(2,3) by (auto simp: in_set_conv_nth)
  note r = banks_ok_nth [OF assms(1)]
  have "\<not> i < j" "\<not> j < i"
    using r(2) [of j i] r(2) [of i j] ij contains_unat [OF r(1)] assms(4,5) by fastforce+
  then show ?thesis using ij by (metis linorder_neqE_nat)
qed

lemma fine_pos_inj:
  assumes "layout k td" "fine_pos k t (type_cov k td t) a = fine_pos k t (type_cov k td t) c"
    and "b \<in> set (banks_of (td_banks td) t)" "contains b a" "d \<in> set (banks_of (td_banks td) t)" "contains d c"
    and "GRANULE_ALIGNED a" "GRANULE_ALIGNED c"
  shows "a = c"
proof -
  note k = layoutD(1) [OF assms(1)]
  note sp = fine_pos_split(1,2) [OF k, of t "type_cov k td t"]
  have m: "unat a mod 2 ^ k div 4096 = unat c mod 2 ^ k div 4096"
    and rk: "rank (type_cov k td t) (unat a div 2 ^ k) = rank (type_cov k td t) (unat c div 2 ^ k)"
    using sp [of a] sp [of c] assms(2) by auto
  have d: "unat a div 2 ^ k = unat c div 2 ^ k"
    by (rule rank_inj [OF finite_covered contains_region(3) [OF assms(1) assms(3,4)]
          contains_region(3) [OF assms(1) assms(5,6)] rk])
  have "unat a = unat a div 2 ^ k * 2 ^ k + unat a mod 2 ^ k div 4096 * 4096"
    by (rule region_decompose [OF assms(7) k, symmetric])
  also have "\<dots> = unat c div 2 ^ k * 2 ^ k + unat c mod 2 ^ k div 4096 * 4096" by (simp only: d m)
  also have "\<dots> = unat c" by (rule region_decompose [OF assms(8) k])
  finally show ?thesis by (simp add: word_unat_eq_iff)
qed

lemma fine_idx_loop_spec:
  assumes "layout k td" "set bs \<subseteq> set (banks_of (td_banks td) t)"
  shows "fine_idx_loop (2 ^ k) (of_nat (stride k t)) idx bs = (addr, Some cat) \<longleftrightarrow>
    (\<exists>b \<in> set bs. contains b addr \<and> category b = cat \<and> GRANULE_ALIGNED addr \<and>
       idx = of_nat (fine_pos k t (type_cov k td t) addr))"
  using assms(2)
proof (induction bs)
  case (Cons b bs)
  let ?fp = "fine_pos k t (type_cov k td t)"
  have b: "b \<in> set (banks_of (td_banks td) t)" using Cons.prems by simp
  note step = bank_addr_fine [OF assms(1) b]
  show ?case
  proof (cases "bank_addr (2 ^ k) (of_nat (stride k t)) idx b")
    case None
    then have "\<not> (contains b addr \<and> GRANULE_ALIGNED addr \<and> idx = of_nat (?fp addr))" using step [of idx addr] by simp
    then show ?thesis using None Cons by (auto simp only: fine_idx_loop_bank_addr option.case list.set insert_iff)
  next
    case (Some a)
    then have a: "contains b a" "GRANULE_ALIGNED a" "idx = of_nat (?fp a)" using step [of idx a] by auto
    have "c = b \<and> addr = a" if c: "c \<in> set (b # bs)" "contains c addr" "GRANULE_ALIGNED addr" "idx = of_nat (?fp addr)" for c
    proof -
      have ct: "c \<in> set (banks_of (td_banks td) t)" using c(1) Cons.prems by auto
      have "?fp addr = ?fp a"
        using a(3) c(4) fine_pos_less(2) [OF assms(1) b a(1)] fine_pos_less(2) [OF assms(1) ct c(2)] by simp
      then have "addr = a" by (rule fine_pos_inj [OF assms(1) _ ct c(2) b a(1) c(3) a(2)])
      then show ?thesis using contains_unique [OF layoutD(5) [OF assms(1)] ct b] c(2) a(1) by simp
    qed
    then show ?thesis
      using Some a unfolding fine_idx_loop_bank_addr by auto
  qed
qed simp

lemma find_addr_none:
  assumes "layout k td" "\<forall>b \<in> set (banks_of (td_banks td) t). \<not> contains b addr"
  shows "tracking_region_find_addr td addr t = Some None"
  using find_addr_loop_banks(2) [OF layoutD(5) [OF assms(1)] _ assms(2)] layoutD(7) [OF assms(1)]
    fine_stride [OF layoutD(1) [OF assms(1)], of t]
  by (cases "banks_of (td_banks td) t = []") (simp_all add: tracking_region_find_addr_def Let_def)

lemma find_addr_spec:
  assumes "layout k td"
  shows "tracking_region_find_addr td addr t = Some (Some (b, i, j)) \<longleftrightarrow>
    b \<in> set (banks_of (td_banks td) t) \<and> contains b addr \<and>
    i = of_nat (rank (all_cov k td) (unat addr div 2 ^ k)) \<and> j = of_nat (fine_pos k t (type_cov k td t) addr)"
    and "\<exists>res. tracking_region_find_addr td addr t = Some res"
proof -
  have "tracking_region_find_addr td addr t = Some None \<and> (\<forall>b \<in> set (banks_of (td_banks td) t). \<not> contains b addr) \<or>
    (\<exists>b \<in> set (banks_of (td_banks td) t). contains b addr \<and> tracking_region_find_addr td addr t =
      Some (Some (b, of_nat (rank (all_cov k td) (unat addr div 2 ^ k)), of_nat (fine_pos k t (type_cov k td t) addr))))"
    using find_addr_none [OF assms, of t addr] find_addr_bank [OF assms, of _ t addr] by blast
  then show "\<exists>res. tracking_region_find_addr td addr t = Some res"
    "tracking_region_find_addr td addr t = Some (Some (b, i, j)) \<longleftrightarrow>
      b \<in> set (banks_of (td_banks td) t) \<and> contains b addr \<and>
      i = of_nat (rank (all_cov k td) (unat addr div 2 ^ k)) \<and> j = of_nat (fine_pos k t (type_cov k td t) addr)"
    using contains_unique [OF layoutD(5) [OF assms]] by fastforce+
qed

lemma fine_roundtrip:
  assumes "layout k td"
  shows "tracking_region_fine_addr_to_idx td addr t = Some (idx, Some cat) \<longleftrightarrow>
    tracking_region_fine_idx_to_addr td idx t = Some (addr, Some cat)"
proof -
  note L = layoutD [OF assms]
  let ?fp = "fine_pos k t (type_cov k td t)" and ?bs = "banks_of (td_banks td) t"
  let ?hit = "\<exists>b \<in> set ?bs. contains b addr \<and> category b = cat \<and> GRANULE_ALIGNED addr \<and> idx = of_nat (?fp addr)"
  have "tracking_region_fine_addr_to_idx td addr t = Some (idx, Some cat) \<longleftrightarrow> ?hit"
  proof (cases "\<exists>b \<in> set ?bs. contains b addr")
    case True
    then obtain b where b: "b \<in> set ?bs" "contains b addr" by blast
    then have "?hit \<longleftrightarrow> category b = cat \<and> GRANULE_ALIGNED addr \<and> idx = of_nat (?fp addr)"
      using contains_unique [OF L(5) _ b(1) _ b(2)] by blast
    then show ?thesis
      using L(8) find_addr_bank [OF assms b] unfolding tracking_region_fine_addr_to_idx_def by simp blast
  next
    case False
    then show ?thesis
      using L(8) find_addr_none [OF assms, of t addr] by (auto simp: tracking_region_fine_addr_to_idx_def)
  qed
  moreover have "idx < num_fine_of td t" if hit: ?hit
  proof -
    obtain b where b: "b \<in> set ?bs" "contains b addr" "idx = of_nat (?fp addr)" using hit by blast
    have "num_fine_of td t = of_nat (stride k t * card (type_cov k td t))" using assms by (simp add: layout_def)
    then have "unat (num_fine_of td t) = stride k t * card (type_cov k td t)" by (simp only: unat_counts(2) [OF L(4,1)])
    then show ?thesis using fine_pos_less [OF assms b(1,2)] b(3) by (simp add: word_less_nat_alt)
  qed
  moreover have "tracking_region_fine_idx_to_addr td idx t = Some (addr, Some cat) \<longleftrightarrow> idx < num_fine_of td t \<and> ?hit"
    using L(7,8) fine_stride [OF L(1), of t] fine_idx_loop_spec [OF assms order_refl, of t idx addr cat]
    by (simp add: tracking_region_fine_idx_to_addr_def not_le [symmetric])
  ultimately show ?thesis by blast
qed

lemma addr_to_idx_spec:
  assumes "layout k td" "tracking_region_addr_to_idx td addr t = Some (idx, Some cat)"
  shows "unat addr div 2 ^ k \<in> all_cov k td" "idx = of_nat (rank (all_cov k td) (unat addr div 2 ^ k))"
    "\<exists>b \<in> set (banks_of (td_banks td) t). contains b addr \<and> category b = cat"
proof -
  obtain b j where b: "tracking_region_find_addr td addr t = Some (Some (b, idx, j))" "category b = cat"
    using assms(2) unfolding tracking_region_addr_to_idx_def
    by (auto simp: bind_eq_Some_conv split: if_splits option.splits)
  note sp = b(1) [unfolded find_addr_spec(1) [OF assms(1)]]
  show "\<exists>b \<in> set (banks_of (td_banks td) t). contains b addr \<and> category b = cat" using sp b(2) by blast
  show "idx = of_nat (rank (all_cov k td) (unat addr div 2 ^ k))" using sp by blast
  show "unat addr div 2 ^ k \<in> all_cov k td" using sp contains_region(4) [OF assms(1)] by blast
qed

lemma region_indices:
  assumes "layout k td" "tracking_region_addr_to_idx td a t = Some (i, Some c)"
    and "tracking_region_addr_to_idx td b u = Some (j, Some d)"
  shows "i < num_tracking_regions td" "i = j \<longleftrightarrow> round_down a (tracking_region_size td) = round_down b (tracking_region_size td)"
proof -
  note L = layoutD [OF assms(1)]
  let ?C = "all_cov k td" and ?r = "unat a div 2 ^ k" and ?q = "unat b div 2 ^ k"
  note A = addr_to_idx_spec [OF assms(1,2)] and B = addr_to_idx_spec [OF assms(1,3)]
  have less: "rank ?C r < card ?C" if "r \<in> ?C" for r using that by (intro rank_less_card) auto
  have c: "unat (of_nat (card ?C) :: u64) = card ?C" by (rule unat_counts(1) [OF L(4,1)])
  have w: "unat (of_nat (rank ?C r) :: u64) = rank ?C r" if "r \<in> ?C" for r
    using less [OF that] card_cov(1) [OF L(4,1)] by (simp add: unsigned_of_nat take_bit_nat_eq_self)
  have "num_tracking_regions td = of_nat (card ?C)" using assms(1) by (simp add: layout_def)
  then show "i < num_tracking_regions td"
    using less [OF A(1)] by (simp only: word_less_nat_alt c A(2) w [OF A(1)])
  have "i = j \<longleftrightarrow> rank ?C ?r = rank ?C ?q" unfolding A(2) B(2) word_unat_eq_iff w [OF A(1)] w [OF B(1)] ..
  also have "\<dots> \<longleftrightarrow> ?r = ?q" using rank_inj [OF _ A(1) B(1)] by auto
  also have "\<dots> \<longleftrightarrow> round_down a (2 ^ k) = round_down b (2 ^ k)"
    using L(2) by (simp add: word_unat_eq_iff unat_round_down_exp)
  finally show "i = j \<longleftrightarrow> round_down a (tracking_region_size td) = round_down b (tracking_region_size td)"
    by (simp only: L(3))
qed

subsection \<open>A small platform\<close>

text \<open>Two regions of conventional memory and one granule of device memory below them.\<close>

definition sample_tracking :: tracking_region_data where
  "sample_tracking = \<lparr>
     td_banks = \<lparr>
       conv_banks = [\<lparr>tb_base = 0x80000000, tb_size = 0x80000000, granule_start_idx = 0, tracking_start_idx = 1, category = 0\<rparr>],
       dev_banks = [\<lparr>tb_base = 0x40001000, tb_size = 0x1000, granule_start_idx = 0, tracking_start_idx = 0, category = 2\<rparr>]\<rparr>,
     tracking_region_size = 0x40000000, num_tracking_regions = 3,
     num_tracking_granules = 524288, num_tracking_dev_granules = 262144,
     tracking_initialized = False, tracking_regions = None,
     tracking_region_array = \<lparr>map_va = 0, map_size = 0x10000000, map_state = TRACKING_REGIONS_RESERVED\<rparr>,
     granule_array_tr = \<lparr>map_va = 0, map_size = 0x10000000, map_state = TRACKING_REGIONS_RESERVED\<rparr>,
     dev_granule_array_tr = \<lparr>map_va = 0, map_size = 0x10000000, map_state = TRACKING_REGIONS_RESERVED\<rparr>\<rparr>"

lemma all_mem_type: "(\<forall>t. P t) \<longleftrightarrow> P TR_MEM_TYPE_CONV \<and> P TR_MEM_TYPE_DEV"
  by (metis tr_mem_type.exhaust)

lemma sample_layout: "layout 30 sample_tracking"
proof -
  define c d where "c = hd (conv_banks (td_banks sample_tracking))" and "d = hd (dev_banks (td_banks sample_tracking))"
  have banks: "conv_banks (td_banks sample_tracking) = [c]" "dev_banks (td_banks sample_tracking) = [d]"
    by (simp_all add: c_def d_def sample_tracking_def)
  have ivl: "ivl 30 c = (2, 4)" "ivl 30 d = (1, 2)" by (simp_all add: c_def d_def sample_tracking_def ivl_def)
  have cov: "{2..<4} \<union> {1..<2} = {1, 2, 3 :: nat}" "{2..<4} = {2, 3 :: nat}" "{1..<2} = {1 :: nat}" by auto
  have rank: "rank {1, 2, 3} 2 = 1" "rank {1, 2, 3} 1 = 0" "rank {2, 3} 2 = 0" "rank {1} 1 = 0"
  proof -
    have "{c \<in> {1, 2, 3 :: nat}. c < 2} = {1}" "{c \<in> {1, 2, 3 :: nat}. c < 1} = {}"
      "{c \<in> {2, 3 :: nat}. c < 2} = {}" "{c \<in> {1 :: nat}. c < 1} = {}" by auto
    then show "rank {1, 2, 3} 2 = 1" "rank {1, 2, 3} 1 = 0" "rank {2, 3} 2 = 0" "rank {1} 1 = 0"
      by (simp_all only: rank_def card.empty card_1_singleton_iff) auto
  qed
  have "bank_ok c" "bank_ok d" "bank_before d c"
    by (simp_all add: bank_ok_def bank_in_range_def GRANULE_ALIGNED_nat bank_before_def c_def d_def sample_tracking_def)
  then have ok: "storage_ok (td_banks sample_tracking)"
    by (simp add: storage_ok_def banks_ok_def apart_def banks)
  have start: "granule_start_idx c = 0" "tracking_start_idx c = 1" "granule_start_idx d = 0" "tracking_start_idx d = 0"
    "tracking_region_size sample_tracking = 2 ^ 30" "num_tracking_regions sample_tracking = 3"
    "num_tracking_granules sample_tracking = 524288" "num_tracking_dev_granules sample_tracking = 262144"
    by (simp_all add: c_def d_def sample_tracking_def)
  show ?thesis
    unfolding layout_def all_mem_type banks_of.simps num_fine_of.simps
    using ok by (simp add: banks ivl cov rank start stride_def del: One_nat_def)
qed

subsection \<open>Properties\<close>

text \<open>
  C7. For every valid description of the platform (aligned disjoint banks inside the 52-bit
  physical address space, at most 64 of either memory type), and when virtual address space can be
  reserved, the initialisation succeeds without a failing assertion. It keeps exactly the
  populated banks and establishes the layout for 1 GB regions: every bank starts at the rank of
  its first region, shared between all banks and, scaled by the stride, per memory type. The
  entries of the layout lie within the reserved arrays. Every sequence of configurations of the
  two region sizes afterwards succeeds, keeps the banks, and establishes the layout of the last size
  within the same arrays. Another size is refused without any effect.
\<close>

theorem tracking_layout_established:
  assumes "data \<noteq> 0" "0x2000 \<le> data_size" "GRANULE_ALIGNED data" "tracking_region_size td = 0"
    and "\<not> tracking_initialized td"
    and "platform_ok conv ncoh coh" "\<And>a n. fst (fst (arch_reserve a n)) = 0"
    and "map_size (tracking_region_array td) = 0" "map_size (granule_array_tr td) = 0" "map_size (dev_granule_array_tr td) = 0"
  shows "\<exists>td'. tracking_region_indices_init arch_reserve a data data_size td conv ncoh coh = Some (0, td') \<and>
    layout 30 td' \<and> within_reserved td' \<and>
    set (map (\<lambda>b. (tb_base b, tb_size b)) (conv_banks (td_banks td'))) =
      set (map (\<lambda>b. (pb_base b, pb_size b)) (populated conv)) \<and>
    set (map (\<lambda>b. (tb_base b, tb_size b, category b)) (dev_banks (td_banks td'))) =
      set (map (\<lambda>b. (pb_base b, pb_size b, 1)) (populated ncoh) @ map (\<lambda>b. (pb_base b, pb_size b, 2)) (populated coh)) \<and>
    (\<forall>ks. set ks \<subseteq> {21, 30} \<longrightarrow> (\<exists>td''. configure_all (map ((^) 2) ks) td' = Some td'' \<and>
      layout (last (30 # ks)) td'' \<and> within_reserved td'' \<and> same_storage (td_banks td'') (td_banks td'))) \<and>
    (\<forall>n. n \<noteq> 2 ^ 21 \<and> n \<noteq> 2 ^ 30 \<longrightarrow> tracking_region_configure (Some td') n = Some (- EINVAL, Some td'))"
proof -
  obtain td' where td': "tracking_region_indices_init arch_reserve a data data_size td conv ncoh coh = Some (0, td')"
    "layout 30 td'" "capacity td'" "tracking_initialized td' = tracking_initialized td"
    "set (map (\<lambda>b. (tb_base b, tb_size b)) (conv_banks (td_banks td'))) =
      set (map (\<lambda>b. (pb_base b, pb_size b)) (populated conv))"
    "set (map (\<lambda>b. (tb_base b, tb_size b, category b)) (dev_banks (td_banks td'))) =
      set (map (\<lambda>b. (pb_base b, pb_size b, 1)) (populated ncoh) @ map (\<lambda>b. (pb_base b, pb_size b, 2)) (populated coh))"
    using init_layout [where arch_reserve = arch_reserve and a = a, OF assms(1-4,6,7-10)] by blast
  moreover have "\<not> tracking_initialized td'" using td'(4) assms(5) by simp
  ultimately show ?thesis
    using configure_all_layout [OF td'(2,3)] configure_unsupported capacity_within [OF td'(2,3)] by blast
qed

theorem tracking_layout_established_witness:
  "\<exists>td'. tracking_region_indices_init (\<lambda>u n. ((0, 0x1000), u)) () 0x88000000 0x2000
      (sample_tracking\<lparr>td_banks := \<lparr>conv_banks = [], dev_banks = []\<rparr>, tracking_region_size := 0,
         tracking_region_array := \<lparr>map_va = 0, map_size = 0, map_state = TRACKING_REGIONS_RESERVED\<rparr>,
         granule_array_tr := \<lparr>map_va = 0, map_size = 0, map_state = TRACKING_REGIONS_RESERVED\<rparr>,
         dev_granule_array_tr := \<lparr>map_va = 0, map_size = 0, map_state = TRACKING_REGIONS_RESERVED\<rparr>\<rparr>)
      (Some [\<lparr>pb_base = 0x880000000, pb_size = 0x80000000\<rparr>, \<lparr>pb_base = 0x80000000, pb_size = 0x7C000000\<rparr>], 2)
      (None, 0) (Some [\<lparr>pb_base = 0x40001000, pb_size = 0x1000\<rparr>], 1) = Some (0, td') \<and> layout 30 td' \<and>
    (\<exists>td''. configure_all [2 ^ 21, 2 ^ 30] td' = Some td'' \<and> layout 30 td'' \<and> within_reserved td'')"
proof -
  let ?td = "sample_tracking\<lparr>td_banks := \<lparr>conv_banks = [], dev_banks = []\<rparr>, tracking_region_size := 0,
         tracking_region_array := \<lparr>map_va = 0, map_size = 0, map_state = TRACKING_REGIONS_RESERVED\<rparr>,
         granule_array_tr := \<lparr>map_va = 0, map_size = 0, map_state = TRACKING_REGIONS_RESERVED\<rparr>,
         dev_granule_array_tr := \<lparr>map_va = 0, map_size = 0, map_state = TRACKING_REGIONS_RESERVED\<rparr>\<rparr>"
  have plat: "platform_ok (Some [\<lparr>pb_base = 0x880000000, pb_size = 0x80000000\<rparr>, \<lparr>pb_base = 0x80000000, pb_size = 0x7C000000\<rparr>], 2)
      (None, 0) (Some [\<lparr>pb_base = 0x40001000, pb_size = 0x1000\<rparr>], 1)"
    by (simp add: platform_ok_def populated_def plat_ok_def plat_disjoint_def GRANULE_ALIGNED_nat)
  have h: "(0x88000000 :: u64) \<noteq> 0" "(0x2000 :: u64) \<le> 0x2000" "GRANULE_ALIGNED 0x88000000" "tracking_region_size ?td = 0"
    "\<not> tracking_initialized ?td" "map_size (tracking_region_array ?td) = 0" "map_size (granule_array_tr ?td) = 0"
    "map_size (dev_granule_array_tr ?td) = 0"
    by (simp_all add: GRANULE_ALIGNED_nat sample_tracking_def)
  have res: "fst (fst ((\<lambda>u n :: u64. ((0 :: int, 0x1000 :: u64), u)) (a :: unit) n)) = 0" for a n by simp
  obtain td' where td': "tracking_region_indices_init (\<lambda>u n. ((0, 0x1000), u)) () 0x88000000 0x2000 ?td
      (Some [\<lparr>pb_base = 0x880000000, pb_size = 0x80000000\<rparr>, \<lparr>pb_base = 0x80000000, pb_size = 0x7C000000\<rparr>], 2)
      (None, 0) (Some [\<lparr>pb_base = 0x40001000, pb_size = 0x1000\<rparr>], 1) = Some (0, td')" "layout 30 td'"
    and conf: "\<And>ks. set ks \<subseteq> {21, 30} \<Longrightarrow> \<exists>td''. configure_all (map ((^) 2) ks) td' = Some td'' \<and>
      layout (last (30 # ks)) td'' \<and> within_reserved td''"
    using tracking_layout_established [where arch_reserve = "\<lambda>u n. ((0, 0x1000), u)" and a = "()",
      OF h(1-5) plat res h(6-8)] by blast
  from conf [of "[21, 30]"] td' show ?thesis by auto
qed

text \<open>
  C33. In an established layout the translation of a granule address to its fine descriptor index
  and the translation of an index to its address are inverse to each other: one gives a result
  exactly when the other does, with the same memory category. So no two granules of a memory
  type share a descriptor, and padding indices have no address.
\<close>

theorem tracking_fine_index_roundtrip:
  assumes "layout k td"
  shows "tracking_region_fine_addr_to_idx td addr type = Some (idx, Some cat) \<longleftrightarrow>
    tracking_region_fine_idx_to_addr td idx type = Some (addr, Some cat)"
  by (rule fine_roundtrip [OF assms])

theorem tracking_fine_index_roundtrip_witness:
  "tracking_region_fine_idx_to_addr sample_tracking 0x40003 TR_MEM_TYPE_CONV = Some (0xC0003000, Some 0) \<and>
   tracking_region_fine_addr_to_idx sample_tracking 0xC0003000 TR_MEM_TYPE_CONV = Some (0x40003, Some 0)"
proof -
  have "tracking_region_fine_idx_to_addr sample_tracking 0x40003 TR_MEM_TYPE_CONV = Some (0xC0003000, Some 0)"
    by (simp add: tracking_region_fine_idx_to_addr_def tracking_region_get_size_def sample_tracking_def
        tracking_region_fine_stride_def region_size_exp round_up_def round_down_def push_bit_eq_mult)
  then show ?thesis
    using tracking_fine_index_roundtrip [OF sample_layout, of "0xC0003000" TR_MEM_TYPE_CONV "0x40003" 0] by simp
qed

text \<open>
  C34. In an established layout the tracking-region index of an address, of either memory type,
  lies inside the region array, and two addresses have the same index exactly when they lie in
  the same aligned region. Banks of both types that meet in a region share its entry.
\<close>

theorem tracking_region_index_region:
  assumes "layout k td" "tracking_region_addr_to_idx td a t = Some (i, Some c)"
    and "tracking_region_addr_to_idx td b u = Some (j, Some d)"
  shows "i < num_tracking_regions td \<and>
    (i = j \<longleftrightarrow> round_down a (tracking_region_size td) = round_down b (tracking_region_size td))"
  using region_indices [OF assms] by blast

theorem tracking_region_index_region_witness:
  "layout 30 sample_tracking \<and>
   tracking_region_addr_to_idx sample_tracking 0xC0003000 TR_MEM_TYPE_CONV = Some (2, Some 0) \<and>
   tracking_region_addr_to_idx sample_tracking 0x40001000 TR_MEM_TYPE_DEV = Some (0, Some 2) \<and>
   round_down 0xC0003000 (tracking_region_size sample_tracking) \<noteq> round_down 0x40001000 (tracking_region_size sample_tracking)"
proof -
  have "tracking_region_addr_to_idx sample_tracking 0xC0003000 TR_MEM_TYPE_CONV = Some (2, Some 0)"
    "tracking_region_addr_to_idx sample_tracking 0x40001000 TR_MEM_TYPE_DEV = Some (0, Some 2)"
    by (simp_all add: tracking_region_addr_to_idx_def tracking_region_find_addr_def tracking_region_get_size_def
        sample_tracking_def tracking_region_fine_stride_def region_size_exp round_up_def round_down_def
        find_addr_loop.simps GRANULE_ALIGNED_nat)
  then show ?thesis
    using tracking_region_index_region [OF sample_layout, of "0xC0003000" TR_MEM_TYPE_CONV 2 0 "0x40001000" TR_MEM_TYPE_DEV 0 2]
      sample_layout by auto
qed

end
