(* ===== verification/Tr_Granule.thy ===== *)
theory Tr_Granule
  imports Tracking_Props Rmi_Status S2tte
begin

text \<open>
  Looking up, locking and publishing granules through the tracking regions
  (\<^verbatim>\<open>src/lib/granule/src/tr_granule.c\<close>).

  The state is the tracking data with its region array and the two arrays of fine descriptors.
  A pointer to a descriptor is a reference into these arrays. The operations run on one PE;
  waiting for a lock that is already held never ends and is \<open>None\<close>, as is a failed assertion.
  The reader locks of the regions are taken and released inside each operation and are not part
  of the state; neither is the mapping of the pages behind the arrays.
\<close>

subsection \<open>References to granules\<close>

record granule_tracking =
  gt_data :: tracking_region_data
  gt_granules :: "u64 \<Rightarrow> granule"
  gt_dev_granules :: "u64 \<Rightarrow> dev_granule"

datatype granule_ref = Fine u64 | Coarse u64

definition region_at :: "granule_tracking \<Rightarrow> u64 \<Rightarrow> tracking_region option" where
  "region_at s tr = do { trs \<leftarrow> tracking_regions (gt_data s); arr_get trs (unat tr) }"

definition region_put :: "granule_tracking \<Rightarrow> u64 \<Rightarrow> tracking_region \<Rightarrow> granule_tracking option" where
  "region_put s tr v = do {
     trs \<leftarrow> tracking_regions (gt_data s);
     trs' \<leftarrow> arr_set trs (unat tr) v;
     Some (s\<lparr>gt_data := (gt_data s)\<lparr>tracking_regions := Some trs'\<rparr>\<rparr>)
   }"

fun granule_at :: "granule_tracking \<Rightarrow> granule_ref \<Rightarrow> granule option" where
  "granule_at s (Fine idx) = Some (gt_granules s idx)"
| "granule_at s (Coarse tr) = map_option coarse_granule (region_at s tr)"

fun granule_put :: "granule_tracking \<Rightarrow> granule_ref \<Rightarrow> granule \<Rightarrow> granule_tracking option" where
  "granule_put s (Fine idx) g = Some (s\<lparr>gt_granules := (gt_granules s)(idx := g)\<rparr>)"
| "granule_put s (Coarse tr) g = do {
     r \<leftarrow> region_at s tr; region_put s tr (r\<lparr>coarse_granule := g\<rparr>) }"

fun dev_granule_at :: "granule_tracking \<Rightarrow> granule_ref \<Rightarrow> dev_granule option" where
  "dev_granule_at s (Fine idx) = Some (gt_dev_granules s idx)"
| "dev_granule_at s (Coarse tr) = map_option coarse_dev_granule (region_at s tr)"

fun dev_granule_put :: "granule_tracking \<Rightarrow> granule_ref \<Rightarrow> dev_granule \<Rightarrow> granule_tracking option" where
  "dev_granule_put s (Fine idx) g = Some (s\<lparr>gt_dev_granules := (gt_dev_granules s)(idx := g)\<rparr>)"
| "dev_granule_put s (Coarse tr) g = do {
     r \<leftarrow> region_at s tr; region_put s tr (r\<lparr>coarse_dev_granule := g\<rparr>) }"

text \<open>Apply an operation of \<^verbatim>\<open>granule.h\<close> or \<^verbatim>\<open>dev_granule.h\<close> to a referenced descriptor.\<close>

definition on_granule :: "(granule \<Rightarrow> granule option) \<Rightarrow> granule_tracking \<Rightarrow> granule_ref \<Rightarrow> granule_tracking option" where
  "on_granule f s r = do { g \<leftarrow> granule_at s r; g' \<leftarrow> f g; granule_put s r g' }"

definition on_dev_granule :: "(dev_granule \<Rightarrow> dev_granule option) \<Rightarrow> granule_tracking \<Rightarrow> granule_ref \<Rightarrow> granule_tracking option" where
  "on_dev_granule f s r = do { g \<leftarrow> dev_granule_at s r; g' \<leftarrow> f g; dev_granule_put s r g' }"

subsection \<open>Acquiring a granule\<close>

definition granule_lock_on_state_match :: "granule \<Rightarrow> u8 \<Rightarrow> (bool \<times> granule) option" where
  "granule_lock_on_state_match g expected_state = (
     if STATE g \<noteq> expected_state then Some (False, g)
     else do {
       (acquired, g) \<leftarrow> granule_bitlock_try_acquire g;
       c_assert acquired;
       state \<leftarrow> granule_get_state g;
       (if state \<noteq> expected_state then do { g \<leftarrow> granule_bitlock_release g; Some (False, g) }
        else do { granule_assert_unlocked_invariants g expected_state; Some (True, g) })
     })"

definition granule_lock :: "granule \<Rightarrow> u8 \<Rightarrow> granule option" where
  "granule_lock g expected_state = do {
     (acquired, g) \<leftarrow> granule_bitlock_try_acquire g;
     c_assert acquired;
     state \<leftarrow> granule_get_state g;
     c_assert (state = expected_state);
     granule_assert_unlocked_invariants g expected_state;
     Some g
   }"

definition dev_granule_lock_on_state_match :: "dev_granule \<Rightarrow> u8 \<Rightarrow> (bool \<times> dev_granule) option" where
  "dev_granule_lock_on_state_match g expected_state = (
     if DEV_STATE g \<noteq> expected_state then Some (False, g)
     else do {
       (acquired, g) \<leftarrow> dev_granule_bitlock_try_acquire g;
       c_assert acquired;
       state \<leftarrow> dev_granule_get_state g;
       (if state \<noteq> expected_state then do { g \<leftarrow> dev_granule_bitlock_release g; Some (False, g) }
        else do { dev_granule_assert_unlocked_invariants g expected_state; Some (True, g) })
     })"

definition dev_granule_lock :: "dev_granule \<Rightarrow> u8 \<Rightarrow> dev_granule option" where
  "dev_granule_lock g expected_state = do {
     (acquired, g) \<leftarrow> dev_granule_bitlock_try_acquire g;
     c_assert acquired;
     state \<leftarrow> dev_granule_get_state g;
     c_assert (state = expected_state);
     dev_granule_assert_unlocked_invariants g expected_state;
     Some g
   }"

text \<open>The state-matching acquisition of a referenced descriptor.\<close>

definition lock_match :: "granule_tracking \<Rightarrow> granule_ref \<Rightarrow> u8 \<Rightarrow> (bool \<times> granule_tracking) option" where
  "lock_match s r expected_state = do {
     g \<leftarrow> granule_at s r;
     (ok, g) \<leftarrow> granule_lock_on_state_match g expected_state;
     s \<leftarrow> granule_put s r g;
     Some (ok, s)
   }"

definition dev_lock_match :: "granule_tracking \<Rightarrow> granule_ref \<Rightarrow> u8 \<Rightarrow> (bool \<times> granule_tracking) option" where
  "dev_lock_match s r expected_state = do {
     g \<leftarrow> dev_granule_at s r;
     (ok, g) \<leftarrow> dev_granule_lock_on_state_match g expected_state;
     s \<leftarrow> dev_granule_put s r g;
     Some (ok, s)
   }"

subsection \<open>Fine descriptors and their addresses\<close>

definition tr_fine_granule_from_idx :: "tracking_region_data \<Rightarrow> u64 \<Rightarrow> granule_ref option" where
  "tr_fine_granule_from_idx td idx = do {
     c_assert (map_va (granule_array_tr td) \<noteq> 0 \<and> idx < num_tracking_granules td);
     Some (Fine idx)
   }"

definition tr_fine_granule_to_idx :: "tracking_region_data \<Rightarrow> granule_ref \<Rightarrow> u64 option" where
  "tr_fine_granule_to_idx td g = (case g of
     Fine idx \<Rightarrow> do { c_assert (map_va (granule_array_tr td) \<noteq> 0); c_assert (idx < num_tracking_granules td); Some idx }
   | Coarse tr \<Rightarrow> None)"

definition tr_fine_dev_granule_from_idx :: "tracking_region_data \<Rightarrow> u64 \<Rightarrow> granule_ref option" where
  "tr_fine_dev_granule_from_idx td idx = do {
     c_assert (map_va (dev_granule_array_tr td) \<noteq> 0 \<and> idx < num_tracking_dev_granules td);
     Some (Fine idx)
   }"

definition tr_fine_dev_granule_to_idx :: "tracking_region_data \<Rightarrow> granule_ref \<Rightarrow> u64 option" where
  "tr_fine_dev_granule_to_idx td g = (case g of
     Fine idx \<Rightarrow> do { c_assert (map_va (dev_granule_array_tr td) \<noteq> 0); c_assert (idx < num_tracking_dev_granules td); Some idx }
   | Coarse tr \<Rightarrow> None)"

definition tr_tracking_size_valid :: "tracking_region_data \<Rightarrow> u64 \<Rightarrow> bool option" where
  "tr_tracking_size_valid td sz = (
     if sz = GRANULE_SIZE then Some True
     else do { region_size \<leftarrow> tracking_region_get_size td; Some (sz = region_size) })"

definition tr_encode_lookup_result :: "u64 \<Rightarrow> u64 \<Rightarrow> u64 option" where
  "tr_encode_lookup_result ret addr =
     (if ret = RMI_ERROR_TRACKING then pack_return_code_level_addr RMI_ERROR_TRACKING 0 addr else Some ret)"

text \<open>The status and, on success, the granularity in use.\<close>

definition tr_active_tracking_size :: "tracking_region_data \<Rightarrow> tracking_region \<Rightarrow> (u64 \<times> u64 option) option" where
  "tr_active_tracking_size td tr = (
     if tracking_region_transition_pending tr then Some (RMI_BLOCKED, None)
     else let state = tracking_region_get_state tr
       in if state = trs_fine then Some (RMI_SUCCESS, Some GRANULE_SIZE)
          else if state = trs_coarse then do {
            region_size \<leftarrow> tracking_region_get_size td;
            Some (RMI_SUCCESS, Some region_size)
          }
          else Some (RMI_ERROR_TRACKING, None))"

definition tr_dev_granule_coh_type :: "u8 \<Rightarrow> dev_coh_type option" where
  "tr_dev_granule_coh_type cat = do {
     c_assert (cat = RMI_MEM_CATEGORY_DEV_COH \<or> cat = RMI_MEM_CATEGORY_DEV_NCOH);
     Some (if cat = RMI_MEM_CATEGORY_DEV_COH then DEV_MEM_COHERENT else DEV_MEM_NON_COHERENT)
   }"

definition tr_granule_addr :: "tracking_region_data \<Rightarrow> granule_ref \<Rightarrow> u64 option" where
  "tr_granule_addr td g = do {
     idx \<leftarrow> tr_fine_granule_to_idx td g;
     (addr, _) \<leftarrow> tracking_region_fine_idx_to_addr td idx TR_MEM_TYPE_CONV;
     c_assert (addr \<noteq> UINT64_MAX);
     Some addr
   }"

definition tr_dev_granule_addr :: "tracking_region_data \<Rightarrow> granule_ref \<Rightarrow> dev_coh_type \<Rightarrow> u64 option" where
  "tr_dev_granule_addr td g type = do {
     idx \<leftarrow> tr_fine_dev_granule_to_idx td g;
     (addr, cat) \<leftarrow> tracking_region_fine_idx_to_addr td idx TR_MEM_TYPE_DEV;
     c_assert (addr \<noteq> UINT64_MAX);
     cat \<leftarrow> cat;
     t \<leftarrow> tr_dev_granule_coh_type cat;
     c_assert (type = t);
     Some addr
   }"

definition tr_addr_to_granule :: "tracking_region_data \<Rightarrow> u64 \<Rightarrow> granule_ref option" where
  "tr_addr_to_granule td addr = do {
     c_assert (GRANULE_ALIGNED addr);
     (idx, _) \<leftarrow> tracking_region_fine_addr_to_idx td addr TR_MEM_TYPE_CONV;
     c_assert (idx \<noteq> UINT64_MAX);
     tr_fine_granule_from_idx td idx
   }"

definition tr_addr_to_dev_granule :: "tracking_region_data \<Rightarrow> u64 \<Rightarrow> (granule_ref \<times> dev_coh_type) option" where
  "tr_addr_to_dev_granule td addr = do {
     c_assert (GRANULE_ALIGNED addr);
     (idx, cat) \<leftarrow> tracking_region_fine_addr_to_idx td addr TR_MEM_TYPE_DEV;
     c_assert (idx \<noteq> UINT64_MAX);
     cat \<leftarrow> cat;
     type \<leftarrow> tr_dev_granule_coh_type cat;
     g \<leftarrow> tr_fine_dev_granule_from_idx td idx;
     Some (g, type)
   }"

subsection \<open>Locking owned granules\<close>

definition tr_lock_owned_granule ::
  "granule_tracking \<Rightarrow> u64 \<Rightarrow> u64 \<Rightarrow> u8 \<Rightarrow> (granule_ref \<times> granule_tracking) option" where
  "tr_lock_owned_granule s addr tracking_size expected_state = do {
     found \<leftarrow> tracking_region_find (Some (gt_data s)) addr TR_MEM_TYPE_CONV;
     tr \<leftarrow> found;
     c_assert (GRANULE_ALIGNED addr);
     valid \<leftarrow> tr_tracking_size_valid (gt_data s) tracking_size;
     c_assert valid;
     r \<leftarrow> region_at s tr;
     g \<leftarrow> (if tracking_size = GRANULE_SIZE then do {
            c_assert (tracking_region_get_state r = trs_fine);
            tr_addr_to_granule (gt_data s) addr
          } else do {
            c_assert (tracking_region_get_state r = trs_coarse);
            Some (Coarse tr)
          });
     s \<leftarrow> on_granule (\<lambda>g. granule_lock g expected_state) s g;
     Some (g, s)
   }"

definition tr_lock_owned_dev_granule ::
  "granule_tracking \<Rightarrow> u64 \<Rightarrow> u64 \<Rightarrow> u8 \<Rightarrow> (granule_ref \<times> granule_tracking) option" where
  "tr_lock_owned_dev_granule s addr tracking_size expected_state = do {
     found \<leftarrow> tracking_region_find (Some (gt_data s)) addr TR_MEM_TYPE_DEV;
     tr \<leftarrow> found;
     c_assert (GRANULE_ALIGNED addr);
     valid \<leftarrow> tr_tracking_size_valid (gt_data s) tracking_size;
     c_assert valid;
     r \<leftarrow> region_at s tr;
     g \<leftarrow> (if tracking_size = GRANULE_SIZE then do {
            c_assert (tracking_region_get_state r = trs_fine);
            (g, type) \<leftarrow> tr_addr_to_dev_granule (gt_data s) addr;
            Some g
          } else do {
            c_assert (tracking_region_get_state r = trs_coarse);
            Some (Coarse tr)
          });
     s \<leftarrow> on_dev_granule (\<lambda>g. dev_granule_lock g expected_state) s g;
     Some (g, s)
   }"

subsection \<open>Selecting a granule\<close>

text \<open>The status and the selected granule; \<open>None\<close> is \<^verbatim>\<open>NULL\<close>.\<close>

definition tr_select_granule ::
  "granule_tracking \<Rightarrow> u64 \<Rightarrow> u64 \<Rightarrow> u64 \<Rightarrow> (u64 \<times> granule_ref option) option" where
  "tr_select_granule s tr addr tracking_size = do {
     r \<leftarrow> region_at s tr;
     (if tracking_region_transition_pending r then Some (RMI_BLOCKED, None) else do {
        region_size \<leftarrow> tracking_region_get_size (gt_data s);
        (if tracking_size = region_size then
           (if tracking_region_get_state r \<noteq> trs_coarse then Some (RMI_ERROR_TRACKING, None)
            else Some (RMI_SUCCESS, Some (Coarse tr)))
         else if tracking_region_get_state r \<noteq> trs_fine then Some (RMI_ERROR_TRACKING, None)
         else do {
           (idx, _) \<leftarrow> tracking_region_fine_addr_to_idx (gt_data s) addr TR_MEM_TYPE_CONV;
           (if idx = UINT64_MAX then Some (RMI_ERROR_INPUT, None)
            else do { g \<leftarrow> tr_fine_granule_from_idx (gt_data s) idx; Some (RMI_SUCCESS, Some g) })
         })
     })
   }"

text \<open>With the coherency type for a device granule.\<close>

definition tr_select_dev_granule ::
  "granule_tracking \<Rightarrow> u64 \<Rightarrow> u64 \<Rightarrow> u64 \<Rightarrow> (u64 \<times> (granule_ref \<times> dev_coh_type) option) option" where
  "tr_select_dev_granule s tr addr tracking_size = do {
     r \<leftarrow> region_at s tr;
     (if tracking_region_transition_pending r then Some (RMI_BLOCKED, None) else do {
        (idx, cat) \<leftarrow> tracking_region_fine_addr_to_idx (gt_data s) addr TR_MEM_TYPE_DEV;
        (if idx = UINT64_MAX then Some (RMI_ERROR_INPUT, None) else do {
           cat \<leftarrow> cat;
           type \<leftarrow> tr_dev_granule_coh_type cat;
           region_size \<leftarrow> tracking_region_get_size (gt_data s);
           (if tracking_size = region_size then
              (if tracking_region_get_state r \<noteq> trs_coarse then Some (RMI_ERROR_TRACKING, None)
               else Some (RMI_SUCCESS, Some (Coarse tr, type)))
            else if tracking_region_get_state r \<noteq> trs_fine then Some (RMI_ERROR_TRACKING, None)
            else do {
              g \<leftarrow> tr_fine_dev_granule_from_idx (gt_data s) idx;
              Some (RMI_SUCCESS, Some (g, type))
            })
        })
     })
   }"

definition tr_find_granule :: "granule_tracking \<Rightarrow> u64 \<Rightarrow> u64 \<Rightarrow> (u64 \<times> granule_ref option) option" where
  "tr_find_granule s addr tracking_size = (
     if \<not> GRANULE_ALIGNED addr then Some (RMI_ERROR_INPUT, None) else do {
       valid \<leftarrow> tr_tracking_size_valid (gt_data s) tracking_size;
       (if \<not> valid then Some (RMI_ERROR_INPUT, None) else do {
          found \<leftarrow> tracking_region_find (Some (gt_data s)) addr TR_MEM_TYPE_CONV;
          (case found of
             None \<Rightarrow> Some (RMI_ERROR_INPUT, None)
           | Some tr \<Rightarrow> do {
               (ret, g) \<leftarrow> tr_select_granule s tr addr tracking_size;
               ret \<leftarrow> tr_encode_lookup_result ret addr;
               Some (ret, g)
             })
       })
     })"

definition tr_find_dev_granule ::
  "granule_tracking \<Rightarrow> u64 \<Rightarrow> u64 \<Rightarrow> (u64 \<times> (granule_ref \<times> dev_coh_type) option) option" where
  "tr_find_dev_granule s addr tracking_size = (
     if \<not> GRANULE_ALIGNED addr then Some (RMI_ERROR_INPUT, None) else do {
       valid \<leftarrow> tr_tracking_size_valid (gt_data s) tracking_size;
       (if \<not> valid then Some (RMI_ERROR_INPUT, None) else do {
          found \<leftarrow> tracking_region_find (Some (gt_data s)) addr TR_MEM_TYPE_DEV;
          (case found of
             None \<Rightarrow> Some (RMI_ERROR_INPUT, None)
           | Some tr \<Rightarrow> do {
               (ret, g) \<leftarrow> tr_select_dev_granule s tr addr tracking_size;
               ret \<leftarrow> tr_encode_lookup_result ret addr;
               Some (ret, g)
             })
       })
     })"

definition tr_find_fine_granule :: "granule_tracking \<Rightarrow> u64 \<Rightarrow> granule_ref option option" where
  "tr_find_fine_granule s addr = do {
     (ret, g) \<leftarrow> tr_find_granule s addr GRANULE_SIZE;
     Some (if ret \<noteq> RMI_SUCCESS then None else g)
   }"

definition tr_find_fine_dev_granule :: "granule_tracking \<Rightarrow> u64 \<Rightarrow> (granule_ref \<times> dev_coh_type) option option" where
  "tr_find_fine_dev_granule s addr = do {
     (ret, g) \<leftarrow> tr_find_dev_granule s addr GRANULE_SIZE;
     Some (if ret \<noteq> RMI_SUCCESS then None else g)
   }"

subsection \<open>Finding and locking\<close>

definition tr_find_lock_granule_read_locked ::
  "granule_tracking \<Rightarrow> u64 \<Rightarrow> u64 \<Rightarrow> u64 \<Rightarrow> u8 \<Rightarrow> (u64 \<times> granule_ref option \<times> granule_tracking) option" where
  "tr_find_lock_granule_read_locked s tr addr tracking_size expected_state = do {
     (ret, g) \<leftarrow> tr_select_granule s tr addr tracking_size;
     (if ret \<noteq> RMI_SUCCESS then Some (ret, g, s) else do {
        r \<leftarrow> g;
        (ok, s) \<leftarrow> lock_match s r expected_state;
        Some (if ok then (RMI_SUCCESS, Some r, s) else (RMI_ERROR_INPUT, None, s))
     })
   }"

definition tr_find_lock_granule ::
  "granule_tracking \<Rightarrow> u64 \<Rightarrow> u64 \<Rightarrow> u8 \<Rightarrow> (u64 \<times> granule_ref option \<times> granule_tracking) option" where
  "tr_find_lock_granule s addr tracking_size expected_state = (
     if \<not> GRANULE_ALIGNED addr then Some (RMI_ERROR_INPUT, None, s) else do {
       valid \<leftarrow> tr_tracking_size_valid (gt_data s) tracking_size;
       (if \<not> valid then Some (RMI_ERROR_INPUT, None, s) else do {
          found \<leftarrow> tracking_region_find (Some (gt_data s)) addr TR_MEM_TYPE_CONV;
          (case found of
             None \<Rightarrow> Some (RMI_ERROR_INPUT, None, s)
           | Some tr \<Rightarrow> do {
               (ret, g, s) \<leftarrow> tr_find_lock_granule_read_locked s tr addr tracking_size expected_state;
               ret \<leftarrow> tr_encode_lookup_result ret addr;
               Some (ret, g, s)
             })
       })
     })"

text \<open>The last result is the granularity, where the status is a success.\<close>

definition tr_lock_active_granule ::
  "granule_tracking \<Rightarrow> u64 \<Rightarrow> u8 \<Rightarrow> (u64 \<times> granule_ref option \<times> u64 option \<times> granule_tracking) option" where
  "tr_lock_active_granule s addr expected_state = (
     if \<not> GRANULE_ALIGNED addr then Some (RMI_ERROR_INPUT, None, None, s) else do {
       found \<leftarrow> tracking_region_find (Some (gt_data s)) addr TR_MEM_TYPE_CONV;
       (case found of
          None \<Rightarrow> Some (RMI_ERROR_INPUT, None, None, s)
        | Some tr \<Rightarrow> do {
            r \<leftarrow> region_at s tr;
            (ret, sz) \<leftarrow> tr_active_tracking_size (gt_data s) r;
            (case sz of
               None \<Rightarrow> Some (ret, None, None, s)
             | Some tracking_size \<Rightarrow> do {
                 (ret, g, s) \<leftarrow> tr_find_lock_granule_read_locked s tr addr tracking_size expected_state;
                 Some (ret, g, Some tracking_size, s)
               })
          })
     })"

definition tr_find_lock_active_granule ::
  "granule_tracking \<Rightarrow> u64 \<Rightarrow> u8 \<Rightarrow> (u64 \<times> granule_ref option \<times> u64 option \<times> granule_tracking) option" where
  "tr_find_lock_active_granule s addr expected_state = do {
     (ret, g, sz, s) \<leftarrow> tr_lock_active_granule s addr expected_state;
     ret \<leftarrow> tr_encode_lookup_result ret addr;
     Some (ret, g, sz, s)
   }"

definition tr_find_lock_dev_granule_read_locked ::
  "granule_tracking \<Rightarrow> u64 \<Rightarrow> u64 \<Rightarrow> u64 \<Rightarrow> u8
     \<Rightarrow> (u64 \<times> (granule_ref \<times> dev_coh_type) option \<times> granule_tracking) option" where
  "tr_find_lock_dev_granule_read_locked s tr addr tracking_size expected_state = do {
     (ret, g) \<leftarrow> tr_select_dev_granule s tr addr tracking_size;
     (if ret \<noteq> RMI_SUCCESS then Some (ret, g, s) else do {
        (r, type) \<leftarrow> g;
        (ok, s) \<leftarrow> dev_lock_match s r expected_state;
        Some (if ok then (RMI_SUCCESS, Some (r, type), s) else (RMI_ERROR_INPUT, None, s))
     })
   }"

definition tr_lock_active_dev_granule ::
  "granule_tracking \<Rightarrow> u64 \<Rightarrow> u8
     \<Rightarrow> (u64 \<times> (granule_ref \<times> dev_coh_type) option \<times> u64 option \<times> granule_tracking) option" where
  "tr_lock_active_dev_granule s addr expected_state = (
     if \<not> GRANULE_ALIGNED addr then Some (RMI_ERROR_INPUT, None, None, s) else do {
       found \<leftarrow> tracking_region_find (Some (gt_data s)) addr TR_MEM_TYPE_DEV;
       (case found of
          None \<Rightarrow> Some (RMI_ERROR_INPUT, None, None, s)
        | Some tr \<Rightarrow> do {
            r \<leftarrow> region_at s tr;
            (ret, sz) \<leftarrow> tr_active_tracking_size (gt_data s) r;
            (case sz of
               None \<Rightarrow> Some (ret, None, None, s)
             | Some tracking_size \<Rightarrow> do {
                 (ret, g, s) \<leftarrow> tr_find_lock_dev_granule_read_locked s tr addr tracking_size expected_state;
                 Some (ret, g, Some tracking_size, s)
               })
          })
     })"

definition tr_find_lock_active_dev_granule ::
  "granule_tracking \<Rightarrow> u64 \<Rightarrow> u8
     \<Rightarrow> (u64 \<times> (granule_ref \<times> dev_coh_type) option \<times> u64 option \<times> granule_tracking) option" where
  "tr_find_lock_active_dev_granule s addr expected_state = do {
     (ret, g, sz, s) \<leftarrow> tr_lock_active_dev_granule s addr expected_state;
     ret \<leftarrow> tr_encode_lookup_result ret addr;
     Some (ret, g, sz, s)
   }"

subsection \<open>Runs of fine granules\<close>

text \<open>
  The collecting loop. Both ends of the range are granule aligned, so the loop makes at most as
  many rounds as the range has granules; the first argument counts them down.
\<close>

primrec run_loop ::
  "nat \<Rightarrow> granule_tracking \<Rightarrow> u64 \<Rightarrow> u64 \<Rightarrow> u8 \<Rightarrow> u64 \<Rightarrow> (u64 \<times> u64 \<times> granule_tracking) option" where
  "run_loop 0 s tr cursor expected_state locked = Some (RMI_SUCCESS, locked, s)"
| "run_loop (Suc n) s tr cursor expected_state locked = do {
     found \<leftarrow> tracking_region_find (Some (gt_data s)) cursor TR_MEM_TYPE_CONV;
     (if found \<noteq> Some tr then Some (RMI_SUCCESS, locked, s) else do {
        (ret, g, s) \<leftarrow> tr_find_lock_granule_read_locked s tr cursor GRANULE_SIZE expected_state;
        (if ret \<noteq> RMI_SUCCESS then Some (if locked \<noteq> 0 then RMI_SUCCESS else ret, locked, s)
         else run_loop n s tr (cursor + GRANULE_SIZE) expected_state (locked + 1))
     })
   }"

definition tr_find_lock_fine_granule_run ::
  "granule_tracking \<Rightarrow> u64 \<Rightarrow> u64 \<Rightarrow> u8 \<Rightarrow> (u64 \<times> u64 \<times> granule_tracking) option" where
  "tr_find_lock_fine_granule_run s addr end_addr expected_state = (
     if \<not> GRANULE_ALIGNED addr \<or> \<not> GRANULE_ALIGNED end_addr \<or> end_addr \<le> addr
       then Some (RMI_ERROR_INPUT, 0, s)
     else do {
       found \<leftarrow> tracking_region_find (Some (gt_data s)) addr TR_MEM_TYPE_CONV;
       (case found of
          None \<Rightarrow> Some (RMI_ERROR_INPUT, 0, s)
        | Some tr \<Rightarrow> do {
            r \<leftarrow> region_at s tr;
            (ret, sz) \<leftarrow> tr_active_tracking_size (gt_data s) r;
            (ret, locked, s) \<leftarrow> (
              if ret \<noteq> RMI_SUCCESS then Some (ret, 0, s)
              else if sz \<noteq> Some GRANULE_SIZE then Some (RMI_ERROR_TRACKING, 0, s)
              else run_loop (unat ((end_addr - addr) div GRANULE_SIZE)) s tr addr expected_state 0);
            (if ret \<noteq> RMI_SUCCESS then do {
               c_assert (locked = 0);
               ret \<leftarrow> tr_encode_lookup_result ret addr;
               Some (ret, 0, s)
             } else do {
               c_assert (locked \<noteq> 0);
               Some (RMI_SUCCESS, locked, s)
             })
          })
     })"

primrec dev_run_loop ::
  "nat \<Rightarrow> granule_tracking \<Rightarrow> u64 \<Rightarrow> u64 \<Rightarrow> u8 \<Rightarrow> u64 \<Rightarrow> dev_coh_type
     \<Rightarrow> (u64 \<times> u64 \<times> dev_coh_type \<times> granule_tracking) option" where
  "dev_run_loop 0 s tr cursor expected_state locked type = Some (RMI_SUCCESS, locked, type, s)"
| "dev_run_loop (Suc n) s tr cursor expected_state locked type = do {
     found \<leftarrow> tracking_region_find (Some (gt_data s)) cursor TR_MEM_TYPE_DEV;
     (if found \<noteq> Some tr then Some (RMI_SUCCESS, locked, type, s) else do {
        (ret, g, s) \<leftarrow> tr_find_lock_dev_granule_read_locked s tr cursor GRANULE_SIZE expected_state;
        (if ret \<noteq> RMI_SUCCESS then Some (if locked \<noteq> 0 then RMI_SUCCESS else ret, locked, type, s)
         else do {
           (r, current_type) \<leftarrow> g;
           (if locked \<noteq> 0 \<and> current_type \<noteq> type then do {
              s \<leftarrow> on_dev_granule dev_granule_unlock s r;
              Some (RMI_SUCCESS, locked, type, s)
            } else dev_run_loop n s tr (cursor + GRANULE_SIZE) expected_state (locked + 1)
                     (if locked = 0 then current_type else type))
         })
     })
   }"

text \<open>The argument \<open>type\<close> is the value of the output before the call.\<close>

definition tr_find_lock_fine_dev_granule_run ::
  "granule_tracking \<Rightarrow> u64 \<Rightarrow> u64 \<Rightarrow> u8 \<Rightarrow> dev_coh_type
     \<Rightarrow> (u64 \<times> u64 \<times> dev_coh_type \<times> granule_tracking) option" where
  "tr_find_lock_fine_dev_granule_run s addr end_addr expected_state type = (
     if \<not> GRANULE_ALIGNED addr \<or> \<not> GRANULE_ALIGNED end_addr \<or> end_addr \<le> addr
       then Some (RMI_ERROR_INPUT, 0, type, s)
     else do {
       found \<leftarrow> tracking_region_find (Some (gt_data s)) addr TR_MEM_TYPE_DEV;
       (case found of
          None \<Rightarrow> Some (RMI_ERROR_INPUT, 0, type, s)
        | Some tr \<Rightarrow> do {
            r \<leftarrow> region_at s tr;
            (ret, sz) \<leftarrow> tr_active_tracking_size (gt_data s) r;
            (ret, locked, type, s) \<leftarrow> (
              if ret \<noteq> RMI_SUCCESS then Some (ret, 0, type, s)
              else if sz \<noteq> Some GRANULE_SIZE then Some (RMI_ERROR_TRACKING, 0, type, s)
              else dev_run_loop (unat ((end_addr - addr) div GRANULE_SIZE)) s tr addr expected_state 0 type);
            (if ret \<noteq> RMI_SUCCESS then do {
               c_assert (locked = 0);
               ret \<leftarrow> tr_encode_lookup_result ret addr;
               Some (ret, 0, type, s)
             } else do {
               c_assert (locked \<noteq> 0);
               Some (RMI_SUCCESS, locked, type, s)
             })
          })
     })"

subsection \<open>Locking a set of granules\<close>

text \<open>The output pointer \<^verbatim>\<open>g_ret\<close> of an entry is the number of the output.\<close>

record tr_granule_set =
  gs_addr :: u64
  gs_g :: "granule_ref option"
  gs_ret :: nat
  gs_state :: u8

definition tr_granule_lock_order :: "u8 \<Rightarrow> nat option" where
  "tr_granule_lock_order state = map_of [
     (GRANULE_STATE_RD, 0), (GRANULE_STATE_REC, 1), (GRANULE_STATE_PDEV, 2), (GRANULE_STATE_VDEV, 3),
     (GRANULE_STATE_RTT, 4), (GRANULE_STATE_DELEGATED, 5), (GRANULE_STATE_NS, 6), (GRANULE_STATE_DATA, 7),
     (GRANULE_STATE_REC_AUX, 8), (GRANULE_STATE_PDEV_AUX, 9), (GRANULE_STATE_VDEV_AUX, 10),
     (GRANULE_STATE_INTERNAL, 11), (GRANULE_STATE_PSMMU_ST_L2, 12), (GRANULE_STATE_RD_AUX, 13),
     (GRANULE_STATE_PARTIAL, 14)] state"

definition tr_granule_set_after :: "tr_granule_set \<Rightarrow> tr_granule_set \<Rightarrow> bool option" where
  "tr_granule_set_after a b = do {
     order_a \<leftarrow> tr_granule_lock_order (gs_state a);
     order_b \<leftarrow> tr_granule_lock_order (gs_state b);
     Some (if order_a \<noteq> order_b then order_a > order_b else gs_addr a > gs_addr b)
   }"

definition tr_granule_set_has_duplicate_addr :: "tr_granule_set list \<Rightarrow> bool" where
  "tr_granule_set_has_duplicate_addr gs \<longleftrightarrow>
     list_ex (\<lambda>i. list_ex (\<lambda>j. gs_addr (gs ! i) = gs_addr (gs ! j)) [i + 1..<length gs]) [0..<length gs]"

primrec set_shift :: "tr_granule_set list \<Rightarrow> tr_granule_set \<Rightarrow> nat \<Rightarrow> tr_granule_set list option" where
  "set_shift gs temp 0 = Some (gs[0 := temp])"
| "set_shift gs temp (Suc j) = do {
     after \<leftarrow> tr_granule_set_after (gs ! j) temp;
     (if after then set_shift (gs[Suc j := gs ! j]) temp j else Some (gs[Suc j := temp]))
   }"

primrec set_sort :: "tr_granule_set list \<Rightarrow> nat list \<Rightarrow> tr_granule_set list option" where
  "set_sort gs [] = Some gs"
| "set_sort gs (i # is) = do { gs \<leftarrow> set_shift gs (gs ! i) i; set_sort gs is }"

definition tr_sort_granules :: "tr_granule_set list \<Rightarrow> tr_granule_set list option" where
  "tr_sort_granules gs = set_sort gs [1..<length gs]"

primrec set_valid :: "granule_tracking \<Rightarrow> tr_granule_set list \<Rightarrow> bool option" where
  "set_valid s [] = Some True"
| "set_valid s (e # gs) = (
     if \<not> GRANULE_ALIGNED (gs_addr e) then Some False else do {
       found \<leftarrow> tracking_region_find (Some (gt_data s)) (gs_addr e) TR_MEM_TYPE_CONV;
       (if found = None then Some False else set_valid s gs)
     })"

text \<open>
  The operations on granule locks that a call performs, in their order, with the entry of the set
  they are made for. They are an observation of the code and have no effect on its result.
\<close>

datatype lock_event = Acquire tr_granule_set | Release tr_granule_set

text \<open>The status of the last attempt, the entries that were locked, the events and the state.\<close>

primrec set_lock ::
  "granule_tracking \<Rightarrow> tr_granule_set list
     \<Rightarrow> (u64 \<times> tr_granule_set list \<times> lock_event list \<times> granule_tracking) option" where
  "set_lock s [] = Some (RMI_SUCCESS, [], [], s)"
| "set_lock s (e # gs) = do {
     (ret, g, s) \<leftarrow> tr_find_lock_granule s (gs_addr e) GRANULE_SIZE (gs_state e);
     (if ret \<noteq> RMI_SUCCESS then Some (ret, [], [], s) else do {
        let e = e\<lparr>gs_g := g\<rparr>;
        (ret, locked, events, s) \<leftarrow> set_lock s gs;
        Some (ret, e # locked, Acquire e # events, s)
     })
   }"

primrec set_unlock :: "granule_tracking \<Rightarrow> tr_granule_set list \<Rightarrow> (lock_event list \<times> granule_tracking) option" where
  "set_unlock s [] = Some ([], s)"
| "set_unlock s (e # gs) = do {
     r \<leftarrow> gs_g e;
     s \<leftarrow> on_granule granule_unlock s r;
     (events, s) \<leftarrow> set_unlock s gs;
     Some (Release e # events, s)
   }"

text \<open>
  The outputs are given as a list; all are \<open>None\<close> before the call. The third result is the sequence
  of lock operations.
\<close>

definition tr_find_lock_fine_granules ::
  "granule_tracking \<Rightarrow> tr_granule_set list \<Rightarrow> granule_ref option list
     \<Rightarrow> (u64 \<times> granule_ref option list \<times> lock_event list \<times> granule_tracking) option" where
  "tr_find_lock_fine_granules s gs outs = do {
     c_assert (0 < length gs \<and> length gs \<le> 3);
     (if tr_granule_set_has_duplicate_addr gs then Some (RMI_ERROR_INPUT, outs, [], s) else do {
        valid \<leftarrow> set_valid s gs;
        (if \<not> valid then Some (RMI_ERROR_INPUT, outs, [], s) else do {
           gs \<leftarrow> tr_sort_granules gs;
           (ret, locked, acquired, s) \<leftarrow> set_lock s gs;
           (if ret \<noteq> RMI_SUCCESS then do {
              (released, s) \<leftarrow> set_unlock s (rev locked);
              Some (ret, outs, acquired @ released, s)
            } else Some (RMI_SUCCESS, foldl (\<lambda>outs e. outs[gs_ret e := gs_g e]) outs locked, acquired, s))
        })
     })
   }"

definition tr_find_lock_two_fine_granules ::
  "granule_tracking \<Rightarrow> u64 \<Rightarrow> u8 \<Rightarrow> u64 \<Rightarrow> u8
     \<Rightarrow> (u64 \<times> granule_ref option list \<times> lock_event list \<times> granule_tracking) option" where
  "tr_find_lock_two_fine_granules s addr1 expected_state1 addr2 expected_state2 =
     tr_find_lock_fine_granules s
       [\<lparr>gs_addr = addr1, gs_g = None, gs_ret = 0, gs_state = expected_state1\<rparr>,
        \<lparr>gs_addr = addr2, gs_g = None, gs_ret = 1, gs_state = expected_state2\<rparr>] [None, None]"

definition tr_find_lock_three_fine_granules ::
  "granule_tracking \<Rightarrow> u64 \<Rightarrow> u8 \<Rightarrow> u64 \<Rightarrow> u8 \<Rightarrow> u64 \<Rightarrow> u8
     \<Rightarrow> (u64 \<times> granule_ref option list \<times> lock_event list \<times> granule_tracking) option" where
  "tr_find_lock_three_fine_granules s addr1 expected_state1 addr2 expected_state2 addr3 expected_state3 =
     tr_find_lock_fine_granules s
       [\<lparr>gs_addr = addr1, gs_g = None, gs_ret = 0, gs_state = expected_state1\<rparr>,
        \<lparr>gs_addr = addr2, gs_g = None, gs_ret = 1, gs_state = expected_state2\<rparr>,
        \<lparr>gs_addr = addr3, gs_g = None, gs_ret = 2, gs_state = expected_state3\<rparr>] [None, None, None]"

subsection \<open>Delegation of ranges\<close>

definition granule_range_lock_conventional ::
  "granule_tracking \<Rightarrow> u64 \<Rightarrow> u8 \<Rightarrow> u8
     \<Rightarrow> (u64 \<times> granule_ref option \<times> u64 option \<times> bool \<times> granule_tracking) option" where
  "granule_range_lock_conventional s addr source_state target_state = do {
     (ret, g, sz, s) \<leftarrow> tr_find_lock_active_granule s addr source_state;
     (if ret = RMI_SUCCESS then Some (ret, g, sz, False, s)
      else if ret \<noteq> RMI_ERROR_INPUT then Some (ret, g, sz, False, s)
      else do {
        (ret, g, sz, s) \<leftarrow> tr_find_lock_active_granule s addr target_state;
        Some (ret, g, sz, ret = RMI_SUCCESS, s)
      })
   }"

definition granule_range_lock_device ::
  "granule_tracking \<Rightarrow> u64 \<Rightarrow> u8 \<Rightarrow> u8
     \<Rightarrow> (u64 \<times> granule_ref option \<times> u64 option \<times> bool \<times> granule_tracking) option" where
  "granule_range_lock_device s addr source_state target_state = do {
     (ret, g, sz, s) \<leftarrow> tr_find_lock_active_dev_granule s addr source_state;
     (if ret = RMI_SUCCESS then Some (ret, map_option fst g, sz, False, s)
      else if ret \<noteq> RMI_ERROR_INPUT then Some (ret, map_option fst g, sz, False, s)
      else do {
        (ret, g, sz, s) \<leftarrow> tr_find_lock_active_dev_granule s addr target_state;
        Some (ret, map_option fst g, sz, ret = RMI_SUCCESS, s)
      })
   }"

text \<open>Apply \<open>f i\<close> for \<open>i = 0, \<dots>, n - 1\<close> in this order.\<close>

primrec for_each :: "nat list \<Rightarrow> (nat \<Rightarrow> granule_tracking \<Rightarrow> granule_tracking option) \<Rightarrow> granule_tracking \<Rightarrow> granule_tracking option" where
  "for_each [] f s = Some s"
| "for_each (i # is) f s = do { s \<leftarrow> f i s; for_each is f s }"

definition granule_range_delegate_fine_unlock ::
  "granule_tracking \<Rightarrow> u64 \<Rightarrow> u64 \<Rightarrow> u64 \<Rightarrow> bool \<Rightarrow> granule_tracking option" where
  "granule_range_delegate_fine_unlock s addr locked_count delegated_count incomplete = do {
     c_assert (delegated_count \<le> locked_count);
     for_each [0..<unat locked_count] (\<lambda>i s. do {
       g \<leftarrow> tr_addr_to_granule (gt_data s) (addr + of_nat i * GRANULE_SIZE);
       (if of_nat i < delegated_count
          then on_granule (\<lambda>g. granule_unlock_transition g GRANULE_STATE_DELEGATED) s g
        else if incomplete then on_granule (\<lambda>g. granule_unlock_transition g GRANULE_STATE_PARTIAL) s g
        else on_granule granule_unlock s g)
     }) s
   }"

definition granule_range_delegate_fine_dev_unlock ::
  "granule_tracking \<Rightarrow> u64 \<Rightarrow> u64 \<Rightarrow> u64 \<Rightarrow> bool \<Rightarrow> granule_tracking option" where
  "granule_range_delegate_fine_dev_unlock s addr locked_count delegated_count incomplete = do {
     c_assert (delegated_count \<le> locked_count);
     for_each [0..<unat locked_count] (\<lambda>i s. do {
       (g, type) \<leftarrow> tr_addr_to_dev_granule (gt_data s) (addr + of_nat i * GRANULE_SIZE);
       (if of_nat i < delegated_count
          then on_dev_granule (\<lambda>g. dev_granule_unlock_transition g DEV_GRANULE_STATE_DELEGATED) s g
        else if incomplete then on_dev_granule (\<lambda>g. dev_granule_unlock_transition g DEV_GRANULE_STATE_PARTIAL) s g
        else on_dev_granule dev_granule_unlock s g)
     }) s
   }"

text \<open>The loop over the offsets of a granule-aligned size makes one round per granule.\<close>

definition granule_delegate_fine_transition ::
  "granule_tracking \<Rightarrow> u64 \<Rightarrow> u64 \<Rightarrow> bool \<Rightarrow> bool \<Rightarrow> granule_tracking option" where
  "granule_delegate_fine_transition s addr sz device delegated = do {
     c_assert (GRANULE_ALIGNED addr \<and> GRANULE_ALIGNED sz);
     for_each [0..<unat (sz div GRANULE_SIZE)] (\<lambda>i s.
       if device then do {
         (g, s) \<leftarrow> tr_lock_owned_dev_granule s (addr + of_nat i * GRANULE_SIZE) GRANULE_SIZE DEV_GRANULE_STATE_PARTIAL;
         on_dev_granule (\<lambda>g. dev_granule_unlock_transition g
           (if delegated then DEV_GRANULE_STATE_DELEGATED else DEV_GRANULE_STATE_NS)) s g
       } else do {
         (g, s) \<leftarrow> tr_lock_owned_granule s (addr + of_nat i * GRANULE_SIZE) GRANULE_SIZE GRANULE_STATE_PARTIAL;
         on_granule (\<lambda>g. granule_unlock_transition g
           (if delegated then GRANULE_STATE_DELEGATED else GRANULE_STATE_NS)) s g
       }) s
   }"

definition granule_delegate_coarse_transition ::
  "granule_tracking \<Rightarrow> u64 \<Rightarrow> u64 \<Rightarrow> bool \<Rightarrow> bool \<Rightarrow> granule_tracking option" where
  "granule_delegate_coarse_transition s addr tracking_size device delegated = do {
     region_size \<leftarrow> tracking_region_get_size (gt_data s);
     c_assert (tracking_size = region_size);
     (if device then do {
        (g, s) \<leftarrow> tr_lock_owned_dev_granule s addr tracking_size DEV_GRANULE_STATE_PARTIAL;
        on_dev_granule (\<lambda>g. dev_granule_unlock_transition g
          (if delegated then DEV_GRANULE_STATE_DELEGATED else DEV_GRANULE_STATE_NS)) s g
      } else do {
        (g, s) \<leftarrow> tr_lock_owned_granule s addr tracking_size GRANULE_STATE_PARTIAL;
        on_granule (\<lambda>g. granule_unlock_transition g
          (if delegated then GRANULE_STATE_DELEGATED else GRANULE_STATE_NS)) s g
      })
   }"

definition granule_range_undelegate_commit :: "granule_tracking \<Rightarrow> u64 \<Rightarrow> u64 \<Rightarrow> bool \<Rightarrow> granule_tracking option" where
  "granule_range_undelegate_commit s addr tracking_size device = (
     if device then do {
       (g, s) \<leftarrow> tr_lock_owned_dev_granule s addr tracking_size DEV_GRANULE_STATE_PARTIAL;
       on_dev_granule (\<lambda>g. dev_granule_unlock_transition g DEV_GRANULE_STATE_NS) s g
     } else do {
       (g, s) \<leftarrow> tr_lock_owned_granule s addr tracking_size GRANULE_STATE_PARTIAL;
       on_granule (\<lambda>g. granule_unlock_transition g GRANULE_STATE_NS) s g
     })"

definition granule_range_undelegate_fine_unlock ::
  "granule_tracking \<Rightarrow> u64 \<Rightarrow> u64 \<Rightarrow> bool \<Rightarrow> bool \<Rightarrow> granule_tracking option" where
  "granule_range_undelegate_fine_unlock s addr cnt device reserved = do {
     c_assert (GRANULE_ALIGNED addr \<and> cnt \<noteq> 0);
     for_each [0..<unat cnt] (\<lambda>i s.
       let pa = addr + of_nat i * GRANULE_SIZE
       in if device then do {
            (g, type) \<leftarrow> tr_addr_to_dev_granule (gt_data s) pa;
            (if reserved then on_dev_granule (\<lambda>g. dev_granule_unlock_transition g DEV_GRANULE_STATE_PARTIAL) s g
             else on_dev_granule dev_granule_unlock s g)
          } else do {
            g \<leftarrow> tr_addr_to_granule (gt_data s) pa;
            (if reserved then on_granule (\<lambda>g. granule_unlock_transition g GRANULE_STATE_PARTIAL) s g
             else on_granule granule_unlock s g)
          }) s
   }"

end
