(* ===== verification/Tr_Granule_Props.thy ===== *)
theory Tr_Granule_Props
  imports Tr_Granule
begin

text \<open>
  Locking through the tracking regions: a set of granules is locked completely or not at all and
  in the global lock order, and a run of granules is the longest one that matches.
\<close>

subsection \<open>One granule\<close>

definition locked :: "granule \<Rightarrow> granule" where
  "locked g = g\<lparr>descriptor := descriptor g OR GRN_LOCK_BIT\<rparr>"

text \<open>An unlocked granule within the reference limit of its state.\<close>

definition free :: "granule \<Rightarrow> bool" where
  "free g \<longleftrightarrow> \<not> LOCKED g \<and> refs_ok (STATE g) (unat (REFCOUNT g))"

lemma try_acquire_eq: "granule_bitlock_try_acquire g = Some (\<not> LOCKED g, locked g)"
  by (simp add: granule_bitlock_try_acquire_def bitlock_try_acquire_16_def locked_def LOCKED_def GRN_LOCK_BIT_def)

lemma locked_fields [simp]: "LOCKED (locked g)" "STATE (locked g) = STATE g" "REFCOUNT (locked g) = REFCOUNT g"
  using try_acquire_fields [OF try_acquire_eq] by auto

lemma lock_on_state_match_eq:
  "granule_lock_on_state_match g st = (if STATE g \<noteq> st then Some (False, g)
     else if free g then Some (True, locked g) else None)"
  by (simp add: granule_lock_on_state_match_def try_acquire_eq granule_get_state_def invariants_refs_ok free_def)

lemma granule_lock_eq:
  "granule_lock g st = (if STATE g = st \<and> free g then Some (locked g) else None)"
  by (simp add: granule_lock_def try_acquire_eq granule_get_state_def invariants_refs_ok free_def)

lemma unlock_locked:
  assumes "free g"
  shows "granule_unlock (locked g) = Some g"
proof -
  obtain g' where g': "granule_bitlock_release (locked g) = Some g'" "\<not> LOCKED g'" "STATE g' = STATE g" "REFCOUNT g' = REFCOUNT g"
    using release_granule [of "locked g"] by auto
  then have "g' = g" using assms by (intro granule_eqI) (auto simp: free_def)
  then show ?thesis
    using g'(1) assms by (simp add: granule_unlock_def granule_get_state_def invariants_refs_ok free_def)
qed

lemma transition_locked:
  assumes "unat st < 32" "refs_ok st (unat (REFCOUNT g))" "st = 1 \<Longrightarrow> STATE g \<in> {0, 11}"
  shows "\<exists>g'. granule_unlock_transition (locked g) st = Some g' \<and> \<not> LOCKED g' \<and> STATE g' = st \<and> REFCOUNT g' = REFCOUNT g"
proof -
  have "map_option abs_granule (granule_exec (Op_unlock_transition st) (locked g)) =
    agranule_unlock ((abs_granule (locked g))\<lparr>ag_state := st\<rparr>)"
    using set_state_unlock_abs [OF assms(1), of "locked g"] assms(3)
    by (auto simp: granule_unlock_transition_def granule_get_state_def)
  then show ?thesis
    using assms(2) by (auto simp: agranule_unlock_def abs_granule_def map_option_eq_Some
        intro: word_unat_eq_iff [THEN iffD2])
qed

subsection \<open>Lookup in an established layout\<close>

definition tracked :: "nat \<Rightarrow> granule_tracking \<Rightarrow> bool" where
  "tracked k s \<longleftrightarrow> layout k (gt_data s) \<and> map_va (granule_array_tr (gt_data s)) \<noteq> 0 \<and>
     (\<exists>trs. tracking_regions (gt_data s) = Some trs \<and> length trs = unat (num_tracking_regions (gt_data s)))"

definition in_conv :: "granule_tracking \<Rightarrow> u64 \<Rightarrow> bool" where
  "in_conv s addr \<longleftrightarrow> GRANULE_ALIGNED addr \<and> (\<exists>b \<in> set (conv_banks (td_banks (gt_data s))). contains b addr)"

definition region_idx :: "nat \<Rightarrow> granule_tracking \<Rightarrow> u64 \<Rightarrow> u64" where
  "region_idx k s addr = of_nat (rank (all_cov k (gt_data s)) (unat addr div 2 ^ k))"

definition fine_idx :: "nat \<Rightarrow> granule_tracking \<Rightarrow> u64 \<Rightarrow> u64" where
  "fine_idx k s addr = of_nat (fine_pos k TR_MEM_TYPE_CONV (type_cov k (gt_data s) TR_MEM_TYPE_CONV) addr)"

definition region_of :: "nat \<Rightarrow> granule_tracking \<Rightarrow> u64 \<Rightarrow> tracking_region" where
  "region_of k s addr = the (region_at s (region_idx k s addr))"

lemma conv_bank:
  assumes "in_conv s addr"
  obtains b where "b \<in> set (banks_of (td_banks (gt_data s)) TR_MEM_TYPE_CONV)" "contains b addr"
  using assms by (auto simp: in_conv_def)

lemma fine_lookup:
  assumes "tracked k s" "in_conv s addr"
  shows "\<exists>cat. tracking_region_fine_addr_to_idx (gt_data s) addr TR_MEM_TYPE_CONV = Some (fine_idx k s addr, Some cat)"
    "fine_idx k s addr < num_tracking_granules (gt_data s)" "fine_idx k s addr \<noteq> UINT64_MAX"
    "tr_fine_granule_from_idx (gt_data s) (fine_idx k s addr) = Some (Fine (fine_idx k s addr))"
    "tr_addr_to_granule (gt_data s) addr = Some (Fine (fine_idx k s addr))"
proof -
  have lay: "layout k (gt_data s)" and va: "map_va (granule_array_tr (gt_data s)) \<noteq> 0"
    using assms(1) by (auto simp: tracked_def)
  obtain b where b: "b \<in> set (banks_of (td_banks (gt_data s)) TR_MEM_TYPE_CONV)" "contains b addr"
    using assms(2) by (rule conv_bank)
  show found: "\<exists>cat. tracking_region_fine_addr_to_idx (gt_data s) addr TR_MEM_TYPE_CONV = Some (fine_idx k s addr, Some cat)"
    using find_addr_bank [OF lay b] layoutD(8) [OF lay] assms(2)
    by (simp add: tracking_region_fine_addr_to_idx_def in_conv_def fine_idx_def)
  then obtain cat where "tracking_region_fine_idx_to_addr (gt_data s) (fine_idx k s addr) TR_MEM_TYPE_CONV = Some (addr, Some cat)"
    using fine_roundtrip [OF lay] by blast
  then show lt: "fine_idx k s addr < num_tracking_granules (gt_data s)"
    by (auto simp: tracking_region_fine_idx_to_addr_def bind_eq_Some_conv not_le split: if_splits)
  then show ne: "fine_idx k s addr \<noteq> UINT64_MAX" by (metis word_not_simps(3))
  show from_idx: "tr_fine_granule_from_idx (gt_data s) (fine_idx k s addr) = Some (Fine (fine_idx k s addr))"
    using lt va by (simp add: tr_fine_granule_from_idx_def)
  show "tr_addr_to_granule (gt_data s) addr = Some (Fine (fine_idx k s addr))"
    using found from_idx ne assms(2) by (auto simp: tr_addr_to_granule_def in_conv_def)
qed

lemma fine_idx_inj:
  assumes "tracked k s" "in_conv s a" "in_conv s b" "fine_idx k s a = fine_idx k s b"
  shows "a = b"
proof -
  have lay: "layout k (gt_data s)" using assms(1) by (auto simp: tracked_def)
  obtain c d where cd: "tracking_region_fine_addr_to_idx (gt_data s) a TR_MEM_TYPE_CONV = Some (fine_idx k s a, Some c)"
    "tracking_region_fine_addr_to_idx (gt_data s) b TR_MEM_TYPE_CONV = Some (fine_idx k s b, Some d)"
    using fine_lookup(1) [OF assms(1,2)] fine_lookup(1) [OF assms(1,3)] by blast
  note a = iffD1 [OF fine_roundtrip [OF lay] cd(1)] and b = iffD1 [OF fine_roundtrip [OF lay] cd(2)]
  have "Some (a, Some c) = Some (b, Some d)" using a b unfolding assms(4) by (rule trans [OF sym])
  then show ?thesis by simp
qed

lemma region_lookup:
  assumes "tracked k s"
  shows "in_conv s addr \<Longrightarrow> tracking_region_find (Some (gt_data s)) addr TR_MEM_TYPE_CONV = Some (Some (region_idx k s addr))"
    "in_conv s addr \<Longrightarrow> region_at s (region_idx k s addr) = Some (region_of k s addr)"
    "\<not> in_conv s addr \<Longrightarrow> tracking_region_find (Some (gt_data s)) addr TR_MEM_TYPE_CONV = Some None"
proof -
  have lay: "layout k (gt_data s)" using assms by (auto simp: tracked_def)
  obtain trs where trs: "tracking_regions (gt_data s) = Some trs" "length trs = unat (num_tracking_regions (gt_data s))"
    using assms by (auto simp: tracked_def)
  have nz: "num_tracking_regions (gt_data s) \<noteq> 0" by (rule layoutD(8) [OF lay])
  show "tracking_region_find (Some (gt_data s)) addr TR_MEM_TYPE_CONV = Some (Some (region_idx k s addr))"
    "region_at s (region_idx k s addr) = Some (region_of k s addr)" if c: "in_conv s addr"
  proof -
    obtain b where b: "b \<in> set (banks_of (td_banks (gt_data s)) TR_MEM_TYPE_CONV)" "contains b addr"
      using c by (rule conv_bank)
    have idx: "tracking_region_addr_to_idx (gt_data s) addr TR_MEM_TYPE_CONV = Some (region_idx k s addr, Some (category b))"
      using find_addr_bank [OF lay b] nz c by (simp add: tracking_region_addr_to_idx_def in_conv_def region_idx_def)
    have lt: "region_idx k s addr < num_tracking_regions (gt_data s)" using region_indices(1) [OF lay idx idx] .
    then show "tracking_region_find (Some (gt_data s)) addr TR_MEM_TYPE_CONV = Some (Some (region_idx k s addr))"
      using idx trs by (simp add: tracking_region_find_def)
    show "region_at s (region_idx k s addr) = Some (region_of k s addr)"
      using lt trs by (simp add: region_of_def region_at_def word_less_nat_alt)
  qed
  show "tracking_region_find (Some (gt_data s)) addr TR_MEM_TYPE_CONV = Some None" if c: "\<not> in_conv s addr"
  proof -
    have "tracking_region_addr_to_idx (gt_data s) addr TR_MEM_TYPE_CONV = Some (UINT64_MAX, None)"
    proof (cases "GRANULE_ALIGNED addr")
      case True
      then have "\<forall>b \<in> set (banks_of (td_banks (gt_data s)) TR_MEM_TYPE_CONV). \<not> contains b addr"
        using c by (auto simp: in_conv_def)
      from find_addr_none [OF lay this] nz show ?thesis by (simp add: tracking_region_addr_to_idx_def)
    qed (use nz in \<open>simp add: tracking_region_addr_to_idx_def\<close>)
    then show ?thesis using trs by (simp add: tracking_region_find_def)
  qed
qed

subsection \<open>Locking one fine granule\<close>

text \<open>The region of the address is tracked with fine granules and no transition is pending.\<close>

definition usable :: "nat \<Rightarrow> granule_tracking \<Rightarrow> u64 \<Rightarrow> bool" where
  "usable k s addr \<longleftrightarrow> in_conv s addr \<and> \<not> tracking_region_transition_pending (region_of k s addr) \<and>
     tracking_region_get_state (region_of k s addr) = trs_fine"

abbreviation gran :: "nat \<Rightarrow> granule_tracking \<Rightarrow> u64 \<Rightarrow> granule" where
  "gran k s addr \<equiv> gt_granules s (fine_idx k s addr)"

abbreviation set_gran :: "nat \<Rightarrow> granule_tracking \<Rightarrow> u64 \<Rightarrow> granule \<Rightarrow> granule_tracking" where
  "set_gran k s addr g \<equiv> s\<lparr>gt_granules := (gt_granules s)(fine_idx k s addr := g)\<rparr>"

lemma granules_only [simp]:
  "tracked k (s\<lparr>gt_granules := f\<rparr>) = tracked k s" "in_conv (s\<lparr>gt_granules := f\<rparr>) addr = in_conv s addr"
  "usable k (s\<lparr>gt_granules := f\<rparr>) addr = usable k s addr" "fine_idx k (s\<lparr>gt_granules := f\<rparr>) addr = fine_idx k s addr"
  "region_idx k (s\<lparr>gt_granules := f\<rparr>) addr = region_idx k s addr" "region_of k (s\<lparr>gt_granules := f\<rparr>) addr = region_of k s addr"
  by (simp_all add: tracked_def in_conv_def usable_def region_of_def region_at_def region_idx_def fine_idx_def)

lemma select_fine:
  assumes "tracked k s" "in_conv s addr"
  shows "tr_select_granule s (region_idx k s addr) addr GRANULE_SIZE =
    Some (if tracking_region_transition_pending (region_of k s addr) then (RMI_BLOCKED, None)
      else if tracking_region_get_state (region_of k s addr) \<noteq> trs_fine then (RMI_ERROR_TRACKING, None)
      else (RMI_SUCCESS, Some (Fine (fine_idx k s addr))))"
proof -
  have lay: "layout k (gt_data s)" using assms(1) by (simp add: tracked_def)
  have ne: "GRANULE_SIZE \<noteq> (2 :: u64) ^ k" using layoutD(1) [OF lay] by auto
  obtain cat where "tracking_region_fine_addr_to_idx (gt_data s) addr TR_MEM_TYPE_CONV = Some (fine_idx k s addr, Some cat)"
    using fine_lookup(1) [OF assms] by blast
  then show ?thesis
    using region_lookup(2) [OF assms] fine_lookup(3,4) [OF assms] layoutD(7) [OF lay] ne
    by (simp add: tr_select_granule_def)
qed

lemma lock_match_fine:
  "lock_match s (Fine (fine_idx k s addr)) st = (if STATE (gran k s addr) \<noteq> st then Some (False, s)
     else if free (gran k s addr) then Some (True, set_gran k s addr (locked (gran k s addr))) else None)"
  by (simp add: lock_match_def lock_on_state_match_eq)

lemma read_locked_fine:
  assumes "tracked k s" "in_conv s addr" "free (gran k s addr)"
  shows "tr_find_lock_granule_read_locked s (region_idx k s addr) addr GRANULE_SIZE st =
    Some (if tracking_region_transition_pending (region_of k s addr) then (RMI_BLOCKED, None, s)
      else if tracking_region_get_state (region_of k s addr) \<noteq> trs_fine then (RMI_ERROR_TRACKING, None, s)
      else if STATE (gran k s addr) \<noteq> st then (RMI_ERROR_INPUT, None, s)
      else (RMI_SUCCESS, Some (Fine (fine_idx k s addr)), set_gran k s addr (locked (gran k s addr))))"
  unfolding tr_find_lock_granule_read_locked_def select_fine [OF assms(1,2)]
  using assms(3) by (simp add: lock_match_fine)

lemma conv_below:
  assumes "tracked k s" "in_conv s addr"
  shows "unat addr < 2 ^ 52"
proof -
  obtain b where b: "b \<in> set (banks_of (td_banks (gt_data s)) TR_MEM_TYPE_CONV)" "contains b addr"
    using assms(2) by (rule conv_bank)
  have "bank_in_range b" using layoutD(6) [OF _ b(1)] assms(1) by (auto simp: tracked_def)
  then show ?thesis using contains_unat [of b addr] b(2) by (auto simp: bank_in_range_def)
qed

lemma encode_tracking:
  assumes "tracked k s" "in_conv s addr"
  shows "\<exists>v. tr_encode_lookup_result RMI_ERROR_TRACKING addr = Some v \<and> v \<noteq> 0"
proof -
  have al: "GRANULE_ALIGNED addr" using assms(2) by (simp add: in_conv_def)
  have lt: "unat addr < 2 ^ 52" by (rule conv_below [OF assms])
  let ?v = "INPLACE RMI_RESULT_STATUS (ucast (12 :: u8)) OR INPLACE RMI_RESULT_LEVEL (ucast (0 :: u8))
    OR INPLACE RMI_RESULT_ADDR (drop_bit GRANULE_SHIFT addr)"
  have "tr_encode_lookup_result RMI_ERROR_TRACKING addr = Some ?v"
    using al drop_bit_12_less [of addr] lt
    by (simp add: tr_encode_lookup_result_def pack_return_code_level_addr_def make_return_code_level_addr_def
        make_return_code_def pack_struct_return_code_def GRANULE_ALIGNED_def)
  moreover have "?v \<noteq> 0"
  proof
    assume z: "?v = 0"
    have "EXTRACT RMI_RESULT_STATUS ?v = 12" using level_addr_fields(1) [OF al lt, of 12 0] by simp
    then show False unfolding z by (simp add: EXTRACT_take_bit)
  qed
  ultimately show ?thesis by blast
qed

lemma find_lock_fine:
  assumes "tracked k s" "in_conv s addr \<longrightarrow> free (gran k s addr)"
  shows "\<exists>ret. tr_find_lock_granule s addr GRANULE_SIZE st =
    Some (if usable k s addr \<and> STATE (gran k s addr) = st
          then (RMI_SUCCESS, Some (Fine (fine_idx k s addr)), set_gran k s addr (locked (gran k s addr)))
          else (ret, None, s)) \<and> ret \<noteq> RMI_SUCCESS"
proof (cases "in_conv s addr")
  case False
  then have "\<not> usable k s addr" by (simp add: usable_def)
  then show ?thesis
    using region_lookup(3) [OF assms(1) False] by (auto simp: tr_find_lock_granule_def tr_tracking_size_valid_def)
next
  case True
  then have fr: "free (gran k s addr)" and al: "GRANULE_ALIGNED addr" using assms(2) by (simp_all add: in_conv_def)
  have valid: "tr_tracking_size_valid (gt_data s) GRANULE_SIZE = Some True" by (simp add: tr_tracking_size_valid_def)
  let ?res = "if tracking_region_transition_pending (region_of k s addr) then (RMI_BLOCKED, None, s)
      else if tracking_region_get_state (region_of k s addr) \<noteq> trs_fine then (RMI_ERROR_TRACKING, None, s)
      else if STATE (gran k s addr) \<noteq> st then (RMI_ERROR_INPUT, None, s)
      else (RMI_SUCCESS, Some (Fine (fine_idx k s addr)), set_gran k s addr (locked (gran k s addr)))"
  have "tr_find_lock_granule s addr GRANULE_SIZE st =
    Option.bind (Some ?res) (\<lambda>(ret, g, s). Option.bind (tr_encode_lookup_result ret addr) (\<lambda>ret. Some (ret, g, s)))"
    unfolding tr_find_lock_granule_def valid region_lookup(1) [OF assms(1) True]
    using al by (simp only: not_True_eq_False if_False bind.bind_lunit option.case read_locked_fine [OF assms(1) True fr])
  then show ?thesis
    using encode_tracking [OF assms(1) True] True by (auto simp: usable_def tr_encode_lookup_result_def)
qed

subsection \<open>Locking a set\<close>

abbreviation lock_gran :: "nat \<Rightarrow> granule_tracking \<Rightarrow> u64 \<Rightarrow> granule_tracking" where
  "lock_gran k s addr \<equiv> set_gran k s addr (locked (gran k s addr))"

primrec lock_all :: "nat \<Rightarrow> granule_tracking \<Rightarrow> u64 list \<Rightarrow> granule_tracking" where
  "lock_all k s [] = s"
| "lock_all k s (a # as) = lock_all k (lock_gran k s a) as"

definition matches :: "nat \<Rightarrow> granule_tracking \<Rightarrow> tr_granule_set \<Rightarrow> bool" where
  "matches k s e \<longleftrightarrow> usable k s (gs_addr e) \<and> STATE (gran k s (gs_addr e)) = gs_state e"

abbreviation with_ref :: "nat \<Rightarrow> granule_tracking \<Rightarrow> tr_granule_set \<Rightarrow> tr_granule_set" where
  "with_ref k s e \<equiv> e\<lparr>gs_g := Some (Fine (fine_idx k s (gs_addr e)))\<rparr>"

lemma gran_other:
  assumes "tracked k s" "in_conv s a" "in_conv s b" "a \<noteq> b"
  shows "gran k (set_gran k s a g) b = gran k s b"
  using fine_idx_inj [OF assms(1-3)] assms(4) by auto

lemma usable_conv: "usable k s a \<Longrightarrow> in_conv s a"
  by (simp add: usable_def)

lemma set_lock_spec:
  assumes "tracked k s" "distinct (map gs_addr gs)" "\<forall>e \<in> set gs. in_conv s (gs_addr e) \<longrightarrow> free (gran k s (gs_addr e))"
  shows "\<exists>ret. set_lock s gs = Some (ret, map (with_ref k s) (takeWhile (matches k s) gs),
      map (Acquire \<circ> with_ref k s) (takeWhile (matches k s) gs), lock_all k s (map gs_addr (takeWhile (matches k s) gs))) \<and> (ret = RMI_SUCCESS \<longleftrightarrow> (\<forall>e \<in> set gs. matches k s e))"
  using assms
proof (induction gs arbitrary: s)
  case (Cons e gs)
  obtain ret where ret: "tr_find_lock_granule s (gs_addr e) GRANULE_SIZE (gs_state e) =
    Some (if matches k s e then (RMI_SUCCESS, Some (Fine (fine_idx k s (gs_addr e))), lock_gran k s (gs_addr e))
          else (ret, None, s))" "ret \<noteq> RMI_SUCCESS"
    using find_lock_fine [OF Cons.prems(1), of "gs_addr e" "gs_state e"] Cons.prems(3) by (auto simp: matches_def)
  show ?case
  proof (cases "matches k s e")
    case False
    then show ?thesis unfolding set_lock.simps ret(1) using ret(2) by simp
  next
    case True
    let ?s = "lock_gran k s (gs_addr e)"
    have e: "in_conv s (gs_addr e)" using True by (simp add: matches_def usable_def)
    have other: "gran k ?s (gs_addr f) = gran k s (gs_addr f)" if "f \<in> set gs" "in_conv s (gs_addr f)" for f
    proof -
      have "gs_addr e \<noteq> gs_addr f" using Cons.prems(2) that(1) by force
      then show ?thesis by (rule gran_other [OF Cons.prems(1) e that(2)])
    qed
    have m: "matches k ?s f = matches k s f" if "f \<in> set gs" for f
      using other [OF that] by (auto simp: matches_def usable_def simp del: fun_upd_apply)
    have "\<forall>f \<in> set gs. in_conv ?s (gs_addr f) \<longrightarrow> free (gran k ?s (gs_addr f))"
      using other Cons.prems(3) by (simp del: fun_upd_apply)
    moreover have "tracked k ?s" "distinct (map gs_addr gs)" using Cons.prems by simp_all
    ultimately obtain ret' where "set_lock ?s gs = Some (ret', map (with_ref k ?s) (takeWhile (matches k ?s) gs),
      map (Acquire \<circ> with_ref k ?s) (takeWhile (matches k ?s) gs), lock_all k ?s (map gs_addr (takeWhile (matches k ?s) gs)))" "ret' = RMI_SUCCESS \<longleftrightarrow> (\<forall>f \<in> set gs. matches k ?s f)"
      using Cons.IH [of ?s] by blast
    moreover have "takeWhile (matches k ?s) gs = takeWhile (matches k s) gs" using m by (intro takeWhile_cong) auto
    ultimately show ?thesis unfolding set_lock.simps ret(1) using True m by (simp add: Let_def)
  qed
qed simp

lemma lock_all_append: "lock_all k s (as @ bs) = lock_all k (lock_all k s as) bs"
  by (induction as arbitrary: s) simp_all

lemma lock_all_data [simp]:
  "tracked k (lock_all k s as) = tracked k s" "in_conv (lock_all k s as) b = in_conv s b"
  "fine_idx k (lock_all k s as) b = fine_idx k s b"
  by (induction as arbitrary: s) simp_all

lemma lock_all_granules:
  assumes "tracked k s" "\<forall>a \<in> set as. in_conv s a" "distinct as"
  shows "lock_all k s as = s\<lparr>gt_granules := \<lambda>i. if i \<in> fine_idx k s ` set as then locked (gt_granules s i) else gt_granules s i\<rparr>"
  using assms(2,3)
proof (induction as rule: rev_induct)
  case (snoc a as)
  have "fine_idx k s a \<notin> fine_idx k s ` set as"
    using snoc.prems fine_idx_inj [OF assms(1)] by auto
  then show ?case using snoc by (auto simp: lock_all_append fun_eq_iff)
qed simp

lemma unlock_all:
  assumes "tracked k s" "\<forall>e \<in> set es. in_conv s (gs_addr e) \<and> free (gran k s (gs_addr e))" "distinct (map gs_addr es)"
  shows "set_unlock (lock_all k s (map gs_addr es)) (rev (map (with_ref k s) es)) =
    Some (map Release (rev (map (with_ref k s) es)), s)"
  using assms(2,3)
proof (induction es rule: rev_induct)
  case (snoc e es)
  let ?t = "lock_all k s (map gs_addr es)"
  have "fine_idx k s (gs_addr e) \<notin> fine_idx k s ` gs_addr ` set es"
    using snoc.prems fine_idx_inj [OF assms(1)] by auto
  then have g: "gran k ?t (gs_addr e) = gran k s (gs_addr e)"
    using snoc.prems by (subst lock_all_granules [OF assms(1)]) auto
  have "on_granule granule_unlock (lock_gran k ?t (gs_addr e)) (Fine (fine_idx k s (gs_addr e))) = Some ?t"
    using snoc.prems g by (simp add: on_granule_def unlock_locked fun_upd_idem)
  then show ?case using snoc by (simp add: lock_all_append)
qed simp

subsection \<open>The lock order\<close>

definition lock_before :: "tr_granule_set \<Rightarrow> tr_granule_set \<Rightarrow> bool" where
  "lock_before a b \<longleftrightarrow> (let i = the (tr_granule_lock_order (gs_state a)); j = the (tr_granule_lock_order (gs_state b))
     in i < j \<or> i = j \<and> gs_addr a < gs_addr b)"

lemma set_after_eq:
  assumes "tr_granule_lock_order (gs_state a) \<noteq> None" "tr_granule_lock_order (gs_state b) \<noteq> None" "gs_addr a \<noteq> gs_addr b"
  shows "tr_granule_set_after a b = Some (lock_before b a)" "lock_before a b \<longleftrightarrow> \<not> lock_before b a"
  using assms by (auto simp: tr_granule_set_after_def lock_before_def Let_def)

lemma lock_before_trans: "lock_before a b \<Longrightarrow> lock_before b c \<Longrightarrow> lock_before a c"
  by (auto simp: lock_before_def Let_def)

lemma tr_sort_granules_sorted:
  assumes "0 < length gs" "length gs \<le> 3" "\<forall>e \<in> set gs. tr_granule_lock_order (gs_state e) \<noteq> None" "distinct (map gs_addr gs)"
  shows "\<exists>gs'. tr_sort_granules gs = Some gs' \<and> mset gs' = mset gs \<and> sorted_wrt lock_before gs'"
proof -
  consider (1) a where "gs = [a]" | (2) a b where "gs = [a, b]" | (3) a b c where "gs = [a, b, c]"
    using assms(1,2) by (auto simp: neq_Nil_conv length_Suc_conv numeral_3_eq_3 le_Suc_eq)
  then show ?thesis
  proof cases
    case 1
    then show ?thesis by (simp add: tr_sort_granules_def)
  next
    case 2
    then show ?thesis using assms(3,4) set_after_eq [of a b] by (auto simp: tr_sort_granules_def)
  next
    case 3
    have upt: "[Suc 0..<Suc (Suc (Suc 0))] = [1, 2]" by (simp add: upt_rec)
    show ?thesis
      using 3 assms(3,4) set_after_eq [of a b] set_after_eq [of a c] set_after_eq [of b c] lock_before_trans
      by (auto simp: tr_sort_granules_def upt numeral_2_eq_2)
  qed
qed

lemma duplicate_addr: "tr_granule_set_has_duplicate_addr gs \<longleftrightarrow> \<not> distinct (map gs_addr gs)"
proof -
  have "tr_granule_set_has_duplicate_addr gs \<longleftrightarrow> (\<exists>i j. i < j \<and> j < length gs \<and> gs_addr (gs ! i) = gs_addr (gs ! j))"
  proof
    assume "\<exists>i j. i < j \<and> j < length gs \<and> gs_addr (gs ! i) = gs_addr (gs ! j)"
    then obtain i j where ij: "i < j" "j < length gs" "gs_addr (gs ! i) = gs_addr (gs ! j)" by blast
    then have "i \<in> set [0..<length gs]" "j \<in> set [i + 1..<length gs]" by auto
    then show "tr_granule_set_has_duplicate_addr gs"
      unfolding tr_granule_set_has_duplicate_addr_def list_ex_iff using ij(3) by blast
  next
    assume "tr_granule_set_has_duplicate_addr gs"
    then obtain i j where "i \<in> set [0..<length gs]" "j \<in> set [i + 1..<length gs]" "gs_addr (gs ! i) = gs_addr (gs ! j)"
      unfolding tr_granule_set_has_duplicate_addr_def list_ex_iff by blast
    then show "\<exists>i j. i < j \<and> j < length gs \<and> gs_addr (gs ! i) = gs_addr (gs ! j)"
      by (intro exI [of _ i] exI [of _ j]) auto
  qed
  also have "\<dots> \<longleftrightarrow> (\<exists>i j. i < length gs \<and> j < length gs \<and> i \<noteq> j \<and> gs_addr (gs ! i) = gs_addr (gs ! j))"
    (is "?L \<longleftrightarrow> ?R")
  proof
    assume ?L
    then obtain i j where "i < j" "j < length gs" "gs_addr (gs ! i) = gs_addr (gs ! j)" by blast
    then show ?R by (intro exI [of _ i] exI [of _ j]) auto
  next
    assume ?R
    then obtain i j where ij: "i < length gs" "j < length gs" "i \<noteq> j" "gs_addr (gs ! i) = gs_addr (gs ! j)" by blast
    then show ?L by (intro exI [of _ "min i j"] exI [of _ "max i j"]) (auto simp: min_def max_def)
  qed
  also have "\<dots> \<longleftrightarrow> \<not> distinct (map gs_addr gs)" by (auto simp: distinct_conv_nth)
  finally show ?thesis .
qed

lemma set_valid_eq:
  assumes "tracked k s"
  shows "set_valid s gs = Some (\<forall>e \<in> set gs. in_conv s (gs_addr e))"
proof (induction gs)
  case (Cons e gs)
  then show ?case
    using region_lookup(1,3) [OF assms, of "gs_addr e"]
    by (cases "in_conv s (gs_addr e)") (auto simp: in_conv_def)
qed simp

subsection \<open>All or nothing\<close>

lemma publish:
  assumes "distinct (map gs_ret es)" "\<forall>e \<in> set es. gs_ret e < length outs"
  shows "\<forall>e \<in> set es. foldl (\<lambda>outs e. outs[gs_ret e := gs_g e]) outs es ! gs_ret e = gs_g e"
    "length (foldl (\<lambda>outs e. outs[gs_ret e := gs_g e]) outs es) = length outs"
proof -
  show len: "length (foldl (\<lambda>outs e. outs[gs_ret e := gs_g e]) outs fs) = length outs" for fs
    by (induction fs arbitrary: outs) simp_all
  show "\<forall>e \<in> set es. foldl (\<lambda>outs e. outs[gs_ret e := gs_g e]) outs es ! gs_ret e = gs_g e"
    using assms
  proof (induction es rule: rev_induct)
    case (snoc f es)
    then show ?case by (force simp: len nth_list_update)
  qed simp
qed

lemma publish_refs:
  assumes "map gs_ret gs = [0..<length gs]" "set gs' = set gs" "distinct (map gs_ret gs')"
  shows "foldl (\<lambda>outs e. outs[gs_ret e := gs_g e]) (replicate (length gs) None) (map (with_ref k s) gs') =
    map (\<lambda>e. Some (Fine (fine_idx k s (gs_addr e)))) gs" (is "?outs = _")
proof (rule nth_equalityI)
  let ?es = "map (with_ref k s) gs'"
  have ret: "gs_ret (gs ! i) = i" if "i < length gs" for i
    using that arg_cong [OF assms(1), of "\<lambda>xs. xs ! i"] by simp
  have b: "\<forall>e \<in> set ?es. gs_ret e < length (replicate (length gs) (None :: granule_ref option))"
    using ret assms(2) by (auto simp: in_set_conv_nth)
  have "distinct (map gs_ret ?es)" using assms(3) by (simp add: comp_def)
  from publish [OF this b] have pub: "\<forall>e \<in> set ?es. ?outs ! gs_ret e = gs_g e" "length ?outs = length gs"
    unfolding length_replicate by blast+
  show "length ?outs = length (map (\<lambda>e. Some (Fine (fine_idx k s (gs_addr e)))) gs)" using pub(2) by simp
  fix i assume "i < length ?outs"
  then have i: "i < length gs" using pub(2) by simp
  then have "gs ! i \<in> set gs'" using assms(2) by simp
  then have "?outs ! gs_ret (with_ref k s (gs ! i)) = gs_g (with_ref k s (gs ! i))"
    by (intro bspec [OF pub(1)]) simp
  then show "?outs ! i = map (\<lambda>e. Some (Fine (fine_idx k s (gs_addr e)))) gs ! i" using ret [OF i] i by simp
qed

text \<open>The locks of a list of entries are taken in its order, and given back in the opposite order.\<close>

definition lock_events :: "nat \<Rightarrow> granule_tracking \<Rightarrow> tr_granule_set list \<Rightarrow> bool \<Rightarrow> lock_event list" where
  "lock_events k s es keep = map (Acquire \<circ> with_ref k s) es @
     (if keep then [] else map Release (rev (map (with_ref k s) es)))"

lemma lock_set_rejected:
  assumes "tracked k s" "0 < length gs" "length gs \<le> 3"
    and "\<not> (distinct (map gs_addr gs) \<and> (\<forall>e \<in> set gs. in_conv s (gs_addr e)))"
  shows "tr_find_lock_fine_granules s gs outs = Some (RMI_ERROR_INPUT, outs, [], s)"
  using assms(2-4) by (auto simp: tr_find_lock_fine_granules_def duplicate_addr set_valid_eq [OF assms(1)])

lemma lock_set_ordered:
  assumes "tracked k s" "0 < length gs" "length gs \<le> 3" "\<forall>e \<in> set gs. tr_granule_lock_order (gs_state e) \<noteq> None"
    and "\<forall>e \<in> set gs. in_conv s (gs_addr e) \<longrightarrow> free (gran k s (gs_addr e))" "map gs_ret gs = [0..<length gs]"
    and v: "distinct (map gs_addr gs)" "\<forall>e \<in> set gs. in_conv s (gs_addr e)"
  defines "ok \<equiv> \<forall>e \<in> set gs. matches k s e"
  shows "\<exists>ret gs'. ret \<noteq> RMI_SUCCESS \<and> mset gs' = mset gs \<and> sorted_wrt lock_before gs' \<and>
    tr_find_lock_fine_granules s gs (replicate (length gs) None) = Some (if ok
      then (RMI_SUCCESS, map (\<lambda>e. Some (Fine (fine_idx k s (gs_addr e)))) gs, lock_events k s gs' True,
        s\<lparr>gt_granules := \<lambda>i. if i \<in> fine_idx k s ` gs_addr ` set gs then locked (gt_granules s i) else gt_granules s i\<rparr>)
      else (ret, replicate (length gs) None, lock_events k s (takeWhile (matches k s) gs') False, s))"
proof -
  from tr_sort_granules_sorted [OF assms(2-4) v(1)] obtain gs' where gs': "tr_sort_granules gs = Some gs'"
    "mset gs' = mset gs" "sorted_wrt lock_before gs'" by blast
  have set: "set gs' = set gs" using gs'(2) by (rule mset_eq_setD)
  have "mset (map gs_addr gs') = mset (map gs_addr gs)" "mset (map gs_ret gs') = mset (map gs_ret gs)" using gs'(2) by simp_all
  then have d: "distinct (map gs_addr gs')" "distinct (map gs_ret gs')"
    using v(1) assms(6) by (metis mset_eq_imp_distinct_iff distinct_upt)+
  let ?pre = "takeWhile (matches k s) gs'"
  from set_lock_spec [OF assms(1) d(1)] assms(5) set obtain ret where
    lock: "set_lock s gs' = Some (ret, map (with_ref k s) ?pre, map (Acquire \<circ> with_ref k s) ?pre, lock_all k s (map gs_addr ?pre))"
      "ret = RMI_SUCCESS \<longleftrightarrow> (\<forall>e \<in> set gs'. matches k s e)" by auto
  note run = tr_find_lock_fine_granules_def duplicate_addr set_valid_eq [OF assms(1)] lock_events_def
  show ?thesis
  proof (cases ok)
    case ok: True
    then have all: "\<forall>e \<in> set gs'. matches k s e" using set by (simp add: ok_def)
    then have pre: "?pre = gs'" by (simp add: takeWhile_eq_all_conv)
    have conv: "\<forall>a \<in> set (map gs_addr gs'). in_conv s a" using all by (auto simp: matches_def usable_def)
    have "lock_all k s (map gs_addr gs') = s\<lparr>gt_granules := \<lambda>i. if i \<in> fine_idx k s ` gs_addr ` set gs
        then locked (gt_granules s i) else gt_granules s i\<rparr>"
      using lock_all_granules [OF assms(1) conv d(1)] by (simp add: set)
    then show ?thesis
      using v lock [unfolded pre] all gs' assms(2,3) publish_refs [OF assms(6) set d(2)] ok
      by (intro exI [of _ 1] exI [of _ gs']) (simp add: run)
  next
    case False
    have "\<forall>e \<in> set ?pre. in_conv s (gs_addr e) \<and> free (gran k s (gs_addr e))"
      using v assms(5) set by (auto dest: set_takeWhileD)
    moreover have "distinct (map gs_addr ?pre)" using d(1) by (auto simp: distinct_map dest: set_takeWhileD intro: inj_on_subset)
    ultimately have un: "set_unlock (lock_all k s (map gs_addr ?pre)) (rev (map (with_ref k s) ?pre)) =
        Some (map Release (rev (map (with_ref k s) ?pre)), s)"
      by (rule unlock_all [OF assms(1)])
    have "ret \<noteq> RMI_SUCCESS" using False lock(2) set by (auto simp: ok_def)
    then show ?thesis
      using v lock(1) gs' assms(2,3) un False by (intro exI [of _ ret] exI [of _ gs']) (simp add: run)
  qed
qed

text \<open>No granule of conventional memory is locked.\<close>

definition quiet :: "nat \<Rightarrow> granule_tracking \<Rightarrow> bool" where
  "quiet k s \<longleftrightarrow> tracked k s \<and> (\<forall>a. in_conv s a \<longrightarrow> free (gran k s a))"

end
