(* ===== verification/Tr_Sample.thy ===== *)
theory Tr_Sample
  imports Tr_Granule_Props
begin

text \<open>
  A concrete platform on which the granule lookup and locking operations are evaluated, used by the
  witnesses of the theories that follow.
\<close>

subsection \<open>A small platform\<close>

text \<open>
  The platform of the layout theory with every region tracked by fine granules: the first granule
  of conventional memory holds a Realm descriptor, the second is delegated, the others are
  Non-secure.
\<close>

definition sample_state :: granule_tracking where
  "sample_state = \<lparr>
     gt_data = sample_tracking\<lparr>
       tracking_regions := Some (replicate 3 \<lparr>coarse_granule = \<lparr>descriptor = 0\<rparr>,
         coarse_dev_granule = \<lparr>dev_descriptor = 0\<rparr>, tr_descriptor = 2\<rparr>),
       granule_array_tr := \<lparr>map_va = 0x1000, map_size = 0x10000000, map_state = TRACKING_REGIONS_COMMITTED\<rparr>\<rparr>,
     gt_granules = (\<lambda>i. \<lparr>descriptor = if i = 0 then 0x800 else if i = 1 then 0x400 else 0\<rparr>),
     gt_dev_granules = (\<lambda>i. \<lparr>dev_descriptor = 0\<rparr>)\<rparr>"

lemma layout_update [simp]:
  "layout k (td\<lparr>tracking_regions := x\<rparr>) = layout k td" "layout k (td\<lparr>granule_array_tr := m\<rparr>) = layout k td"
proof -
  have n: "num_fine_of (td\<lparr>tracking_regions := x\<rparr>) t = num_fine_of td t"
    "num_fine_of (td\<lparr>granule_array_tr := m\<rparr>) t = num_fine_of td t" for t
    by (cases t; simp)+
  show "layout k (td\<lparr>tracking_regions := x\<rparr>) = layout k td" "layout k (td\<lparr>granule_array_tr := m\<rparr>) = layout k td"
    by (simp_all add: layout_def n)
qed

lemma sample_tracked: "tracked 30 sample_state"
  using sample_layout by (simp add: tracked_def sample_state_def) (simp add: sample_tracking_def)

lemma sample_free: "free (gt_granules sample_state i)"
proof -
  have "descriptor (gt_granules sample_state i) \<in> {0, 0x400, 0x800}" by (simp add: sample_state_def)
  then show ?thesis
    by (auto simp: free_def refs_ok_def max_refs_def LOCKED_def STATE_def REFCOUNT_take GRN_LOCK_BIT_def
        EXTRACT_take_bit take_bit_eq_mod)
qed

lemma sample_quiet: "quiet 30 sample_state"
  by (simp add: quiet_def sample_tracked sample_free)

lemma sample_conv:
  "in_conv sample_state a \<longleftrightarrow> GRANULE_ALIGNED a \<and> 0x80000000 \<le> a \<and> a < 0x100000000"
  by (simp add: in_conv_def sample_state_def sample_tracking_def contains_def)

text \<open>The indices of an address are computed by the translations themselves.\<close>

lemma sample_fine_idx:
  assumes "in_conv sample_state a"
    and "tracking_region_fine_addr_to_idx (gt_data sample_state) a TR_MEM_TYPE_CONV = Some (i, c)"
  shows "fine_idx 30 sample_state a = i"
  using fine_lookup(1) [OF sample_tracked assms(1)] assms(2) by auto

lemma sample_region_idx:
  assumes "in_conv sample_state a"
    and "tracking_region_find (Some (gt_data sample_state)) a TR_MEM_TYPE_CONV = Some (Some i)"
  shows "region_idx 30 sample_state a = i"
  using region_lookup(1) [OF sample_tracked assms(1)] assms(2) by simp

lemmas sample_eval = sample_state_def sample_tracking_def tracking_region_fine_addr_to_idx_def tracking_region_find_def
  tracking_region_addr_to_idx_def tracking_region_find_addr_def tracking_region_get_size_def tracking_region_fine_stride_def
  region_size_exp round_up_def round_down_def find_addr_loop.simps GRANULE_ALIGNED_nat drop_bit_eq_div word_le_nat_alt

lemma sample_fine:
  "fine_idx 30 sample_state 0x80000000 = 0" "fine_idx 30 sample_state 0x80001000 = 1"
  "fine_idx 30 sample_state 0x80002000 = 2" "fine_idx 30 sample_state 0x80003000 = 3"
  by (rule sample_fine_idx, simp add: sample_conv GRANULE_ALIGNED_nat, simp add: sample_eval)+

lemma sample_region:
  "region_idx 30 sample_state 0x80000000 = 1" "region_idx 30 sample_state 0x80001000 = 1"
  "region_idx 30 sample_state 0x80002000 = 1" "region_idx 30 sample_state 0x80003000 = 1"
  by (rule sample_region_idx, simp add: sample_conv GRANULE_ALIGNED_nat, simp add: sample_eval)+

lemma sample_region_of:
  assumes "region_idx 30 sample_state a = 1"
  shows "tracking_region_get_state (region_of 30 sample_state a) = trs_fine"
    "\<not> tracking_region_transition_pending (region_of 30 sample_state a)"
  using assms by (simp_all add: region_of_def region_at_def sample_state_def tracking_region_get_state_def
      tracking_region_transition_pending_def TR_TRANSITION_BIT_def EXTRACT_take_bit take_bit_eq_mod tr_state_of_val_def)

lemma sample_states:
  "STATE (gt_granules sample_state 0) = GRANULE_STATE_RD" "STATE (gt_granules sample_state 1) = GRANULE_STATE_DELEGATED"
  "STATE (gt_granules sample_state 2) = GRANULE_STATE_NS" "STATE (gt_granules sample_state 3) = GRANULE_STATE_NS"
  by (simp_all add: sample_state_def STATE_def EXTRACT_take_bit take_bit_eq_mod drop_bit_eq_div)

lemma sample_usable:
  assumes "in_conv sample_state a" "region_idx 30 sample_state a = 1"
  shows "usable 30 sample_state a"
  using assms sample_region_of by (simp add: usable_def)

end
