(* ===== verification/Tr_Granule_Run.thy ===== *)
theory Tr_Granule_Run
  imports Tr_Sample
begin

text \<open>
  Runs of fine granules: the longest matching run is locked, and the publication of delegation
  progress changes exactly the granules of the run.
\<close>

subsection \<open>Locking a run\<close>

primrec pages :: "nat \<Rightarrow> u64 \<Rightarrow> u64 list" where
  "pages 0 addr = []"
| "pages (Suc n) addr = addr # pages n (addr + GRANULE_SIZE)"

text \<open>
  The page belongs to the run: it lies in some bank of conventional memory, in the same region, and
  its granule is in the expected state. The bank need not be that of the first page.
\<close>

definition in_run :: "nat \<Rightarrow> granule_tracking \<Rightarrow> u64 \<Rightarrow> u8 \<Rightarrow> u64 \<Rightarrow> bool" where
  "in_run k s addr st a \<longleftrightarrow> in_conv s a \<and> region_idx k s a = region_idx k s addr \<and> STATE (gran k s a) = st"

lemma length_pages [simp]: "length (pages n addr) = n"
  by (induction n arbitrary: addr) simp_all

lemma nth_pages: "i < n \<Longrightarrow> pages n addr ! i = addr + of_nat i * GRANULE_SIZE"
proof (induction n arbitrary: addr i)
  case (Suc n)
  then show ?case by (cases i) (simp_all add: algebra_simps)
qed simp

lemma distinct_pages:
  assumes "n \<le> 2 ^ 52"
  shows "distinct (pages n addr)"
proof -
  have "i = j" if ij: "i < n" "j < n" "addr + of_nat i * GRANULE_SIZE = addr + of_nat j * GRANULE_SIZE" for i j
  proof -
    have m: "unat (of_nat l * GRANULE_SIZE :: u64) = l * 4096" if "l < n" for l
    proof -
      have "l * 4096 < 2 ^ 64" using that assms by simp
      then have "unat (of_nat (l * 4096) :: u64) = l * 4096" by (simp add: unsigned_of_nat take_bit_nat_eq_self del: of_nat_mult)
      then show ?thesis by simp
    qed
    have "unat (of_nat i * GRANULE_SIZE :: u64) = unat (of_nat j * GRANULE_SIZE :: u64)" using ij(3) by simp
    then show ?thesis unfolding m [OF ij(1)] m [OF ij(2)] by simp
  qed
  then show ?thesis by (auto simp: distinct_conv_nth nth_pages)
qed

lemma region_of_idx: "region_idx k s a = region_idx k s b \<Longrightarrow> region_of k s a = region_of k s b"
  by (simp add: region_of_def)

lemma run_loop_spec:
  assumes "tracked k s" "usable k s addr" "distinct (pages n cur)" "\<forall>a \<in> set (pages n cur). in_conv s a \<longrightarrow> free (gran k s a)"
  shows "\<exists>ret. run_loop n s (region_idx k s addr) cur st l =
      Some (ret, l + of_nat (length (takeWhile (in_run k s addr st) (pages n cur))),
        lock_all k s (takeWhile (in_run k s addr st) (pages n cur))) \<and>
    (l + of_nat (length (takeWhile (in_run k s addr st) (pages n cur))) \<noteq> 0 \<longrightarrow> ret = RMI_SUCCESS) \<and>
    (0 < n \<and> l = 0 \<and> cur = addr \<and> \<not> in_run k s addr st addr \<longrightarrow> ret = RMI_ERROR_INPUT)"
  using assms
proof (induction n arbitrary: cur l s)
  case (Suc n)
  let ?t = "takeWhile (in_run k s addr st) (pages (Suc n) cur)"
  have addr: "in_conv s addr" using Suc.prems(2) by (simp add: usable_def)
  show ?case
  proof (cases "in_conv s cur \<and> region_idx k s cur = region_idx k s addr")
    case False
    then have "\<not> in_run k s addr st cur" by (auto simp: in_run_def)
    moreover have "\<exists>f. tracking_region_find (Some (gt_data s)) cur TR_MEM_TYPE_CONV = Some f \<and> f \<noteq> Some (region_idx k s addr)"
      using False region_lookup(1,3) [OF Suc.prems(1), of cur] by (cases "in_conv s cur") auto
    moreover have "cur \<noteq> addr" using False addr by auto
    ultimately show ?thesis by auto
  next
    case True
    then have r: "region_of k s cur = region_of k s addr" by (intro region_of_idx) simp
    have fr: "free (gran k s cur)" using Suc.prems(4) True by simp
    have find: "tracking_region_find (Some (gt_data s)) cur TR_MEM_TYPE_CONV = Some (Some (region_idx k s addr))"
      using region_lookup(1) [OF Suc.prems(1)] True by simp
    have lock: "tr_find_lock_granule_read_locked s (region_idx k s addr) cur GRANULE_SIZE st =
        Some (if STATE (gran k s cur) \<noteq> st then (RMI_ERROR_INPUT, None, s)
          else (RMI_SUCCESS, Some (Fine (fine_idx k s cur)), lock_gran k s cur))"
      using read_locked_fine [OF Suc.prems(1) _ fr, of st] True Suc.prems(2) r by (simp add: usable_def)
    show ?thesis
    proof (cases "STATE (gran k s cur) = st")
      case False
      then have "\<not> in_run k s addr st cur" by (simp add: in_run_def)
      then show ?thesis unfolding run_loop.simps find lock using False by simp
    next
      case st: True
      let ?s = "lock_gran k s cur"
      have run: "in_run k s addr st cur" using True st by (simp add: in_run_def)
      have other: "gran k ?s a = gran k s a" if a: "a \<in> set (pages n (cur + GRANULE_SIZE))" "in_conv s a" for a
      proof -
        have "cur \<noteq> a" using Suc.prems(3) a(1) by auto
        then show ?thesis using True by (intro gran_other [OF Suc.prems(1) _ a(2)]) simp
      qed
      have m: "in_run k ?s addr st a = in_run k s addr st a" if "a \<in> set (pages n (cur + GRANULE_SIZE))" for a
        using other [OF that] by (auto simp: in_run_def simp del: fun_upd_apply)
      have p: "tracked k ?s" "usable k ?s addr" "distinct (pages n (cur + GRANULE_SIZE))" using Suc.prems by simp_all
      have "\<forall>a \<in> set (pages n (cur + GRANULE_SIZE)). in_conv ?s a \<longrightarrow> free (gran k ?s a)"
        using other Suc.prems(4) by (simp del: fun_upd_apply)
      from Suc.IH [OF p this, of "l + 1"] obtain ret where
        ih: "run_loop n ?s (region_idx k s addr) (cur + GRANULE_SIZE) st (l + 1) =
          Some (ret, l + 1 + of_nat (length (takeWhile (in_run k ?s addr st) (pages n (cur + GRANULE_SIZE)))),
            lock_all k ?s (takeWhile (in_run k ?s addr st) (pages n (cur + GRANULE_SIZE))))"
          "l + 1 + of_nat (length (takeWhile (in_run k ?s addr st) (pages n (cur + GRANULE_SIZE)))) \<noteq> 0 \<longrightarrow> ret = RMI_SUCCESS"
        by auto
      have t: "takeWhile (in_run k ?s addr st) (pages n (cur + GRANULE_SIZE)) = takeWhile (in_run k s addr st) (pages n (cur + GRANULE_SIZE))"
        using m by (intro takeWhile_cong) auto
      have "run_loop (Suc n) s (region_idx k s addr) cur st l = run_loop n ?s (region_idx k s addr) (cur + GRANULE_SIZE) st (l + 1)"
        unfolding run_loop.simps find lock using st by simp
      then show ?thesis using ih run unfolding t by (auto simp: algebra_simps)
    qed
  qed
qed simp

definition run_length :: "nat \<Rightarrow> granule_tracking \<Rightarrow> u64 \<Rightarrow> u64 \<Rightarrow> u8 \<Rightarrow> nat" where
  "run_length k s addr end_addr st = length (takeWhile (in_run k s addr st) (pages (unat ((end_addr - addr) div GRANULE_SIZE)) addr))"

definition run_locked :: "nat \<Rightarrow> granule_tracking \<Rightarrow> u64 \<Rightarrow> nat \<Rightarrow> granule_tracking" where
  "run_locked k s addr n = s\<lparr>gt_granules := \<lambda>i. if i \<in> fine_idx k s ` set (pages n addr)
     then locked (gt_granules s i) else gt_granules s i\<rparr>"

lemma take_pages: "m \<le> n \<Longrightarrow> take m (pages n addr) = pages m addr"
  by (rule nth_equalityI) (simp_all add: nth_pages)

lemma run_pages:
  assumes "n = run_length k s addr end_addr st"
  shows "takeWhile (in_run k s addr st) (pages (unat ((end_addr - addr) div GRANULE_SIZE)) addr) = pages n addr"
    "\<forall>a \<in> set (pages n addr). in_run k s addr st a" "n < 2 ^ 52"
proof -
  let ?N = "unat ((end_addr - addr) div GRANULE_SIZE)"
  have le: "n \<le> ?N" unfolding assms run_length_def by (metis length_pages length_takeWhile_le)
  have "?N = unat (end_addr - addr) div 4096" by (simp add: unat_div)
  also have "\<dots> < 2 ^ 52" using unat_lt2p_64 [of "end_addr - addr"] by simp
  finally show "n < 2 ^ 52" using le by simp
  show e: "takeWhile (in_run k s addr st) (pages ?N addr) = pages n addr"
    using take_pages [OF le, of addr] unfolding assms run_length_def by (metis takeWhile_eq_take)
  then show "\<forall>a \<in> set (pages n addr). in_run k s addr st a" by (metis set_takeWhileD)
qed

lemma find_lock_run:
  fixes st :: u8
  assumes "quiet k s" "usable k s addr" "GRANULE_ALIGNED end_addr" "addr < end_addr"
  defines "n \<equiv> run_length k s addr end_addr st"
  shows "tr_find_lock_fine_granule_run s addr end_addr st =
    Some (if n = 0 then (RMI_ERROR_INPUT, 0, s) else (RMI_SUCCESS, of_nat n, run_locked k s addr n))"
proof -
  let ?N = "unat ((end_addr - addr) div GRANULE_SIZE)"
  have tr: "tracked k s" and fr: "\<forall>a \<in> set (pages ?N addr). in_conv s a \<longrightarrow> free (gran k s a)"
    using assms(1) by (auto simp: quiet_def)
  have conv: "in_conv s addr" and al: "GRANULE_ALIGNED addr" using assms(2) by (auto simp: usable_def in_conv_def)
  have e0: "?N = unat (end_addr - addr) div 4096" by (simp add: unat_div)
  then have N: "?N \<le> 2 ^ 52" using unat_lt2p_64 [of "end_addr - addr"] by simp
  have d: "unat (end_addr - addr) = unat end_addr - unat addr"
    using assms(4) by (intro unat_sub) simp
  moreover have lt: "unat addr < unat end_addr" using assms(4) by (simp add: word_less_nat_alt)
  moreover have "4096 dvd unat end_addr - unat addr"
    using assms(3) al by (intro dvd_diff_nat) (simp_all add: GRANULE_ALIGNED_nat dvd_eq_mod_eq_0)
  ultimately have "4096 \<le> unat (end_addr - addr)" by (intro dvd_imp_le) auto
  then have pos: "0 < ?N" unfolding e0 by (simp add: div_greater_zero_iff)
  note run = run_pages [where k = k and s = s and addr = addr and end_addr = end_addr and st = st, OF refl, folded n_def]
  have len: "length (takeWhile (in_run k s addr st) (pages ?N addr)) = n" by (simp add: n_def run_length_def)
  from run_loop_spec [OF tr assms(2) distinct_pages [OF N] fr, of st 0] obtain ret where
    loop: "run_loop ?N s (region_idx k s addr) addr st 0 = Some (ret, of_nat n, lock_all k s (pages n addr))"
      "of_nat n \<noteq> (0 :: u64) \<longrightarrow> ret = RMI_SUCCESS" "\<not> in_run k s addr st addr \<longrightarrow> ret = RMI_ERROR_INPUT"
    unfolding run(1) using pos by auto
  have z: "of_nat n = (0 :: u64) \<longleftrightarrow> n = 0"
    using run(3) by (simp add: word_unat_eq_iff unsigned_of_nat take_bit_nat_eq_self)
  have "n = 0 \<longleftrightarrow> \<not> in_run k s addr st addr"
  proof -
    obtain M where "?N = Suc M" using pos gr0_conv_Suc by blast
    then show ?thesis by (simp add: n_def run_length_def)
  qed
  moreover have "lock_all k s (pages n addr) = run_locked k s addr n"
    unfolding run_locked_def
    by (rule lock_all_granules [OF tr _ distinct_pages [OF less_imp_le [OF run(3)]]]) (use run(2) in \<open>auto simp: in_run_def\<close>)
  moreover have "tr_active_tracking_size (gt_data s) (region_of k s addr) = Some (RMI_SUCCESS, Some GRANULE_SIZE)"
    using assms(2) by (simp add: tr_active_tracking_size_def usable_def)
  moreover have "run_locked k s addr 0 = s" by (simp add: run_locked_def)
  ultimately show ?thesis
    using loop z al assms(3,4) region_lookup(1,2) [OF tr conv]
    unfolding tr_find_lock_fine_granule_run_def by (auto simp: tr_encode_lookup_result_def)
qed

subsection \<open>Publishing progress\<close>

lemma for_each_fine:
  assumes "\<And>s'. gt_data s' = gt_data s \<Longrightarrow> (\<forall>i \<in> set is. f i s' = on_granule (h i) s' (Fine (idx i)))"
    and "distinct (map idx is)" "\<forall>i \<in> set is. h i (gt_granules s (idx i)) = Some (g i)"
  shows "\<exists>t. for_each is f s = Some t \<and> gt_data t = gt_data s \<and> gt_dev_granules t = gt_dev_granules s \<and>
    (\<forall>i \<in> set is. gt_granules t (idx i) = g i) \<and> (\<forall>j. j \<notin> idx ` set is \<longrightarrow> gt_granules t j = gt_granules s j)"
  using assms
proof (induction "is" arbitrary: s)
  case (Cons i "is")
  let ?s = "s\<lparr>gt_granules := (gt_granules s)(idx i := g i)\<rparr>"
  have "f i s = Some ?s" using Cons.prems(1) [OF refl] Cons.prems(3) by (simp add: on_granule_def)
  moreover have "\<exists>t. for_each is f ?s = Some t \<and> gt_data t = gt_data ?s \<and> gt_dev_granules t = gt_dev_granules ?s \<and>
    (\<forall>i \<in> set is. gt_granules t (idx i) = g i) \<and> (\<forall>j. j \<notin> idx ` set is \<longrightarrow> gt_granules t j = gt_granules ?s j)"
  proof (rule Cons.IH)
    show "\<forall>i \<in> set is. f i s' = on_granule (h i) s' (Fine (idx i))" if "gt_data s' = gt_data ?s" for s'
      using Cons.prems(1) [of s'] that by simp
    show "\<forall>j \<in> set is. h j (gt_granules ?s (idx j)) = Some (g j)"
      using Cons.prems(2,3) by (auto simp: image_iff)
  qed (use Cons.prems(2) in simp)
  then obtain t where "for_each is f ?s = Some t" "gt_data t = gt_data s" "gt_dev_granules t = gt_dev_granules s"
    "\<forall>i \<in> set is. gt_granules t (idx i) = g i" "\<forall>j. j \<notin> idx ` set is \<longrightarrow> gt_granules t j = gt_granules ?s j" by auto
  ultimately show ?case using Cons.prems(2) by auto
qed simp

lemma fine_pages_inj:
  assumes "tracked k s" "n \<le> 2 ^ 52" "\<forall>a \<in> set (pages n addr). in_conv s a"
  shows "distinct (map (\<lambda>i. fine_idx k s (addr + of_nat i * GRANULE_SIZE)) [0..<n])"
proof -
  have "distinct (map (fine_idx k s) (pages n addr))"
    using distinct_pages [OF assms(2), of addr] fine_idx_inj [OF assms(1)] assms(3)
    by (auto simp: distinct_map inj_on_def)
  moreover have "map (fine_idx k s) (pages n addr) = map (\<lambda>i. fine_idx k s (addr + of_nat i * GRANULE_SIZE)) [0..<n]"
    by (rule nth_equalityI) (simp_all add: nth_pages)
  ultimately show ?thesis by simp
qed

text \<open>
  The granules of the run are unlocked, unreferenced and in the given states; nothing else has
  changed.
\<close>

definition settled :: "nat \<Rightarrow> granule_tracking \<Rightarrow> u64 \<Rightarrow> nat \<Rightarrow> (nat \<Rightarrow> u8) \<Rightarrow> granule_tracking \<Rightarrow> bool" where
  "settled k s addr n st u \<longleftrightarrow> gt_data u = gt_data s \<and> gt_dev_granules u = gt_dev_granules s \<and>
     (\<forall>i < n. let g = gt_granules u (fine_idx k s (addr + of_nat i * GRANULE_SIZE))
        in \<not> LOCKED g \<and> STATE g = st i \<and> REFCOUNT g = 0) \<and>
     (\<forall>j. j \<notin> fine_idx k s ` set (pages n addr) \<longrightarrow> gt_granules u j = gt_granules s j)"

lemma set_pages: "set (pages n addr) = (\<lambda>i. addr + of_nat i * GRANULE_SIZE) ` {0..<n}"
proof -
  have "pages n addr = map (\<lambda>i. addr + of_nat i * GRANULE_SIZE) [0..<n]" by (rule nth_equalityI) (simp_all add: nth_pages)
  then show ?thesis by simp
qed

lemma for_each_settled:
  assumes "gt_data t = gt_data s" "gt_dev_granules t = gt_dev_granules s"
    and "\<And>s' i. gt_data s' = gt_data s \<Longrightarrow> i < n \<Longrightarrow> f i s' = on_granule (h i) s' (Fine (fine_idx k s (addr + of_nat i * GRANULE_SIZE)))"
    and "tracked k s" "n \<le> 2 ^ 52" "\<forall>a \<in> set (pages n addr). in_conv s a"
    and "\<And>i. i < n \<Longrightarrow> \<exists>g. h i (gt_granules t (fine_idx k s (addr + of_nat i * GRANULE_SIZE))) = Some g \<and>
      \<not> LOCKED g \<and> STATE g = st i \<and> REFCOUNT g = 0"
    and "\<And>j. j \<notin> fine_idx k s ` set (pages n addr) \<Longrightarrow> gt_granules t j = gt_granules s j"
  shows "\<exists>u. for_each [0..<n] f t = Some u \<and> settled k s addr n st u"
proof -
  let ?idx = "\<lambda>i. fine_idx k s (addr + of_nat i * GRANULE_SIZE)"
  obtain g where g: "\<And>i. i < n \<Longrightarrow> h i (gt_granules t (?idx i)) = Some (g i) \<and> \<not> LOCKED (g i) \<and> STATE (g i) = st i \<and> REFCOUNT (g i) = 0"
    using assms(7) by metis
  have "\<exists>u. for_each [0..<n] f t = Some u \<and> gt_data u = gt_data t \<and> gt_dev_granules u = gt_dev_granules t \<and>
    (\<forall>i \<in> set [0..<n]. gt_granules u (?idx i) = g i) \<and> (\<forall>j. j \<notin> ?idx ` set [0..<n] \<longrightarrow> gt_granules u j = gt_granules t j)"
    by (rule for_each_fine) (use assms(1,3) fine_pages_inj [OF assms(4-6)] g in auto)
  moreover have "?idx ` set [0..<n] = fine_idx k s ` set (pages n addr)" by (simp add: set_pages image_image)
  ultimately show ?thesis using assms(1,2,8) g by (auto simp: settled_def)
qed

lemma ns_no_refs: "free g \<Longrightarrow> STATE g \<in> {GRANULE_STATE_NS, GRANULE_STATE_DELEGATED, GRANULE_STATE_PARTIAL} \<Longrightarrow> REFCOUNT g = 0"
  by (auto simp: free_def refs_ok_def max_refs_def unat_eq_0)

lemma transition_free:
  assumes "free g" "STATE g \<in> {GRANULE_STATE_NS, GRANULE_STATE_PARTIAL}"
    and "st \<in> {GRANULE_STATE_NS, GRANULE_STATE_DELEGATED, GRANULE_STATE_PARTIAL}"
  shows "\<exists>g'. granule_unlock_transition (locked g) st = Some g' \<and> \<not> LOCKED g' \<and> STATE g' = st \<and> REFCOUNT g' = 0"
  using transition_locked [of st g] ns_no_refs [OF assms(1)] assms(2,3)
  by (auto simp: refs_ok_def max_refs_def)

lemma delegate_unlock:
  assumes "quiet k s" "n \<le> 2 ^ 52" "\<forall>a \<in> set (pages n addr). in_run k s addr GRANULE_STATE_NS a" "d \<le> n"
  shows "\<exists>u. granule_range_delegate_fine_unlock (run_locked k s addr n) addr (of_nat n) (of_nat d) inc = Some u \<and>
    settled k s addr n (\<lambda>i. if i < d then GRANULE_STATE_DELEGATED else if inc then GRANULE_STATE_PARTIAL else GRANULE_STATE_NS) u"
proof -
  have tr: "tracked k s" using assms(1) by (simp add: quiet_def)
  have un: "unat (of_nat m :: u64) = m" if "m \<le> n" for m
    using that assms(2) by (simp add: unsigned_of_nat take_bit_nat_eq_self)
  let ?h = "\<lambda>i g. if i < d then granule_unlock_transition g GRANULE_STATE_DELEGATED
    else if inc then granule_unlock_transition g GRANULE_STATE_PARTIAL else granule_unlock g"
  let ?f = "\<lambda>i s. do {
       g \<leftarrow> tr_addr_to_granule (gt_data s) (addr + of_nat i * GRANULE_SIZE);
       (if (of_nat i :: u64) < of_nat d
          then on_granule (\<lambda>g. granule_unlock_transition g GRANULE_STATE_DELEGATED) s g
        else if inc then on_granule (\<lambda>g. granule_unlock_transition g GRANULE_STATE_PARTIAL) s g
        else on_granule granule_unlock s g)
     }"
  have "\<exists>u. for_each [0..<n] ?f (run_locked k s addr n) = Some u \<and>
    settled k s addr n (\<lambda>i. if i < d then GRANULE_STATE_DELEGATED else if inc then GRANULE_STATE_PARTIAL else GRANULE_STATE_NS) u"
  proof (rule for_each_settled [where h = ?h, OF _ _ _ tr assms(2)])
    show "gt_data (run_locked k s addr n) = gt_data s" "gt_dev_granules (run_locked k s addr n) = gt_dev_granules s"
      by (simp_all add: run_locked_def)
    show "\<forall>a \<in> set (pages n addr). in_conv s a" using assms(3) by (simp add: in_run_def)
    fix i :: nat assume i: "i < n"
    let ?a = "addr + of_nat i * GRANULE_SIZE"
    have a: "?a \<in> set (pages n addr)" using i by (simp add: set_pages)
    then have run: "in_conv s ?a" "STATE (gran k s ?a) = GRANULE_STATE_NS" using assms(3) by (auto simp: in_run_def)
    have lt: "(of_nat i :: u64) < of_nat d \<longleftrightarrow> i < d" using un [of i] un [of d] i assms(4) by (simp add: word_less_nat_alt)
    show "?f i s' = on_granule (?h i) s' (Fine (fine_idx k s ?a))" if "gt_data s' = gt_data s" for s'
      using fine_lookup(5) [OF tr run(1)] that lt by simp
    have fr: "free (gran k s ?a)" using assms(1) run(1) by (simp add: quiet_def)
    have g: "gt_granules (run_locked k s addr n) (fine_idx k s ?a) = locked (gran k s ?a)"
      using a by (simp add: run_locked_def)
    show "\<exists>g. ?h i (gt_granules (run_locked k s addr n) (fine_idx k s ?a)) = Some g \<and> \<not> LOCKED g \<and>
      STATE g = (if i < d then GRANULE_STATE_DELEGATED else if inc then GRANULE_STATE_PARTIAL else GRANULE_STATE_NS) \<and> REFCOUNT g = 0"
      unfolding g
      using transition_free [OF fr, of GRANULE_STATE_DELEGATED] transition_free [OF fr, of GRANULE_STATE_PARTIAL]
        unlock_locked [OF fr] fr ns_no_refs [OF fr] run(2) by (auto simp: free_def)
  qed (simp add: run_locked_def)
  then show ?thesis
    using un [of d] un [of n] assms(4) by (simp add: granule_range_delegate_fine_unlock_def word_le_nat_alt)
qed

lemma settled_gran:
  assumes "settled k s addr n st u" "i < n"
  shows "\<not> LOCKED (gt_granules u (fine_idx k s (addr + of_nat i * GRANULE_SIZE)))"
    "STATE (gt_granules u (fine_idx k s (addr + of_nat i * GRANULE_SIZE))) = st i"
    "REFCOUNT (gt_granules u (fine_idx k s (addr + of_nat i * GRANULE_SIZE))) = 0"
  using assms by (auto simp: settled_def Let_def)

text \<open>Locking an owned granule and publishing a state is one update of its descriptor.\<close>

lemma lock_owned_transition:
  assumes "tracked k s" "in_conv s a" "tracking_region_get_state (region_of k s a) = trs_fine" "gt_data s' = gt_data s"
  shows "(do {
      (g, s'') \<leftarrow> tr_lock_owned_granule s' a GRANULE_SIZE expected;
      on_granule (\<lambda>g. granule_unlock_transition g new) s'' g}) =
    on_granule (\<lambda>g. do { g \<leftarrow> granule_lock g expected; granule_unlock_transition g new }) s' (Fine (fine_idx k s a))"
proof -
  have "GRANULE_ALIGNED a" using assms(2) by (simp add: in_conv_def)
  moreover have "region_at s' (region_idx k s a) = Some (region_of k s a)"
    using region_lookup(2) [OF assms(1,2)] assms(4) by (simp add: region_at_def)
  ultimately have "tr_lock_owned_granule s' a GRANULE_SIZE expected =
      Option.bind (on_granule (\<lambda>g. granule_lock g expected) s' (Fine (fine_idx k s a))) (\<lambda>t. Some (Fine (fine_idx k s a), t))"
    using region_lookup(1) [OF assms(1,2)] fine_lookup(5) [OF assms(1,2)] assms(3,4)
    by (simp add: tr_lock_owned_granule_def tr_tracking_size_valid_def)
  then show ?thesis
    by (auto simp: on_granule_def split: Option.bind_splits)
qed

lemma fine_transition:
  assumes "quiet k s" "usable k s addr" "n < 2 ^ 52" "\<forall>a \<in> set (pages n addr). in_run k s addr GRANULE_STATE_NS a"
    and "settled k s addr n (\<lambda>_. GRANULE_STATE_PARTIAL) t"
  shows "\<exists>u. granule_delegate_fine_transition t addr (of_nat n * GRANULE_SIZE) False del = Some u \<and>
    settled k s addr n (\<lambda>_. if del then GRANULE_STATE_DELEGATED else GRANULE_STATE_NS) u"
proof -
  have tr: "tracked k s" and al: "GRANULE_ALIGNED addr" using assms(1,2) by (auto simp: quiet_def usable_def in_conv_def)
  let ?st = "if del then GRANULE_STATE_DELEGATED else GRANULE_STATE_NS"
  have n: "unat (of_nat n * GRANULE_SIZE :: u64) = n * 4096"
  proof -
    have "n * 4096 < 2 ^ 64" using assms(3) by simp
    then have "unat (of_nat (n * 4096) :: u64) = n * 4096" by (simp add: unsigned_of_nat take_bit_nat_eq_self del: of_nat_mult)
    then show ?thesis by simp
  qed
  then have cnt: "unat (of_nat n * GRANULE_SIZE div GRANULE_SIZE :: u64) = n" "GRANULE_ALIGNED (of_nat n * GRANULE_SIZE)"
    by (simp_all add: unat_div GRANULE_ALIGNED_nat)
  let ?f = "\<lambda>i s. do {
      (g, s) \<leftarrow> tr_lock_owned_granule s (addr + of_nat i * GRANULE_SIZE) GRANULE_SIZE GRANULE_STATE_PARTIAL;
      on_granule (\<lambda>g. granule_unlock_transition g ?st) s g }"
  have "\<exists>u. for_each [0..<n] ?f t = Some u \<and> settled k s addr n (\<lambda>_. ?st) u"
  proof (rule for_each_settled [where h = "\<lambda>_ g. do { g \<leftarrow> granule_lock g GRANULE_STATE_PARTIAL; granule_unlock_transition g ?st }", OF _ _ _ tr])
    show "gt_data t = gt_data s" "gt_dev_granules t = gt_dev_granules s" using assms(5) by (auto simp: settled_def)
    show "gt_granules t j = gt_granules s j" if "j \<notin> fine_idx k s ` set (pages n addr)" for j
      using assms(5) that by (auto simp: settled_def)
    show "n \<le> 2 ^ 52" "\<forall>a \<in> set (pages n addr). in_conv s a" using assms(3,4) by (simp_all add: in_run_def)
    fix i :: nat assume i: "i < n"
    let ?a = "addr + of_nat i * GRANULE_SIZE"
    have run: "in_run k s addr GRANULE_STATE_NS ?a" using assms(4) i by (simp add: set_pages)
    then have "region_of k s ?a = region_of k s addr" by (intro region_of_idx) (simp add: in_run_def)
    then have "tracking_region_get_state (region_of k s ?a) = trs_fine" using assms(2) by (simp add: usable_def)
    then show "?f i s' = on_granule (\<lambda>g. do { g \<leftarrow> granule_lock g GRANULE_STATE_PARTIAL; granule_unlock_transition g ?st })
        s' (Fine (fine_idx k s ?a))" if "gt_data s' = gt_data s" for s'
      using run that by (intro lock_owned_transition [OF tr]) (auto simp: in_run_def)
    let ?g = "gt_granules t (fine_idx k s ?a)"
    have fr: "free ?g" "STATE ?g = GRANULE_STATE_PARTIAL"
      using settled_gran [OF assms(5) i] by (simp_all add: free_def refs_ok_def max_refs_def)
    then show "\<exists>g. Option.bind (granule_lock ?g GRANULE_STATE_PARTIAL) (\<lambda>g. granule_unlock_transition g ?st) = Some g \<and>
        \<not> LOCKED g \<and> STATE g = ?st \<and> REFCOUNT g = 0"
      using transition_free [OF fr(1), of ?st] by (simp add: granule_lock_eq)
  qed
  then show ?thesis using cnt al by (simp add: granule_delegate_fine_transition_def)
qed

lemma settled_ns:
  assumes "quiet k s" "\<forall>a \<in> set (pages n addr). in_run k s addr GRANULE_STATE_NS a"
    and "settled k s addr n (\<lambda>_. GRANULE_STATE_NS) u"
  shows "u = s"
proof -
  have "gt_granules u j = gt_granules s j" for j
  proof (cases "j \<in> fine_idx k s ` set (pages n addr)")
    case True
    then obtain i where i: "i < n" "j = fine_idx k s (addr + of_nat i * GRANULE_SIZE)" by (auto simp: set_pages)
    then have run: "in_run k s addr GRANULE_STATE_NS (addr + of_nat i * GRANULE_SIZE)" using assms(2) by (simp add: set_pages)
    then have fr: "free (gt_granules s j)" "STATE (gt_granules s j) = GRANULE_STATE_NS"
      using assms(1) i by (auto simp: quiet_def in_run_def)
    have f: "\<not> LOCKED (gt_granules u j)" "STATE (gt_granules u j) = GRANULE_STATE_NS" "REFCOUNT (gt_granules u j) = 0"
      using settled_gran [OF assms(3) i(1)] i(2) by simp_all
    show ?thesis
      using fr f ns_no_refs [OF fr(1)] by (intro granule_eqI) (auto simp: free_def)
  qed (use assms(3) in \<open>simp add: settled_def\<close>)
  then show ?thesis using assms(3) by (auto simp: settled_def intro!: granule_tracking.equality)
qed

subsection \<open>Properties\<close>

text \<open>
  C11. Locking a run of fine granules returns the longest run: it locks exactly the granules from
  the start address up to the end of the range, the end of the tracking region, the end of
  conventional memory, or the first granule that is not in the expected state, and returns their
  number. If there is no such granule it fails with an input error and changes nothing. The end of a
  bank ends the run only where no other bank of conventional memory continues: over the boundary
  between two banks that touch within a region the run goes on, although the comments of the code
  name a bank boundary as an end of the run.
\<close>

theorem fine_run_longest:
  assumes "quiet k s" "usable k s addr" "GRANULE_ALIGNED end_addr" "addr < end_addr"
    and "n = run_length k s addr end_addr st"
  shows "tr_find_lock_fine_granule_run s addr end_addr st =
      Some (if n = 0 then (RMI_ERROR_INPUT, 0, s) else (RMI_SUCCESS, of_nat n, run_locked k s addr n)) \<and>
    (\<forall>a \<in> set (pages n addr). in_run k s addr st a) \<and>
    (n < unat ((end_addr - addr) div GRANULE_SIZE) \<longrightarrow> \<not> in_run k s addr st (addr + of_nat n * GRANULE_SIZE))"
proof (intro conjI impI)
  show "tr_find_lock_fine_granule_run s addr end_addr st =
      Some (if n = 0 then (RMI_ERROR_INPUT, 0, s) else (RMI_SUCCESS, of_nat n, run_locked k s addr n))"
    unfolding assms(5) by (rule find_lock_run [OF assms(1-4)])
  show "\<forall>a \<in> set (pages n addr). in_run k s addr st a" by (rule run_pages(2) [OF assms(5)])
  let ?N = "unat ((end_addr - addr) div GRANULE_SIZE)"
  assume lt: "n < ?N"
  then have "\<not> in_run k s addr st (pages ?N addr ! n)"
    using nth_length_takeWhile [of "in_run k s addr st" "pages ?N addr"] assms(5) by (simp add: run_length_def)
  then show "\<not> in_run k s addr st (addr + of_nat n * GRANULE_SIZE)" using nth_pages [OF lt] by simp
qed

lemma pages_two: "pages 2 addr = [addr, addr + GRANULE_SIZE]"
  by (simp add: numeral_2_eq_2)

lemma sample_run:
  "in_conv sample_state 0x80002000" "usable 30 sample_state 0x80002000"
  "run_length 30 sample_state 0x80002000 0x80004000 GRANULE_STATE_NS = 2"
proof -
  show c: "in_conv sample_state 0x80002000" by (simp add: sample_conv GRANULE_ALIGNED_nat)
  show "usable 30 sample_state 0x80002000" by (rule sample_usable [OF c sample_region(3)])
  show "run_length 30 sample_state 0x80002000 0x80004000 GRANULE_STATE_NS = 2"
    by (simp add: run_length_def pages_two in_run_def sample_conv GRANULE_ALIGNED_nat sample_region sample_fine sample_states)
qed

theorem fine_run_longest_witness:
  "tr_find_lock_fine_granule_run sample_state 0x80002000 0x80004000 GRANULE_STATE_NS =
     Some (RMI_SUCCESS, 2, run_locked 30 sample_state 0x80002000 2)"
  using fine_run_longest [OF sample_quiet sample_run(2) _ _ sample_run(3) [symmetric]]
  by (simp add: GRANULE_ALIGNED_nat)

text \<open>
  C35. Publishing delegation progress for a locked run of Non-secure granules leaves the delegated
  prefix DELEGATED and the rest PARTIAL or Non-secure, all of them unlocked, and changes nothing
  else. A run that was left PARTIAL can be completed to DELEGATED, and rolling it back to
  Non-secure restores exactly the state before the run was locked.
\<close>

theorem delegation_progress:
  assumes "quiet k s" "usable k s addr" "GRANULE_ALIGNED end_addr" "addr < end_addr"
    and "tr_find_lock_fine_granule_run s addr end_addr GRANULE_STATE_NS = Some (RMI_SUCCESS, cnt, t)" "d \<le> unat cnt"
  shows "(\<exists>u. granule_range_delegate_fine_unlock t addr cnt (of_nat d) inc = Some u \<and>
      settled k s addr (unat cnt) (\<lambda>i. if i < d then GRANULE_STATE_DELEGATED
        else if inc then GRANULE_STATE_PARTIAL else GRANULE_STATE_NS) u) \<and>
    (\<exists>u v. granule_range_delegate_fine_unlock t addr cnt 0 True = Some u \<and>
      granule_delegate_fine_transition u addr (cnt * GRANULE_SIZE) False True = Some v \<and>
      settled k s addr (unat cnt) (\<lambda>_. GRANULE_STATE_DELEGATED) v \<and>
      granule_delegate_fine_transition u addr (cnt * GRANULE_SIZE) False False = Some s)"
proof -
  define n where "n = run_length k s addr end_addr GRANULE_STATE_NS"
  have r: "cnt = of_nat n" "t = run_locked k s addr n"
    using find_lock_run [OF assms(1-4), of GRANULE_STATE_NS, folded n_def] assms(5) by (auto split: if_splits)
  note run = run_pages(2,3) [OF n_def]
  have n: "unat cnt = n" using r(1) run(2) by (simp add: unsigned_of_nat take_bit_nat_eq_self)
  note un = delegate_unlock [OF assms(1) less_imp_le [OF run(2)] run(1)]
  obtain u where u: "granule_range_delegate_fine_unlock t addr cnt 0 True = Some u"
    "settled k s addr n (\<lambda>_. GRANULE_STATE_PARTIAL) u"
    using un [of 0 True] r by auto
  note tr = fine_transition [OF assms(1,2) run(2,1) u(2)]
  obtain w where w: "granule_delegate_fine_transition u addr (of_nat n * GRANULE_SIZE) False False = Some w"
    "settled k s addr n (\<lambda>_. GRANULE_STATE_NS) w" using tr [of False] by auto
  have "w = s" by (rule settled_ns [OF assms(1) run(1) w(2)])
  then show ?thesis using un [of d inc] assms(6) u(1) tr [of True] w(1) r n by auto
qed

theorem delegation_progress_witness:
  "\<exists>u. granule_range_delegate_fine_unlock (run_locked 30 sample_state 0x80002000 2) 0x80002000 2 1 True = Some u \<and>
     settled 30 sample_state 0x80002000 2 (\<lambda>i. if i < 1 then GRANULE_STATE_DELEGATED else GRANULE_STATE_PARTIAL) u"
proof -
  have "tr_find_lock_fine_granule_run sample_state 0x80002000 0x80004000 GRANULE_STATE_NS =
      Some (RMI_SUCCESS, 2, run_locked 30 sample_state 0x80002000 2)"
    using find_lock_run [OF sample_quiet sample_run(2), of "0x80004000" GRANULE_STATE_NS]
    by (simp add: sample_run(3) GRANULE_ALIGNED_nat)
  from delegation_progress [OF sample_quiet sample_run(2) _ _ this, where d = 1 and inc = True] show ?thesis
    by (simp add: GRANULE_ALIGNED_nat cong: if_cong)
qed

text \<open>
  C1. Locking a set of up to three fine granules is all or nothing and follows the global lock order.
  When the addresses are distinct and every granule is tracked and in its expected state, all of
  them are locked and returned to their slots and nothing else changes; otherwise no granule is
  returned and the state is untouched. A set with a duplicate or untracked address takes no lock.
  Any other set is locked in ascending order of state and then address, whatever the order of the
  request, up to the first granule that does not match, and then the acquired locks are released
  in the opposite order.
\<close>

theorem lock_fine_granules_atomic:
  assumes "tracked k s" "0 < length gs" "length gs \<le> 3" "\<forall>e \<in> set gs. tr_granule_lock_order (gs_state e) \<noteq> None"
    and "\<forall>e \<in> set gs. in_conv s (gs_addr e) \<longrightarrow> free (gran k s (gs_addr e))" "map gs_ret gs = [0..<length gs]"
    and "valid \<longleftrightarrow> distinct (map gs_addr gs) \<and> (\<forall>e \<in> set gs. in_conv s (gs_addr e))"
    and "ok \<longleftrightarrow> valid \<and> (\<forall>e \<in> set gs. matches k s e)"
  shows "\<exists>ret events. ret \<noteq> RMI_SUCCESS \<and> tr_find_lock_fine_granules s gs (replicate (length gs) None) = Some (if ok
        then (RMI_SUCCESS, map (\<lambda>e. Some (Fine (fine_idx k s (gs_addr e)))) gs, events,
          s\<lparr>gt_granules := \<lambda>i. if i \<in> fine_idx k s ` gs_addr ` set gs then locked (gt_granules s i) else gt_granules s i\<rparr>)
        else (ret, replicate (length gs) None, events, s)) \<and>
    (if valid then \<exists>gs'. mset gs' = mset gs \<and> sorted_wrt lock_before gs' \<and>
         events = lock_events k s (takeWhile (matches k s) gs') ok
     else events = [])"
proof (cases valid)
  case False
  then have "\<not> ok" using assms(8) by simp
  moreover have "tr_find_lock_fine_granules s gs outs = Some (RMI_ERROR_INPUT, outs, [], s)" for outs
    using lock_set_rejected [OF assms(1-3)] False unfolding assms(7) by blast
  ultimately show ?thesis using False by (intro exI [of _ RMI_ERROR_INPUT] exI [of _ "[]"]) simp
next
  case True
  then have v: "distinct (map gs_addr gs)" "\<forall>e \<in> set gs. in_conv s (gs_addr e)" using assms(7) by simp_all
  obtain ret gs' where r: "ret \<noteq> RMI_SUCCESS" "mset gs' = mset gs" "sorted_wrt lock_before gs'"
    "tr_find_lock_fine_granules s gs (replicate (length gs) None) = Some (if ok
      then (RMI_SUCCESS, map (\<lambda>e. Some (Fine (fine_idx k s (gs_addr e)))) gs, lock_events k s gs' True,
        s\<lparr>gt_granules := \<lambda>i. if i \<in> fine_idx k s ` gs_addr ` set gs then locked (gt_granules s i) else gt_granules s i\<rparr>)
      else (ret, replicate (length gs) None, lock_events k s (takeWhile (matches k s) gs') False, s))"
    using lock_set_ordered [OF assms(1-6) v] True assms(8) by auto
  have t: "takeWhile (matches k s) gs' = gs'" if ok
    using that assms(8) mset_eq_setD [OF r(2)] by (simp add: takeWhile_eq_all_conv)
  have "lock_events k s gs' True = lock_events k s (takeWhile (matches k s) gs') ok" if ok
    by (simp only: t [OF that] eqTrueI [OF that])
  then show ?thesis
    using r True by (intro exI [of _ ret] exI [of _ "lock_events k s (takeWhile (matches k s) gs') ok"]) (cases ok, auto)
qed

lemma sample_set:
  defines "a \<equiv> \<lparr>gs_addr = 0x80001000, gs_g = None, gs_ret = 0, gs_state = GRANULE_STATE_DELEGATED\<rparr>"
    and "b \<equiv> \<lparr>gs_addr = 0x80000000, gs_g = None, gs_ret = 1, gs_state = GRANULE_STATE_RD\<rparr>"
  shows "matches 30 sample_state a" "matches 30 sample_state b" "in_conv sample_state (gs_addr a)" "in_conv sample_state (gs_addr b)"
  using sample_usable [of "0x80001000"] sample_usable [of "0x80000000"]
  by (simp_all add: a_def b_def matches_def sample_conv GRANULE_ALIGNED_nat sample_region sample_fine sample_states)

text \<open>The granule of the Realm descriptor is requested second and locked first.\<close>

theorem lock_fine_granules_atomic_witness:
  "tr_find_lock_fine_granules sample_state
     [\<lparr>gs_addr = 0x80001000, gs_g = None, gs_ret = 0, gs_state = GRANULE_STATE_DELEGATED\<rparr>,
      \<lparr>gs_addr = 0x80000000, gs_g = None, gs_ret = 1, gs_state = GRANULE_STATE_RD\<rparr>] [None, None] =
   Some (RMI_SUCCESS, [Some (Fine 1), Some (Fine 0)],
     [Acquire \<lparr>gs_addr = 0x80000000, gs_g = Some (Fine 0), gs_ret = 1, gs_state = GRANULE_STATE_RD\<rparr>,
      Acquire \<lparr>gs_addr = 0x80001000, gs_g = Some (Fine 1), gs_ret = 0, gs_state = GRANULE_STATE_DELEGATED\<rparr>],
     sample_state\<lparr>gt_granules := \<lambda>i. if i \<in> {0, 1} then locked (gt_granules sample_state i) else gt_granules sample_state i\<rparr>)"
proof -
  let ?a = "\<lparr>gs_addr = 0x80001000, gs_g = None, gs_ret = 0, gs_state = GRANULE_STATE_DELEGATED\<rparr>"
  let ?b = "\<lparr>gs_addr = 0x80000000, gs_g = None, gs_ret = 1, gs_state = GRANULE_STATE_RD\<rparr>"
  have eq: "gs' = [?b, ?a]" if "mset gs' = mset [?a, ?b]" "sorted_wrt lock_before gs'" for gs'
  proof -
    have "length gs' = 2" using mset_eq_length [OF that(1)] by simp
    then obtain x y where "gs' = [x, y]" by (auto simp: length_Suc_conv numeral_2_eq_2)
    then show ?thesis using that by (auto simp: add_eq_conv_ex lock_before_def tr_granule_lock_order_def)
  qed
  obtain gs' where gs': "mset gs' = mset [?a, ?b]" "sorted_wrt lock_before gs'"
    "tr_find_lock_fine_granules sample_state [?a, ?b] [None, None] =
      Some (RMI_SUCCESS, [Some (Fine 1), Some (Fine 0)], lock_events 30 sample_state (takeWhile (matches 30 sample_state) gs') True,
        sample_state\<lparr>gt_granules := \<lambda>i. if i \<in> {0, 1} then locked (gt_granules sample_state i) else gt_granules sample_state i\<rparr>)"
    using lock_fine_granules_atomic [OF sample_tracked, of "[?a, ?b]" True True] sample_set
    by (force simp: tr_granule_lock_order_def sample_free sample_fine insert_commute upt_rec)
  show ?thesis using gs'(3) sample_set unfolding eq [OF gs'(1,2)] by (simp add: lock_events_def sample_fine)
qed

end
