(* ===== verification/S2tt_Walk.thy ===== *)
theory S2tt_Walk
  imports Tr_Sample S2tt_Props
begin

text \<open>
  Walking the stage 2 tables (\<^verbatim>\<open>src/lib/s2tt/src/s2tt.c\<close>): the tables are granules of the tracking
  regions, locked hand over hand from the root to the table of the walk's last level. The contents of
  the tables are a function of their granules.
\<close>

subsection \<open>Indices\<close>

definition s2_addr_to_idx :: "u64 \<Rightarrow> int \<Rightarrow> u64" where
  "s2_addr_to_idx addr level = (
     let s2tte_stride = (if level < S2TT_MIN_STARTING_LEVEL then S2TTE_STRIDE_LM1 else S2TTE_STRIDE);
         levels = nat (S2TT_PAGE_LEVEL - level);
         lsb = levels * S2TTE_STRIDE + GRANULE_SHIFT
     in drop_bit lsb addr AND (push_bit s2tte_stride 1 - 1))"

definition s2_sl_addr_to_idx :: "u64 \<Rightarrow> int \<Rightarrow> u32 \<Rightarrow> u64" where
  "s2_sl_addr_to_idx addr start_level bits = (
     let levels = nat (S2TT_PAGE_LEVEL - start_level);
         lsb = levels * S2TTE_STRIDE + GRANULE_SHIFT
     in drop_bit lsb (addr AND (push_bit (unat bits) 1 - 1)))"

definition entry_is_table :: "u64 \<Rightarrow> bool" where
  "entry_is_table entry \<longleftrightarrow> entry AND S2TT_DESC_TYPE_MASK = S2TTE_L012_TABLE"

subsection \<open>The walk\<close>

definition table_get_entry :: "(granule_ref \<Rightarrow> s2tt) \<Rightarrow> granule_ref \<Rightarrow> u64 \<Rightarrow> u64 option" where
  "table_get_entry tables g_tbl idx = s2tte_read (tables g_tbl) (unat idx)"

definition find_next_level_idx ::
  "cached_idregs \<Rightarrow> granule_ref s2tt_context \<Rightarrow> tracking_region_data \<Rightarrow> (granule_ref \<Rightarrow> s2tt) \<Rightarrow> granule_ref \<Rightarrow> u64
     \<Rightarrow> granule_ref option option" where
  "find_next_level_idx hw s2_ctx td tables g_tbl idx = do {
     entry \<leftarrow> table_get_entry tables g_tbl idx;
     if \<not> entry_is_table entry then Some None
     else do {
       pa \<leftarrow> s2tte_to_pa hw s2_ctx entry S2TT_PAGE_LEVEL;
       g \<leftarrow> tr_addr_to_granule td pa;
       Some (Some g)
     }
   }"

definition find_lock_next_level ::
  "cached_idregs \<Rightarrow> granule_ref s2tt_context \<Rightarrow> granule_tracking \<Rightarrow> (granule_ref \<Rightarrow> s2tt) \<Rightarrow> granule_ref \<Rightarrow> u64 \<Rightarrow> int
     \<Rightarrow> (granule_ref option \<times> granule_tracking) option" where
  "find_lock_next_level hw s2_ctx s tables g_tbl map_addr level = do {
     let idx = s2_addr_to_idx map_addr level;
     g \<leftarrow> find_next_level_idx hw s2_ctx (gt_data s) tables g_tbl idx;
     case g of
       None \<Rightarrow> Some (None, s)
     | Some r \<Rightarrow> do { s \<leftarrow> on_granule (\<lambda>g. granule_lock g GRANULE_STATE_RTT) s r; Some (Some r, s) }
   }"

text \<open>The rest of the walk from the table \<open>g_tbl\<close> at level \<open>i\<close>, with \<open>n\<close> levels to go.\<close>

primrec walk_loop ::
  "nat \<Rightarrow> cached_idregs \<Rightarrow> granule_ref s2tt_context \<Rightarrow> granule_tracking \<Rightarrow> (granule_ref \<Rightarrow> s2tt) \<Rightarrow> granule_ref \<Rightarrow> u64 \<Rightarrow> int
     \<Rightarrow> (int \<times> granule_ref \<times> granule_tracking) option" where
  "walk_loop 0 hw s2_ctx s tables g_tbl map_addr i = Some (i, g_tbl, s)"
| "walk_loop (Suc n) hw s2_ctx s tables g_tbl map_addr i = do {
     (g, s) \<leftarrow> find_lock_next_level hw s2_ctx s tables g_tbl map_addr i;
     case g of
       None \<Rightarrow> Some (i, g_tbl, s)
     | Some r \<Rightarrow> do {
         s \<leftarrow> on_granule granule_unlock s g_tbl;
         walk_loop n hw s2_ctx s tables r map_addr (i + 1)
       }
   }"

text \<open>The table of a concatenated starting level that the address selects.\<close>

definition lock_root ::
  "granule_ref s2tt_context \<Rightarrow> granule_tracking \<Rightarrow> u64 \<Rightarrow> (granule_ref \<times> granule_tracking) option" where
  "lock_root s2_ctx s sl_idx = (
     let g_root = g_rtt s2_ctx
     in if unat sl_idx \<ge> S2TTES_PER_S2TT then do {
          let tt_num = (ucast (drop_bit S2TTE_STRIDE sl_idx) :: u32);
          c_assert (tt_num < num_root_rtts s2_ctx);
          root_addr \<leftarrow> tr_granule_addr (gt_data s) g_root;
          let concat_root_addr = root_addr + ucast tt_num * GRANULE_SIZE;
          g_concat_root \<leftarrow> tr_addr_to_granule (gt_data s) concat_root_addr;
          s \<leftarrow> on_granule (\<lambda>g. granule_lock g GRANULE_STATE_RTT) s g_concat_root;
          s \<leftarrow> on_granule granule_unlock s g_root;
          Some (g_concat_root, s)
        } else Some (g_root, s))"

text \<open>
  The array \<^verbatim>\<open>g_tbls\<close> of the tables on the way has a slot for every level from -1 to 3, which the walk
  uses one after the other: only the last one is kept, and the lower end of the array is checked.
\<close>

definition s2tt_walk_lock_unlock ::
  "cached_idregs \<Rightarrow> granule_ref s2tt_context \<Rightarrow> granule_tracking \<Rightarrow> (granule_ref \<Rightarrow> s2tt) \<Rightarrow> u64 \<Rightarrow> int
     \<Rightarrow> (granule_ref s2tt_walk \<times> granule_tracking) option" where
  "s2tt_walk_lock_unlock hw s2_ctx s tables map_addr level = do {
     let start_level = s2_starting_level s2_ctx;
     c_assert (level \<ge> start_level);
     c_assert (level \<le> S2TT_PAGE_LEVEL);
     c_assert (map_addr < push_bit (unat (ipa_bits s2_ctx)) 1);
     lpa2 \<leftarrow> s2tt_lpa2_enabled hw s2_ctx;
     c_assert (if lpa2 then unat (ipa_bits s2_ctx) \<le> S2TTE_OA_BITS_LPA2 else unat (ipa_bits s2_ctx) \<le> S2TTE_OA_BITS);
     let sl_idx = s2_sl_addr_to_idx map_addr start_level (ipa_bits s2_ctx);
     (g_root, s) \<leftarrow> lock_root s2_ctx s sl_idx;
     c_assert (0 \<le> start_level + 1);
     (last, g, s) \<leftarrow> walk_loop (nat (level - start_level)) hw s2_ctx s tables g_root map_addr start_level;
     Some (\<lparr>g_llt = g, index = s2_addr_to_idx map_addr last, last_level = last\<rparr>, s)
   }"

subsection \<open>The tables a walk visits\<close>

text \<open>The table reached from \<open>t\<close> in at most \<open>n\<close> levels, without any locking.\<close>

primrec descend ::
  "nat \<Rightarrow> cached_idregs \<Rightarrow> granule_ref s2tt_context \<Rightarrow> tracking_region_data \<Rightarrow> (granule_ref \<Rightarrow> s2tt) \<Rightarrow> granule_ref \<Rightarrow> u64 \<Rightarrow> int
     \<Rightarrow> (int \<times> granule_ref) option" where
  "descend 0 hw s2_ctx td tables t addr i = Some (i, t)"
| "descend (Suc n) hw s2_ctx td tables t addr i = do {
     next \<leftarrow> find_next_level_idx hw s2_ctx td tables t (s2_addr_to_idx addr i);
     case next of None \<Rightarrow> Some (i, t) | Some r \<Rightarrow> descend n hw s2_ctx td tables r addr (i + 1)
   }"

text \<open>
  A well-formed forest of tables: \<open>lv\<close> gives the level of each table, every table is an unlocked
  fine granule in the state RTT, and a table entry above the page level points to a table of the
  next level.
\<close>

definition rtt_forest ::
  "cached_idregs \<Rightarrow> granule_ref s2tt_context \<Rightarrow> nat \<Rightarrow> granule_tracking \<Rightarrow> (granule_ref \<Rightarrow> s2tt) \<Rightarrow> (granule_ref \<rightharpoonup> int) \<Rightarrow> bool" where
  "rtt_forest hw s2_ctx k s tables lv \<longleftrightarrow> tracked k s \<and> (\<forall>t l. lv t = Some l \<longrightarrow>
     (\<exists>i. t = Fine i \<and> STATE (gt_granules s i) = GRANULE_STATE_RTT \<and> free (gt_granules s i)) \<and>
     length (tables t) = S2TTES_PER_S2TT \<and>
     (\<forall>e \<in> set (tables t). l < S2TT_PAGE_LEVEL \<and> entry_is_table e \<longrightarrow>
        (\<exists>a. s2tte_to_pa hw s2_ctx e S2TT_PAGE_LEVEL = Some a \<and> in_conv s a \<and> lv (Fine (fine_idx k s a)) = Some (l + 1))))"

text \<open>The state with one table locked.\<close>

fun lock_table :: "granule_tracking \<Rightarrow> granule_ref \<Rightarrow> granule_tracking" where
  "lock_table s (Fine i) = s\<lparr>gt_granules := (gt_granules s)(i := locked (gt_granules s i))\<rparr>"
| "lock_table s (Coarse r) = s"

lemma idx_range: "unat (s2_addr_to_idx addr level) < S2TTES_PER_S2TT"
proof -
  have "unat (take_bit n v) < 2 ^ n" for n and v :: u64
    using take_bit_nat_less_exp [of n "unat v"] by (simp add: unsigned_take_bit_eq)
  then have "unat (take_bit 4 v) < 2 ^ 4" "unat (take_bit 9 v) < 2 ^ 9" for v :: u64 by blast+
  then have "unat (take_bit 4 v) < 512" "unat (take_bit 9 v) < 512" for v :: u64 by (force intro: less_trans)+
  then show ?thesis by (simp add: s2_addr_to_idx_def Let_def flip: mask_eq_exp_minus_1 take_bit_eq_mask)
qed

text \<open>Hand over hand: from one locked table to the next.\<close>

lemma hand_over:
  assumes "rtt_forest hw s2_ctx k s tables lv" "lv t = Some l" "lv r = Some l'" "t \<noteq> r"
  shows "\<exists>u. on_granule (\<lambda>g. granule_lock g GRANULE_STATE_RTT) (lock_table s t) r = Some u \<and>
    on_granule granule_unlock u t = Some (lock_table s r)"
proof -
  from assms obtain i j where "t = Fine i" "r = Fine j" "i \<noteq> j"
    "STATE (gt_granules s j) = GRANULE_STATE_RTT" "free (gt_granules s j)" "free (gt_granules s i)"
    unfolding rtt_forest_def by blast
  then show ?thesis
    by (simp add: on_granule_def granule_lock_eq unlock_locked fun_upd_twist)
qed

lemma lock_table_data [simp]: "gt_data (lock_table s t) = gt_data s"
  by (cases t) auto

text \<open>One level: a table entry leads to a table of the next level.\<close>

lemma forest_next:
  fixes addr :: u64
  assumes "rtt_forest hw s2_ctx k s tables lv" "lv t = Some l" "l < S2TT_PAGE_LEVEL"
  defines "e \<equiv> tables t ! unat (s2_addr_to_idx addr l)"
  shows "\<not> entry_is_table e \<and> find_next_level_idx hw s2_ctx (gt_data s) tables t (s2_addr_to_idx addr l) = Some None \<or>
    (\<exists>r. find_next_level_idx hw s2_ctx (gt_data s) tables t (s2_addr_to_idx addr l) = Some (Some r) \<and> lv r = Some (l + 1) \<and> r \<noteq> t)"
proof -
  have tr: "tracked k s" and len: "length (tables t) = S2TTES_PER_S2TT" using assms(1,2) unfolding rtt_forest_def by blast+
  then have e: "e \<in> set (tables t)" "table_get_entry tables t (s2_addr_to_idx addr l) = Some e"
    using idx_range [of addr l] by (simp_all add: e_def table_get_entry_def s2tte_read_def)
  show ?thesis
  proof (cases "entry_is_table e")
    case True
    then obtain a where a: "s2tte_to_pa hw s2_ctx e S2TT_PAGE_LEVEL = Some a" "in_conv s a" "lv (Fine (fine_idx k s a)) = Some (l + 1)"
      using assms(1,2,3) e(1) unfolding rtt_forest_def by blast
    then show ?thesis
      using e(2) True fine_lookup(5) [OF tr a(2)] assms(2) by (auto simp: find_next_level_idx_def)
  next
    case False
    then show ?thesis using e(2) by (simp add: find_next_level_idx_def)
  qed
qed

lemma walk_loop_descend:
  assumes forest: "rtt_forest hw s2_ctx k s tables lv" and "lv t = Some i" "i + int n \<le> S2TT_PAGE_LEVEL"
  shows "\<exists>l r. walk_loop n hw s2_ctx (lock_table s t) tables t addr i = Some (l, r, lock_table s r) \<and>
    descend n hw s2_ctx (gt_data s) tables t addr i = Some (l, r) \<and> lv r = Some l \<and> i \<le> l \<and> l \<le> i + int n \<and>
    (l < i + int n \<longrightarrow> \<not> entry_is_table (tables r ! unat (s2_addr_to_idx addr l)))"
  using assms(2,3)
proof (induction n arbitrary: t i)
  case (Suc n)
  consider (leaf) "\<not> entry_is_table (tables t ! unat (s2_addr_to_idx addr i))"
      "find_next_level_idx hw s2_ctx (gt_data s) tables t (s2_addr_to_idx addr i) = Some None"
    | (table) r where "find_next_level_idx hw s2_ctx (gt_data s) tables t (s2_addr_to_idx addr i) = Some (Some r)"
      "lv r = Some (i + 1)" "r \<noteq> t"
    using forest_next [OF forest Suc.prems(1), of addr] Suc.prems(2) by auto
  then show ?case
  proof cases
    case leaf
    then show ?thesis using Suc.prems by (simp add: find_lock_next_level_def)
  next
    case table
    from hand_over [OF forest Suc.prems(1) table(2) table(3) [symmetric]] obtain u where
      u: "on_granule (\<lambda>g. granule_lock g GRANULE_STATE_RTT) (lock_table s t) r = Some u"
        "on_granule granule_unlock u t = Some (lock_table s r)" by blast
    have "i + 1 + int n \<le> S2TT_PAGE_LEVEL" using Suc.prems(2) by simp
    from Suc.IH [OF table(2) this] show ?thesis
      using table(1) u by (auto simp: find_lock_next_level_def algebra_simps)
  qed
qed simp

subsection \<open>The root of a walk\<close>

text \<open>
  The starting level is a number of tables that are contiguous in memory from the address \<open>ra\<close>.
\<close>

definition rtt_roots :: "granule_ref s2tt_context \<Rightarrow> nat \<Rightarrow> granule_tracking \<Rightarrow> (granule_ref \<rightharpoonup> int) \<Rightarrow> u64 \<Rightarrow> bool" where
  "rtt_roots s2_ctx k s lv ra \<longleftrightarrow> g_rtt s2_ctx = Fine (fine_idx k s ra) \<and> 0 < num_root_rtts s2_ctx \<and>
     (\<forall>n < unat (num_root_rtts s2_ctx). in_conv s (ra + of_nat n * GRANULE_SIZE) \<and>
        lv (Fine (fine_idx k s (ra + of_nat n * GRANULE_SIZE))) = Some (s2_starting_level s2_ctx))"

definition walk_root :: "granule_ref s2tt_context \<Rightarrow> nat \<Rightarrow> granule_tracking \<Rightarrow> u64 \<Rightarrow> u64 \<Rightarrow> granule_ref" where
  "walk_root s2_ctx k s ra addr = Fine (fine_idx k s (ra + of_nat
     (unat (s2_sl_addr_to_idx addr (s2_starting_level s2_ctx) (ipa_bits s2_ctx)) div S2TTES_PER_S2TT) * GRANULE_SIZE))"

lemma granule_addr_fine:
  assumes "tracked k s" "in_conv s a"
  shows "tr_granule_addr (gt_data s) (Fine (fine_idx k s a)) = Some a"
proof -
  obtain c where "tracking_region_fine_addr_to_idx (gt_data s) a TR_MEM_TYPE_CONV = Some (fine_idx k s a, Some c)"
    using fine_lookup(1) [OF assms] by blast
  then have "tracking_region_fine_idx_to_addr (gt_data s) (fine_idx k s a) TR_MEM_TYPE_CONV = Some (a, Some c)"
    using fine_roundtrip [of k "gt_data s"] assms(1) by (auto simp: tracked_def)
  moreover have "\<not> GRANULE_ALIGNED UINT64_MAX" by (simp add: GRANULE_ALIGNED_nat unsigned_minus_1_eq_mask mask_eq_exp_minus_1)
  then have "a \<noteq> UINT64_MAX" using assms(2) by (auto simp: in_conv_def)
  ultimately show ?thesis
    using fine_lookup(2) [OF assms] assms(1) by (simp add: tr_granule_addr_def tr_fine_granule_to_idx_def tracked_def)
qed

lemma walk_start:
  assumes forest: "rtt_forest hw s2_ctx k s tables lv" and roots: "rtt_roots s2_ctx k s lv ra"
    and sl: "sl = s2_sl_addr_to_idx addr (s2_starting_level s2_ctx) (ipa_bits s2_ctx)"
      "unat sl < unat (num_root_rtts s2_ctx) * S2TTES_PER_S2TT"
  shows "lock_root s2_ctx (lock_table s (g_rtt s2_ctx)) sl =
      Some (walk_root s2_ctx k s ra addr, lock_table s (walk_root s2_ctx k s ra addr))"
    "lv (walk_root s2_ctx k s ra addr) = Some (s2_starting_level s2_ctx)"
proof -
  let ?n = "unat sl div S2TTES_PER_S2TT" and ?a = "\<lambda>n. ra + of_nat n * GRANULE_SIZE"
  have tr: "tracked k s" using forest by (simp add: rtt_forest_def)
  have n: "?n < unat (num_root_rtts s2_ctx)" using sl(2) by (simp add: less_mult_imp_div_less)
  have root: "walk_root s2_ctx k s ra addr = Fine (fine_idx k s (?a ?n))" by (simp add: walk_root_def sl(1))
  have R: "in_conv s (?a m)" "lv (Fine (fine_idx k s (?a m))) = Some (s2_starting_level s2_ctx)"
    if "m < unat (num_root_rtts s2_ctx)" for m using roots that by (auto simp: rtt_roots_def)
  show lv: "lv (walk_root s2_ctx k s ra addr) = Some (s2_starting_level s2_ctx)" using R(2) [OF n] root by simp
  have z: "in_conv s ra" "lv (g_rtt s2_ctx) = Some (s2_starting_level s2_ctx)" "g_rtt s2_ctx = Fine (fine_idx k s ra)"
    using R [of 0] roots by (auto simp: rtt_roots_def word_less_nat_alt)
  show "lock_root s2_ctx (lock_table s (g_rtt s2_ctx)) sl =
      Some (walk_root s2_ctx k s ra addr, lock_table s (walk_root s2_ctx k s ra addr))"
  proof (cases "unat sl \<ge> S2TTES_PER_S2TT")
    case False
    then show ?thesis using z(3) root by (simp add: lock_root_def)
  next
    case True
    have "unat (num_root_rtts s2_ctx) < 2 ^ 32" using unsigned_less [of "num_root_rtts s2_ctx"] by simp
    then have b: "?n < 2 ^ 32" "0 < ?n" using n True by (auto simp: div_greater_zero_iff)
    have d: "unat (drop_bit S2TTE_STRIDE sl) = ?n" by (simp add: drop_bit_eq_div unat_div)
    have "(of_nat (unat (drop_bit S2TTE_STRIDE sl)) :: u32) = ucast (drop_bit S2TTE_STRIDE sl)" by simp
    then have tt: "ucast (drop_bit S2TTE_STRIDE sl) = (of_nat ?n :: u32)" unfolding d by (rule sym)
    have tn: "unat (of_nat ?n :: u32) = ?n" using b(1) by (simp add: unsigned_of_nat take_bit_nat_eq_self)
    have "(of_nat (unat (of_nat ?n :: u32)) :: u64) = ucast (of_nat ?n :: u32)" by (rule of_nat_unat)
    then have tc: "(ucast (of_nat ?n :: u32) :: u64) = of_nat ?n" unfolding tn by (rule sym)
    have "unat (of_nat (?n * 4096) :: u64) = ?n * 4096" using b(1) by (simp add: unsigned_of_nat take_bit_nat_eq_self del: of_nat_mult)
    then have "unat (of_nat ?n * GRANULE_SIZE) = ?n * 4096" by (simp add: GRANULE_SIZE_def)
    then have ne: "?a ?n \<noteq> ra" using b(2) by auto
    have "g_rtt s2_ctx \<noteq> walk_root s2_ctx k s ra addr" using fine_idx_inj [OF tr z(1) R(1) [OF n]] z(3) root ne by auto
    from hand_over [OF forest z(2) lv this] show ?thesis
      using True granule_addr_fine [OF tr z(1)] fine_lookup(5) [OF tr R(1) [OF n]] n tt tn tc z(3) root
      by (auto simp: lock_root_def word_less_nat_alt)
  qed
qed

lemma walk_spec:
  assumes "rtt_forest hw s2_ctx k s tables lv" "rtt_roots s2_ctx k s lv ra"
    and "s2tt_lpa2_enabled hw s2_ctx = Some lpa2" "unat (ipa_bits s2_ctx) \<le> (if lpa2 then S2TTE_OA_BITS_LPA2 else S2TTE_OA_BITS)"
    and "s2_starting_level s2_ctx \<le> level" "level \<le> S2TT_PAGE_LEVEL" "addr < push_bit (unat (ipa_bits s2_ctx)) 1"
    and "unat (s2_sl_addr_to_idx addr (s2_starting_level s2_ctx) (ipa_bits s2_ctx)) < unat (num_root_rtts s2_ctx) * S2TTES_PER_S2TT"
    and "S2TT_MIN_STARTING_LEVEL_LPA2 \<le> s2_starting_level s2_ctx"
  shows "\<exists>l t. s2tt_walk_lock_unlock hw s2_ctx (lock_table s (g_rtt s2_ctx)) tables addr level =
      Some (\<lparr>g_llt = t, index = s2_addr_to_idx addr l, last_level = l\<rparr>, lock_table s t) \<and>
    descend (nat (level - s2_starting_level s2_ctx)) hw s2_ctx (gt_data s) tables (walk_root s2_ctx k s ra addr) addr
      (s2_starting_level s2_ctx) = Some (l, t) \<and>
    lv t = Some l \<and> s2_starting_level s2_ctx \<le> l \<and> l \<le> level \<and> unat (s2_addr_to_idx addr l) < S2TTES_PER_S2TT \<and>
    (l < level \<longrightarrow> \<not> entry_is_table (tables t ! unat (s2_addr_to_idx addr l)))"
proof -
  note start = walk_start [OF assms(1,2) refl assms(8)]
  have "s2_starting_level s2_ctx + int (nat (level - s2_starting_level s2_ctx)) = level" using assms(5) by simp
  then show ?thesis
    using walk_loop_descend [OF assms(1) start(2), of "nat (level - s2_starting_level s2_ctx)" addr] assms(3-7,9) start(1) idx_range
    by (fastforce simp: s2tt_walk_lock_unlock_def Let_def)
qed

lemma walk_below:
  "s2_starting_level s2_ctx < S2TT_MIN_STARTING_LEVEL_LPA2 \<Longrightarrow> s2tt_walk_lock_unlock hw s2_ctx s tables addr level = None"
  by (auto simp: s2tt_walk_lock_unlock_def Let_def split: option.split bind_splits)

text \<open>
  C3. Walking a well-formed forest of tables ends without a failed assertion, for every address of
  the Realm and every level: it returns the table that following the table entries from the root
  reaches, at the requested level or at the first level whose entry is not a table, together with
  the index of the address in that table. On return exactly that table is locked: the root and every
  table on the way are released, and no other granule has changed. A start level below -1, for
  which the array of the tables on the way has no slot, is an access outside that array.
\<close>

theorem walk_correct:
  assumes "rtt_forest hw s2_ctx k s tables lv" "rtt_roots s2_ctx k s lv ra"
    and "s2tt_lpa2_enabled hw s2_ctx = Some lpa2" "unat (ipa_bits s2_ctx) \<le> (if lpa2 then S2TTE_OA_BITS_LPA2 else S2TTE_OA_BITS)"
    and "s2_starting_level s2_ctx \<le> level" "level \<le> S2TT_PAGE_LEVEL" "addr < push_bit (unat (ipa_bits s2_ctx)) 1"
    and "unat (s2_sl_addr_to_idx addr (s2_starting_level s2_ctx) (ipa_bits s2_ctx)) < unat (num_root_rtts s2_ctx) * S2TTES_PER_S2TT"
  shows "if s2_starting_level s2_ctx < S2TT_MIN_STARTING_LEVEL_LPA2
    then s2tt_walk_lock_unlock hw s2_ctx (lock_table s (g_rtt s2_ctx)) tables addr level = None
    else \<exists>l t. s2tt_walk_lock_unlock hw s2_ctx (lock_table s (g_rtt s2_ctx)) tables addr level =
      Some (\<lparr>g_llt = t, index = s2_addr_to_idx addr l, last_level = l\<rparr>, lock_table s t) \<and>
    descend (nat (level - s2_starting_level s2_ctx)) hw s2_ctx (gt_data s) tables (walk_root s2_ctx k s ra addr) addr
      (s2_starting_level s2_ctx) = Some (l, t) \<and>
    s2_starting_level s2_ctx \<le> l \<and> l \<le> level \<and> unat (s2_addr_to_idx addr l) < S2TTES_PER_S2TT \<and>
    (l < level \<longrightarrow> \<not> entry_is_table (tables t ! unat (s2_addr_to_idx addr l)))"
  using walk_spec [OF assms] walk_below by (cases "s2_starting_level s2_ctx < S2TT_MIN_STARTING_LEVEL_LPA2") (auto simp: not_less)

text \<open>Two tables: the root at level 1 has a table entry for the first gigabyte.\<close>

definition walk_ctx :: "granule_ref s2tt_context" where
  "walk_ctx = \<lparr>ipa_bits = 39, s2_starting_level = 1, num_root_rtts = 1, g_rtt = Fine 0, vmid = 1,
     indirect_s2ap = False, overlay_perm = 0, mecid = 0, s2oa_limit = 2 ^ 39\<rparr>"

definition walk_state :: granule_tracking where
  "walk_state = sample_state\<lparr>gt_granules := \<lambda>i. \<lparr>descriptor = 0x1800\<rparr>\<rparr>"

definition walk_tables :: "granule_ref \<Rightarrow> s2tt" where
  "walk_tables t = (if t = Fine 0 then (replicate 512 0)[0 := 0x80001003] else replicate 512 0)"

definition walk_lv :: "granule_ref \<rightharpoonup> int" where
  "walk_lv = [Fine 0 \<mapsto> 1, Fine 1 \<mapsto> 2]"

lemma walk_sample:
  "rtt_forest hw_plain walk_ctx 30 walk_state walk_tables walk_lv" "rtt_roots walk_ctx 30 walk_state walk_lv 0x80000000"
  "s2tt_lpa2_enabled hw_plain walk_ctx = Some False"
proof -
  show l: "s2tt_lpa2_enabled hw_plain walk_ctx = Some False"
    by (simp add: s2tt_lpa2_enabled_def s2tt_lpa2_required_def walk_ctx_def BIT_def)
  have g: "STATE \<lparr>descriptor = 0x1800\<rparr> = GRANULE_STATE_RTT" "free \<lparr>descriptor = 0x1800\<rparr>"
    by (simp_all add: STATE_def free_def refs_ok_def max_refs_def LOCKED_def REFCOUNT_take GRN_LOCK_BIT_def EXTRACT_take_bit take_bit_eq_mod)
  have pa: "s2tte_to_pa hw_plain walk_ctx 0x80001003 S2TT_PAGE_LEVEL = Some 0x80001000"
    by (simp add: s2tte_to_pa_def l s2tte_lvl_mask_def BIT_MASK_ULL_def mask_eq_exp_minus_1)
  have e: "e = 0x80001003 \<and> t = Fine 0" if "e \<in> set (walk_tables t)" "entry_is_table e" for e t
    using that by (auto simp: walk_tables_def entry_is_table_def S2TT_DESC_TYPE_MASK_def S2TTE_L012_TABLE_def
        dest!: set_update_subset_insert [THEN subsetD] split: if_splits)
  have c: "in_conv walk_state 0x80001000" "fine_idx 30 walk_state 0x80001000 = 1"
    using sample_fine(2) by (simp_all add: walk_state_def sample_conv GRANULE_ALIGNED_nat)
  show "rtt_forest hw_plain walk_ctx 30 walk_state walk_tables walk_lv"
    unfolding rtt_forest_def
  proof (intro conjI allI impI ballI)
    show "tracked 30 walk_state" using sample_tracked by (simp add: walk_state_def)
    fix t i assume lv: "walk_lv t = Some i"
    then show "\<exists>j. t = Fine j \<and> STATE (gt_granules walk_state j) = GRANULE_STATE_RTT \<and> free (gt_granules walk_state j)"
      using g by (auto simp: walk_lv_def walk_state_def split: if_splits)
    show "length (walk_tables t) = S2TTES_PER_S2TT" by (simp add: walk_tables_def)
    fix x assume x: "x \<in> set (walk_tables t)" "i < S2TT_PAGE_LEVEL \<and> entry_is_table x"
    then have "x = 0x80001003" "i = 1" using e [of x t] lv by (auto simp: walk_lv_def)
    then show "\<exists>a. s2tte_to_pa hw_plain walk_ctx x S2TT_PAGE_LEVEL = Some a \<and> in_conv walk_state a \<and>
        walk_lv (Fine (fine_idx 30 walk_state a)) = Some (i + 1)"
      using pa c by (intro exI [of _ "0x80001000"]) (simp add: walk_lv_def)
  qed
  show "rtt_roots walk_ctx 30 walk_state walk_lv 0x80000000"
    using sample_fine by (simp add: rtt_roots_def walk_ctx_def walk_state_def walk_lv_def sample_conv GRANULE_ALIGNED_nat)
qed

theorem walk_correct_witness:
  "\<exists>l t. s2tt_walk_lock_unlock hw_plain walk_ctx (lock_table walk_state (Fine 0)) walk_tables 0x1000 3 =
     Some (\<lparr>g_llt = t, index = s2_addr_to_idx 0x1000 l, last_level = l\<rparr>, lock_table walk_state t) \<and> l \<le> 3"
  using walk_correct [OF walk_sample, of 3 "0x1000"]
  by (auto simp: walk_ctx_def s2_sl_addr_to_idx_def word_less_nat_alt)

end
