(* ===== verification/Bitlock.thy ===== *)
theory Bitlock
  imports Granule
begin

text \<open>
  Atomic accesses to 64-bit words, and the rest of \<^verbatim>\<open>src/lib/arch/include/aarch64/bitlock.h\<close>: the locks in 64-bit words and the
  acquisition loops of every width. A loop reads a word that other PEs change; it is run on the
  sequence of the values its own accesses find, so \<open>env t\<close> is the word at access number \<open>t\<close>. It
  returns the number of the access that took the lock and the word that access stored.
\<close>

subsection \<open>Atomic accesses to 64-bit words\<close>

text \<open>
  The accesses of \<^verbatim>\<open>src/lib/arch/include/aarch64/atomics.h\<close>: the value returned, where there is
  one, and the word stored. The exchange stores nothing when the comparison fails.
\<close>

definition atomic_add_64 :: "u64 \<Rightarrow> u64 \<Rightarrow> u64" where
  "atomic_add_64 loc val = loc + val"

definition atomic_load_add_release_64 :: "u64 \<Rightarrow> u64 \<Rightarrow> u64 \<times> u64" where
  "atomic_load_add_release_64 loc val = (loc, loc + val)"

definition atomic_load_add_64 :: "u64 \<Rightarrow> u64 \<Rightarrow> u64 \<times> u64" where
  "atomic_load_add_64 loc val = (loc, loc + val)"

definition atomic_bit_set_64 :: "u64 \<Rightarrow> nat \<Rightarrow> u64" where
  "atomic_bit_set_64 loc b = loc OR push_bit b 1"

definition atomic_bit_set_release_64 :: "u64 \<Rightarrow> nat \<Rightarrow> u64" where
  "atomic_bit_set_release_64 loc b = loc OR push_bit b 1"

definition atomic_bit_clear_64 :: "u64 \<Rightarrow> nat \<Rightarrow> u64" where
  "atomic_bit_clear_64 loc b = loc AND NOT (push_bit b 1)"

definition atomic_bit_clear_release_64 :: "u64 \<Rightarrow> nat \<Rightarrow> u64" where
  "atomic_bit_clear_release_64 loc b = loc AND NOT (push_bit b 1)"

definition atomic_bit_set_acquire_release_64 :: "u64 \<Rightarrow> nat \<Rightarrow> bool \<times> u64" where
  "atomic_bit_set_acquire_release_64 loc b = (let msk = push_bit b 1 in (loc AND msk \<noteq> 0, loc OR msk))"

definition atomic_cas_acquire_release_64 :: "u64 \<Rightarrow> u64 \<Rightarrow> u64 \<Rightarrow> bool \<times> u64" where
  "atomic_cas_acquire_release_64 loc expected desired = (if loc = expected then (True, desired) else (False, loc))"

subsection \<open>Locks in 64-bit words\<close>

definition bitlock_try_acquire_64 :: "u64 \<Rightarrow> nat \<Rightarrow> (bool \<times> u64) option" where
  "bitlock_try_acquire_64 loc b = do {
     c_assert (b < 64);
     let msk = push_bit b 1;
     Some (loc AND msk = 0, loc OR msk)
   }"

definition bitlock_wait_while_64 :: "u64 \<Rightarrow> u64 \<Rightarrow> u64 \<Rightarrow> bool option" where
  "bitlock_wait_while_64 loc msk val = do {
     c_assert (msk \<noteq> 0 \<and> val AND msk = val);
     Some (loc AND msk \<noteq> val)
   }"

definition bitlock_wait_64 :: "u64 \<Rightarrow> nat \<Rightarrow> bool option" where
  "bitlock_wait_64 loc b = do {
     c_assert (b < 64);
     let msk = push_bit b 1;
     bitlock_wait_while_64 loc msk msk
   }"

definition bitlock_release_64 :: "u64 \<Rightarrow> nat \<Rightarrow> u64 option" where
  "bitlock_release_64 loc b = do {
     c_assert (b < 64);
     let msk = push_bit b 1;
     Some (loc AND NOT msk)
   }"

subsection \<open>Acquisition loops\<close>

partial_function (option) bitlock_acquire_8 :: "(nat \<Rightarrow> u8) \<Rightarrow> nat \<Rightarrow> nat \<Rightarrow> (nat \<times> u8) option" where
  "bitlock_acquire_8 env t b = do {
     clear \<leftarrow> bitlock_wait_8 (env t) b;
     if \<not> clear then bitlock_acquire_8 env (t + 1) b
     else do {
       (acquired, loc) \<leftarrow> bitlock_try_acquire_8 (env (t + 1)) b;
       if acquired then Some (t + 1, loc) else bitlock_acquire_8 env (t + 2) b
     }
   }"

partial_function (option) bitlock_acquire_16 :: "(nat \<Rightarrow> u16) \<Rightarrow> nat \<Rightarrow> nat \<Rightarrow> (nat \<times> u16) option" where
  "bitlock_acquire_16 env t b = do {
     clear \<leftarrow> bitlock_wait_16 (env t) b;
     if \<not> clear then bitlock_acquire_16 env (t + 1) b
     else do {
       (acquired, loc) \<leftarrow> bitlock_try_acquire_16 (env (t + 1)) b;
       if acquired then Some (t + 1, loc) else bitlock_acquire_16 env (t + 2) b
     }
   }"

partial_function (option) bitlock_acquire_64 :: "(nat \<Rightarrow> u64) \<Rightarrow> nat \<Rightarrow> nat \<Rightarrow> (nat \<times> u64) option" where
  "bitlock_acquire_64 env t b = do {
     clear \<leftarrow> bitlock_wait_64 (env t) b;
     if \<not> clear then bitlock_acquire_64 env (t + 1) b
     else do {
       (acquired, loc) \<leftarrow> bitlock_try_acquire_64 (env (t + 1)) b;
       if acquired then Some (t + 1, loc) else bitlock_acquire_64 env (t + 2) b
     }
   }"

subsection \<open>The contract of the loops\<close>

text \<open>
  The three widths share one argument: a wait is over when its load finds the bit clear, an attempt
  succeeds when its access finds the bit clear, and the loop alternates the two.
\<close>

locale bit_lock =
  fixes acquire :: "(nat \<Rightarrow> 'a::len word) \<Rightarrow> nat \<Rightarrow> nat \<Rightarrow> (nat \<times> 'a word) option"
    and width :: nat
  assumes acquire_step: "b < width \<Longrightarrow> acquire env t b =
    (if bit (env t) b then acquire env (t + 1) b
     else if bit (env (t + 1)) b then acquire env (t + 2) b
     else Some (t + 1, set_bit b (env (t + 1))))"
begin

text \<open>
  The loop ends if the bit stays clear from some access on, and the access that takes the lock
  found the bit clear.
\<close>

lemma acquire_ends:
  assumes "b < width" "\<And>i. n \<le> i \<Longrightarrow> \<not> bit (env i) b"
  shows "\<exists>j. acquire env t b = Some (j, set_bit b (env j)) \<and> j \<le> max t n + 2 \<and> \<not> bit (env j) b"
proof (induction "n - t" arbitrary: t rule: less_induct)
  case less
  consider "n \<le> t" | "n = t + 1" | "t + 2 \<le> n" by linarith
  then show ?case
  proof cases
    case 3
    then have "n - (t + 1) < n - t" "n - (t + 2) < n - t" "max (t + 1) n = n" "max (t + 2) n = n" "max t n = n" by auto
    then show ?thesis
      using less [of "t + 1"] less [of "t + 2"] acquire_step [OF assms(1), of env t] by auto
  qed (use less [of "t + 1"] acquire_step [OF assms(1), of env t] assms(2) [of t] assms(2) [of "t + 1"] in auto)
qed

end

lemma and_exp_eq_0: "w AND 2 ^ b = 0 \<longleftrightarrow> \<not> bit w b" for w :: "'a::len word"
  by (simp add: and_exp_eq_0_iff_not_bit)

lemma and_exp_eq: "w AND 2 ^ b = 2 ^ b \<longleftrightarrow> bit w b" if "b < LENGTH('a)" for w :: "'a::len word"
proof -
  have "bit (w AND 2 ^ b) n = bit (2 ^ b :: 'a word) n" if "bit w b" for n
    using that by (auto simp: bit_simps)
  moreover have "bit (2 ^ b :: 'a word) b" using that by (simp add: bit_simps)
  ultimately show ?thesis using bit_eqI [of "w AND 2 ^ b" "2 ^ b"] by (metis bit_and_iff)
qed

lemma atomic_bits:
  "atomic_bit_set_64 x b = set_bit b x" "atomic_bit_set_release_64 x b = set_bit b x"
  "atomic_bit_clear_64 x b = unset_bit b x" "atomic_bit_clear_release_64 x b = unset_bit b x"
  "atomic_bit_set_acquire_release_64 x b = (bit x b, set_bit b x)"
  by (simp_all add: atomic_bit_set_64_def atomic_bit_set_release_64_def atomic_bit_clear_64_def atomic_bit_clear_release_64_def
      atomic_bit_set_acquire_release_64_def set_bit_eq_or unset_bit_eq_and_not and_exp_eq_0)

text \<open>One load or one atomic access of each operation, by the lock bit.\<close>

lemma bitlock_wait:
  "b < 8 \<Longrightarrow> bitlock_wait_8 v b = Some (\<not> bit v b)"
  "b < 16 \<Longrightarrow> bitlock_wait_16 w b = Some (\<not> bit w b)"
  "b < 64 \<Longrightarrow> bitlock_wait_64 x b = Some (\<not> bit x b)"
  by (simp_all add: bitlock_wait_8_def bitlock_wait_while_8_def bitlock_wait_16_def bitlock_wait_while_16_def
      bitlock_wait_64_def bitlock_wait_while_64_def and_exp_eq)

lemma bitlock_try_acquire:
  "b < 8 \<Longrightarrow> bitlock_try_acquire_8 v b = Some (\<not> bit v b, set_bit b v)"
  "b < 16 \<Longrightarrow> bitlock_try_acquire_16 w b = Some (\<not> bit w b, set_bit b w)"
  "b < 64 \<Longrightarrow> bitlock_try_acquire_64 x b = Some (\<not> bit x b, set_bit b x)"
  by (simp_all add: bitlock_try_acquire_8_def bitlock_try_acquire_16_def bitlock_try_acquire_64_def and_exp_eq_0 set_bit_eq_or)

lemma bitlock_release:
  "b < 8 \<Longrightarrow> bitlock_release_8 v b = Some (unset_bit b v)"
  "b < 16 \<Longrightarrow> bitlock_release_16 w b = Some (unset_bit b w)"
  "b < 64 \<Longrightarrow> bitlock_release_64 x b = Some (unset_bit b x)"
  by (simp_all add: bitlock_release_8_def bitlock_release_16_def bitlock_release_64_def unset_bit_eq_and_not)

interpretation lock_8: bit_lock bitlock_acquire_8 8
proof
  show "bitlock_acquire_8 env t b = (if bit (env t) b then bitlock_acquire_8 env (t + 1) b
      else if bit (env (t + 1)) b then bitlock_acquire_8 env (t + 2) b else Some (t + 1, set_bit b (env (t + 1))))"
    if "b < 8" for env :: "nat \<Rightarrow> u8" and t b
    using that by (subst bitlock_acquire_8.simps)
      (simp add: bitlock_wait bitlock_try_acquire)
qed

interpretation lock_16: bit_lock bitlock_acquire_16 16
proof
  show "bitlock_acquire_16 env t b = (if bit (env t) b then bitlock_acquire_16 env (t + 1) b
      else if bit (env (t + 1)) b then bitlock_acquire_16 env (t + 2) b else Some (t + 1, set_bit b (env (t + 1))))"
    if "b < 16" for env :: "nat \<Rightarrow> u16" and t b
    using that by (subst bitlock_acquire_16.simps)
      (simp add: bitlock_wait bitlock_try_acquire)
qed

interpretation lock_64: bit_lock bitlock_acquire_64 64
proof
  show "bitlock_acquire_64 env t b = (if bit (env t) b then bitlock_acquire_64 env (t + 1) b
      else if bit (env (t + 1)) b then bitlock_acquire_64 env (t + 2) b else Some (t + 1, set_bit b (env (t + 1))))"
    if "b < 64" for env :: "nat \<Rightarrow> u64" and t b
    using that by (subst bitlock_acquire_64.simps)
      (simp add: bitlock_wait bitlock_try_acquire)
qed

text \<open>
  C22. Acquiring a bit lock terminates at every width: if the lock bit is clear from the loop's access
  number n on, the loop takes the lock at most two accesses later, by an access that found the bit
  clear, and stores the word with only that bit set in addition.
\<close>

theorem bitlock_acquire_terminates:
  assumes "\<forall>i \<ge> n. \<not> bit (env8 i) b8" "b8 < 8" "\<forall>i \<ge> n. \<not> bit (env16 i) b16" "b16 < 16"
    and "\<forall>i \<ge> n. \<not> bit (env64 i) b64" "b64 < 64"
  shows "(\<exists>j \<le> n + 2. bitlock_acquire_8 env8 0 b8 = Some (j, set_bit b8 (env8 j)) \<and> \<not> bit (env8 j) b8) \<and>
    (\<exists>j \<le> n + 2. bitlock_acquire_16 env16 0 b16 = Some (j, set_bit b16 (env16 j)) \<and> \<not> bit (env16 j) b16) \<and>
    (\<exists>j \<le> n + 2. bitlock_acquire_64 env64 0 b64 = Some (j, set_bit b64 (env64 j)) \<and> \<not> bit (env64 j) b64)"
  using lock_8.acquire_ends [of b8 n env8 0] lock_16.acquire_ends [of b16 n env16 0] lock_64.acquire_ends [of b64 n env64 0]
    assms by auto

theorem bitlock_acquire_terminates_witness:
  "\<exists>j \<le> 5. bitlock_acquire_64 (\<lambda>i. if i < 3 then 0x8000000000000001 else 1) 0 63 = Some (j, 0x8000000000000001)"
proof -
  have w: "set_bit 63 (1 :: u64) = 0x8000000000000001" by (simp add: set_bit_eq_or)
  have "\<not> bit (1 :: u64) 63" by (simp add: bit_1_iff)
  then show ?thesis
    using bitlock_acquire_terminates [of 3 "\<lambda>_. 0" 0 "\<lambda>_. 0" 0 "\<lambda>i. if i < 3 then 0x8000000000000001 else 1" 63] w
    by (auto split: if_splits)
qed

end
