(* ===== verification/Rwlock.thy ===== *)
theory Rwlock
  imports Bitlock
begin

text \<open>
  The reader-writer lock of \<^verbatim>\<open>src/lib/common/include/rwlock.h\<close>, with any number of PEs whose
  operations interleave at every access to the lock word. Each PE has a program point inside the
  operation it executes and the number of reader ownerships it holds. A failed assertion leads to
  the point \<open>Rw_Fault\<close>.
\<close>

subsection \<open>The lock word\<close>

abbreviation (input) RWLOCK_GATE_SHIFT :: nat where "RWLOCK_GATE_SHIFT \<equiv> 63"
abbreviation (input) RWLOCK_WRITER_SHIFT :: nat where "RWLOCK_WRITER_SHIFT \<equiv> 62"

definition RWLOCK_GATE_BIT :: u64 where "RWLOCK_GATE_BIT = push_bit RWLOCK_GATE_SHIFT 1"
definition RWLOCK_WRITER_BIT :: u64 where "RWLOCK_WRITER_BIT = push_bit RWLOCK_WRITER_SHIFT 1"
definition RWLOCK_READERS_MASK :: u64 where "RWLOCK_READERS_MASK = RWLOCK_WRITER_BIT - 1"

definition RWLOCK_READERS :: "u64 \<Rightarrow> u64" where
  "RWLOCK_READERS state = state AND RWLOCK_READERS_MASK"

definition RWLOCK_GATE_LOCKED :: "u64 \<Rightarrow> bool" where
  "RWLOCK_GATE_LOCKED state \<longleftrightarrow> state AND RWLOCK_GATE_BIT \<noteq> 0"

definition RWLOCK_WRITER_LOCKED :: "u64 \<Rightarrow> bool" where
  "RWLOCK_WRITER_LOCKED state \<longleftrightarrow> state AND RWLOCK_WRITER_BIT \<noteq> 0"

subsection \<open>Steps\<close>

text \<open>
  The points between the accesses of \<^verbatim>\<open>rwlock_read_acquire\<close>, \<^verbatim>\<open>rwlock_read_release\<close>,
  \<^verbatim>\<open>rwlock_write_try_acquire\<close>, \<^verbatim>\<open>rwlock_write_acquire\<close> and \<^verbatim>\<open>rwlock_write_release\<close>. The flag of
  the write points says whether the attempt belongs to the acquisition loop, which retries.
\<close>

datatype rw_pc = Rw_Idle | Rw_Fault
  | Read_Wait | Read_Try | Read_Writer | Read_Limit | Read_Add | Read_Leave
  | Read_Check | Read_Drop
  | Write_Try bool | Write_Inspect bool | Write_Back bool | Write_Assert | Write_Mark | Write_Poll | Write_Wait u64
  | Write_Held | Write_Check | Write_Clear | Write_Leave

record 'pe rw_sys =
  rw_state :: u64
  rw_pcs :: "'pe \<Rightarrow> rw_pc"
  rw_reads :: "'pe \<Rightarrow> nat"

abbreviation (input) rw_goto :: "'pe rw_sys \<Rightarrow> 'pe \<Rightarrow> rw_pc \<Rightarrow> 'pe rw_sys" where
  "rw_goto s i p \<equiv> s\<lparr>rw_pcs := (rw_pcs s)(i := p)\<rparr>"

abbreviation (input) rw_store :: "'pe rw_sys \<Rightarrow> u64 \<Rightarrow> 'pe \<Rightarrow> rw_pc \<Rightarrow> 'pe rw_sys" where
  "rw_store s w i p \<equiv> s\<lparr>rw_state := w, rw_pcs := (rw_pcs s)(i := p)\<rparr>"

text \<open>
  A PE starts another read acquisition only below its nesting depth, which is how the number of
  outstanding readers is kept within its 62 bits.
\<close>

inductive rw_step :: "nat \<Rightarrow> 'pe rw_sys \<Rightarrow> 'pe \<Rightarrow> 'pe rw_sys \<Rightarrow> bool" for depth where
  read_start: "rw_pcs s i = Rw_Idle \<Longrightarrow> rw_reads s i < depth \<Longrightarrow> rw_step depth s i (rw_goto s i Read_Wait)"
| read_wait: "rw_pcs s i = Read_Wait \<Longrightarrow> bitlock_wait_64 (rw_state s) RWLOCK_GATE_SHIFT = Some True \<Longrightarrow>
    rw_step depth s i (rw_goto s i Read_Try)"
| read_try: "rw_pcs s i = Read_Try \<Longrightarrow> bitlock_try_acquire_64 (rw_state s) RWLOCK_GATE_SHIFT = Some (a, w) \<Longrightarrow>
    rw_step depth s i (rw_store s w i (if a then Read_Writer else Read_Wait))"
| read_writer: "rw_pcs s i = Read_Writer \<Longrightarrow>
    rw_step depth s i (rw_goto s i (if \<not> RWLOCK_WRITER_LOCKED (rw_state s) then Read_Limit else Rw_Fault))"
| read_limit: "rw_pcs s i = Read_Limit \<Longrightarrow>
    rw_step depth s i (rw_goto s i (if RWLOCK_READERS (rw_state s) < RWLOCK_READERS_MASK then Read_Add else Rw_Fault))"
| read_add: "rw_pcs s i = Read_Add \<Longrightarrow>
    rw_step depth s i ((rw_store s (atomic_add_64 (rw_state s) 1) i Read_Leave)\<lparr>rw_reads := (rw_reads s)(i := rw_reads s i + 1)\<rparr>)"
| read_leave: "rw_pcs s i = Read_Leave \<Longrightarrow> bitlock_release_64 (rw_state s) RWLOCK_GATE_SHIFT = Some w \<Longrightarrow>
    rw_step depth s i (rw_store s w i Rw_Idle)"
| read_drop_start: "rw_pcs s i = Rw_Idle \<Longrightarrow> 0 < rw_reads s i \<Longrightarrow> rw_step depth s i (rw_goto s i Read_Check)"
| read_check: "rw_pcs s i = Read_Check \<Longrightarrow>
    rw_step depth s i (rw_goto s i (if RWLOCK_READERS (rw_state s) \<noteq> 0 then Read_Drop else Rw_Fault))"
| read_drop: "rw_pcs s i = Read_Drop \<Longrightarrow>
    rw_step depth s i ((rw_store s (snd (atomic_load_add_release_64 (rw_state s) UINT64_MAX)) i Rw_Idle)
      \<lparr>rw_reads := (rw_reads s)(i := rw_reads s i - 1)\<rparr>)"
| write_start: "rw_pcs s i = Rw_Idle \<Longrightarrow> rw_step depth s i (rw_goto s i (Write_Try loop))"
| write_try: "rw_pcs s i = Write_Try loop \<Longrightarrow> bitlock_try_acquire_64 (rw_state s) RWLOCK_GATE_SHIFT = Some (a, w) \<Longrightarrow>
    rw_step depth s i (rw_store s w i (if a then Write_Inspect loop else if loop then Write_Poll else Rw_Idle))"
| write_inspect: "rw_pcs s i = Write_Inspect loop \<Longrightarrow>
    rw_step depth s i (rw_goto s i (if rw_state s AND RWLOCK_READERS_MASK \<noteq> 0 then Write_Back loop else Write_Assert))"
| write_back: "rw_pcs s i = Write_Back loop \<Longrightarrow> bitlock_release_64 (rw_state s) RWLOCK_GATE_SHIFT = Some w \<Longrightarrow>
    rw_step depth s i (rw_store s w i (if loop then Write_Poll else Rw_Idle))"
| write_assert: "rw_pcs s i = Write_Assert \<Longrightarrow>
    rw_step depth s i (rw_goto s i (if \<not> RWLOCK_WRITER_LOCKED (rw_state s) then Write_Mark else Rw_Fault))"
| write_mark: "rw_pcs s i = Write_Mark \<Longrightarrow>
    rw_step depth s i (rw_store s (atomic_bit_set_64 (rw_state s) RWLOCK_WRITER_SHIFT) i Write_Held)"
| write_poll: "rw_pcs s i = Write_Poll \<Longrightarrow>
    rw_step depth s i (rw_goto s i (if rw_state s \<noteq> 0 then Write_Wait (rw_state s) else Write_Try True))"
| write_wait: "rw_pcs s i = Write_Wait w \<Longrightarrow> bitlock_wait_while_64 (rw_state s) UINT64_MAX w = Some True \<Longrightarrow>
    rw_step depth s i (rw_goto s i (Write_Try True))"
| write_end: "rw_pcs s i = Write_Held \<Longrightarrow> rw_step depth s i (rw_goto s i Write_Check)"
| write_check: "rw_pcs s i = Write_Check \<Longrightarrow>
    rw_step depth s i (rw_goto s i (if RWLOCK_WRITER_LOCKED (rw_state s) then Write_Clear else Rw_Fault))"
| write_clear: "rw_pcs s i = Write_Clear \<Longrightarrow>
    rw_step depth s i (rw_store s (atomic_bit_clear_64 (rw_state s) RWLOCK_WRITER_SHIFT) i Write_Leave)"
| write_leave: "rw_pcs s i = Write_Leave \<Longrightarrow> bitlock_release_64 (rw_state s) RWLOCK_GATE_SHIFT = Some w \<Longrightarrow>
    rw_step depth s i (rw_store s w i Rw_Idle)"

definition rwlock_init :: u64 where
  "rwlock_init = 0"

inductive rw_reach :: "nat \<Rightarrow> 'pe rw_sys \<Rightarrow> bool" for depth where
  init: "rw_reach depth \<lparr>rw_state = rwlock_init, rw_pcs = \<lambda>_. Rw_Idle, rw_reads = \<lambda>_. 0\<rparr>"
| step: "rw_reach depth s \<Longrightarrow> rw_step depth s i s' \<Longrightarrow> rw_reach depth s'"

subsection \<open>The word as a gate, a writer flag and a number of readers\<close>

definition rw_word :: "bool \<Rightarrow> bool \<Rightarrow> nat \<Rightarrow> u64" where
  "rw_word g w n = (if g then 2 ^ 63 else 0) + (if w then 2 ^ 62 else 0) + of_nat n"

lemma bit_small: "\<not> bit n b" if "n < 2 ^ m" "m \<le> b" for n :: nat
proof -
  have "n < 2 ^ b" using that power_increasing [of m b "2 :: nat"] by linarith
  then show ?thesis by (simp add: bit_iff_odd)
qed

lemma bit_flag: "bit (9223372036854775808 :: int) b \<longleftrightarrow> b = 63" "bit (4611686018427387904 :: int) b \<longleftrightarrow> b = 62"
  using bit_exp_iff [of 63 b, where 'a = int] bit_exp_iff [of 62 b, where 'a = int] by auto

lemma bit_rw_word:
  assumes "n < 2 ^ 62"
  shows "bit (rw_word g w n) b \<longleftrightarrow> (if b = 63 then g else if b = 62 then w else bit n b \<and> b < 62)"
proof -
  let ?g = "if g then 2 ^ 63 else 0 :: u64" and ?w = "if w then 2 ^ 62 else 0 :: u64"
  have small: "\<not> bit n b" if "62 \<le> b" for b using bit_small [OF assms that] .
  have b: "bit ?g b \<longleftrightarrow> g \<and> b = 63" "bit ?w b \<longleftrightarrow> w \<and> b = 62" "bit (of_nat n :: u64) b \<longleftrightarrow> b < 62 \<and> bit n b" for b
    using small [of b] by (cases "62 \<le> b"; auto simp: bit_flag bit_of_nat_iff)+
  have "?g + ?w = ?g OR ?w" by (rule disjunctive_add) (auto simp: b)
  moreover have "(?g OR ?w) + of_nat n = (?g OR ?w) OR of_nat n" by (rule disjunctive_add) (auto simp: b bit_or_iff)
  ultimately show ?thesis using small [of 62] small [of 63] by (auto simp: rw_word_def b bit_or_iff)
qed

lemma RWLOCK_READERS_mask: "RWLOCK_READERS state = take_bit 62 state"
  by (simp add: RWLOCK_READERS_def RWLOCK_READERS_MASK_def RWLOCK_WRITER_BIT_def take_bit_eq_mask mask_eq_exp_minus_1)

lemma RWLOCK_flags: "RWLOCK_GATE_LOCKED state \<longleftrightarrow> bit state 63" "RWLOCK_WRITER_LOCKED state \<longleftrightarrow> bit state 62"
  by (simp_all add: RWLOCK_GATE_LOCKED_def RWLOCK_GATE_BIT_def RWLOCK_WRITER_LOCKED_def RWLOCK_WRITER_BIT_def
      and_exp_eq_0 [of _ 63, simplified] and_exp_eq_0 [of _ 62, simplified])

text \<open>Every access of the operations, on the word of a gate, a writer flag and a reader count.\<close>

lemma rw_word_view:
  assumes "n < 2 ^ 62"
  shows "RWLOCK_GATE_LOCKED (rw_word g w n) = g" "RWLOCK_WRITER_LOCKED (rw_word g w n) = w" 
    "RWLOCK_READERS (rw_word g w n) = of_nat n" "rw_word g w n AND RWLOCK_READERS_MASK = 0 \<longleftrightarrow> n = 0"
proof -
  show "RWLOCK_GATE_LOCKED (rw_word g w n) = g" "RWLOCK_WRITER_LOCKED (rw_word g w n) = w"
    by (simp_all add: RWLOCK_flags bit_rw_word [OF assms])
  show r: "RWLOCK_READERS (rw_word g w n) = of_nat n"
    by (rule bit_word_eqI) (use bit_small [OF assms] in \<open>auto simp: RWLOCK_READERS_mask bit_simps bit_rw_word [OF assms]\<close>)
  show "rw_word g w n AND RWLOCK_READERS_MASK = 0 \<longleftrightarrow> n = 0"
    using r assms by (simp add: RWLOCK_READERS_def word_of_nat_eq_0_iff) (auto dest: dvd_imp_le)
qed

lemma rw_word_access:
  assumes "n < 2 ^ 62"
  shows "bitlock_wait_64 (rw_word g w n) 63 = Some (\<not> g)"
    "bitlock_try_acquire_64 (rw_word g w n) 63 = Some (\<not> g, rw_word True w n)"
    "bitlock_release_64 (rw_word g w n) 63 = Some (rw_word False w n)"
    "atomic_bit_set_64 (rw_word g w n) 62 = rw_word g True n"
    "atomic_bit_clear_64 (rw_word g w n) 62 = rw_word g False n"
proof -
  show "bitlock_wait_64 (rw_word g w n) 63 = Some (\<not> g)"
    "bitlock_try_acquire_64 (rw_word g w n) 63 = Some (\<not> g, rw_word True w n)"
    "bitlock_release_64 (rw_word g w n) 63 = Some (rw_word False w n)"
    by (auto simp: bitlock_wait bitlock_try_acquire bitlock_release bit_rw_word [OF assms] bit_set_bit_iff bit_unset_bit_iff
        intro!: bit_word_eqI)
  show "atomic_bit_set_64 (rw_word g w n) 62 = rw_word g True n" "atomic_bit_clear_64 (rw_word g w n) 62 = rw_word g False n"
    by (rule bit_word_eqI; auto simp: atomic_bits bit_rw_word [OF assms] bit_set_bit_iff bit_unset_bit_iff)+
qed

lemma rw_word_count:
  "atomic_add_64 (rw_word g w n) 1 = rw_word g w (n + 1)"
  "0 < n \<Longrightarrow> snd (atomic_load_add_release_64 (rw_word g w n) UINT64_MAX) = rw_word g w (n - 1)"
  by (simp_all add: atomic_add_64_def atomic_load_add_release_64_def rw_word_def of_nat_diff)

lemma rw_word_eq_0: "n < 2 ^ 62 \<Longrightarrow> rw_word g w n = 0 \<longleftrightarrow> \<not> g \<and> \<not> w \<and> n = 0"
  using bit_rw_word [of n g w 63] bit_rw_word [of n g w 62] rw_word_view(4) [of n g w]
  by (auto simp: rw_word_def)

subsection \<open>The invariant\<close>

text \<open>
  The points at which a PE holds the gate, those at which it has set the writer bit, and those at
  which it has seen no reader under the gate.
\<close>

fun rw_gate :: "rw_pc \<Rightarrow> bool" where
  "rw_gate p \<longleftrightarrow> (case p of
     Read_Writer \<Rightarrow> True | Read_Limit \<Rightarrow> True | Read_Add \<Rightarrow> True | Read_Leave \<Rightarrow> True
   | Write_Inspect _ \<Rightarrow> True | Write_Back _ \<Rightarrow> True | Write_Assert \<Rightarrow> True | Write_Mark \<Rightarrow> True
   | Write_Held \<Rightarrow> True | Write_Check \<Rightarrow> True | Write_Clear \<Rightarrow> True | Write_Leave \<Rightarrow> True | _ \<Rightarrow> False)"

fun rw_marked :: "rw_pc \<Rightarrow> bool" where
  "rw_marked p \<longleftrightarrow> p \<in> {Write_Held, Write_Check, Write_Clear}"

fun rw_exclusive :: "rw_pc \<Rightarrow> bool" where
  "rw_exclusive p \<longleftrightarrow> p \<in> {Write_Assert, Write_Mark, Write_Held, Write_Check, Write_Clear, Write_Leave}"

text \<open>What a PE's own point says about its reader ownerships.\<close>

fun rw_local :: "nat \<Rightarrow> rw_pc \<Rightarrow> nat \<Rightarrow> bool" where
  "rw_local depth p n \<longleftrightarrow> p \<noteq> Rw_Fault \<and> n \<le> depth \<and>
     (p \<in> {Read_Wait, Read_Try, Read_Writer, Read_Limit, Read_Add} \<longrightarrow> n < depth) \<and>
     (p \<in> {Read_Check, Read_Drop} \<longrightarrow> 0 < n) \<and> p \<noteq> Write_Wait 0"

abbreviation readers :: "'pe::finite rw_sys \<Rightarrow> nat" where
  "readers s \<equiv> (\<Sum>i \<in> UNIV. rw_reads s i)"

definition rw_inv :: "nat \<Rightarrow> 'pe::finite rw_sys \<Rightarrow> bool" where
  "rw_inv depth s \<longleftrightarrow>
     (\<forall>i. rw_local depth (rw_pcs s i) (rw_reads s i)) \<and>
     (\<forall>i j. rw_gate (rw_pcs s i) \<and> rw_gate (rw_pcs s j) \<longrightarrow> i = j) \<and>
     rw_state s = rw_word (\<exists>i. rw_gate (rw_pcs s i)) (\<exists>i. rw_marked (rw_pcs s i)) (readers s) \<and>
     (\<forall>i. rw_exclusive (rw_pcs s i) \<longrightarrow> readers s = 0)"

lemma rw_classes: "rw_marked p \<Longrightarrow> rw_gate p" "rw_exclusive p \<Longrightarrow> rw_gate p"
  by auto

lemma sum_update: "(\<Sum>j \<in> UNIV. (f(i := v)) j) + f i = (\<Sum>j \<in> UNIV. f j) + v" for f :: "'pe::finite \<Rightarrow> nat"
  using sum.remove [of UNIV i f] sum.remove [of UNIV i "f(i := v)"] sum.cong [of "UNIV - {i}" "UNIV - {i}" "f(i := v)" f]
  by simp

lemma readers_bound:
  fixes s :: "'pe::finite rw_sys"
  assumes "rw_inv depth s"
  shows "readers s \<le> CARD('pe) * depth" "rw_reads s i < depth \<Longrightarrow> readers s < CARD('pe) * depth"
proof -
  have le: "rw_reads s j \<le> depth" for j using assms by (auto simp: rw_inv_def)
  then show "readers s \<le> CARD('pe) * depth" using sum_bounded_above [of UNIV "rw_reads s" depth] by simp
  show "readers s < CARD('pe) * depth" if "rw_reads s i < depth"
    using sum_strict_mono_ex1 [of UNIV "rw_reads s" "\<lambda>_. depth"] le that by auto
qed

text \<open>One PE moves: the conditions on its new point, the word and its ownerships.\<close>

lemma rw_update:
  assumes inv: "rw_inv depth s" and w: "rw_state s' = w" and pcs: "rw_pcs s' = (rw_pcs s)(i := q)"
    and reads: "rw_reads s' = (rw_reads s)(i := r)" and loc: "rw_local depth q r"
    and gate: "rw_gate q \<Longrightarrow> rw_gate (rw_pcs s i) \<or> (\<forall>j. \<not> rw_gate (rw_pcs s j))"
    and excl: "rw_exclusive q \<Longrightarrow> readers s' = 0" "r \<le> rw_reads s i \<or> (\<forall>j. \<not> rw_exclusive (rw_pcs s j))"
    and word: "w = rw_word (rw_gate q \<or> (\<exists>j. rw_gate (rw_pcs s j)) \<and> \<not> rw_gate (rw_pcs s i))
      (rw_marked q \<or> (\<exists>j. rw_marked (rw_pcs s j)) \<and> \<not> rw_marked (rw_pcs s i)) (readers s')"
  shows "rw_inv depth s'"
proof -
  let ?P = "rw_pcs s"
  have uniq: "rw_gate (?P j) \<Longrightarrow> rw_gate (?P k) \<Longrightarrow> j = k" for j k using inv unfolding rw_inv_def by blast
  have others: "(\<exists>j. Q (((?P)(i := q)) j)) \<longleftrightarrow> Q q \<or> (\<exists>j. Q (?P j)) \<and> \<not> Q (?P i)" if "\<And>p. Q p \<Longrightarrow> rw_gate p" for Q
  proof -
    have "j = i" if "Q (?P j)" "Q (?P i)" for j using uniq that \<open>\<And>p. Q p \<Longrightarrow> rw_gate p\<close> by blast
    then show ?thesis by (auto split: if_splits)
  qed
  have "readers s' + rw_reads s i = readers s + r" unfolding reads by (rule sum_update)
  then have drop: "r \<le> rw_reads s i \<Longrightarrow> readers s = 0 \<Longrightarrow> readers s' = 0" by linarith
  show ?thesis
    unfolding rw_inv_def
  proof (intro conjI allI impI)
    show "rw_local depth (rw_pcs s' j) (rw_reads s' j)" for j
      using inv loc unfolding rw_inv_def pcs reads by (cases "j = i") (simp_all del: rw_local.simps)
    show "j = k" if "rw_gate (rw_pcs s' j) \<and> rw_gate (rw_pcs s' k)" for j k
      using that uniq gate unfolding pcs by (cases "j = i"; cases "k = i") (auto simp del: rw_gate.simps)
    show "rw_state s' = rw_word (\<exists>j. rw_gate (rw_pcs s' j)) (\<exists>j. rw_marked (rw_pcs s' j)) (readers s')"
      unfolding w word pcs by (simp only: others [of rw_gate] others [of rw_marked, OF rw_classes(1)])
    show "readers s' = 0" if "rw_exclusive (rw_pcs s' j)" for j
    proof (cases "j = i")
      case True
      then show ?thesis using that excl(1) unfolding pcs by (simp del: rw_exclusive.simps)
    next
      case False
      then have "rw_exclusive (?P j)" using that unfolding pcs by (simp del: rw_exclusive.simps)
      then have "readers s = 0" "r \<le> rw_reads s i" using inv excl(2) unfolding rw_inv_def by blast+
      then show ?thesis by (intro drop)
    qed
  qed
qed

lemma rw_invD:
  assumes "rw_inv depth s"
  shows "rw_local depth (rw_pcs s i) (rw_reads s i)"
    "rw_state s = rw_word (\<exists>i. rw_gate (rw_pcs s i)) (\<exists>i. rw_marked (rw_pcs s i)) (readers s)"
    "rw_gate (rw_pcs s i) \<Longrightarrow> rw_gate (rw_pcs s j) \<Longrightarrow> j = i" "rw_exclusive (rw_pcs s i) \<Longrightarrow> readers s = 0"
  using assms unfolding rw_inv_def by blast+

text \<open>A move that leaves the word and the ownerships alone.\<close>

lemma rw_goto_inv:
  assumes "rw_inv depth s" "rw_pcs s i = p" "rw_gate q = rw_gate p" "rw_marked q = rw_marked p"
    and "rw_exclusive q \<Longrightarrow> rw_exclusive p \<or> readers s = 0" "rw_local depth q (rw_reads s i)"
  shows "rw_inv depth (rw_goto s i q)"
proof -
  have "(rw_gate q \<or> (\<exists>j. rw_gate (rw_pcs s j)) \<and> \<not> rw_gate (rw_pcs s i)) = (\<exists>j. rw_gate (rw_pcs s j))"
    "(rw_marked q \<or> (\<exists>j. rw_marked (rw_pcs s j)) \<and> \<not> rw_marked (rw_pcs s i)) = (\<exists>j. rw_marked (rw_pcs s j))"
    using assms(2-4) by blast+
  note w = this [symmetric]
  show ?thesis
  proof (rule rw_update [OF assms(1), where i = i and q = q and r = "rw_reads s i" and w = "rw_state s"])
    show "rw_state s = rw_word (rw_gate q \<or> (\<exists>j. rw_gate (rw_pcs s j)) \<and> \<not> rw_gate (rw_pcs s i))
        (rw_marked q \<or> (\<exists>j. rw_marked (rw_pcs s j)) \<and> \<not> rw_marked (rw_pcs s i)) (readers (rw_goto s i q))"
      unfolding w [symmetric] using rw_invD(2) [OF assms(1)] by simp
  qed (use assms(2-6) rw_invD(4) [OF assms(1)] in
      \<open>auto simp del: rw_gate.simps rw_marked.simps rw_exclusive.simps rw_local.simps\<close>)
qed

text \<open>An attempt to take the gate, and its release.\<close>

lemma rw_try_inv:
  assumes "rw_inv depth s" "readers s < 2 ^ 62" "rw_pcs s i = p" "\<not> rw_gate p"
    and "bitlock_try_acquire_64 (rw_state s) RWLOCK_GATE_SHIFT = Some (a, w)"
    and "rw_gate q" "\<not> rw_marked q" "\<not> rw_exclusive q" "rw_local depth q (rw_reads s i)"
    and "\<not> rw_gate q'" "rw_local depth q' (rw_reads s i)"
  shows "rw_inv depth (rw_store s w i (if a then q else q'))"
proof -
  note I = rw_invD(2) [OF assms(1)]
  have a: "a = (\<not> (\<exists>i. rw_gate (rw_pcs s i)))" "w = rw_word True (\<exists>i. rw_marked (rw_pcs s i)) (readers s)"
    using assms(5) unfolding I rw_word_access(2) [OF assms(2)] by auto
  have m: "\<not> rw_marked p" "\<not> rw_marked q'" "\<not> rw_exclusive q'" using rw_classes assms(4,10) by blast+
  show ?thesis
    using assms(3,4,6-11) m a
    by (cases a; intro rw_update [OF assms(1), where i = i and q = "if a then q else q'" and r = "rw_reads s i" and w = w])
      (auto simp del: rw_gate.simps rw_marked.simps rw_exclusive.simps rw_local.simps)
qed

lemma rw_release_inv:
  assumes "rw_inv depth s" "readers s < 2 ^ 62" "rw_pcs s i = p" "rw_gate p" "\<not> rw_marked p"
    and "bitlock_release_64 (rw_state s) RWLOCK_GATE_SHIFT = Some w" "\<not> rw_gate q" "rw_local depth q (rw_reads s i)"
  shows "rw_inv depth (rw_store s w i q)"
proof -
  note I = rw_invD(2) [OF assms(1)]
  have w: "w = rw_word False (\<exists>i. rw_marked (rw_pcs s i)) (readers s)"
    using assms(6) unfolding I rw_word_access(3) [OF assms(2)] by auto
  have m: "\<not> rw_marked q" "\<not> rw_exclusive q" using rw_classes assms(7) by blast+
  show ?thesis
    using assms(3-5,7,8) m w
    by (intro rw_update [OF assms(1), where i = i and q = q and r = "rw_reads s i" and w = w])
      (auto simp del: rw_gate.simps rw_marked.simps rw_exclusive.simps rw_local.simps)
qed

text \<open>The holder of the gate is the only PE that may have set the writer bit.\<close>

lemma rw_marked_owner:
  assumes "rw_inv depth s" "rw_gate (rw_pcs s i)"
  shows "(\<exists>j. rw_marked (rw_pcs s j)) \<longleftrightarrow> rw_marked (rw_pcs s i)"
    "(\<exists>j. rw_exclusive (rw_pcs s j)) \<longleftrightarrow> rw_exclusive (rw_pcs s i)"
  using rw_invD(3) [OF assms(1,2)] rw_classes by blast+

lemma rw_owner_word:
  assumes "rw_inv depth s" "rw_gate (rw_pcs s i)"
  shows "rw_state s = rw_word True (rw_marked (rw_pcs s i)) (readers s)"
proof -
  have "(\<exists>j. rw_gate (rw_pcs s j)) = True" using assms(2) by blast
  then show ?thesis using rw_invD(2) [OF assms(1)] by (simp only: rw_marked_owner(1) [OF assms])
qed

lemma rw_read_inv:
  fixes s :: "'pe::finite rw_sys"
  assumes "rw_inv depth s" "CARD('pe) * depth < 2 ^ 62"
  shows "rw_pcs s i = Read_Limit \<Longrightarrow> RWLOCK_READERS (rw_state s) < RWLOCK_READERS_MASK"
    "rw_pcs s i = Read_Writer \<Longrightarrow> \<not> RWLOCK_WRITER_LOCKED (rw_state s)"
    "rw_pcs s i = Read_Check \<Longrightarrow> RWLOCK_READERS (rw_state s) \<noteq> 0"
    "rw_pcs s i = Write_Inspect l \<Longrightarrow> rw_state s AND RWLOCK_READERS_MASK = 0 \<Longrightarrow> readers s = 0"
    "rw_pcs s i = Write_Assert \<Longrightarrow> \<not> RWLOCK_WRITER_LOCKED (rw_state s)"
    "rw_pcs s i = Write_Check \<Longrightarrow> RWLOCK_WRITER_LOCKED (rw_state s)"
proof -
  note I = rw_invD [OF assms(1)]
  have n: "readers s < 2 ^ 62" using readers_bound(1) [OF assms(1)] assms(2) by linarith
  note v = rw_word_view [OF n, of "\<exists>i. rw_gate (rw_pcs s i)" "\<exists>i. rw_marked (rw_pcs s i)", folded I(2)]
  show "RWLOCK_READERS (rw_state s) < RWLOCK_READERS_MASK" if "rw_pcs s i = Read_Limit"
  proof -
    have "readers s < 2 ^ 62 - 1" using readers_bound(2) [OF assms(1), of i] I(1) [of i] that assms(2) by simp
    then show ?thesis
      unfolding v(3) by (simp add: RWLOCK_READERS_MASK_def RWLOCK_WRITER_BIT_def word_less_nat_alt unsigned_of_nat take_bit_nat_eq_self
          del: of_nat_sum)
  qed
  show "RWLOCK_READERS (rw_state s) \<noteq> 0" if "rw_pcs s i = Read_Check"
  proof -
    have "0 < readers s" using I(1) [of i] that by (auto simp: sum_pos2)
    then show ?thesis using n unfolding v(3) by (auto simp: word_of_nat_eq_0_iff simp del: of_nat_sum dest: dvd_imp_le)
  qed
  show "readers s = 0" if "rw_pcs s i = Write_Inspect l" "rw_state s AND RWLOCK_READERS_MASK = 0" using v(4) that by blast
  show "\<not> RWLOCK_WRITER_LOCKED (rw_state s)" if "rw_pcs s i = Read_Writer"
    unfolding v(2) using rw_marked_owner(1) [OF assms(1), of i] that by simp
  show "\<not> RWLOCK_WRITER_LOCKED (rw_state s)" if "rw_pcs s i = Write_Assert"
    unfolding v(2) using rw_marked_owner(1) [OF assms(1), of i] that by simp
  show "RWLOCK_WRITER_LOCKED (rw_state s)" if "rw_pcs s i = Write_Check"
    unfolding v(2) using that by (auto intro!: exI [of _ i])
qed

text \<open>The accesses that change the reader count or the writer bit.\<close>

lemma rw_count_inv:
  assumes inv: "rw_inv depth s" and n: "readers s < 2 ^ 62"
  shows "rw_pcs s i = Read_Add \<Longrightarrow> rw_inv depth ((rw_store s (atomic_add_64 (rw_state s) 1) i Read_Leave)
      \<lparr>rw_reads := (rw_reads s)(i := rw_reads s i + 1)\<rparr>)"
    "rw_pcs s i = Read_Drop \<Longrightarrow> rw_inv depth ((rw_store s (snd (atomic_load_add_release_64 (rw_state s) UINT64_MAX)) i Rw_Idle)
      \<lparr>rw_reads := (rw_reads s)(i := rw_reads s i - 1)\<rparr>)"
proof -
  note I = rw_invD [OF inv] and L = rw_invD(1) [OF inv, of i]
  show "rw_inv depth ((rw_store s (atomic_add_64 (rw_state s) 1) i Read_Leave)
      \<lparr>rw_reads := (rw_reads s)(i := rw_reads s i + 1)\<rparr>)" if p: "rw_pcs s i = Read_Add"
  proof (rule rw_update [OF inv, where i = i])
    have "\<not> rw_exclusive (rw_pcs s j)" for j using rw_marked_owner(2) [OF inv, of i] p by auto
    then show "rw_reads s i + 1 \<le> rw_reads s i \<or> (\<forall>j. \<not> rw_exclusive (rw_pcs s j))" by blast
  qed (use p L rw_owner_word [OF inv, of i] rw_marked_owner [OF inv, of i] sum_update [of "rw_reads s" i "rw_reads s i + 1"]
      in \<open>auto simp: rw_word_count\<close>)
  show "rw_inv depth ((rw_store s (snd (atomic_load_add_release_64 (rw_state s) UINT64_MAX)) i Rw_Idle)
      \<lparr>rw_reads := (rw_reads s)(i := rw_reads s i - 1)\<rparr>)" if p: "rw_pcs s i = Read_Drop"
  proof (rule rw_update [OF inv, where i = i])
    have "0 < readers s" using L p by (auto simp: sum_pos2)
    moreover have "(\<Sum>j \<in> UNIV. ((rw_reads s)(i := rw_reads s i - 1)) j) = readers s - 1"
      using L p sum_update [of "rw_reads s" i "rw_reads s i - 1"] by (auto simp del: fun_upd_apply)
    ultimately show "snd (atomic_load_add_release_64 (rw_state s) UINT64_MAX) = rw_word (rw_gate Rw_Idle \<or>
      (\<exists>j. rw_gate (rw_pcs s j)) \<and> \<not> rw_gate (rw_pcs s i)) (rw_marked Rw_Idle \<or>
      (\<exists>j. rw_marked (rw_pcs s j)) \<and> \<not> rw_marked (rw_pcs s i)) (readers ((rw_store s
        (snd (atomic_load_add_release_64 (rw_state s) UINT64_MAX)) i Rw_Idle)\<lparr>rw_reads := (rw_reads s)(i := rw_reads s i - 1)\<rparr>))"
      using I(2) p by (simp add: rw_word_count del: fun_upd_apply)
  qed (use p L in auto)
qed

lemma rw_flag_inv:
  assumes inv: "rw_inv depth s" and n: "readers s < 2 ^ 62"
  shows "rw_pcs s i = Write_Mark \<Longrightarrow> rw_inv depth (rw_store s (atomic_bit_set_64 (rw_state s) RWLOCK_WRITER_SHIFT) i Write_Held)"
    "rw_pcs s i = Write_Clear \<Longrightarrow> rw_inv depth (rw_store s (atomic_bit_clear_64 (rw_state s) RWLOCK_WRITER_SHIFT) i Write_Leave)"
proof -
  note I = rw_invD [OF inv]
  show "rw_inv depth (rw_store s (atomic_bit_set_64 (rw_state s) RWLOCK_WRITER_SHIFT) i Write_Held)" if p: "rw_pcs s i = Write_Mark"
    using p I(1,4) [of i] rw_owner_word [OF inv, of i] rw_marked_owner [OF inv, of i] rw_word_access(4,5) [of 0]
    by (intro rw_update [OF inv, where i = i and r = "rw_reads s i"]) auto
  show "rw_inv depth (rw_store s (atomic_bit_clear_64 (rw_state s) RWLOCK_WRITER_SHIFT) i Write_Leave)" if p: "rw_pcs s i = Write_Clear"
    using p I(1,4) [of i] rw_owner_word [OF inv, of i] rw_marked_owner [OF inv, of i] rw_word_access(4,5) [of 0]
    by (intro rw_update [OF inv, where i = i and r = "rw_reads s i"]) auto
qed

lemma rw_step_inv:
  fixes s :: "'pe::finite rw_sys"
  assumes inv: "rw_inv depth s" and "rw_step depth s i s'" and card: "CARD('pe) * depth < 2 ^ 62"
  shows "rw_inv depth s'"
proof -
  note I = rw_invD [OF inv] and R = rw_read_inv [OF inv card, of i]
  have n: "readers s < 2 ^ 62" using readers_bound(1) [OF inv] card by linarith
  note L = I(1) [of i]
  show ?thesis
    using assms(2)
  proof cases
    case read_start
    then show ?thesis unfolding read_start(1) using L by (intro rw_goto_inv [OF inv read_start(2)]) auto
  next
    case read_wait
    then show ?thesis unfolding read_wait(1) using L by (intro rw_goto_inv [OF inv read_wait(2)]) auto
  next
    case (read_try a w)
    then show ?thesis unfolding read_try(1) using L by (intro rw_try_inv [OF inv n read_try(2) _ read_try(3)]) auto
  next
    case read_writer
    then show ?thesis unfolding read_writer(1) using L R(2) by (intro rw_goto_inv [OF inv read_writer(2)]) auto
  next
    case read_limit
    then show ?thesis unfolding read_limit(1) using L R(1) by (intro rw_goto_inv [OF inv read_limit(2)]) auto
  next
    case read_add
    then show ?thesis using rw_count_inv(1) [OF inv n] by simp
  next
    case (read_leave w)
    then show ?thesis unfolding read_leave(1) using L by (intro rw_release_inv [OF inv n read_leave(2) _ _ read_leave(3)]) auto
  next
    case read_drop_start
    then show ?thesis unfolding read_drop_start(1) using L by (intro rw_goto_inv [OF inv read_drop_start(2)]) auto
  next
    case read_check
    then show ?thesis unfolding read_check(1) using L R(3) by (intro rw_goto_inv [OF inv read_check(2)]) auto
  next
    case read_drop
    then show ?thesis using rw_count_inv(2) [OF inv n] by simp
  next
    case (write_start l)
    then show ?thesis unfolding write_start(1) using L by (intro rw_goto_inv [OF inv write_start(2)]) auto
  next
    case (write_try l a w)
    then show ?thesis unfolding write_try(1) using L by (intro rw_try_inv [OF inv n write_try(2) _ write_try(3)]) auto
  next
    case (write_inspect l)
    then show ?thesis unfolding write_inspect(1) using L R(4)
      by (intro rw_goto_inv [OF inv write_inspect(2)]) (auto split: if_splits)
  next
    case (write_back l w)
    then show ?thesis unfolding write_back(1) using L by (intro rw_release_inv [OF inv n write_back(2) _ _ write_back(3)]) auto
  next
    case write_assert
    then show ?thesis unfolding write_assert(1) using L R(5) by (intro rw_goto_inv [OF inv write_assert(2)]) auto
  next
    case write_mark
    then show ?thesis using rw_flag_inv(1) [OF inv n] by simp
  next
    case write_poll
    then show ?thesis unfolding write_poll(1) using L by (intro rw_goto_inv [OF inv write_poll(2)]) (auto split: if_splits)
  next
    case (write_wait w)
    then show ?thesis unfolding write_wait(1) using L by (intro rw_goto_inv [OF inv write_wait(2)]) auto
  next
    case write_end
    then show ?thesis unfolding write_end(1) using L by (intro rw_goto_inv [OF inv write_end(2)]) auto
  next
    case write_check
    then show ?thesis unfolding write_check(1) using L R(6) by (intro rw_goto_inv [OF inv write_check(2)]) auto
  next
    case write_clear
    then show ?thesis using rw_flag_inv(2) [OF inv n] by simp
  next
    case (write_leave w)
    then show ?thesis unfolding write_leave(1) using L by (intro rw_release_inv [OF inv n write_leave(2) _ _ write_leave(3)]) auto
  qed
qed

lemma rw_reach_inv:
  fixes s :: "'pe::finite rw_sys"
  assumes "rw_reach depth s" "CARD('pe) * depth < 2 ^ 62"
  shows "rw_inv depth s"
  using assms(1)
proof induction
  case init
  then show ?case by (simp add: rw_inv_def rwlock_init_def rw_word_def)
next
  case (step s i s')
  then show ?case using rw_step_inv assms(2) by blast
qed

subsection \<open>Exclusion and progress\<close>

text \<open>
  C4. The reader-writer lock excludes: however the operations of any number of PEs interleave, no
  assertion of the lock fails, and while a PE has exclusive ownership no PE has shared ownership
  and no other PE has exclusive ownership or holds the gate. The reader field of the word is the
  number of shared ownerships, and the writer bit and the gate say whether a PE holds them.
\<close>

theorem rwlock_exclusion:
  fixes s :: "'pe::finite rw_sys"
  assumes "rw_reach depth s" "CARD('pe) * depth < 2 ^ 62"
  shows "rw_pcs s i \<noteq> Rw_Fault \<and>
    (rw_pcs s i = Write_Held \<longrightarrow> (\<forall>j. rw_reads s j = 0) \<and> (\<forall>j. j \<noteq> i \<longrightarrow> \<not> rw_gate (rw_pcs s j))) \<and>
    unat (RWLOCK_READERS (rw_state s)) = readers s \<and>
    (RWLOCK_WRITER_LOCKED (rw_state s) \<longleftrightarrow> (\<exists>j. rw_marked (rw_pcs s j))) \<and>
    (RWLOCK_GATE_LOCKED (rw_state s) \<longleftrightarrow> (\<exists>j. rw_gate (rw_pcs s j)))"
proof -
  note inv = rw_reach_inv [OF assms]
  note I = rw_invD [OF inv]
  have n: "readers s < 2 ^ 62" using readers_bound(1) [OF inv] assms(2) by linarith
  note v = rw_word_view [OF n, of "\<exists>i. rw_gate (rw_pcs s i)" "\<exists>i. rw_marked (rw_pcs s i)", folded I(2)]
  show ?thesis
  proof (intro conjI impI allI)
    show "rw_pcs s i \<noteq> Rw_Fault" using I(1) [of i] by simp
    show "rw_reads s j = 0" if "rw_pcs s i = Write_Held" for j using I(4) [of i] that by simp
    show "\<not> rw_gate (rw_pcs s j)" if "rw_pcs s i = Write_Held" "j \<noteq> i" for j using I(3) [of i j] that by auto
    show "unat (RWLOCK_READERS (rw_state s)) = readers s"
      unfolding v(3) using n by (simp add: unsigned_of_nat take_bit_nat_eq_self del: of_nat_sum)
  qed (rule v(1,2))+
qed

lemma rw_writer_reach:
  "rw_reach 1 \<lparr>rw_state = 0xC000000000000000, rw_pcs = (\<lambda>_. Rw_Idle)(True := Write_Held), rw_reads = \<lambda>_ :: bool. 0\<rparr>"
proof -
  note next_step = rw_reach.step [where i = True]
  let ?sys = "\<lambda>w p. \<lparr>rw_state = w, rw_pcs = (\<lambda>_. Rw_Idle)(True := p), rw_reads = \<lambda>_ :: bool. 0\<rparr>"
  have "rw_reach 1 (?sys 0 Rw_Idle)" using rw_reach.init [of 1] by (simp add: rwlock_init_def fun_upd_idem)
  from next_step [OF this rw_step.write_start [where loop = False]] have "rw_reach 1 (?sys 0 (Write_Try False))" by simp
  from next_step [OF this rw_step.write_try [where a = True and w = "2 ^ 63" and loop = False]]
  have "rw_reach 1 (?sys (2 ^ 63) (Write_Inspect False))" by (simp add: bitlock_try_acquire set_bit_eq_or)
  from next_step [OF this rw_step.write_inspect [where loop = False]] have "rw_reach 1 (?sys (2 ^ 63) Write_Assert)"
    by (simp add: RWLOCK_READERS_MASK_def RWLOCK_WRITER_BIT_def)
  from next_step [OF this rw_step.write_assert] have "rw_reach 1 (?sys (2 ^ 63) Write_Mark)"
    by (simp add: RWLOCK_WRITER_LOCKED_def RWLOCK_WRITER_BIT_def)
  from next_step [OF this rw_step.write_mark] show ?thesis by (simp add: atomic_bit_set_64_def)
qed

theorem rwlock_exclusion_witness:
  "unat (RWLOCK_READERS 0xC000000000000000) = 0 \<and> RWLOCK_WRITER_LOCKED 0xC000000000000000"
  using rwlock_exclusion [OF rw_writer_reach, of True] by auto

text \<open>
  C23. No PE gets stuck in the lock: at every reachable state each PE has a next step, except a reader
  that waits while another PE holds the gate, and a writer that waits while the word is still the
  nonzero word it saw, that is, while the lock is in use.
\<close>

theorem rwlock_progress:
  fixes s :: "'pe::finite rw_sys"
  assumes "rw_reach depth s" "CARD('pe) * depth < 2 ^ 62"
  shows "(\<exists>s'. rw_step depth s i s') \<or>
    rw_pcs s i = Read_Wait \<and> (\<exists>j. j \<noteq> i \<and> rw_gate (rw_pcs s j)) \<or>
    (\<exists>w. rw_pcs s i = Write_Wait w \<and> rw_state s = w \<and> ((\<exists>j. rw_gate (rw_pcs s j)) \<or> (\<exists>j. 0 < rw_reads s j)))"
proof -
  note inv = rw_reach_inv [OF assms]
  note I = rw_invD [OF inv]
  have n: "readers s < 2 ^ 62" using readers_bound(1) [OF inv] assms(2) by linarith
  show ?thesis
  proof (cases "rw_pcs s i")
    case Read_Wait
    show ?thesis
    proof (cases "\<exists>j. rw_gate (rw_pcs s j)")
      case True
      then obtain j where j: "rw_gate (rw_pcs s j)" by blast
      then have "j \<noteq> i" using Read_Wait by auto
      then show ?thesis using Read_Wait j by blast
    next
      case False
      then have "bitlock_wait_64 (rw_state s) RWLOCK_GATE_SHIFT = Some True" unfolding I(2) rw_word_access(1) [OF n] by simp
      then show ?thesis using rw_step.read_wait [OF Read_Wait] by blast
    qed
  next
    case (Write_Wait w)
    show ?thesis
    proof (cases "rw_state s = w")
      case True
      then have "rw_state s \<noteq> 0" using I(1) [of i] Write_Wait by auto
      then have "(\<exists>j. rw_gate (rw_pcs s j)) \<or> (\<exists>j. rw_marked (rw_pcs s j)) \<or> readers s \<noteq> 0"
        unfolding I(2) rw_word_eq_0 [OF n] by argo
      moreover have "readers s \<noteq> 0 \<Longrightarrow> \<exists>j. 0 < rw_reads s j" by simp
      ultimately have "(\<exists>j. rw_gate (rw_pcs s j)) \<or> (\<exists>j. 0 < rw_reads s j)" using rw_classes(1) by blast
      then show ?thesis using Write_Wait True by blast
    next
      case False
      then have "bitlock_wait_while_64 (rw_state s) UINT64_MAX w = Some True" by (simp add: bitlock_wait_while_64_def)
      then show ?thesis using rw_step.write_wait [OF Write_Wait] by blast
    qed
  qed (use I(1) [of i] bitlock_try_acquire(3) [of 63 "rw_state s"] bitlock_release(3) [of 63 "rw_state s"]
     in \<open>auto intro: rw_step.intros\<close>)
qed

theorem rwlock_progress_witness:
  "\<exists>s'. rw_step 1 \<lparr>rw_state = 0xC000000000000000, rw_pcs = (\<lambda>_. Rw_Idle)(True := Write_Held), rw_reads = \<lambda>_ :: bool. 0\<rparr>
     True s'"
  using rwlock_progress [OF rw_writer_reach, of True] by simp

end
