(* ===== verification/Realm_State.thy ===== *)
theory Realm_State
  imports Rwlock
begin

text \<open>
  The packed state of a Realm descriptor (\<^verbatim>\<open>src/runtime/include/realm.h\<close>): the life-cycle state and
  the number of running RECs share one word that is changed by compare-and-swap, without the lock of
  the descriptor for REC entry and exit and with it for the state changes. The commands that use it
  (REC entry and exit, Realm activation and termination, PSCI system off) run on any number of PEs
  and interleave at every access.
\<close>

subsection \<open>The packed word\<close>

abbreviation (input) REALM_NEW :: u64 where "REALM_NEW \<equiv> 0"
abbreviation (input) REALM_ACTIVE :: u64 where "REALM_ACTIVE \<equiv> 1"
abbreviation (input) REALM_SYSTEM_OFF :: u64 where "REALM_SYSTEM_OFF \<equiv> 2"
abbreviation (input) REALM_ZOMBIE :: u64 where "REALM_ZOMBIE \<equiv> 3"
abbreviation (input) RD_STATE_SHIFT :: nat where "RD_STATE_SHIFT \<equiv> 62"

definition RD_COUNT_MASK :: u64 where "RD_COUNT_MASK = push_bit RD_STATE_SHIFT 1 - 1"
definition RD_PACK_SC :: "u64 \<Rightarrow> u64 \<Rightarrow> u64" where "RD_PACK_SC s c = push_bit RD_STATE_SHIFT s OR c"
definition RD_UNPACK_STATE :: "u64 \<Rightarrow> u64" where "RD_UNPACK_STATE v = drop_bit RD_STATE_SHIFT v"
definition RD_UNPACK_COUNT :: "u64 \<Rightarrow> u64" where "RD_UNPACK_COUNT v = v AND RD_COUNT_MASK"

text \<open>One attempt of each operation: the value it returns and the word after it.\<close>

definition get_rd_state :: "u64 \<Rightarrow> u64" where
  "get_rd_state state_and_count = RD_UNPACK_STATE state_and_count"

definition set_rd_state_cas :: "u64 \<Rightarrow> u64 \<Rightarrow> u64 \<Rightarrow> bool \<times> u64" where
  "set_rd_state_cas state_and_count old state =
     atomic_cas_acquire_release_64 state_and_count old (RD_PACK_SC state (RD_UNPACK_COUNT old))"

definition rd_cas_state_if_count_zero :: "u64 \<Rightarrow> u64 \<Rightarrow> u64 \<Rightarrow> bool \<times> u64" where
  "rd_cas_state_if_count_zero state_and_count expected_state new_state = (
     let expected = RD_PACK_SC expected_state 0; desired = RD_PACK_SC new_state 0
     in atomic_cas_acquire_release_64 state_and_count expected desired)"

definition rd_active_rec_count_inc_cas :: "u64 \<Rightarrow> u64 \<Rightarrow> (bool \<times> u64) option" where
  "rd_active_rec_count_inc_cas state_and_count old = do {
     let new_val = old + 1;
     c_assert (RD_UNPACK_STATE new_val = REALM_ACTIVE);
     Some (atomic_cas_acquire_release_64 state_and_count old new_val)
   }"

definition rd_active_rec_count_dec :: "u64 \<Rightarrow> u64 option" where
  "rd_active_rec_count_dec state_and_count = do {
     let (old, loc) = atomic_load_add_release_64 state_and_count (-1);
     c_assert (RD_UNPACK_COUNT old > 0);
     Some loc
   }"

subsection \<open>Steps\<close>

text \<open>
  The points of a PE: entering a REC, inside one, turning the system off from inside one, activating
  and terminating the Realm with the descriptor locked.
\<close>

datatype rd_pc = Rd_Out | Rd_Fault
  | Enter_Load | Enter_Cas u64 | Rd_In
  | Off_Lock | Off_Load | Off_Cas u64 | Off_Unlock
  | Act_Check | Act_Load | Act_Cas u64 | Term_Read | Term_Cas u64 | Cmd_Unlock

record 'pe rd_sys =
  rd_word :: u64
  rd_lock :: "'pe option"
  rd_pcs :: "'pe \<Rightarrow> rd_pc"

abbreviation (input) rd_goto :: "'pe rd_sys \<Rightarrow> 'pe \<Rightarrow> rd_pc \<Rightarrow> 'pe rd_sys" where
  "rd_goto s i p \<equiv> s\<lparr>rd_pcs := (rd_pcs s)(i := p)\<rparr>"

abbreviation (input) rd_store :: "'pe rd_sys \<Rightarrow> u64 \<Rightarrow> 'pe \<Rightarrow> rd_pc \<Rightarrow> 'pe rd_sys" where
  "rd_store s w i p \<equiv> s\<lparr>rd_word := w, rd_pcs := (rd_pcs s)(i := p)\<rparr>"

abbreviation (input) rd_set_lock :: "'pe rd_sys \<Rightarrow> 'pe option \<Rightarrow> 'pe \<Rightarrow> rd_pc \<Rightarrow> 'pe rd_sys" where
  "rd_set_lock s l i p \<equiv> s\<lparr>rd_lock := l, rd_pcs := (rd_pcs s)(i := p)\<rparr>"

inductive rd_step :: "'pe rd_sys \<Rightarrow> 'pe \<Rightarrow> 'pe rd_sys \<Rightarrow> bool" where
  enter: "rd_pcs s i = Rd_Out \<Longrightarrow> rd_step s i (rd_goto s i Enter_Load)"
| enter_load: "rd_pcs s i = Enter_Load \<Longrightarrow> old = rd_word s \<Longrightarrow>
    rd_step s i (rd_goto s i (if RD_UNPACK_STATE old \<noteq> REALM_ACTIVE then Rd_Out else Enter_Cas old))"
| enter_cas: "rd_pcs s i = Enter_Cas old \<Longrightarrow>
    rd_step s i (case rd_active_rec_count_inc_cas (rd_word s) old of
        None \<Rightarrow> rd_goto s i Rd_Fault
      | Some (ok, w) \<Rightarrow> rd_store s w i (if ok then Rd_In else Enter_Load))"
| leave: "rd_pcs s i = Rd_In \<Longrightarrow>
    rd_step s i (case rd_active_rec_count_dec (rd_word s) of
        None \<Rightarrow> rd_goto s i Rd_Fault
      | Some w \<Rightarrow> rd_store s w i Rd_Out)"
| off: "rd_pcs s i = Rd_In \<Longrightarrow> rd_step s i (rd_goto s i Off_Lock)"
| off_lock: "rd_pcs s i = Off_Lock \<Longrightarrow> rd_lock s = None \<Longrightarrow> rd_step s i (rd_set_lock s (Some i) i Off_Load)"
| off_load: "rd_pcs s i = Off_Load \<Longrightarrow> rd_step s i (rd_goto s i (Off_Cas (rd_word s)))"
| off_cas: "rd_pcs s i = Off_Cas old \<Longrightarrow> set_rd_state_cas (rd_word s) old REALM_SYSTEM_OFF = (ok, w) \<Longrightarrow>
    rd_step s i (rd_store s w i (if ok then Off_Unlock else Off_Load))"
| off_unlock: "rd_pcs s i = Off_Unlock \<Longrightarrow> rd_step s i (rd_set_lock s None i Rd_In)"
| activate: "rd_pcs s i = Rd_Out \<Longrightarrow> rd_lock s = None \<Longrightarrow> rd_step s i (rd_set_lock s (Some i) i Act_Check)"
| act_check: "rd_pcs s i = Act_Check \<Longrightarrow>
    rd_step s i (rd_goto s i (if get_rd_state (rd_word s) = REALM_NEW then Act_Load else Cmd_Unlock))"
| act_load: "rd_pcs s i = Act_Load \<Longrightarrow> rd_step s i (rd_goto s i (Act_Cas (rd_word s)))"
| act_cas: "rd_pcs s i = Act_Cas old \<Longrightarrow> set_rd_state_cas (rd_word s) old REALM_ACTIVE = (ok, w) \<Longrightarrow>
    rd_step s i (rd_store s w i (if ok then Cmd_Unlock else Act_Load))"
| terminate: "rd_pcs s i = Rd_Out \<Longrightarrow> rd_lock s = None \<Longrightarrow> rd_step s i (rd_set_lock s (Some i) i Term_Read)"
| term_read: "rd_pcs s i = Term_Read \<Longrightarrow> rd_step s i (rd_goto s i (Term_Cas (get_rd_state (rd_word s))))"
| term_cas: "rd_pcs s i = Term_Cas st \<Longrightarrow> rd_cas_state_if_count_zero (rd_word s) st REALM_ZOMBIE = (ok, w) \<Longrightarrow>
    rd_step s i (rd_store s w i Cmd_Unlock)"
| cmd_unlock: "rd_pcs s i = Cmd_Unlock \<Longrightarrow> rd_step s i (rd_set_lock s None i Rd_Out)"

text \<open>A Realm is created in the state NEW with no REC running.\<close>

inductive rd_reach :: "'pe rd_sys \<Rightarrow> bool" where
  init: "rd_reach \<lparr>rd_word = RD_PACK_SC REALM_NEW 0, rd_lock = None, rd_pcs = \<lambda>_. Rd_Out\<rparr>"
| step: "rd_reach s \<Longrightarrow> rd_step s i s' \<Longrightarrow> rd_reach s'"

subsection \<open>Packing\<close>

lemma RD_COUNT_take: "RD_UNPACK_COUNT v = take_bit 62 v"
  by (simp add: RD_UNPACK_COUNT_def RD_COUNT_MASK_def take_bit_eq_mask mask_eq_exp_minus_1)

text \<open>The word of a state and a number of running RECs.\<close>

definition rd_view :: "u64 \<Rightarrow> nat \<Rightarrow> u64" where
  "rd_view st n = RD_PACK_SC st (of_nat n)"

lemma rd_view_sum: "n < 2 ^ 62 \<Longrightarrow> rd_view st n = push_bit 62 st + of_nat n"
  unfolding rd_view_def RD_PACK_SC_def
  using bit_small [of n 62] by (intro disjunctive_add [symmetric]) (auto simp: bit_simps)

lemma rd_view_unpack:
  assumes "n < 2 ^ 62"
  shows "st < 4 \<Longrightarrow> RD_UNPACK_STATE (rd_view st n) = st" "RD_UNPACK_COUNT (rd_view st n) = of_nat n"
proof -
  show "RD_UNPACK_COUNT (rd_view st n) = of_nat n"
    unfolding RD_COUNT_take rd_view_def RD_PACK_SC_def
    by (rule bit_word_eqI) (use bit_small [OF assms] in \<open>auto simp: bit_simps not_less\<close>)
  assume "st < 4"
  then have "take_bit 2 st = st" by (simp add: take_bit_eq_mod mod_word_less)
  then have st: "bit st b \<Longrightarrow> b < 2" for b by (metis bit_take_bit_iff)
  show "RD_UNPACK_STATE (rd_view st n) = st"
    unfolding RD_UNPACK_STATE_def rd_view_def RD_PACK_SC_def
    by (rule bit_word_eqI) (use bit_small [OF assms] st in \<open>auto simp: bit_simps\<close>)
qed

lemma rd_view_cases: obtains st n where "v = rd_view st n" "st < 4" "n < 2 ^ 62"
proof
  have "RD_PACK_SC (RD_UNPACK_STATE v) (RD_UNPACK_COUNT v) = v"
    unfolding RD_PACK_SC_def RD_UNPACK_STATE_def RD_COUNT_take by (rule bit_word_eqI) (auto simp: bit_simps)
  then show "v = rd_view (RD_UNPACK_STATE v) (unat (RD_UNPACK_COUNT v))" by (simp add: rd_view_def)
  show "RD_UNPACK_STATE v < 4"
    using unat_lt2p_64 [of v] by (simp add: RD_UNPACK_STATE_def word_less_nat_alt unat_div drop_bit_eq_div less_mult_imp_div_less)
  show "unat (RD_UNPACK_COUNT v) < 2 ^ 62" 
    using take_bit_nat_less_exp [of 62 "unat v"] by (simp add: RD_COUNT_take unsigned_take_bit_eq)
qed

lemma rd_view_inject: "rd_view st n = rd_view st' n' \<longleftrightarrow> st = st' \<and> n = n'"
  if "n < 2 ^ 62" "n' < 2 ^ 62" "st < 4" "st' < 4"
proof
  assume eq: "rd_view st n = rd_view st' n'"
  have "unat (of_nat n :: u64) = n" "unat (of_nat n' :: u64) = n'" using that by (simp_all add: unsigned_of_nat take_bit_nat_eq_self)
  then show "st = st' \<and> n = n'" using rd_view_unpack that eq by metis
qed simp

text \<open>Every access, on the word of a state and a number.\<close>

lemma rd_view_ops:
  assumes "n < 2 ^ 62" "st < 4"
  shows "set_rd_state_cas w (rd_view st n) st' = (w = rd_view st n, if w = rd_view st n then rd_view st' n else w)"
    "rd_cas_state_if_count_zero (rd_view st n) st st' = (n = 0, if n = 0 then rd_view st' 0 else rd_view st n)"
    "0 < n \<Longrightarrow> rd_active_rec_count_dec (rd_view st n) = Some (rd_view st (n - 1))"
    "n + 1 < 2 ^ 62 \<Longrightarrow> rd_active_rec_count_inc_cas w (rd_view REALM_ACTIVE n) =
       Some (w = rd_view REALM_ACTIVE n, if w = rd_view REALM_ACTIVE n then rd_view REALM_ACTIVE (n + 1) else w)"
proof -
  note u = rd_view_unpack [OF assms(1)]
  show "set_rd_state_cas w (rd_view st n) st' = (w = rd_view st n, if w = rd_view st n then rd_view st' n else w)"
    by (simp add: set_rd_state_cas_def atomic_cas_acquire_release_64_def u(2)) (simp add: rd_view_def)
  have "rd_view st n = RD_PACK_SC st 0 \<longleftrightarrow> n = 0" using rd_view_inject [of n 0 st st] assms by (simp add: rd_view_def)
  then show "rd_cas_state_if_count_zero (rd_view st n) st st' = (n = 0, if n = 0 then rd_view st' 0 else rd_view st n)"
    by (simp add: rd_cas_state_if_count_zero_def atomic_cas_acquire_release_64_def rd_view_def)
  show "rd_active_rec_count_dec (rd_view st n) = Some (rd_view st (n - 1))" if "0 < n"
  proof -
    have "(of_nat n :: u64) > 0" using that assms(1) by (simp add: word_less_nat_alt unsigned_of_nat take_bit_nat_eq_self)
    moreover have "rd_view st n - 1 = rd_view st (n - 1)" using that assms by (simp add: rd_view_sum of_nat_diff)
    ultimately show ?thesis by (simp add: rd_active_rec_count_dec_def atomic_load_add_release_64_def u(2))
  qed
  show "rd_active_rec_count_inc_cas w (rd_view REALM_ACTIVE n) =
      Some (w = rd_view REALM_ACTIVE n, if w = rd_view REALM_ACTIVE n then rd_view REALM_ACTIVE (n + 1) else w)"
    if "n + 1 < 2 ^ 62"
  proof -
    have "rd_view REALM_ACTIVE n + 1 = rd_view REALM_ACTIVE (n + 1)" using that by (simp add: rd_view_sum)
    then show ?thesis
      using rd_view_unpack(1) [OF that, of REALM_ACTIVE]
      by (simp add: rd_active_rec_count_inc_cas_def atomic_cas_acquire_release_64_def)
  qed
qed

subsection \<open>The invariant\<close>

fun rd_inside :: "rd_pc \<Rightarrow> bool" where
  "rd_inside Rd_In = True"
| "rd_inside Off_Lock = True"
| "rd_inside Off_Load = True"
| "rd_inside (Off_Cas _) = True"
| "rd_inside Off_Unlock = True"
| "rd_inside _ = False"

fun rd_locked :: "rd_pc \<Rightarrow> bool" where
  "rd_locked Rd_Out = False"
| "rd_locked Rd_Fault = False"
| "rd_locked Enter_Load = False"
| "rd_locked (Enter_Cas _) = False"
| "rd_locked Rd_In = False"
| "rd_locked Off_Lock = False"
| "rd_locked _ = True"

abbreviation running :: "'pe::finite rd_sys \<Rightarrow> 'pe set" where
  "running s \<equiv> {i. rd_inside (rd_pcs s i)}"

text \<open>What a PE has read and still relies on; \<open>st\<close> is the state of the Realm.\<close>

fun rd_local :: "nat \<Rightarrow> u64 \<Rightarrow> rd_pc \<Rightarrow> bool" where
  "rd_local cpus st Rd_Fault = False"
| "rd_local cpus st (Enter_Cas old) = (RD_UNPACK_STATE old = REALM_ACTIVE \<and> unat (RD_UNPACK_COUNT old) < cpus)"
| "rd_local cpus st Act_Load = (st = REALM_NEW)"
| "rd_local cpus st (Act_Cas old) = (st = REALM_NEW)"
| "rd_local cpus st (Term_Cas old) = (old = st)"
| "rd_local cpus st _ = True"

definition rd_inv :: "u64 \<Rightarrow> 'pe::finite rd_sys \<Rightarrow> bool" where
  "rd_inv st s \<longleftrightarrow> st < 4 \<and> CARD('pe) < 2 ^ 62 \<and>
     rd_word s = rd_view st (card (running s)) \<and>
     (st = REALM_NEW \<or> st = REALM_ZOMBIE \<longrightarrow> running s = {}) \<and>
     (\<forall>i. rd_local CARD('pe) st (rd_pcs s i)) \<and>
     (\<forall>i. rd_locked (rd_pcs s i) \<longrightarrow> rd_lock s = Some i)"

lemma rd_invD:
  fixes s :: "'pe::finite rd_sys"
  assumes "rd_inv st s"
  shows "st < 4" "rd_word s = rd_view st (card (running s))" "st = REALM_NEW \<or> st = REALM_ZOMBIE \<Longrightarrow> running s = {}"
    "rd_local CARD('pe) st (rd_pcs s i)" "rd_locked (rd_pcs s i) \<Longrightarrow> rd_lock s = Some i"
    "card (running s) < 2 ^ 62" "\<not> rd_inside (rd_pcs s i) \<Longrightarrow> card (running s) < CARD('pe)" "CARD('pe) < 2 ^ 62"
proof -
  show "card (running s) < 2 ^ 62" using card_mono [of UNIV "running s"] assms by (simp add: rd_inv_def)
  show "card (running s) < CARD('pe)" if "\<not> rd_inside (rd_pcs s i)"
    by (rule psubset_card_mono) (use that in auto)
qed (use assms in \<open>auto simp: rd_inv_def\<close>)

lemma running_update:
  "{j. rd_inside (((rd_pcs s)(i := p)) j)} = (if rd_inside p then insert i (running s) else running s - {i})"
  by auto

text \<open>
  One PE moves: the word keeps the state unless the PE holds the lock, and the count follows the
  running PEs.
\<close>

lemma rd_update:
  fixes s :: "'pe::finite rd_sys"
  assumes inv: "rd_inv st s" and s': "rd_pcs s' = (rd_pcs s)(i := p)" "rd_word s' = rd_view st' (card (running s'))"
    and st': "st' = st \<or> rd_lock s = Some i \<and> st' < 4" "st' = REALM_NEW \<or> st' = REALM_ZOMBIE \<Longrightarrow> running s' = {}"
    and loc: "rd_local CARD('pe) st' p"
    and lock: "rd_lock s' = rd_lock s \<or> rd_lock s = None \<or> rd_lock s = Some i" "rd_locked p \<Longrightarrow> rd_lock s' = Some i"
  shows "rd_inv st' s'"
  unfolding rd_inv_def
proof (intro conjI allI impI)
  note I = rd_invD [OF inv]
  show "st' < 4" "CARD('pe) < 2 ^ 62" using st' I(1,8) by auto
  show "rd_word s' = rd_view st' (card (running s'))" by (rule s'(2))
  show "running s' = {}" if "st' = REALM_NEW \<or> st' = REALM_ZOMBIE" using st'(2) that .
  show "rd_local CARD('pe) st' (rd_pcs s' j)" for j
  proof (cases "j = i \<or> st' = st")
    case True
    then show ?thesis using loc I(4) [of j] s'(1) by (cases "j = i") simp_all
  next
    case False
    then have "\<not> rd_locked (rd_pcs s j)" using I(5) [of j] st'(1) by auto
    then show ?thesis using I(4) [of j] False s'(1) by (cases "rd_pcs s j") auto
  qed
  show "rd_lock s' = Some j" if "rd_locked (rd_pcs s' j)" for j
    using that lock I(5) [of j] s'(1) by (cases "j = i") auto
qed

text \<open>A move that leaves the word alone.\<close>

lemma rd_goto_inv:
  fixes s :: "'pe::finite rd_sys"
  assumes inv: "rd_inv st s" and "rd_inside q = rd_inside (rd_pcs s i)" "rd_local CARD('pe) st q"
    and "rd_locked q \<Longrightarrow> l = Some i" "l = rd_lock s \<or> rd_lock s = None \<or> rd_lock s = Some i"
  shows "rd_inv st (rd_set_lock s l i q)"
proof (rule rd_update [OF inv, where i = i and p = q and st' = st])
  have r: "{j. rd_inside (((rd_pcs s)(i := q)) j)} = running s"
    using assms(2) by (auto simp: running_update insert_absorb)
  then show "rd_word (rd_set_lock s l i q) = rd_view st (card (running (rd_set_lock s l i q)))"
    "st = REALM_NEW \<or> st = REALM_ZOMBIE \<Longrightarrow> running (rd_set_lock s l i q) = {}"
    using rd_invD(2,3) [OF inv] by (simp_all del: fun_upd_apply)
qed (use assms(3-5) in auto)

lemma rd_stay_inv:
  fixes s :: "'pe::finite rd_sys"
  assumes "rd_inv st s" "rd_inside q = rd_inside (rd_pcs s i)" "rd_local CARD('pe) st q" "rd_locked q \<Longrightarrow> rd_lock s = Some i"
  shows "rd_inv st (rd_goto s i q)"
  using rd_goto_inv [OF assms] by simp

text \<open>The accesses that change the word.\<close>

lemma rd_enter_inv:
  fixes s :: "'pe::finite rd_sys"
  assumes inv: "rd_inv st s" and p: "rd_pcs s i = Enter_Cas old"
  shows "rd_inv st (case rd_active_rec_count_inc_cas (rd_word s) old of
      None \<Rightarrow> rd_goto s i Rd_Fault | Some (ok, w) \<Rightarrow> rd_store s w i (if ok then Rd_In else Enter_Load))"
proof -
  note I = rd_invD [OF inv]
  obtain st' m where old: "old = rd_view st' m" "st' < 4" "m < 2 ^ 62" by (rule rd_view_cases)
  have "st' = REALM_ACTIVE" "m < CARD('pe)"
    using I(4) [of i] p rd_view_unpack [OF old(3)] old by (simp_all add: unsigned_of_nat take_bit_nat_eq_self)
  then have inc: "rd_active_rec_count_inc_cas (rd_word s) old =
      Some (rd_word s = old, if rd_word s = old then rd_view REALM_ACTIVE (m + 1) else rd_word s)" "st' = REALM_ACTIVE"
    using rd_view_ops(4) [OF old(3,2), of "rd_word s"] I(8) old(1) by simp_all
  show ?thesis
  proof (cases "rd_word s = old")
    case True
    then have eq: "st = REALM_ACTIVE" "card (running s) = m"
      using I(2) rd_view_inject [OF I(6) old(3) I(1) old(2)] old(1) inc(2) by simp_all
    have "rd_inv st (rd_store s (rd_view REALM_ACTIVE (m + 1)) i Rd_In)"
      by (rule rd_update [OF inv, where i = i and p = Rd_In])
        (use eq p in \<open>auto simp: running_update simp del: fun_upd_apply\<close>)
    then show ?thesis using True inc(1) by simp
  next
    case False
    then show ?thesis using inc(1) rd_stay_inv [OF inv, of Enter_Load i] p by simp
  qed
qed

lemma rd_leave_inv:
  assumes inv: "rd_inv st s" and p: "rd_pcs s i = Rd_In"
  shows "rd_inv st (case rd_active_rec_count_dec (rd_word s) of None \<Rightarrow> rd_goto s i Rd_Fault | Some w \<Rightarrow> rd_store s w i Rd_Out)"
proof -
  note I = rd_invD [OF inv]
  have i: "i \<in> running s" using p by simp
  then have pos: "0 < card (running s)" by (auto simp: card_gt_0_iff)
  have "rd_inv st (rd_store s (rd_view st (card (running s) - 1)) i Rd_Out)"
    by (rule rd_update [OF inv, where i = i and p = Rd_Out])
      (use i I(3) in \<open>auto simp: running_update card_Diff_singleton simp del: fun_upd_apply\<close>)
  then show ?thesis using rd_view_ops(3) [OF I(6,1) pos] I(2) by simp
qed

text \<open>A state change under the lock; the retry after a failed exchange reads the word again.\<close>

lemma rd_set_state_inv:
  fixes s :: "'pe::finite rd_sys"
  assumes inv: "rd_inv st s" and lock: "rd_lock s = Some i" "rd_inside q = rd_inside (rd_pcs s i)" "rd_inside q' = rd_inside (rd_pcs s i)"
    and q: "rd_local CARD('pe) new q" "rd_local CARD('pe) st q'"
    and new: "new = REALM_ACTIVE \<or> new = REALM_SYSTEM_OFF" "set_rd_state_cas (rd_word s) old new = (ok, w')"
  shows "rd_inv (if ok then new else st) (rd_store s w' i (if ok then q else q'))"
proof -
  note I = rd_invD [OF inv]
  obtain st' m where old: "old = rd_view st' m" "st' < 4" "m < 2 ^ 62" by (rule rd_view_cases)
  have ok: "ok = (rd_word s = old)" "w' = (if rd_word s = old then rd_view new m else rd_word s)"
    using new(2) rd_view_ops(1) [OF old(3,2), of "rd_word s" new] old(1) by auto
  have r: "{j. rd_inside (((rd_pcs s)(i := q)) j)} = running s"
    using lock(2) by (auto simp: running_update insert_absorb)
  show ?thesis
  proof (cases "rd_word s = old")
    case True
    then have "card (running s) = m" using I(2) rd_view_inject [OF I(6) old(3) I(1) old(2)] old(1) by simp
    then have "rd_inv new (rd_store s (rd_view new m) i q)"
      by (intro rd_update [OF inv, where i = i and p = q])
        (use r lock(1) q(1) new(1) in \<open>auto simp del: fun_upd_apply\<close>)
    then show ?thesis using True ok by simp
  next
    case False
    then show ?thesis using ok rd_stay_inv [OF inv, of q' i] lock q by simp
  qed
qed

lemma rd_term_inv:
  assumes inv: "rd_inv st s" and p: "rd_lock s = Some i" "rd_pcs s i = Term_Cas st"
    "rd_cas_state_if_count_zero (rd_word s) st REALM_ZOMBIE = (ok, w')"
  shows "rd_inv (if ok then REALM_ZOMBIE else st) (rd_store s w' i Cmd_Unlock)"
    "w' = (if running s = {} then rd_view REALM_ZOMBIE 0 else rd_word s)"
proof -
  note I = rd_invD [OF inv]
  have "(ok, w') = (card (running s) = 0, if card (running s) = 0 then rd_view REALM_ZOMBIE 0 else rd_word s)"
    using p(3) unfolding I(2) rd_view_ops(2) [OF I(6,1)] by (rule sym)
  then have ok: "ok \<longleftrightarrow> running s = {}" "w' = (if running s = {} then rd_view REALM_ZOMBIE 0 else rd_word s)" by simp_all
  show "w' = (if running s = {} then rd_view REALM_ZOMBIE 0 else rd_word s)" by (rule ok(2))
  show "rd_inv (if ok then REALM_ZOMBIE else st) (rd_store s w' i Cmd_Unlock)"
  proof (cases "running s = {}")
    case True
    then have "rd_inv REALM_ZOMBIE (rd_store s (rd_view REALM_ZOMBIE 0) i Cmd_Unlock)"
      by (intro rd_update [OF inv, where i = i and p = Cmd_Unlock])
        (use p(1) in \<open>auto simp: running_update simp del: fun_upd_apply\<close>)
    then show ?thesis using True ok by simp
  next
    case False
    then have "\<not> ok" "w' = rd_word s" using ok by argo+
    then show ?thesis using rd_stay_inv [OF inv, of Cmd_Unlock i] p by simp
  qed
qed

lemma rd_step_inv:
  fixes s :: "'pe::finite rd_sys"
  assumes inv: "rd_inv st s" and "rd_step s i s'"
  shows "\<exists>st' \<ge> st. rd_inv st' s'"
proof -
  note I = rd_invD [OF inv] and L = rd_invD(4,5) [OF inv, of i]
  note G = rd_goto_inv [OF inv, where i = i] and S = rd_stay_inv [OF inv, where i = i]
  have u: "RD_UNPACK_STATE (rd_word s) = st" "unat (RD_UNPACK_COUNT (rd_word s)) = card (running s)"
    using rd_view_unpack [OF I(6)] I(1,2,6) by (simp_all add: unsigned_of_nat take_bit_nat_eq_self)
  have st: "rd_inside (rd_pcs s i) \<Longrightarrow> st \<le> REALM_SYSTEM_OFF"
  proof -
    assume "rd_inside (rd_pcs s i)"
    then have "st \<noteq> 3" using I(3) by auto
    then have "unat st < 4" "unat st \<noteq> 3" using I(1) word_unat_eq_iff [of st 3] by (simp_all add: word_less_nat_alt)
    then show "st \<le> REALM_SYSTEM_OFF" by (simp add: word_le_nat_alt)
  qed
  have keep: "rd_inv st s' \<Longrightarrow> ?thesis" by blast
  show ?thesis
    using assms(2)
  proof cases
    case enter
    then show ?thesis using S [of Enter_Load] by (intro keep) simp
  next
    case enter_load
    then show ?thesis using S [of Rd_Out] S [of "Enter_Cas (rd_word s)"] u I(7) [of i] by (intro keep) simp
  next
    case (enter_cas old)
    then show ?thesis using rd_enter_inv [OF inv] by (intro keep) simp
  next
    case leave
    then show ?thesis using rd_leave_inv [OF inv] by (intro keep) simp
  next
    case off
    then show ?thesis using S [of Off_Lock] by (intro keep) simp
  next
    case off_lock
    then show ?thesis using G [of Off_Load "Some i"] by (intro keep) simp
  next
    case off_load
    then show ?thesis using S [of "Off_Cas (rd_word s)"] L by (intro keep) simp
  next
    case (off_cas old ok w)
    then show ?thesis using rd_set_state_inv [OF inv, of i Off_Unlock Off_Load REALM_SYSTEM_OFF old ok w] L st by auto
  next
    case off_unlock
    then show ?thesis using G [of Rd_In None] L by (intro keep) simp
  next
    case activate
    then show ?thesis using G [of Act_Check "Some i"] by (intro keep) simp
  next
    case act_check
    then show ?thesis using S [of Act_Load] S [of Cmd_Unlock] L u by (intro keep) (simp add: get_rd_state_def)
  next
    case act_load
    then show ?thesis using S [of "Act_Cas (rd_word s)"] L by (intro keep) simp
  next
    case (act_cas old ok w)
    then show ?thesis using rd_set_state_inv [OF inv, of i Cmd_Unlock Act_Load REALM_ACTIVE old ok w] L by auto
  next
    case terminate
    then show ?thesis using G [of Term_Read "Some i"] by (intro keep) simp
  next
    case term_read
    then show ?thesis using S [of "Term_Cas st"] L u by (intro keep) (simp add: get_rd_state_def)
  next
    case (term_cas old ok w)
    have "st \<le> REALM_ZOMBIE" using I(1) by (simp add: word_le_nat_alt word_less_nat_alt)
    then show ?thesis using rd_term_inv(1) [OF inv, of i ok w] L term_cas by (cases ok) auto
  next
    case cmd_unlock
    then show ?thesis using G [of Rd_Out None] L by (intro keep) simp
  qed
qed

lemma rd_reach_inv:
  fixes s :: "'pe::finite rd_sys"
  assumes "rd_reach s" "CARD('pe) < 2 ^ 62"
  shows "rd_inv (get_rd_state (rd_word s)) s"
proof -
  have "\<exists>st. rd_inv st s"
    using assms(1)
  proof induction
    case init
    show ?case using assms(2) by (intro exI [of _ REALM_NEW]) (simp add: rd_inv_def rd_view_def)
  next
    case (step s i s')
    then show ?case using rd_step_inv by blast
  qed
  then obtain st where inv: "rd_inv st s" by blast
  have "get_rd_state (rd_word s) = st" using rd_view_unpack(1) [OF rd_invD(6,1) [OF inv]] rd_invD(2) [OF inv] by (simp add: get_rd_state_def)
  then show ?thesis using inv by simp
qed

subsection \<open>Life cycle\<close>

text \<open>
  C5. The running count is exact and guards the life cycle: however REC entries, exits, activation,
  system off and termination interleave on any number of PEs, no assertion fails, the count field is
  the number of PEs that run a REC of the Realm, and no PE runs a REC of a Realm that is NEW or
  ZOMBIE.
\<close>

theorem realm_running_count:
  fixes s :: "'pe::finite rd_sys"
  assumes "rd_reach s" "CARD('pe) < 2 ^ 62"
  shows "rd_pcs s i \<noteq> Rd_Fault \<and> unat (RD_UNPACK_COUNT (rd_word s)) = card (running s) \<and>
    (get_rd_state (rd_word s) = REALM_NEW \<or> get_rd_state (rd_word s) = REALM_ZOMBIE \<longrightarrow> running s = {})"
proof -
  note I = rd_invD [OF rd_reach_inv [OF assms]]
  have "unat (of_nat (card (running s)) :: u64) = card (running s)" using I(6) by (simp add: unsigned_of_nat take_bit_nat_eq_self)
  moreover have "rd_pcs s i \<noteq> Rd_Fault" using I(4) [of i] by auto
  moreover have "RD_UNPACK_COUNT (rd_word s) = of_nat (card (running s))"
    using rd_view_unpack(2) [OF I(6)] by (subst I(2)) simp
  ultimately show ?thesis using I(3) by simp
qed

text \<open>
  C36. The life cycle only moves forward (NEW, ACTIVE, SYSTEM_OFF, ZOMBIE), and termination is exact:
  the exchange of a terminating PE makes the Realm a ZOMBIE exactly when no PE runs one of its
  RECs, and otherwise changes nothing.
\<close>

theorem realm_life_cycle:
  fixes s :: "'pe::finite rd_sys"
  assumes "rd_reach s" "rd_step s i s'" "CARD('pe) < 2 ^ 62"
  shows "get_rd_state (rd_word s) \<le> get_rd_state (rd_word s') \<and>
    (\<forall>st. rd_pcs s i = Term_Cas st \<longrightarrow>
       (if running s = {} then get_rd_state (rd_word s') = REALM_ZOMBIE else rd_word s' = rd_word s))"
proof (intro conjI allI impI)
  note inv = rd_reach_inv [OF assms(1,3)]
  have "rd_reach s'" using assms(1,2) by (rule rd_reach.step)
  note inv' = rd_reach_inv [OF this assms(3)]
  from rd_step_inv [OF inv assms(2)] obtain st where st: "get_rd_state (rd_word s) \<le> st" "rd_inv st s'" by blast
  have "get_rd_state (rd_word s') = st"
    using rd_view_unpack(1) [OF rd_invD(6,1) [OF st(2)]] rd_invD(2) [OF st(2)] by (simp add: get_rd_state_def)
  then show "get_rd_state (rd_word s) \<le> get_rd_state (rd_word s')" using st(1) by simp
  fix st assume p: "rd_pcs s i = Term_Cas st"
  then have eq: "st = get_rd_state (rd_word s)" using rd_invD(4) [OF inv, of i] by simp
  from assms(2) p obtain ok w where w: "rd_cas_state_if_count_zero (rd_word s) st REALM_ZOMBIE = (ok, w)" "rd_word s' = w"
    by (cases rule: rd_step.cases) auto
  have "w = (if running s = {} then rd_view REALM_ZOMBIE 0 else rd_word s)"
    using rd_term_inv(2) [OF inv _ p [unfolded eq] w(1) [unfolded eq]] rd_invD(5) [OF inv, of i] p by simp
  moreover have "get_rd_state (rd_view REALM_ZOMBIE 0) = REALM_ZOMBIE" using rd_view_unpack(1) [of 0 REALM_ZOMBIE] by (simp add: get_rd_state_def)
  ultimately show "if running s = {} then get_rd_state (rd_word s') = REALM_ZOMBIE else rd_word s' = rd_word s"
    using w(2) by simp
qed

text \<open>Two PEs: one activates the Realm and the other enters a REC; or one starts to terminate a new Realm.\<close>

abbreviation rd_sample :: "u64 \<Rightarrow> bool option \<Rightarrow> rd_pc \<Rightarrow> rd_pc \<Rightarrow> bool rd_sys" where
  "rd_sample w l p q \<equiv> \<lparr>rd_word = w, rd_lock = l, rd_pcs = \<lambda>i. if i then p else q\<rparr>"

lemma rd_sample_update:
  "(\<lambda>i. if i then p else q)(True := p') = (\<lambda>i. if i then p' else q)" "(\<lambda>_. q)(True := p') = (\<lambda>i. if i then p' else q)"
  "(\<lambda>i. if i then p else q)(False := q') = (\<lambda>i. if i then p else q')" "(\<lambda>_. p)(False := q') = (\<lambda>i. if i then p else q')"
  by auto

lemma rd_sample_init: "rd_reach (rd_sample 0 None Rd_Out Rd_Out)"
  using rd_reach.init by (simp add: RD_PACK_SC_def)

lemma rd_sample_term: "rd_reach (rd_sample 0 (Some True) (Term_Cas 0) Rd_Out)"
proof -
  note next_step = rd_reach.step [where i = True]
  from next_step [OF rd_sample_init rd_step.terminate] have "rd_reach (rd_sample 0 (Some True) Term_Read Rd_Out)"
    by (simp add: rd_sample_update)
  from next_step [OF this rd_step.term_read] show ?thesis
    by (simp add: rd_sample_update get_rd_state_def RD_UNPACK_STATE_def)
qed

lemma rd_sample_enter: "rd_reach (rd_sample 0x4000000000000001 None Rd_Out Rd_In)"
proof -
  note true_step = rd_reach.step [where i = True] and false_step = rd_reach.step [where i = False]
  let ?a = "0x4000000000000000"
  from true_step [OF rd_sample_init rd_step.activate] have "rd_reach (rd_sample 0 (Some True) Act_Check Rd_Out)"
    by (simp add: rd_sample_update)
  from true_step [OF this rd_step.act_check] have "rd_reach (rd_sample 0 (Some True) Act_Load Rd_Out)"
    by (simp add: rd_sample_update get_rd_state_def RD_UNPACK_STATE_def)
  from true_step [OF this rd_step.act_load] have "rd_reach (rd_sample 0 (Some True) (Act_Cas 0) Rd_Out)"
    by (simp add: rd_sample_update)
  from true_step [OF this rd_step.act_cas [where ok = True and w = ?a and old = 0]]
  have "rd_reach (rd_sample ?a (Some True) Cmd_Unlock Rd_Out)"
    by (simp add: rd_sample_update set_rd_state_cas_def atomic_cas_acquire_release_64_def RD_PACK_SC_def RD_UNPACK_COUNT_def)
  from true_step [OF this rd_step.cmd_unlock] have "rd_reach (rd_sample ?a None Rd_Out Rd_Out)" by (simp add: rd_sample_update)
  from false_step [OF this rd_step.enter] have "rd_reach (rd_sample ?a None Rd_Out Enter_Load)" by (simp add: rd_sample_update)
  from false_step [OF this rd_step.enter_load] have "rd_reach (rd_sample ?a None Rd_Out (Enter_Cas ?a))"
    by (simp add: rd_sample_update RD_UNPACK_STATE_def drop_bit_eq_div)
  from false_step [OF this rd_step.enter_cas [where old = ?a]] show ?thesis
    by (simp add: rd_sample_update rd_active_rec_count_inc_cas_def atomic_cas_acquire_release_64_def RD_UNPACK_STATE_def drop_bit_eq_div cong: if_cong)
qed

theorem realm_running_count_witness: "unat (RD_UNPACK_COUNT 0x4000000000000001) = card {False}"
proof -
  have "{i. \<not> i} = {False}" by auto
  then show ?thesis using realm_running_count [OF rd_sample_enter, of True] by (simp add: if_distrib cong: if_cong)
qed

theorem realm_life_cycle_witness: "get_rd_state (RD_PACK_SC REALM_ZOMBIE 0) = REALM_ZOMBIE"
proof -
  have "rd_step (rd_sample 0 (Some True) (Term_Cas 0) Rd_Out) True (rd_sample (RD_PACK_SC REALM_ZOMBIE 0) (Some True) Cmd_Unlock Rd_Out)"
    using rd_step.term_cas [of "rd_sample 0 (Some True) (Term_Cas 0) Rd_Out" True 0 True "RD_PACK_SC REALM_ZOMBIE 0"]
    by (simp add: rd_sample_update rd_cas_state_if_count_zero_def atomic_cas_acquire_release_64_def RD_PACK_SC_def)
  from realm_life_cycle [OF rd_sample_term this] show ?thesis by (simp add: if_distrib cong: if_cong)
qed

end
