(* ===== verification/Id_Bitmap.thy ===== *)
theory Id_Bitmap
  imports Bitlock
begin

text \<open>
  Bitmaps (\<^verbatim>\<open>src/lib/common/include/bitmap.h\<close>) and the allocator of VMIDs
  (\<^verbatim>\<open>src/lib/arch/src/vmid.c\<close>), which keeps one bit per identifier and searches from a hint. The
  search over identifiers is shared with the MECID allocator through a locale.
\<close>

subsection \<open>Counting zeros\<close>

text \<open>The compiler builtins; \<open>ctzl\<close> is only called on nonzero words.\<close>

definition ctzl :: "u64 \<Rightarrow> nat option" where
  "ctzl w = find (bit w) [0..<64]"

definition ffsl :: "u64 \<Rightarrow> nat" where
  "ffsl w = (case find (bit w) [0..<64] of None \<Rightarrow> 0 | Some n \<Rightarrow> n + 1)"

lemma find_bit:
  "w \<noteq> 0 \<Longrightarrow> \<exists>n < 64. find (bit w) [0..<64] = Some n \<and> bit w n \<and> (\<forall>m < n. \<not> bit w m)" for w :: u64
proof -
  assume "w \<noteq> 0"
  then obtain n where n: "bit w n" by (auto simp: bit_eq_iff)
  then have "n < 64" using bit_imp_le_length [of w n] by simp
  then have "\<exists>n \<in> set [0..<64]. bit w n" using n by auto
  then obtain m where m: "find (bit w) [0..<64] = Some m" by (metis find_None_iff not_None_eq)
  then have "m < 64 \<and> bit w m \<and> (\<forall>j < m. \<not> bit w j)" by (auto simp: find_Some_iff)
  then show ?thesis using m by blast
qed

lemma ctzl_neq_0: "w \<noteq> 0 \<Longrightarrow> \<exists>n < 64. ctzl w = Some n \<and> bit w n \<and> (\<forall>m < n. \<not> bit w m)"
  unfolding ctzl_def by (rule find_bit)

subsection \<open>Bitmaps\<close>

definition bitmap_find_next_set_bit :: "u64 \<Rightarrow> u64 \<Rightarrow> u64" where
  "bitmap_find_next_set_bit bitmap start = (
     if start < 64 then
       let bitmap = bitmap AND push_bit (unat start) (-1)
       in if bitmap \<noteq> 0 then of_nat (ffsl bitmap - 1) else 64
     else 64)"

definition bitmap_find_next_clear_bit :: "u64 \<Rightarrow> u64 \<Rightarrow> u64 option" where
  "bitmap_find_next_clear_bit bitmap start = (
     if start < 64 then
       let bitmap = bitmap AND push_bit (unat start) (-1)
       in if bitmap \<noteq> - 1 then do { n \<leftarrow> ctzl (NOT bitmap); Some (of_nat n) } else Some 64
     else Some 64)"

definition bitmap_update :: "u64 list \<Rightarrow> u32 \<Rightarrow> u32 \<Rightarrow> bool \<Rightarrow> (int \<times> u64 list) option" where
  "bitmap_update bitmap bitpos nums set_it = (
     if (ucast bitpos :: u64) < ucast nums * 64 then do {
       let idx = bitpos div 64;
       let b = bitpos mod 64;
       let msk = push_bit (unat b) 1;
       w \<leftarrow> arr_get bitmap (unat idx);
       let bit_clr = (w AND msk = 0);
       if bit_clr = set_it then do {
         bitmap \<leftarrow> arr_set bitmap (unat idx) (w XOR msk);
         Some (0, bitmap)
       } else Some (- EINVAL, bitmap)
     } else Some (- EINVAL, bitmap))"

text \<open>The identifiers whose bit is set.\<close>

definition id_bit :: "u64 list \<Rightarrow> u32 \<Rightarrow> bool" where
  "id_bit ws i \<longleftrightarrow> bit (ws ! unat (i div 64)) (unat (i mod 64))"

subsection \<open>VMIDs\<close>

abbreviation (input) VMID_ARRAY_LONG_SIZE :: nat where "VMID_ARRAY_LONG_SIZE \<equiv> 1024"

definition vmid_count :: "bool \<Rightarrow> u32" where
  "vmid_count vmid16 = (if vmid16 then push_bit 16 1 else push_bit 8 1)"

definition vmid_reserve :: "bool \<Rightarrow> u64 list \<Rightarrow> u32 \<Rightarrow> (bool \<times> u64 list) option" where
  "vmid_reserve vmid16 vmids vmid = (
     if vmid \<ge> vmid_count vmid16 then Some (False, vmids)
     else do {
       let offset = unat (vmid div 64);
       w \<leftarrow> arr_get vmids offset;
       let (was_set, w) = atomic_bit_set_acquire_release_64 w (unat (vmid mod 64));
       vmids \<leftarrow> arr_set vmids offset w;
       Some (\<not> was_set, vmids)
     })"

definition vmid_free :: "bool \<Rightarrow> u64 list \<Rightarrow> u32 \<Rightarrow> u64 list option" where
  "vmid_free vmid16 vmids vmid = do {
     c_assert (vmid < vmid_count vmid16);
     let offset = unat (vmid div 64);
     w \<leftarrow> arr_get vmids offset;
     arr_set vmids offset (atomic_bit_clear_release_64 w (unat (vmid mod 64)))
   }"

text \<open>The bitmap is a block of memory of the caller; \<^const>\<open>None\<close> stands for the null pointer.\<close>

definition vmid_init :: "u64 list option \<Rightarrow> u64 \<Rightarrow> u64 list option" where
  "vmid_init alloc alloc_size = do {
     vmids \<leftarrow> alloc;
     c_assert (alloc_size \<ge> of_nat VMID_ARRAY_LONG_SIZE * 8);
     Some vmids
   }"

text \<open>The scan over the words of a bitmap that both allocators start with.\<close>

primrec hint_loop :: "u32 \<Rightarrow> u64 list \<Rightarrow> u32 option" where
  "hint_loop i [] = Some 0"
| "hint_loop i (word_val # ws) = (
     if word_val \<noteq> - 1 then do { n \<leftarrow> ctzl (NOT word_val); Some (i * 64 + of_nat n) }
     else hint_loop (i + 1) ws)"

definition vmid_hint :: "u64 list \<Rightarrow> u32 option" where
  "vmid_hint vmids = hint_loop 0 vmids"

primrec vmid_loop :: "nat \<Rightarrow> bool \<Rightarrow> u64 list \<Rightarrow> u32 \<Rightarrow> (u32 option \<times> u64 list) option" where
  "vmid_loop 0 vmid16 vmids i = Some (None, vmids)"
| "vmid_loop (Suc n) vmid16 vmids i = do {
     (ok, vmids) \<leftarrow> vmid_reserve vmid16 vmids i;
     if ok then Some (Some i, vmids) else vmid_loop n vmid16 vmids (i + 1)
   }"

definition vmid_alloc :: "bool \<Rightarrow> u64 list \<Rightarrow> (u32 option \<times> u64 list) option" where
  "vmid_alloc vmid16 vmids = do {
     hint \<leftarrow> vmid_hint vmids;
     let start_hint = (if hint \<ge> vmid_count vmid16 then 0 else hint);
     (found, vmids) \<leftarrow> vmid_loop (unat (vmid_count vmid16 - start_hint)) vmid16 vmids start_hint;
     case found of
       Some vmid \<Rightarrow> Some (Some vmid, vmids)
     | None \<Rightarrow> vmid_loop (unat start_hint) vmid16 vmids 0
   }"

subsection \<open>Searching a pool of identifiers\<close>

primrec pool_search :: "('s \<Rightarrow> u32 \<Rightarrow> (bool \<times> 's) option) \<Rightarrow> u32 list \<Rightarrow> 's \<Rightarrow> (u32 option \<times> 's) option" where
  "pool_search reserve [] s = Some (None, s)"
| "pool_search reserve (i # is) s = do {
     (ok, s) \<leftarrow> reserve s i;
     if ok then Some (Some i, s) else pool_search reserve is s
   }"

text \<open>
  What an allocator needs of its reservation: on a valid identifier it succeeds exactly if the
  identifier is free, and changes the state only then.
\<close>

locale id_pool =
  fixes reserve :: "'s \<Rightarrow> u32 \<Rightarrow> (bool \<times> 's) option"
    and taken :: "'s \<Rightarrow> u32 \<Rightarrow> bool" and take :: "'s \<Rightarrow> u32 \<Rightarrow> 's"
    and wf :: "'s \<Rightarrow> bool" and valid :: "'s \<Rightarrow> u32 \<Rightarrow> bool"
  assumes reserve_eq: "wf s \<Longrightarrow> valid s i \<Longrightarrow> reserve s i = Some (if taken s i then (False, s) else (True, take s i))"
begin

lemma search_eq:
  assumes "wf s" "\<forall>i \<in> set is. valid s i"
  shows "pool_search reserve is s = Some (case find (\<lambda>i. \<not> taken s i) is of None \<Rightarrow> (None, s) | Some i \<Rightarrow> (Some i, take s i))"
  using assms by (induction "is") (simp_all add: reserve_eq)

text \<open>A search through all valid identifiers finds a free one exactly if there is one.\<close>

lemma search_exact:
  assumes "wf s" "set is = {i. valid s i}"
  shows "(\<exists>i. valid s i \<and> \<not> taken s i \<and> pool_search reserve is s = Some (Some i, take s i)) \<or>
    (\<forall>i. valid s i \<longrightarrow> taken s i) \<and> pool_search reserve is s = Some (None, s)"
proof (cases "find (\<lambda>i. \<not> taken s i) is")
  case None
  then have "\<forall>i. valid s i \<longrightarrow> taken s i" using assms(2) by (auto simp: find_None_iff)
  then show ?thesis using search_eq [OF assms(1), of "is"] assms(2) None by simp
next
  case (Some i)
  then have "i \<in> set is" "\<not> taken s i" by (auto simp: find_Some_iff)
  then show ?thesis using search_eq [OF assms(1), of "is"] assms(2) Some by auto
qed

end

subsection \<open>Bits of a bitmap\<close>

definition id_set :: "u64 list \<Rightarrow> u32 \<Rightarrow> u64 list" where
  "id_set ws i = ws[unat (i div 64) := set_bit (unat (i mod 64)) (ws ! unat (i div 64))]"

lemma set_bit_id: "bit w n \<Longrightarrow> set_bit n w = w" "\<not> bit w n \<Longrightarrow> unset_bit n (set_bit n w) = w" for w :: u64
  by (rule bit_word_eqI; auto simp: bit_set_bit_iff bit_unset_bit_iff)+

lemma id_word: "i < 0x10000 \<Longrightarrow> unat (i div 64) < 1024" "unat (i mod 64) < 64" "unat i = unat (i div 64) * 64 + unat (i mod 64)"
  for i :: u32
proof -
  show "unat (i div 64) < 1024" if "i < 0x10000"
    using that by (simp add: unat_div word_less_nat_alt less_mult_imp_div_less)
  show "unat (i mod 64) < 64" by (simp add: unat_mod)
  show "unat i = unat (i div 64) * 64 + unat (i mod 64)" by (simp add: unat_div unat_mod)
qed

lemma id_eq: "i = j \<longleftrightarrow> unat (i div 64) = unat (j div 64) \<and> unat (i mod 64) = unat (j mod 64)" for i j :: u32
  using id_word(3) [of i] id_word(3) [of j] word_unat_eq_iff [of i j] by auto

lemma id_bit_set:
  assumes "i < 0x10000" "length ws = 1024"
  shows "id_bit (id_set ws i) j \<longleftrightarrow> j = i \<or> id_bit ws j" "length (id_set ws i) = 1024"
  using assms id_word [of i] by (auto simp: id_bit_def id_set_def nth_list_update bit_set_bit_iff id_eq)

text \<open>The scan returns zero, or an identifier whose bit is clear.\<close>

lemma hint_loop_total: "\<exists>h. hint_loop i ws = Some h"
proof (induction ws arbitrary: i)
  case (Cons w ws)
  have "NOT w \<noteq> 0" if "w \<noteq> - 1" using that by (metis bit.compl_zero bit.double_compl)
  then show ?case using Cons ctzl_neq_0 [of "NOT w"] by fastforce
qed simp

lemma hint_loop_clear:
  assumes "hint_loop (of_nat k) ws = Some h" "h \<noteq> 0"
  shows "\<exists>j n. j < length ws \<and> n < 64 \<and> h = of_nat ((k + j) * 64 + n) \<and> \<not> bit (ws ! j) n"
  using assms(1)
proof (induction ws arbitrary: k)
  case (Cons w ws)
  show ?case
  proof (cases "w = - 1")
    case True
    then have "hint_loop (of_nat (k + 1)) ws = Some h" using Cons.prems by (simp add: add.commute)
    from Cons.IH [OF this] obtain j n where "j < length ws" "n < 64" "h = of_nat ((k + 1 + j) * 64 + n)" "\<not> bit (ws ! j) n" by blast
    then show ?thesis by (intro exI [of _ "j + 1"] exI [of _ n]) simp
  next
    case False
    then have "NOT w \<noteq> 0" by (metis bit.compl_zero bit.double_compl)
    from ctzl_neq_0 [OF this] obtain n where n: "n < 64" "ctzl (NOT w) = Some n" "bit (NOT w) n" by blast
    then have "\<not> bit w n" by (simp add: bit_not_iff)
    then show ?thesis using n Cons.prems False by (intro exI [of _ 0] exI [of _ n]) simp
  qed
qed (use assms(2) in simp)

lemma hint_clear:
  assumes "hint_loop 0 ws = Some h" "h \<noteq> 0" "length ws = 1024"
  shows "\<not> id_bit ws h"
proof -
  from hint_loop_clear [of 0 ws h] assms obtain j n where
    h: "j < 1024" "n < 64" "h = of_nat (j * 64 + n)" "\<not> bit (ws ! j) n" by auto
  have "unat h = j * 64 + n" using h(1-2) unfolding h(3) by (simp add: unsigned_of_nat take_bit_nat_eq_self del: of_nat_add of_nat_mult)
  then have "unat (h div 64) = j" "unat (h mod 64) = n" using h(2) by (simp_all add: unat_div unat_mod)
  then show ?thesis using h(4) by (simp add: id_bit_def)
qed

lemma vmid_count_le: "vmid_count v \<le> 0x10000" "0 < vmid_count v"
  by (simp_all add: vmid_count_def word_le_nat_alt)

interpretation vmid_pool: id_pool "vmid_reserve vmid16" id_bit id_set "\<lambda>ws. length ws = VMID_ARRAY_LONG_SIZE"
  "\<lambda>_ i. i < vmid_count vmid16" for vmid16
proof
  fix ws :: "u64 list" and i assume ws: "length ws = VMID_ARRAY_LONG_SIZE" and i: "i < vmid_count vmid16"
  have "i < 0x10000" using i vmid_count_le(1) by (rule less_le_trans)
  note b = id_word(1) [OF this] id_word(2) [of i]
  have "set_bit (unat (i mod 64)) (ws ! unat (i div 64)) = ws ! unat (i div 64)" if "id_bit ws i"
    using that by (simp add: id_bit_def set_bit_id)
  then show "vmid_reserve vmid16 ws i = Some (if id_bit ws i then (False, ws) else (True, id_set ws i))"
    using ws i b by (auto simp: vmid_reserve_def atomic_bits id_set_def not_le Let_def) (auto simp: id_bit_def)
qed

text \<open>The two loops of the allocator are a search through the identifiers from the hint, then below it.\<close>

lemma vmid_loop_search: "vmid_loop n v ws i = pool_search (vmid_reserve v) (map (\<lambda>k. i + of_nat k) [0..<n]) ws"
proof (induction n arbitrary: i ws)
  case (Suc n)
  have "map (\<lambda>k. i + of_nat k) [0..<Suc n] = i # map (\<lambda>k. (i + 1) + of_nat k) [0..<n]"
    by (simp add: map_upt_Suc add.assoc del: upt_Suc)
  then show ?case using Suc by (auto simp del: upt_Suc split: prod.splits intro!: arg_cong2 [where f = Option.bind])
qed simp

lemma pool_search_append:
  "pool_search r (xs @ ys) s = do { (found, s) \<leftarrow> pool_search r xs s;
     case found of Some i \<Rightarrow> Some (Some i, s) | None \<Rightarrow> pool_search r ys s }"
  by (induction xs arbitrary: s) (auto simp: Option.bind_assoc split: prod.splits intro!: arg_cong2 [where f = Option.bind])

lemma set_upto_word: "(\<lambda>k. i + of_nat k) ` {0..<n} = {j. i \<le> j \<and> j < i + of_nat n}"
  if "unat i + n < 2 ^ 32" for i :: u32
proof (intro equalityI subsetI)
  fix j assume "j \<in> (\<lambda>k. i + of_nat k) ` {0..<n}"
  then obtain k where "j = i + of_nat k" "k < n" by auto
  then show "j \<in> {j. i \<le> j \<and> j < i + of_nat n}"
    using that by (simp add: word_le_nat_alt word_less_nat_alt unat_word_ariths unsigned_of_nat take_bit_nat_eq_self)
next
  fix j assume j: "j \<in> {j. i \<le> j \<and> j < i + of_nat n}"
  then have "unat j - unat i < n" "unat i \<le> unat j"
    using that by (auto simp: word_le_nat_alt word_less_nat_alt unat_word_ariths unsigned_of_nat take_bit_nat_eq_self)
  moreover have "j = i + of_nat (unat j - unat i)" using calculation(2) by (simp add: of_nat_diff)
  ultimately show "j \<in> (\<lambda>k. i + of_nat k) ` {0..<n}" by (intro image_eqI [of _ _ "unat j - unat i"]) auto
qed

lemma vmid_alloc_search:
  assumes "length ws = VMID_ARRAY_LONG_SIZE"
  obtains "is" where "vmid_alloc v ws = pool_search (vmid_reserve v) is ws" "set is = {i. i < vmid_count v}"
proof -
  obtain h where h: "hint_loop 0 ws = Some h" using hint_loop_total by blast
  define st where "st = (if h \<ge> vmid_count v then 0 else h)"
  have st: "st < vmid_count v" using vmid_count_le(2) [of v] by (auto simp: st_def not_le)
  have c: "unat (vmid_count v) \<le> 65536" using vmid_count_le(1) [of v] by (simp add: word_le_nat_alt)
  have s: "unat st < unat (vmid_count v)" using st by (simp add: word_less_nat_alt)
  let ?n = "unat (vmid_count v - st)"
  let ?is = "map (\<lambda>k. st + of_nat k) [0..<?n] @ map (\<lambda>k. 0 + of_nat k) [0..<unat st]"
  have eq: "vmid_alloc v ws = pool_search (vmid_reserve v) ?is ws"
    unfolding vmid_alloc_def vmid_hint_def h Option.bind.simps Let_def st_def [symmetric] vmid_loop_search pool_search_append ..
  have n: "?n = unat (vmid_count v) - unat st" using s by (simp add: unat_sub word_le_nat_alt)
  have "set ?is = (\<lambda>k. st + of_nat k) ` {0..<?n} \<union> (\<lambda>k. 0 + of_nat k) ` {0..<unat st}" by simp
  also have "\<dots> = {j. st \<le> j \<and> j < st + of_nat ?n} \<union> {j. 0 \<le> j \<and> j < 0 + of_nat (unat st)}"
    using set_upto_word [of st ?n] set_upto_word [of 0 "unat st"] c s n by simp
  also have "\<dots> = {i. i < vmid_count v}" using st by (auto simp: not_le)
  finally show thesis using that eq by blast
qed

text \<open>
  C37. Allocating a VMID succeeds exactly if a supported VMID is free: it returns a free VMID below the
  supported count and marks exactly that one as used, and otherwise fails and changes nothing.
  Freeing it again restores the bitmap. It never reads outside the array.
\<close>

theorem vmid_alloc_exact:
  assumes "length vmids = VMID_ARRAY_LONG_SIZE"
  shows "(\<exists>i ws. vmid_alloc vmid16 vmids = Some (Some i, ws) \<and> i < vmid_count vmid16 \<and> \<not> id_bit vmids i \<and>
      length ws = VMID_ARRAY_LONG_SIZE \<and> (\<forall>j. id_bit ws j \<longleftrightarrow> j = i \<or> id_bit vmids j) \<and>
      vmid_free vmid16 ws i = Some vmids) \<or>
    vmid_alloc vmid16 vmids = Some (None, vmids) \<and> (\<forall>i < vmid_count vmid16. id_bit vmids i)"
proof -
  obtain "is" where s: "vmid_alloc vmid16 vmids = pool_search (vmid_reserve vmid16) is vmids" "set is = {i. i < vmid_count vmid16}"
    using vmid_alloc_search [OF assms] .
  have "vmid_free vmid16 (id_set vmids i) i = Some vmids" if i: "i < vmid_count vmid16" "\<not> id_bit vmids i" for i
  proof -
    have "i < 0x10000" using i(1) vmid_count_le(1) by (rule less_le_trans)
    note b = id_word(1) [OF this] id_word(2) [of i]
    have "unset_bit (unat (i mod 64)) (set_bit (unat (i mod 64)) (vmids ! unat (i div 64))) = vmids ! unat (i div 64)"
      using i(2) by (simp add: id_bit_def set_bit_id)
    then show ?thesis using i(1) b assms by (simp add: vmid_free_def id_set_def atomic_bits)
  qed
  moreover have "i < vmid_count vmid16 \<Longrightarrow> i < 0x10000" for i using vmid_count_le(1) [of vmid16] by (rule less_le_trans [rotated])
  ultimately show ?thesis
    using vmid_pool.search_exact [OF assms s(2)] id_bit_set [OF _ assms] unfolding s(1) by blast
qed

theorem vmid_alloc_exact_witness:
  "\<exists>i ws. vmid_alloc False (replicate 1024 0) = Some (Some i, ws) \<and> i < 256 \<and> vmid_free False ws i = Some (replicate 1024 0)"
proof -
  have "\<not> id_bit (replicate 1024 0) 0" by (simp add: id_bit_def)
  then show ?thesis using vmid_alloc_exact [of "replicate 1024 0" False] by (auto simp: vmid_count_def)
qed

text \<open>
  C38. Searching a bitmap word for the next set bit returns the least set bit at or above the start,
  or 64 if there is none. The search for the next clear bit does not do the same for clear bits: it
  clears the bits below the start before it inverts the word, so for every start above zero it
  returns bit zero.
\<close>

theorem bitmap_find_next:
  assumes "start < 64"
  shows "((\<exists>n. unat start \<le> n \<and> n < 64 \<and> bit bitmap n \<and> (\<forall>m. unat start \<le> m \<and> m < n \<longrightarrow> \<not> bit bitmap m) \<and>
      bitmap_find_next_set_bit bitmap start = of_nat n) \<or>
    bitmap_find_next_set_bit bitmap start = 64 \<and> (\<forall>m. unat start \<le> m \<longrightarrow> \<not> bit bitmap m)) \<and>
    (0 < start \<longrightarrow> bitmap_find_next_clear_bit bitmap start = Some 0)"
proof (intro conjI impI)
  let ?b = "bitmap AND push_bit (unat start) (-1)"
  have b: "bit ?b m \<longleftrightarrow> unat start \<le> m \<and> bit bitmap m" for m
    using bit_imp_le_length [of bitmap m] by (auto simp: bit_simps)
  show "(\<exists>n. unat start \<le> n \<and> n < 64 \<and> bit bitmap n \<and> (\<forall>m. unat start \<le> m \<and> m < n \<longrightarrow> \<not> bit bitmap m) \<and>
      bitmap_find_next_set_bit bitmap start = of_nat n) \<or>
    bitmap_find_next_set_bit bitmap start = 64 \<and> (\<forall>m. unat start \<le> m \<longrightarrow> \<not> bit bitmap m)"
  proof (cases "?b = 0")
    case True
    then have "\<forall>m. unat start \<le> m \<longrightarrow> \<not> bit bitmap m" using b by (metis bit_0_eq bot_apply bot_bool_def)
    then show ?thesis using True assms by (simp add: bitmap_find_next_set_bit_def)
  next
    case False
    from find_bit [OF this] obtain n where n: "n < 64" "find (bit ?b) [0..<64] = Some n" "bit ?b n" "\<forall>m < n. \<not> bit ?b m" by blast
    then have "bitmap_find_next_set_bit bitmap start = of_nat n"
      using assms False by (simp add: bitmap_find_next_set_bit_def ffsl_def)
    then show ?thesis using n b by blast
  qed
  show "bitmap_find_next_clear_bit bitmap start = Some 0" if "0 < start"
  proof -
    have "\<not> bit ?b 0" using that b [of 0] by (simp add: word_less_nat_alt)
    moreover have "bit (- 1 :: u64) 0" by simp
    ultimately have "?b \<noteq> - 1" by metis
    moreover have "bit (NOT ?b) 0" using \<open>\<not> bit ?b 0\<close> by (simp only: bit_not_iff) simp
    moreover have "ctzl (NOT ?b) = Some 0" using calculation(2) by (simp add: ctzl_def upt_conv_Cons)
    ultimately show ?thesis using assms by (simp add: bitmap_find_next_clear_bit_def)
  qed
qed

theorem bitmap_find_next_witness:
  "bitmap_find_next_clear_bit 0xFF 4 = Some 0 \<and> \<not> (\<forall>m. 4 \<le> m \<longrightarrow> \<not> bit (0xFF :: u64) m)"
proof -
  have "bit (0xFF :: u64) 4" by simp
  then show ?thesis using bitmap_find_next [of 4 "0xFF"] by auto
qed

end
