(* ===== verification/Mec.thy ===== *)
theory Mec
  imports Id_Bitmap
begin

text \<open>
  Memory encryption contexts (\<^verbatim>\<open>src/lib/mec/src/mec.c\<close>, \<^verbatim>\<open>src/lib/mec/include/mec.h\<close>): the pool of
  private MECIDs, the use count of the shared MECID, and the MECID registers of a CPU. The key
  refreshes requested from EL3 are recorded in order, each with the flag that says whether the MECID
  is being given up. Granules are scrubbed with the default method, so one MECID is reserved.
\<close>

subsection \<open>State\<close>

abbreviation (input) RESERVED_MECID_SYSTEM :: u32 where "RESERVED_MECID_SYSTEM \<equiv> 0"
abbreviation (input) RESERVED_IDS :: u32 where "RESERVED_IDS \<equiv> 1"
abbreviation (input) MECID_SHARED :: u32 where "MECID_SHARED \<equiv> 1"
abbreviation (input) MECID_PRIVATE_START :: u32 where "MECID_PRIVATE_START \<equiv> 2"
abbreviation (input) MECID_ARRAY_SIZE :: nat where "MECID_ARRAY_SIZE \<equiv> 1024"

definition MEC_MAX_COUNT :: u32 where "MEC_MAX_COUNT = push_bit 16 1"
definition MEC_RESERVE_INITALIZER :: u64 where "MEC_RESERVE_INITALIZER = push_bit (unat (RESERVED_IDS + 1)) 1 - 1"

record mec_state_s =
  mec_reserved :: "u64 list"
  common_mecid_width :: u32
  shared_mec_members :: u64
  mec_is_init :: bool
  mec_refreshes :: "(u32 \<times> bool) list"

text \<open>The key refreshes that are requested from EL3 by \<^verbatim>\<open>rmm_el3_ifc_mec_refresh\<close>, in order.\<close>

definition record_mec_refresh :: "mec_state_s \<Rightarrow> u32 \<Rightarrow> bool \<Rightarrow> mec_state_s" where
  "record_mec_refresh st mecid is_destroy = st\<lparr>mec_refreshes := mec_refreshes st @ [(mecid, is_destroy)]\<rparr>"

subsection \<open>Width and range\<close>

text \<open>The width registers are read from the hardware and, when it supports the refresh, from EL3.\<close>

definition mec_compute_common_mecid_width :: "bool \<Rightarrow> u64 \<Rightarrow> u64 option \<Rightarrow> u32" where
  "mec_compute_common_mecid_width feat_mec mecidr firme_fr1 = (
     if \<not> feat_mec then 0
     else let local_width = ucast (EXTRACT (0, 4) mecidr + 1)
       in case firme_fr1 of
            None \<Rightarrow> local_width
          | Some feat_reg1 \<Rightarrow> let el3_width = ucast (EXTRACT (0, 4) feat_reg1 + 1) in min local_width el3_width)"

definition mecid_max :: "bool \<Rightarrow> mec_state_s \<Rightarrow> u32 option" where
  "mecid_max feat_mec st = do {
     c_assert feat_mec;
     let mecid_count = push_bit (unat (common_mecid_width st)) 1;
     c_assert (mecid_count \<le> MEC_MAX_COUNT);
     Some (mecid_count - 1)
   }"

definition IS_PRIVATE_MECID_VALID :: "bool \<Rightarrow> mec_state_s \<Rightarrow> u32 \<Rightarrow> bool option" where
  "IS_PRIVATE_MECID_VALID feat_mec st i = (
     if i \<ge> MECID_PRIVATE_START then do { m \<leftarrow> mecid_max feat_mec st; Some (i \<le> m) } else Some False)"

definition mecid_private_count :: "bool \<Rightarrow> mec_state_s \<Rightarrow> u32 option" where
  "mecid_private_count feat_mec st = (
     if \<not> feat_mec then Some 0
     else do {
       max_mecid \<leftarrow> mecid_max feat_mec st;
       Some (if max_mecid < MECID_PRIVATE_START then 0 else max_mecid - MECID_PRIVATE_START + 1)
     })"

subsection \<open>Reserving and releasing\<close>

definition mec_reserve :: "bool \<Rightarrow> mec_state_s \<Rightarrow> u32 \<Rightarrow> (bool \<times> mec_state_s) option" where
  "mec_reserve feat_mec st mecid = do {
     valid \<leftarrow> IS_PRIVATE_MECID_VALID feat_mec st mecid;
     c_assert valid;
     let offset = unat (mecid div 64);
     w \<leftarrow> arr_get (mec_reserved st) offset;
     let (was_set, w) = atomic_bit_set_acquire_release_64 w (unat (mecid mod 64));
     ws \<leftarrow> arr_set (mec_reserved st) offset w;
     let st = st\<lparr>mec_reserved := ws\<rparr>;
     if \<not> was_set then Some (True, record_mec_refresh st mecid False) else Some (False, st)
   }"

definition mec_release :: "bool \<Rightarrow> mec_state_s \<Rightarrow> u32 \<Rightarrow> mec_state_s option" where
  "mec_release feat_mec st mecid = do {
     valid \<leftarrow> IS_PRIVATE_MECID_VALID feat_mec st mecid;
     c_assert valid;
     let offset = unat (mecid div 64);
     let st = record_mec_refresh st mecid True;
     w \<leftarrow> arr_get (mec_reserved st) offset;
     ws \<leftarrow> arr_set (mec_reserved st) offset (atomic_bit_clear_release_64 w (unat (mecid mod 64)));
     Some (st\<lparr>mec_reserved := ws\<rparr>)
   }"

text \<open>\<open>a1\<close> is the value of the register \<^verbatim>\<open>MECID_A1_EL2\<close> of the CPU.\<close>

definition mecid_reserve :: "bool \<Rightarrow> u64 \<Rightarrow> mec_state_s \<Rightarrow> u32 \<Rightarrow> (bool \<times> mec_state_s) option" where
  "mecid_reserve feat_mec a1 st mecid = (
     if \<not> feat_mec then Some (True, st)
     else if mecid = MECID_SHARED then
       if shared_mec_members st < UINT64_MAX then
         let st = (if shared_mec_members st = 0 then record_mec_refresh st MECID_SHARED False else st)
         in Some (True, st\<lparr>shared_mec_members := shared_mec_members st + 1\<rparr>)
       else Some (False, st)
     else do {
       valid \<leftarrow> IS_PRIVATE_MECID_VALID feat_mec st mecid;
       if \<not> valid then Some (False, st)
       else do { c_assert (a1 = ucast RESERVED_MECID_SYSTEM); mec_reserve feat_mec st mecid }
     })"

definition mecid_free :: "bool \<Rightarrow> mec_state_s \<Rightarrow> u32 \<Rightarrow> mec_state_s option" where
  "mecid_free feat_mec st mecid = (
     if \<not> feat_mec then Some st
     else if mecid = MECID_SHARED then do {
       c_assert (shared_mec_members st > 0);
       let st = st\<lparr>shared_mec_members := shared_mec_members st - 1\<rparr>;
       Some (if shared_mec_members st = 0 then record_mec_refresh st MECID_SHARED True else st)
     } else do {
       valid \<leftarrow> IS_PRIVATE_MECID_VALID feat_mec st mecid;
       c_assert valid;
       mec_release feat_mec st mecid
     })"

definition mecid_hint :: "bool \<Rightarrow> mec_state_s \<Rightarrow> u32 option" where
  "mecid_hint feat_mec st = do {
     c_assert feat_mec;
     hint_loop 0 (mec_reserved st)
   }"

primrec mecid_loop :: "nat \<Rightarrow> bool \<Rightarrow> u64 \<Rightarrow> mec_state_s \<Rightarrow> u32 \<Rightarrow> u32 \<Rightarrow> u32 \<Rightarrow> (u32 option \<times> mec_state_s) option" where
  "mecid_loop 0 feat_mec a1 st i start_hint private_mecid_count = Some (None, st)"
| "mecid_loop (Suc n) feat_mec a1 st i start_hint private_mecid_count = do {
     let hint = MECID_PRIVATE_START + (i + start_hint) mod private_mecid_count;
     (ok, st) \<leftarrow> mecid_reserve feat_mec a1 st hint;
     if ok then Some (Some hint, st) else mecid_loop n feat_mec a1 st (i + 1) start_hint private_mecid_count
   }"

definition mecid_alloc :: "bool \<Rightarrow> u64 \<Rightarrow> mec_state_s \<Rightarrow> bool \<Rightarrow> (u32 option \<times> mec_state_s) option" where
  "mecid_alloc feat_mec a1 st is_shared = (
     if \<not> feat_mec then Some (Some RESERVED_MECID_SYSTEM, st)
     else if is_shared then do {
       (ok, st) \<leftarrow> mecid_reserve feat_mec a1 st MECID_SHARED;
       Some (if ok then Some MECID_SHARED else None, st)
     } else do {
       max_mecid \<leftarrow> mecid_max feat_mec st;
       start_hint \<leftarrow> mecid_hint feat_mec st;
       let start_hint = (if start_hint = 0 \<or> start_hint > max_mecid then MECID_PRIVATE_START else start_hint);
       private_mecid_count \<leftarrow> mecid_private_count feat_mec st;
       let start_hint = start_hint - MECID_PRIVATE_START;
       mecid_loop (unat private_mecid_count) feat_mec a1 st 0 start_hint private_mecid_count
     })"

subsection \<open>Initialisation\<close>

definition mec_state_init_values :: "u32 \<Rightarrow> mec_state_s \<Rightarrow> mec_state_s" where
  "mec_state_init_values width st = st\<lparr>shared_mec_members := 0, common_mecid_width := width,
     mec_reserved := (replicate MECID_ARRAY_SIZE 0)[unat (RESERVED_MECID_SYSTEM div 64) := MEC_RESERVE_INITALIZER]\<rparr>"

text \<open>
  The record stands for the memory at the given address as the structure it holds, so that the checks
  of the address and of the size of that memory have no counterpart.
\<close>

definition mec_init_state :: "u32 \<Rightarrow> mec_state_s \<Rightarrow> mec_state_s" where
  "mec_init_state width st = (
     if mec_is_init st then st
     else (mec_state_init_values width (record_mec_refresh st MECID_SHARED False))\<lparr>mec_is_init := True\<rparr>)"

subsection \<open>MECID registers of a CPU\<close>

record mec_cpu =
  mecid_a1_el2 :: u64
  vmecid_p_el2 :: u64
  mecid_pcpcu_refcnt :: u64
  mecid_p0_el2 :: u64
  mecid_p1_el2 :: u64
  mecid_a0_el2 :: u64
  vmecid_a_el2 :: u64
  sctlr2_el2 :: u64

definition SCTLR2_ELx_EMEC_BIT :: u64 where "SCTLR2_ELx_EMEC_BIT = push_bit 1 1"

definition mec_init_mmu :: "bool \<Rightarrow> bool \<Rightarrow> bool \<Rightarrow> mec_cpu \<Rightarrow> mec_cpu option" where
  "mec_init_mmu mmu_enabled feat_sctlr2x feat_mec cpu = do {
     c_assert (\<not> mmu_enabled);
     if \<not> feat_sctlr2x \<or> \<not> feat_mec then Some cpu
     else
       let mecid = ucast RESERVED_MECID_SYSTEM
       in Some (cpu\<lparr>mecid_p0_el2 := mecid, mecid_p1_el2 := mecid, mecid_a0_el2 := mecid, mecid_a1_el2 := mecid,
            vmecid_p_el2 := mecid, vmecid_a_el2 := mecid, sctlr2_el2 := sctlr2_el2 cpu OR SCTLR2_ELx_EMEC_BIT\<rparr>)
   }"

definition mecid_s1_get :: "mec_cpu \<Rightarrow> u32 \<Rightarrow> mec_cpu option" where
  "mecid_s1_get cpu mecid = (
     let (old_val, cnt) = atomic_load_add_64 (mecid_pcpcu_refcnt cpu) 1; cpu = cpu\<lparr>mecid_pcpcu_refcnt := cnt\<rparr>
     in if old_val = 0 then do {
          c_assert (mecid_a1_el2 cpu = ucast RESERVED_MECID_SYSTEM);
          Some (cpu\<lparr>mecid_a1_el2 := ucast mecid\<rparr>)
        } else do {
          c_assert (mecid_a1_el2 cpu = ucast mecid);
          Some cpu
        })"

definition mecid_s1_put :: "mec_cpu \<Rightarrow> mec_cpu option" where
  "mecid_s1_put cpu = do {
     let (old_val, cnt) = atomic_load_add_64 (mecid_pcpcu_refcnt cpu) (-1);
     let cpu = cpu\<lparr>mecid_pcpcu_refcnt := cnt\<rparr>;
     c_assert (old_val \<noteq> 0);
     c_assert (mecid_a1_el2 cpu \<noteq> ucast RESERVED_MECID_SYSTEM);
     Some (if old_val = 1 then cpu\<lparr>mecid_a1_el2 := ucast RESERVED_MECID_SYSTEM\<rparr> else cpu)
   }"

definition mec_realm_mecid_s1_init :: "bool \<Rightarrow> mec_cpu \<Rightarrow> u32 \<Rightarrow> mec_cpu option" where
  "mec_realm_mecid_s1_init feat_mec cpu mecid = (if \<not> feat_mec then Some cpu else mecid_s1_get cpu mecid)"

definition mec_realm_mecid_s1_reset :: "bool \<Rightarrow> mec_cpu \<Rightarrow> mec_cpu option" where
  "mec_realm_mecid_s1_reset feat_mec cpu = (if \<not> feat_mec then Some cpu else mecid_s1_put cpu)"

definition mec_realm_mecid_s2_init :: "bool \<Rightarrow> mec_cpu \<Rightarrow> u32 \<Rightarrow> mec_cpu option" where
  "mec_realm_mecid_s2_init feat_mec cpu mecid = (
     if feat_mec then do {
       c_assert (ucast (vmecid_p_el2 cpu) = RESERVED_MECID_SYSTEM);
       Some (cpu\<lparr>vmecid_p_el2 := ucast mecid\<rparr>)
     } else Some cpu)"

definition mec_realm_mecid_s2_reset :: "bool \<Rightarrow> mec_cpu \<Rightarrow> mec_cpu option" where
  "mec_realm_mecid_s2_reset feat_mec cpu = (
     if feat_mec then do {
       c_assert (vmecid_p_el2 cpu \<noteq> ucast RESERVED_MECID_SYSTEM);
       Some (cpu\<lparr>vmecid_p_el2 := ucast RESERVED_MECID_SYSTEM\<rparr>)
     } else Some cpu)"

definition is_mec_reset_realm_mecid :: "bool \<Rightarrow> mec_cpu \<Rightarrow> bool" where
  "is_mec_reset_realm_mecid feat_mec cpu = (
     if \<not> feat_mec then True
     else mecid_a1_el2 cpu = ucast RESERVED_MECID_SYSTEM \<and> vmecid_p_el2 cpu = ucast RESERVED_MECID_SYSTEM)"

definition mec_is_realm_mecid_s1_init :: "bool \<Rightarrow> mec_cpu \<Rightarrow> bool" where
  "mec_is_realm_mecid_s1_init feat_mec cpu = (
     if feat_mec \<and> ucast (mecid_a1_el2 cpu) = RESERVED_MECID_SYSTEM then False else True)"

definition mec_is_realm_mecid_s2_pvt :: "bool \<Rightarrow> mec_cpu \<Rightarrow> bool option" where
  "mec_is_realm_mecid_s2_pvt feat_mec cpu = (
     if \<not> feat_mec then Some False
     else do {
       let mecid = ucast (vmecid_p_el2 cpu);
       c_assert (mecid \<noteq> RESERVED_MECID_SYSTEM);
       Some (mecid \<noteq> MECID_SHARED)
     })"

subsection \<open>Well-formed states\<close>

text \<open>The bitmap has its full size, the width is supported, and the system and shared MECIDs are set.\<close>

definition mec_wf :: "mec_state_s \<Rightarrow> bool" where
  "mec_wf st \<longleftrightarrow> length (mec_reserved st) = MECID_ARRAY_SIZE \<and> common_mecid_width st \<le> 16 \<and>
     id_bit (mec_reserved st) RESERVED_MECID_SYSTEM \<and> id_bit (mec_reserved st) MECID_SHARED"

definition max_id :: "mec_state_s \<Rightarrow> u32" where
  "max_id st = push_bit (unat (common_mecid_width st)) 1 - 1"

definition private_id :: "mec_state_s \<Rightarrow> u32 \<Rightarrow> bool" where
  "private_id st i \<longleftrightarrow> MECID_PRIVATE_START \<le> i \<and> i \<le> max_id st"

abbreviation taken_id :: "mec_state_s \<Rightarrow> u32 \<Rightarrow> bool" where
  "taken_id st \<equiv> id_bit (mec_reserved st)"

definition take_id :: "mec_state_s \<Rightarrow> u32 \<Rightarrow> mec_state_s" where
  "take_id st i = record_mec_refresh (st\<lparr>mec_reserved := id_set (mec_reserved st) i\<rparr>) i False"

lemma max_id_nat:
  assumes "mec_wf st"
  shows "unat (max_id st) = 2 ^ unat (common_mecid_width st) - 1" "max_id st < 0x10000" "mecid_max True st = Some (max_id st)"
proof -
  let ?w = "unat (common_mecid_width st)"
  have w: "?w \<le> 16" using assms by (simp add: mec_wf_def word_le_nat_alt)
  then have p: "(2 :: nat) ^ ?w \<le> 65536" using power_increasing [of ?w 16 "2 :: nat"] by simp
  have "unat (of_nat (2 ^ ?w) :: u32) = 2 ^ ?w" using w p by (simp add: unsigned_of_nat take_bit_nat_eq_self del: of_nat_power)
  then have u: "unat (2 ^ ?w :: u32) = 2 ^ ?w" by simp
  then show m: "unat (max_id st) = 2 ^ ?w - 1"
    using p by (simp add: max_id_def unat_sub word_le_nat_alt)
  show "max_id st < 0x10000" using m p by (simp add: word_less_nat_alt)
  show "mecid_max True st = Some (max_id st)"
    using u p by (simp add: mecid_max_def max_id_def MEC_MAX_COUNT_def word_le_nat_alt Let_def)
qed

lemma valid_id: "mec_wf st \<Longrightarrow> IS_PRIVATE_MECID_VALID True st i = Some (private_id st i)"
  by (simp add: IS_PRIVATE_MECID_VALID_def private_id_def max_id_nat)

lemma private_idD: "private_id st i \<Longrightarrow> mec_wf st \<Longrightarrow> i < 0x10000 \<and> i \<noteq> 0 \<and> i \<noteq> 1"
  using max_id_nat(2) [of st] by (auto simp: private_id_def word_le_nat_alt intro: le_less_trans)

interpretation mec_pool: id_pool "mecid_reserve True 0" taken_id take_id mec_wf private_id
proof
  fix st i assume wf: "mec_wf st" and i: "private_id st i"
  note b = private_idD [OF i wf]
  note w = id_word(1) [OF b [THEN conjunct1]] id_word(2) [of i]
  have st: "st\<lparr>mec_reserved := mec_reserved st\<rparr> = st" by simp
  show "mecid_reserve True 0 st i = Some (if taken_id st i then (False, st) else (True, take_id st i))"
    using wf i b w
    by (auto simp: mecid_reserve_def mec_reserve_def valid_id atomic_bits mec_wf_def Let_def take_id_def id_set_def id_bit_def set_bit_id)
qed

subsection \<open>Allocation\<close>

lemma mecid_loop_search:
  "mecid_loop n True a1 st i h c =
     pool_search (mecid_reserve True a1) (map (\<lambda>k. MECID_PRIVATE_START + (i + of_nat k + h) mod c) [0..<n]) st"
proof (induction n arbitrary: i st)
  case (Suc n)
  have eq: "map (\<lambda>k. MECID_PRIVATE_START + (i + of_nat k + h) mod c) [0..<Suc n] =
      (MECID_PRIVATE_START + (i + h) mod c) # map (\<lambda>k. MECID_PRIVATE_START + ((i + 1) + of_nat k + h) mod c) [0..<n]"
    by (simp add: map_upt_Suc add.assoc del: upt_Suc)
  show ?case unfolding mecid_loop.simps Let_def Suc eq pool_search.simps ..
qed simp

lemma rotate_range: "(\<lambda>k. (k + a) mod n) ` {0..<n} = {0..<n}" if "a < n" for a n :: nat
proof (intro equalityI subsetI)
  fix j assume "j \<in> {0..<n}"
  then show "j \<in> (\<lambda>k. (k + a) mod n) ` {0..<n}"
    using that by (intro image_eqI [of _ _ "if a \<le> j then j - a else j + n - a"]) auto
qed (use that in auto)

lemma mecid_alloc_private:
  assumes "mec_wf st"
  obtains "is" where "mecid_alloc True 0 st False = pool_search (mecid_reserve True 0) is st" "set is = {i. private_id st i}"
proof -
  let ?m = "max_id st"
  obtain h where h: "hint_loop 0 (mec_reserved st) = Some h" using hint_loop_total by blast
  define c where "c = (if ?m < MECID_PRIVATE_START then 0 else ?m - MECID_PRIVATE_START + 1)"
  define a where "a = (if h = 0 \<or> h > ?m then MECID_PRIVATE_START else h) - MECID_PRIVATE_START"
  let ?is = "map (\<lambda>k. MECID_PRIVATE_START + (0 + of_nat k + a) mod c) [0..<unat c]"
  have eq: "mecid_alloc True 0 st False = pool_search (mecid_reserve True 0) ?is st"
    by (simp add: mecid_alloc_def mecid_hint_def h max_id_nat [OF assms] mecid_private_count_def mecid_loop_search Let_def c_def a_def
        del: upt_Suc)
  have "set ?is = {i. private_id st i}"
  proof (cases "?m < MECID_PRIVATE_START")
    case True
    then show ?thesis by (auto simp: c_def private_id_def)
  next
    case False
    then have m: "2 \<le> unat ?m" "unat ?m < 65536" using max_id_nat(2) [OF assms] by (simp_all add: word_less_nat_alt)
    have c: "unat c = unat ?m - 1" using False m by (simp add: c_def unat_word_ariths unat_sub word_le_nat_alt)
    have "h \<noteq> 1" using hint_clear [OF h] assms by (auto simp: mec_wf_def)
    then have "h \<noteq> 0 \<Longrightarrow> 2 \<le> unat h" using word_unat_eq_iff [of h 0] word_unat_eq_iff [of h 1] by auto
    then have a: "unat a < unat c"
      using c m by (auto simp: a_def unat_sub word_le_nat_alt word_less_nat_alt not_less)
    have "unat (MECID_PRIVATE_START + (of_nat k + a) mod c) = 2 + (k + unat a) mod unat c" if "k < unat c" for k
    proof -
      have "(k + unat a) mod unat c < unat c" using that by (intro mod_less_divisor) simp
      then have "(k + unat a) mod unat c < 65536" using c m by linarith
      then show ?thesis using that a c m by (simp add: unat_word_ariths unat_mod unsigned_of_nat take_bit_nat_eq_self)
    qed
    then have "unat ` set ?is = (\<lambda>j. 2 + j) ` (\<lambda>k. (k + unat a) mod unat c) ` {0..<unat c}"
      by (auto simp: image_image intro!: image_cong)
    also have "\<dots> = {2..<2 + unat c}" unfolding rotate_range [OF a] by (rule trans [OF image_add_atLeastLessThan]) (simp add: numeral_2_eq_2)
    also have "\<dots> = unat ` {i. private_id st i}"
    proof (intro equalityI subsetI)
      fix x assume x: "x \<in> {2..<2 + unat c}"
      then have "unat (of_nat x :: u32) = x" using c m by (simp add: unsigned_of_nat take_bit_nat_eq_self)
      then show "x \<in> unat ` {i. private_id st i}"
        using x c m by (intro image_eqI [of _ _ "of_nat x"]) (auto simp: private_id_def word_le_nat_alt)
    qed (use c m in \<open>auto simp: private_id_def word_le_nat_alt\<close>)
    finally show ?thesis by (simp add: inj_image_eq_iff)
  qed
  then show thesis using that eq by blast
qed

lemma take_id_wf:
  assumes "mec_wf st" "private_id st i"
  shows "mec_wf (take_id st i)" "taken_id (take_id st i) j \<longleftrightarrow> j = i \<or> taken_id st j"
    "mec_refreshes (take_id st i) = mec_refreshes st @ [(i, False)]" "private_id (take_id st i) = private_id st"
  using assms id_bit_set [of i "mec_reserved st"] private_idD [OF assms(2,1)]
  by (auto simp: mec_wf_def take_id_def record_mec_refresh_def private_id_def max_id_def)

lemma mecid_free_private:
  assumes "mec_wf st" "private_id st i"
  shows "mecid_free True st i = Some (record_mec_refresh
     (st\<lparr>mec_reserved := (mec_reserved st)[unat (i div 64) := unset_bit (unat (i mod 64)) (mec_reserved st ! unat (i div 64))]\<rparr>) i True)"
  using assms id_word(1) [of i] private_idD [OF assms(2,1)]
  by (simp add: mecid_free_def mec_release_def valid_id atomic_bits mec_wf_def record_mec_refresh_def Let_def)

text \<open>
  C39. Allocating a private MECID succeeds exactly if one is free within the supported width: it
  returns a free private MECID, marks exactly that one and refreshes its key once; otherwise it
  fails and changes nothing. Freeing it refreshes the key once more and gives back the bitmap. No
  assertion fails and no access leaves the bitmap.
\<close>

theorem mecid_alloc_exact:
  assumes "mec_wf st"
  shows "(\<exists>i st'. mecid_alloc True 0 st False = Some (Some i, st') \<and> private_id st i \<and> \<not> taken_id st i \<and>
      mec_wf st' \<and> (\<forall>j. taken_id st' j \<longleftrightarrow> j = i \<or> taken_id st j) \<and> mec_refreshes st' = mec_refreshes st @ [(i, False)] \<and>
      mecid_free True st' i = Some (st\<lparr>mec_refreshes := mec_refreshes st @ [(i, False), (i, True)]\<rparr>)) \<or>
    mecid_alloc True 0 st False = Some (None, st) \<and> (\<forall>i. private_id st i \<longrightarrow> taken_id st i)"
proof -
  obtain "is" where s: "mecid_alloc True 0 st False = pool_search (mecid_reserve True 0) is st" "set is = {i. private_id st i}"
    using mecid_alloc_private [OF assms] .
  have "mecid_free True (take_id st i) i = Some (st\<lparr>mec_refreshes := mec_refreshes st @ [(i, False), (i, True)]\<rparr>)"
    if i: "private_id st i" "\<not> taken_id st i" for i
  proof -
    note w = id_word(1) [OF private_idD [OF i(1) assms, THEN conjunct1]]
    have "unset_bit (unat (i mod 64)) (set_bit (unat (i mod 64)) (mec_reserved st ! unat (i div 64))) = mec_reserved st ! unat (i div 64)"
      using i(2) by (simp add: id_bit_def set_bit_id)
    then show ?thesis
      using mecid_free_private [OF take_id_wf(1) [OF assms i(1)]] take_id_wf(4) [OF assms i(1)] i(1) w assms
      by (simp add: take_id_def id_set_def record_mec_refresh_def mec_wf_def)
  qed
  then show ?thesis
    using mec_pool.search_exact [OF assms s(2)] take_id_wf [OF assms] unfolding s(1) by blast
qed

lemma mec_init_wf:
  assumes "width \<le> 16" "\<not> mec_is_init st"
  shows "mec_wf (mec_init_state width st)"
proof -
  have "bit (3 :: u64) 0" "bit (3 :: u64) 1" by (simp_all add: bit_numeral_simps)
  then show ?thesis
    using assms by (simp add: mec_init_state_def mec_state_init_values_def mec_wf_def id_bit_def record_mec_refresh_def
        MEC_RESERVE_INITALIZER_def nth_list_update)
qed

theorem mecid_alloc_exact_witness:
  "\<exists>i st'. mecid_alloc True 0 (mec_init_state 8 \<lparr>mec_reserved = [], common_mecid_width = 0, shared_mec_members = 0,
     mec_is_init = False, mec_refreshes = []\<rparr>) False = Some (Some i, st') \<and> mec_refreshes st' = [(1, False), (i, False)]"
proof -
  let ?st = "mec_init_state 8 \<lparr>mec_reserved = [], common_mecid_width = 0, shared_mec_members = 0, mec_is_init = False, mec_refreshes = []\<rparr>"
  have wf: "mec_wf ?st" by (rule mec_init_wf) simp_all
  have e: "mec_refreshes ?st = [(1, False)]" "private_id ?st 2" "\<not> taken_id ?st 2"
    by (simp_all add: mec_init_state_def mec_state_init_values_def record_mec_refresh_def private_id_def max_id_def id_bit_def
        MEC_RESERVE_INITALIZER_def word_le_nat_alt bit_iff_odd nth_list_update)
  then show ?thesis using mecid_alloc_exact [OF wf] by auto
qed

subsection \<open>Well-formedness\<close>

lemma common_width_le: "mec_compute_common_mecid_width feat mecidr fr1 \<le> 16"
proof -
  have "unat (ucast (EXTRACT (0, 4) v + 1) :: u32) \<le> 16" for v
  proof -
    have "unat (take_bit 4 v) < 16" using take_bit_nat_less_exp [of 4 "unat v"] by (simp add: unsigned_take_bit_eq)
    then show ?thesis by (simp add: EXTRACT_take_bit unat_word_ariths unsigned_ucast_eq take_bit_nat_eq_self)
  qed
  then show ?thesis by (auto simp: mec_compute_common_mecid_width_def Let_def word_le_nat_alt min_def split: option.splits)
qed

lemma mecid_free_wf:
  assumes "mec_wf st" "mecid_free feat st i = Some st'"
  shows "mec_wf st'"
proof (cases "feat \<and> i \<noteq> MECID_SHARED")
  case False
  then show ?thesis
    using assms by (auto simp: mecid_free_def mec_wf_def record_mec_refresh_def Let_def split: if_splits)
next
  case True
  then have p: "private_id st i" using assms by (auto simp: mecid_free_def valid_id split: if_splits)
  note b = private_idD [OF p assms(1)]
  have "id_bit ((mec_reserved st)[unat (i div 64) := unset_bit (unat (i mod 64)) (mec_reserved st ! unat (i div 64))]) j \<longleftrightarrow>
      id_bit (mec_reserved st) j" if "j \<noteq> i" "length (mec_reserved st) = 1024" for j
    using that id_eq [of j i] id_word(1) [of i] b by (auto simp: id_bit_def nth_list_update bit_unset_bit_iff)
  then show ?thesis
    using mecid_free_private [OF assms(1) p] assms True b by (auto simp: mec_wf_def record_mec_refresh_def)
qed

lemma mecid_alloc_wf:
  assumes "mec_wf st"
  shows "\<exists>r st'. mecid_alloc feat 0 st is_shared = Some (r, st') \<and> mec_wf st'"
proof (cases "feat \<and> \<not> is_shared")
  case False
  then show ?thesis
    using assms by (auto simp: mecid_alloc_def mecid_reserve_def mec_wf_def record_mec_refresh_def Let_def)
next
  case True
  obtain "is" where s: "mecid_alloc True 0 st False = pool_search (mecid_reserve True 0) is st" "set is = {i. private_id st i}"
    using mecid_alloc_private [OF assms] .
  show ?thesis using mec_pool.search_exact [OF assms s(2)] take_id_wf(1) [OF assms] assms True unfolding s(1) [symmetric] by fastforce
qed

text \<open>
  C40. The MEC state is well formed from its first initialisation on: its bitmap has its full size, its
  width is a supported one, and the system and shared MECIDs are never in the pool. Allocation never
  fails an assertion, and every allocation and release keeps the state well formed.
\<close>

theorem mec_state_well_formed:
  "(\<not> mec_is_init st \<longrightarrow> mec_wf (mec_init_state (mec_compute_common_mecid_width feat mecidr fr1) st)) \<and>
   (mec_wf st \<longrightarrow> mec_init_state w st = st \<or> \<not> mec_is_init st) \<and>
   (mec_wf st \<longrightarrow> (\<exists>r st'. mecid_alloc feat 0 st is_shared = Some (r, st') \<and> mec_wf st')) \<and>
   (\<forall>st'. mec_wf st \<and> mecid_free feat st i = Some st' \<longrightarrow> mec_wf st')"
  using mec_init_wf [OF common_width_le] mecid_alloc_wf mecid_free_wf by (auto simp: mec_init_state_def)

theorem mec_state_well_formed_witness:
  "mec_wf (mec_init_state (mec_compute_common_mecid_width True 7 None) \<lparr>mec_reserved = [], common_mecid_width = 0,
     shared_mec_members = 0, mec_is_init = False, mec_refreshes = []\<rparr>)"
  using mec_state_well_formed [of "\<lparr>mec_reserved = [], common_mecid_width = 0, shared_mec_members = 0,
    mec_is_init = False, mec_refreshes = []\<rparr>" True 7 None] by simp

subsection \<open>Nested use of a MECID\<close>

text \<open>
  The register holds the MECID exactly while uses are outstanding: a use on top of \<open>n\<close> others of the
  same MECID and its end are inverse to each other.
\<close>

definition s1_depth :: "u32 \<Rightarrow> nat \<Rightarrow> mec_cpu \<Rightarrow> bool" where
  "s1_depth mecid n cpu \<longleftrightarrow> mecid_pcpcu_refcnt cpu = of_nat n \<and> mecid_a1_el2 cpu = (if n = 0 then 0 else ucast mecid)"

lemma mecid_s1_nesting:
  assumes "s1_depth mecid n cpu" "n + 1 < 2 ^ 64" "mecid \<noteq> 0"
  shows "\<exists>cpu'. mec_realm_mecid_s1_init True cpu mecid = Some cpu' \<and> s1_depth mecid (n + 1) cpu' \<and>
    mec_realm_mecid_s1_reset True cpu' = Some cpu"
proof -
  have u: "unat (of_nat k :: u64) = k" if "k < 2 ^ 64" for k using that by (simp add: unsigned_of_nat take_bit_nat_eq_self)
  have e: "(of_nat n + 1 :: u64) = of_nat (n + 1)" by simp
  have n: "(of_nat n :: u64) = 0 \<longleftrightarrow> n = 0" "(of_nat n + 1 :: u64) \<noteq> 0" "of_nat n + 1 = (1 :: u64) \<longleftrightarrow> n = 0"
    unfolding e word_unat_eq_iff using u [of n] u [of "n + 1"] assms(2) by (simp_all del: of_nat_add of_nat_Suc)
  have "unat mecid < 2 ^ 32" using unsigned_less [of mecid] by simp
  then have "unat (ucast mecid :: u64) = unat mecid" by (simp add: unsigned_ucast_eq take_bit_nat_eq_self)
  then have m: "(ucast mecid :: u64) \<noteq> 0" using assms(3) word_unat_eq_iff [of mecid 0] by auto
  show ?thesis
    using assms(1) n m
    by (cases cpu) (auto simp: s1_depth_def mec_realm_mecid_s1_init_def mec_realm_mecid_s1_reset_def mecid_s1_get_def mecid_s1_put_def
        atomic_load_add_64_def)
qed

end
