(* ===== verification/Spec2Isabelle.thy ===== *)
theory Spec2Isabelle
  imports Rmi_Status S2tt_Props S2tte_Ctors S2tt_Tlbi Dev_Granule Granule_Lock Addr_List_Props Sarray_Props Tr_Granule_Run S2tt_Walk Rwlock Realm_State Mec
begin

text \<open>
  A model of the Realm Management Monitor (RMM), the firmware that runs Realms on behalf of an
  untrusted host, and the theorems that make the modelled parts correct. The host delegates
  memory to the RMM in granules of 4KB, the RMM tracks the use of every granule, builds the stage 2
  translation tables of a Realm out of delegated granules, and runs the RECs (virtual CPUs) of a
  Realm. The sources are under \<^verbatim>\<open>src/\<close>.

  \<^bold>\<open>Conventions.\<close> A C integer is a word of its width, so arithmetic wraps as it does in C. A failed
  \<^verbatim>\<open>assert\<close>, \<^verbatim>\<open>panic\<close> or access out of the bounds of an array is \<^verbatim>\<open>None\<close>; functions that can fail
  are in the option monad, and the theorems show that \<^verbatim>\<open>None\<close> does not occur under the stated
  conditions. A loop is a primitive recursion over the number of iterations that the C condition
  leaves, so no fuel is a guess; loops that wait on shared memory are either a
  \<^verbatim>\<open>partial_function\<close> over the sequence of values that the accesses return, or steps of a relation.
  Compile-time constants are abbreviations. Configuration that comes from the hardware, from the
  boot manifest or from a build option is an argument. Mapped memory is accessed
  directly: the slot buffers are identity.

  \<^bold>\<open>Prelude.\<close> \<^verbatim>\<open>Rmm_Prelude\<close>: C integers, assertions, arrays, the register-field and alignment
  macros of \<^verbatim>\<open>src/lib/common/include/utils_def.h\<close>, and the rule collections of the development.

  \<^bold>\<open>RMI results.\<close> \<^verbatim>\<open>Rmi_Status\<close>: the packing of a status, an index and flags in a result word
  (\<^verbatim>\<open>src/lib/common/include/status.h\<close>), inverted exactly.

  \<^bold>\<open>Stage 2 entries.\<close> \<^verbatim>\<open>S2tt_Defs\<close> holds the context of a Realm and the layout of an entry
  (\<^verbatim>\<open>src/lib/s2tt/include\<close>, \<^verbatim>\<open>s2tt_pvt_defs.h\<close>); \<^verbatim>\<open>S2ap\<close> the access permissions, direct and indirect;
  \<^verbatim>\<open>S2tte\<close> every constructor, classifier and accessor of an entry (\<^verbatim>\<open>s2tt.c\<close>); \<^verbatim>\<open>S2tte_Create\<close> the
  entries made of an address, permissions and a template; \<^verbatim>\<open>S2tte_Marks\<close> table entries and the marks
  of deferred maintenance; \<^verbatim>\<open>S2tte_Ctors\<close> all constructors together: each builds an entry that is
  recognised as its kind only and gives back its address, RIPAS and permissions, with and without
  LPA2.

  \<^bold>\<open>Stage 2 tables.\<close> \<^verbatim>\<open>S2tt\<close> holds the functions on whole tables; \<^verbatim>\<open>S2tt_Fold\<close> the contract
  between the constructor and the classifier of an assigned kind, as a locale, and the
  proof that unfolding a block and folding a table are inverse; \<^verbatim>\<open>S2tt_Kinds\<close> interprets the contract
  for every kind of the code; \<^verbatim>\<open>S2tt_Props\<close> has population, recognition, the
  live-entry scan and the top of the address range that a command reports; \<^verbatim>\<open>S2tt_Tlbi\<close>
  the TLB invalidation by range, which covers exactly the range it is asked for; \<^verbatim>\<open>S2tt_Walk\<close> the
  hand-over-hand walk, which reaches the table that the entries describe with only that table
  locked.

  \<^bold>\<open>Locks.\<close> \<^verbatim>\<open>Bitlock\<close>: the atomic accesses of \<^verbatim>\<open>atomics.h\<close> and the bit locks of
  \<^verbatim>\<open>bitlock.h\<close>, whose contract is a locale interpreted at the three widths. \<^verbatim>\<open>Rwlock\<close>: the
  reader-writer lock of \<^verbatim>\<open>rwlock.h\<close>, as a step relation over any number of PEs with one step per
  access to the word; exclusion, an exact account of the word, and progress.

  \<^bold>\<open>Granules.\<close> \<^verbatim>\<open>Granule\<close> and \<^verbatim>\<open>Dev_Granule\<close> hold the 16-bit and 8-bit descriptors
  (\<^verbatim>\<open>granule.h\<close>, \<^verbatim>\<open>granule.c\<close>, \<^verbatim>\<open>dev_granule.h\<close>), which share the locale \<^verbatim>\<open>descriptor_layout\<close>.
  \<^verbatim>\<open>Granule_Lock\<close> interleaves the locking operations of many PEs on one descriptor: mutual exclusion,
  and that state and count change only under the lock or atomically.

  \<^bold>\<open>Tracking regions.\<close> \<^verbatim>\<open>Tracking_Region\<close> holds the banks, their sorting and the computation of
  the layout (\<^verbatim>\<open>tracking_region.c\<close>); \<^verbatim>\<open>Tracking_Index\<close> the abstract numbering of regions;
  \<^verbatim>\<open>Tracking_Layout\<close> and \<^verbatim>\<open>Tracking_Init\<close> that the code computes it and that every
  configuration fits the arrays reserved at first; \<^verbatim>\<open>Tracking_Props\<close> that addresses and indices translate back and forth.
  \<^verbatim>\<open>Tr_Granule\<close> holds the lookup, locking and publication of granules through the regions
  (\<^verbatim>\<open>tr_granule.c\<close>); \<^verbatim>\<open>Tr_Granule_Props\<close> that a set of granules is locked completely or not at all, in the global order
  of the locks, which the recorded acquisitions and releases show;
  \<^verbatim>\<open>Tr_Granule_Run\<close> that the longest matching run is locked and progress is published exactly;
  \<^verbatim>\<open>Tr_Sample\<close> a small platform for the witnesses.

  \<^bold>\<open>Address lists.\<close> \<^verbatim>\<open>Addr_List\<close> and \<^verbatim>\<open>Addr_List_Props\<close>: the range descriptors that commands
  exchange with the host (\<^verbatim>\<open>src/lib/addr_list\<close>), in terms of the blocks of memory they stand for, and
  the checks before Non-secure memory is accessed (\<^verbatim>\<open>src/lib/slot_buf/src/buffer.c\<close>).

  \<^bold>\<open>Sorted arrays.\<close> \<^verbatim>\<open>Sarray\<close> and \<^verbatim>\<open>Sarray_Props\<close>: the table of \<^verbatim>\<open>src/lib/sarray\<close>, on a byte buffer,
  as a refinement of a finite map, with every error code.

  \<^bold>\<open>Realms.\<close> \<^verbatim>\<open>Realm_State\<close>: the packed life-cycle state and running count of a Realm
  (\<^verbatim>\<open>src/runtime/include/realm.h\<close>) under the commands that change them, one step per access: the
  count is the number of running RECs and the state only moves forward.

  \<^bold>\<open>Identifiers.\<close> \<^verbatim>\<open>Id_Bitmap\<close>: bitmaps (\<^verbatim>\<open>bitmap.h\<close>) and VMIDs (\<^verbatim>\<open>vmid.c\<close>); \<^verbatim>\<open>Mec\<close>: memory encryption
  contexts (\<^verbatim>\<open>src/lib/mec\<close>). Both allocators satisfy the locale \<^verbatim>\<open>id_pool\<close>.

  \<^bold>\<open>Bounds.\<close> Tables have 512 entries and concatenated roots up to 16 tables, as in the code. The
  number of PEs is any number where a counter allows it; the width of the counter then bounds it and
  the bound is a hypothesis of the theorem (10 bits of references, 62 bits of readers).

  \<^bold>\<open>Memory order.\<close> The step relations interleave the accesses of the PEs; the accesses to a lock word
  have acquire and release semantics in the code, and weaker orders of other accesses are not modelled.

  \<^bold>\<open>Not modelled.\<close> The command handlers of \<^verbatim>\<open>src/runtime\<close> compose the modelled parts with the
  saved registers of a REC, parameter structures in Non-secure memory and continuations across
  several calls; only the Realm state is followed through them. World switches, exceptions, timers,
  interrupts and SIMD (\<^verbatim>\<open>src/runtime/core\<close>, \<^verbatim>\<open>src/lib/gic\<close>, \<^verbatim>\<open>src/lib/simd\<close>) act on hardware state. The
  SMMU (\<^verbatim>\<open>src/lib/smmuv3\<close>) is a memory-mapped device. The translation tables of the RMM itself
  (\<^verbatim>\<open>src/lib/xlat\<close>) are behind the direct access to mapped memory; the reservation of virtual memory
  for the tracking arrays and the test whether a page is mapped are parameters for this reason. The calls to EL3
  (\<^verbatim>\<open>src/lib/rmm_el3_ifc\<close>), the applications at EL0 (\<^verbatim>\<open>src/app\<close>) and device assignment rest on firmware
  and libraries that are not part of the sources. Boot, platforms, drivers, the C library and
  logging are outside of the scope.
\<close>

end
